(* ===== verification/Prelude.thy ===== *)
theory Prelude
  imports Main "HOL-Library.AList" "HOL-Library.Char_ord" "HOL-Library.List_Lexorder"
    "HOL-Library.Product_Lexorder" "HOL-Library.Multiset" "HOL-Library.Code_Target_Numeral"
begin

text \<open>
  Shared vocabulary of the development. Go code returns a value or an error; the models
  return \<open>'e + 'a\<close>, the error on the left. A Go \<open>map\<close> is an association list: the
  order of the list stands for the order in which one run of \<open>range\<close> happens to visit
  the map, so a theorem about every list is a theorem about every visiting order.
  The file also holds the stable sort behind \<open>sort.SliceStable\<close>, with the laws of a
  comparator as a locale.
\<close>

named_theorems go_defs \<open>definitions a component proof may unfold\<close>

section \<open>Results and loops that may stop with an error\<close>

type_synonym ('e, 'a) result = "'e + 'a"

definition is_ok :: "('e, 'a) result \<Rightarrow> bool" where
  "is_ok r = (case r of Inl _ \<Rightarrow> False | Inr _ \<Rightarrow> True)"

lemma is_ok_simps [simp]: "is_ok (Inr x)" "\<not> is_ok (Inl e)"
  by (simp_all add: is_ok_def)

definition and_then :: "('e, 'a) result \<Rightarrow> ('a \<Rightarrow> ('e, 'b) result) \<Rightarrow> ('e, 'b) result" where
  "and_then r k = (case r of Inl e \<Rightarrow> Inl e | Inr x \<Rightarrow> k x)"

lemma and_then_simps [simp]:
  "and_then (Inl e) k = Inl e" "and_then (Inr x) k = k x"
  by (simp_all add: and_then_def)

lemma and_then_Inr [simp]: "and_then r k = Inr y \<longleftrightarrow> (\<exists>x. r = Inr x \<and> k x = Inr y)"
  by (cases r) auto

lemma and_then_Inl: "and_then r k = Inl e \<longleftrightarrow> r = Inl e \<or> (\<exists>x. r = Inr x \<and> k x = Inl e)"
  by (cases r) auto

lemma and_then_cong [fundef_cong]:
  "r = r' \<Longrightarrow> (\<And>x. r' = Inr x \<Longrightarrow> k x = k' x) \<Longrightarrow> and_then r k = and_then r' k'"
  by (cases r') auto

definition fail_if :: "bool \<Rightarrow> 'e \<Rightarrow> ('e, unit) result" where
  "fail_if c e = (if c then Inl e else Inr ())"

lemma fail_if_simps [simp]:
  "fail_if c e = Inr u \<longleftrightarrow> \<not> c" "fail_if c e = Inl d \<longleftrightarrow> c \<and> d = e"
  "fail_if True e = Inl e" "fail_if False e = Inr ()"
  by (auto simp: fail_if_def)

text \<open>A \<open>for range\<close> loop whose body may return an error.\<close>

primrec fold_err :: "('s \<Rightarrow> 'a \<Rightarrow> ('e, 's) result) \<Rightarrow> 's \<Rightarrow> 'a list \<Rightarrow> ('e, 's) result" where
  "fold_err f s [] = Inr s"
| "fold_err f s (x # xs) = and_then (f s x) (\<lambda>s'. fold_err f s' xs)"

lemma fold_err_append:
  "fold_err f s (xs @ ys) = and_then (fold_err f s xs) (\<lambda>s'. fold_err f s' ys)"
  by (induction xs arbitrary: s) (auto simp: and_then_def split: sum.splits)

lemma fold_err_invariant:
  assumes "fold_err f s xs = Inr t" and "P s"
    and "\<And>u x v. x \<in> set xs \<Longrightarrow> P u \<Longrightarrow> f u x = Inr v \<Longrightarrow> P v"
  shows "P t"
  using assms by (induction xs arbitrary: s) auto

lemma fold_err_each: "fold_err f s xs = Inr t \<Longrightarrow> x \<in> set xs \<Longrightarrow> \<exists>u v. f u x = Inr v"
  by (induction xs arbitrary: s) auto

lemma fold_err_cong [fundef_cong]:
  "xs = ys \<Longrightarrow> s = t \<Longrightarrow> (\<And>u x. x \<in> set ys \<Longrightarrow> f u x = g u x) \<Longrightarrow>
   fold_err f s xs = fold_err g t ys"
proof (induction ys arbitrary: xs s t)
  case (Cons y ys)
  then have "fold_err f u ys = fold_err g u ys" for u by auto
  with Cons.prems show ?case by simp
qed simp

text \<open>A loop that only checks: it returns the first error, or the unit value.\<close>

definition check_all :: "('a \<Rightarrow> ('e, unit) result) \<Rightarrow> 'a list \<Rightarrow> ('e, unit) result" where
  "check_all f xs = fold_err (\<lambda>_ x. f x) () xs"

lemma check_all_simps [simp]:
  "check_all f [] = Inr ()"
  "check_all f (x # xs) = and_then (f x) (\<lambda>_. check_all f xs)"
  by (simp_all add: check_all_def)

lemma check_all_cong [fundef_cong]:
  "xs = ys \<Longrightarrow> (\<And>x. x \<in> set ys \<Longrightarrow> f x = g x) \<Longrightarrow> check_all f xs = check_all g ys"
  by (auto simp: check_all_def intro: fold_err_cong)

lemma check_all_ok: "check_all f xs = Inr u \<longleftrightarrow> (\<forall>x\<in>set xs. f x = Inr ())"
  by (induction xs) auto

text \<open>Mapping a fallible function over a list, stopping at the first error.\<close>

primrec map_err :: "('a \<Rightarrow> ('e, 'b) result) \<Rightarrow> 'a list \<Rightarrow> ('e, 'b list) result" where
  "map_err f [] = Inr []"
| "map_err f (x # xs) = and_then (f x) (\<lambda>y. and_then (map_err f xs) (\<lambda>ys. Inr (y # ys)))"

lemma map_err_length: "map_err f xs = Inr ys \<Longrightarrow> length ys = length xs"
  by (induction xs arbitrary: ys) auto

lemma map_err_nth: "map_err f xs = Inr ys \<Longrightarrow> i < length xs \<Longrightarrow> f (xs ! i) = Inr (ys ! i)"
proof (induction xs arbitrary: ys i)
  case (Cons x xs)
  then show ?case by (cases i) auto
qed simp

lemma map_err_all2: "map_err f xs = Inr ys \<longleftrightarrow> list_all2 (\<lambda>x y. f x = Inr y) xs ys"
  by (induction xs arbitrary: ys) (auto simp: list_all2_Cons1)

section \<open>Options and maps\<close>

definition dflt :: "'a \<Rightarrow> 'a option \<Rightarrow> 'a" where
  "dflt d m = (case m of None \<Rightarrow> d | Some x \<Rightarrow> x)"

lemma dflt_simps [simp]: "dflt d None = d" "dflt d (Some x) = x"
  by (simp_all add: dflt_def)

definition first_of :: "'a list \<Rightarrow> 'a option" where
  "first_of xs = (case xs of [] \<Rightarrow> None | x # _ \<Rightarrow> Some x)"

lemma first_of_simps [simp]: "first_of [] = None" "first_of (x # xs) = Some x"
  by (simp_all add: first_of_def)

lemma first_of_append: "first_of (xs @ ys) = (case first_of xs of None \<Rightarrow> first_of ys | Some x \<Rightarrow> Some x)"
  by (cases xs) auto

lemma first_of_map [simp]: "first_of (map f xs) = map_option f (first_of xs)"
  by (cases xs) auto

lemma first_of_filter: "first_of (filter P xs) = List.find P xs"
  by (induction xs) auto

lemma first_of_None [simp]: "first_of xs = None \<longleftrightarrow> xs = []"
  by (cases xs) auto

text \<open>Go's \<open>m[k]++\<close> on a map whose missing entries read as zero.\<close>

definition bump :: "'k \<Rightarrow> ('k \<Rightarrow> nat) \<Rightarrow> ('k \<Rightarrow> nat)" where
  "bump k m = m(k := Suc (m k))"

lemma bump_simps [simp]: "bump k m k = Suc (m k)" "j \<noteq> k \<Longrightarrow> bump k m j = m j"
  by (simp_all add: bump_def)

text \<open>A loop that keeps the elements seen so far and fails on a repeated one accepts a list
  exactly when it has no repetition.\<close>

fun dup_free :: "'a set \<Rightarrow> 'a list \<Rightarrow> bool" where
  "dup_free seen [] = True"
| "dup_free seen (x # xs) = (x \<notin> seen \<and> dup_free (insert x seen) xs)"

lemma dup_free_iff: "dup_free seen xs \<longleftrightarrow> distinct xs \<and> set xs \<inter> seen = {}"
  by (induction xs arbitrary: seen) auto

section \<open>Stable sorting\<close>

text \<open>
  The specification of \<open>sort.SliceStable\<close>: the result is a permutation in which no element
  stands before a smaller one and equivalent elements keep their order. \<open>stable_sort\<close> is
  the executable function with that behaviour; which algorithm the library runs does not matter,
  because the three facts determine the result.
\<close>

fun ins_stable :: "('a \<Rightarrow> 'a \<Rightarrow> bool) \<Rightarrow> 'a \<Rightarrow> 'a list \<Rightarrow> 'a list" where
  "ins_stable lt x [] = [x]"
| "ins_stable lt x (y # ys) = (if lt y x then y # ins_stable lt x ys else x # y # ys)"

fun stable_sort :: "('a \<Rightarrow> 'a \<Rightarrow> bool) \<Rightarrow> 'a list \<Rightarrow> 'a list" where
  "stable_sort lt [] = []"
| "stable_sort lt (x # xs) = ins_stable lt x (stable_sort lt xs)"

lemma mset_ins_stable [simp]: "mset (ins_stable lt x xs) = add_mset x (mset xs)"
  by (induction xs) auto

lemma mset_stable_sort [simp]: "mset (stable_sort lt xs) = mset xs"
  by (induction xs) auto

lemma set_stable_sort [simp]: "set (stable_sort lt xs) = set xs"
  by (metis mset_stable_sort set_mset_mset)

lemma length_stable_sort [simp]: "length (stable_sort lt xs) = length xs"
  by (metis mset_stable_sort size_mset)

lemma find_mem: "List.find P xs = Some x \<Longrightarrow> x \<in> set xs \<and> P x"
  by (induction xs) (auto split: if_splits)

text \<open>The first element of a sorted list that passes a test is one of the smallest that pass it.\<close>

lemma find_sorted:
  "List.find P xs = Some x \<Longrightarrow> sorted_wrt R xs \<Longrightarrow>
     x \<in> set xs \<and> P x \<and> (\<forall>y\<in>set xs. P y \<longrightarrow> y = x \<or> R x y)"
  by (induction xs) (auto split: if_splits)

locale less_order =
  fixes lt :: "'a \<Rightarrow> 'a \<Rightarrow> bool"
  assumes less_irrefl: "\<not> lt x x"
    and less_trans: "lt x y \<Longrightarrow> lt y z \<Longrightarrow> lt x z"
    and less_negtrans: "\<not> lt x y \<Longrightarrow> \<not> lt y z \<Longrightarrow> \<not> lt x z"
begin

lemma asym: "lt x y \<Longrightarrow> \<not> lt y x"
  using less_irrefl less_trans by blast

lemma ins_sorted:
  "sorted_wrt (\<lambda>a b. \<not> lt b a) xs \<Longrightarrow> sorted_wrt (\<lambda>a b. \<not> lt b a) (ins_stable lt x xs)"
proof (induction xs)
  case (Cons y ys)
  have sub: "set (ins_stable lt x ys) = insert x (set ys)"
    by (metis mset_ins_stable set_mset_mset set_mset_add_mset_insert)
  from Cons show ?case
    using less_negtrans by (auto simp: sub dest: asym)
qed simp

lemma sort_sorted: "sorted_wrt (\<lambda>a b. \<not> lt b a) (stable_sort lt xs)"
  by (induction xs) (auto intro: ins_sorted)

lemma ins_filter:
  "filter (\<lambda>y. \<not> lt k y \<and> \<not> lt y k) (ins_stable lt x xs) =
   filter (\<lambda>y. \<not> lt k y \<and> \<not> lt y k) (x # xs)"
proof (induction xs)
  case (Cons y ys)
  show ?case
  proof (cases "lt y x")
    case True
    then have "\<not> (\<not> lt k x \<and> \<not> lt x k \<and> \<not> lt k y \<and> \<not> lt y k)"
      using less_negtrans by blast
    with True Cons show ?thesis by auto
  qed simp
qed simp

lemma sort_stable:
  "filter (\<lambda>y. \<not> lt k y \<and> \<not> lt y k) (stable_sort lt xs) =
   filter (\<lambda>y. \<not> lt k y \<and> \<not> lt y k) xs"
  by (induction xs) (use ins_filter in auto)

lemma sort_idle: "sorted_wrt (\<lambda>a b. \<not> lt b a) xs \<Longrightarrow> stable_sort lt xs = xs"
proof (induction xs)
  case (Cons x xs)
  then show ?case by (cases xs) auto
qed simp

lemma sort_idem: "stable_sort lt (stable_sort lt xs) = stable_sort lt xs"
  by (rule sort_idle) (rule sort_sorted)

end

text \<open>A comparator that compares a key of a linear order satisfies the laws.\<close>

locale keyed_order =
  fixes sort_key_of :: "'a \<Rightarrow> 'k::linorder" and lt :: "'a \<Rightarrow> 'a \<Rightarrow> bool"
  assumes less_key: "lt x y \<longleftrightarrow> sort_key_of x < sort_key_of y"
begin

sublocale less_order lt
  by unfold_locales (auto simp: less_key)

lemma sort_keys_sorted: "sorted (map sort_key_of (stable_sort lt xs))"
proof -
  have "sorted_wrt (\<lambda>a b. sort_key_of a \<le> sort_key_of b) (stable_sort lt xs)"
    by (rule sorted_wrt_mono_rel [OF _ sort_sorted]) (auto simp: less_key not_less)
  then show ?thesis by (simp add: sorted_wrt_map)
qed

end

section \<open>Components that can be reset\<close>

text \<open>The answers of a component to a list of inputs, and its last state.\<close>

fun run_all :: "('s \<Rightarrow> 'i \<Rightarrow> 'o \<times> 's) \<Rightarrow> 's \<Rightarrow> 'i list \<Rightarrow> 'o list \<times> 's" where
  "run_all stp s [] = ([], s)"
| "run_all stp s (i # is) =
     (case stp s i of (out, s') \<Rightarrow> (case run_all stp s' is of (outs, s'') \<Rightarrow> (out # outs, s'')))"

lemma run_all_Cons:
  "run_all stp s (i # is) =
     (fst (stp s i) # fst (run_all stp (snd (stp s i)) is), snd (run_all stp (snd (stp s i)) is))"
  by (simp add: case_prod_beta)

declare run_all.simps(2) [simp del]
declare run_all_Cons [simp]

lemma run_all_append:
  "snd (run_all stp s (is @ js)) = snd (run_all stp (snd (run_all stp s is)) js)"
  "fst (run_all stp s (is @ js)) = fst (run_all stp s is) @ fst (run_all stp (snd (run_all stp s is)) js)"
  by (induction "is" arbitrary: s) auto

lemma run_all_length [simp]: "length (fst (run_all stp s is)) = length is"
  by (induction "is" arbitrary: s) auto

lemma run_all_invariant:
  assumes "\<And>s i. P s \<Longrightarrow> P (snd (stp s i))" and "P s"
  shows "P (snd (run_all stp s is))"
  using assms(2) by (induction "is" arbitrary: s) (auto intro: assms(1))

text \<open>A reset that no operation can influence makes every session after it the same.\<close>

locale resettable =
  fixes stp :: "'s \<Rightarrow> 'i \<Rightarrow> 'o \<times> 's" and reset :: "'s \<Rightarrow> 's"
  assumes reset_step: "reset (snd (stp s i)) = reset s"
    and reset_reset: "reset (reset s) = reset s"
begin

lemma reset_run: "reset (snd (run_all stp s is)) = reset s"
  by (induction "is" arbitrary: s) (auto simp: reset_step)

lemma session_repeats:
  "run_all stp (reset (snd (run_all stp (reset s) is))) js = run_all stp (reset s) js"
  by (simp add: reset_run reset_reset)

end

end
