(* ===== verification/GoNet.thy ===== *)
theory GoNet
  imports GoText
begin

text \<open>
  The part of Go's \<open>net\<close>, \<open>net/http\<close>, \<open>net/url\<close> and \<open>encoding\<close> packages that the program
  uses: base64 and hexadecimal, canonical header names and the header map, host and port,
  query strings. Parsing a URL is a parameter of the models that need it.
\<close>

section \<open>base64.StdEncoding and hex\<close>

definition b64_alphabet :: string where
  "b64_alphabet = ''ABCDEFGHIJKLMNOPQRSTUVWXYZabcdefghijklmnopqrstuvwxyz0123456789+/''"

definition b64_char :: "nat \<Rightarrow> char" where
  "b64_char n = b64_alphabet ! n"

definition b64_val :: "char \<Rightarrow> nat option" where
  "b64_val c = index_byte b64_alphabet c"

fun b64_encode :: "string \<Rightarrow> string" where
  "b64_encode [] = []"
| "b64_encode [a] =
     [b64_char (byte a div 4), b64_char (byte a mod 4 * 16), CHR ''='', CHR ''='']"
| "b64_encode [a, b] =
     [b64_char (byte a div 4), b64_char (byte a mod 4 * 16 + byte b div 16),
      b64_char (byte b mod 16 * 4), CHR ''='']"
| "b64_encode (a # b # c # s) =
     [b64_char (byte a div 4), b64_char (byte a mod 4 * 16 + byte b div 16),
      b64_char (byte b mod 16 * 4 + byte c div 64), b64_char (byte c mod 64)] @ b64_encode s"

text \<open>Line breaks are skipped anywhere; padding is required and ends the input; the bits
  beyond the last whole byte are dropped.\<close>

definition b64_byte1 :: "nat \<Rightarrow> nat \<Rightarrow> char" where
  "b64_byte1 p q = chr (p * 4 + q div 16)"

definition b64_byte2 :: "nat \<Rightarrow> nat \<Rightarrow> char" where
  "b64_byte2 q r = chr (q mod 16 * 16 + r div 4)"

definition b64_byte3 :: "nat \<Rightarrow> nat \<Rightarrow> char" where
  "b64_byte3 r t = chr (r mod 4 * 64 + t)"

fun b64_quads :: "string \<Rightarrow> string option" where
  "b64_quads [] = Some []"
| "b64_quads (a # b # c # d # s) =
     (case (b64_val a, b64_val b) of
        (Some p, Some q) \<Rightarrow>
          (case b64_val c of
             None \<Rightarrow> if c = CHR ''='' \<and> d = CHR ''='' \<and> s = [] then Some [b64_byte1 p q] else None
           | Some r \<Rightarrow>
               (case b64_val d of
                  None \<Rightarrow> if d = CHR ''='' \<and> s = [] then Some [b64_byte1 p q, b64_byte2 q r] else None
                | Some t \<Rightarrow>
                    map_option (\<lambda>rest. b64_byte1 p q # b64_byte2 q r # b64_byte3 r t # rest)
                      (b64_quads s)))
      | _ \<Rightarrow> None)"
| "b64_quads s = None"

definition b64_decode :: "string \<Rightarrow> string option" where
  "b64_decode s = b64_quads (filter (\<lambda>c. byte c \<noteq> 10 \<and> byte c \<noteq> 13) s)"

lemma b64_alphabet_facts:
  "distinct b64_alphabet" "length b64_alphabet = 64"
  "\<forall>c\<in>set b64_alphabet. byte c \<noteq> 10 \<and> byte c \<noteq> 13"
  by (simp_all add: b64_alphabet_def byte_def)

lemma b64_val_char [simp]: "n < 64 \<Longrightarrow> b64_val (b64_char n) = Some n"
  by (simp add: b64_val_def b64_char_def index_byte_nth b64_alphabet_facts)

lemma b64_char_plain [simp]: "n < 64 \<Longrightarrow> byte (b64_char n) \<noteq> 10 \<and> byte (b64_char n) \<noteq> 13"
  by (simp add: b64_char_def b64_alphabet_facts)

lemma b64_val_pad [simp]: "b64_val (CHR ''='') = None"
  by code_simp

lemma byte_pad [simp]: "byte (CHR ''='') = 61"
  by (simp add: byte_def)

lemma sextets_small [simp]:
  "byte a div 4 < 64" "byte a div 16 < 16" "byte a div 64 < 4"
  "byte a mod 4 * 16 < 64" "byte a mod 4 * 16 + byte b div 16 < 64"
  "byte b mod 16 * 4 < 64" "byte b mod 16 * 4 + byte c div 64 < 64"
proof -
  have d: "byte x div 4 < 64" "byte x div 16 < 16" "byte x div 64 < 4" for x
    by (simp_all add: less_mult_imp_div_less)
  have m: "byte x mod 4 \<le> 3" "byte x mod 16 \<le> 15" for x
    using mod_less_divisor [of 4 "byte x"] mod_less_divisor [of 16 "byte x"] by linarith+
  show "byte a div 4 < 64" "byte a div 16 < 16" "byte a div 64 < 4" by (rule d)+
  show "byte a mod 4 * 16 < 64" "byte a mod 4 * 16 + byte b div 16 < 64"
    using m(1) [of a] d(2) [of b] by linarith+
  show "byte b mod 16 * 4 < 64" "byte b mod 16 * 4 + byte c div 64 < 64"
    using m(2) [of b] d(3) [of c] by linarith+
qed

lemma b64_bytes [simp]:
  "b64_byte1 (byte a div 4) (byte a mod 4 * 16) = a"
  "b64_byte1 (byte a div 4) (byte a mod 4 * 16 + byte b div 16) = a"
  "b64_byte2 (byte a mod 4 * 16 + byte b div 16) (byte b mod 16 * 4) = b"
  "b64_byte2 (byte a mod 4 * 16 + byte b div 16) (byte b mod 16 * 4 + byte c div 64) = b"
  "b64_byte3 (byte b mod 16 * 4 + byte c div 64) (byte c mod 64) = c"
proof -
  have d: "(byte a mod 4 * 16 + byte b div 16) div 16 = byte a mod 4"
    "(byte a mod 4 * 16 + byte b div 16) mod 16 = byte b div 16"
    "(byte b mod 16 * 4 + byte c div 64) div 4 = byte b mod 16"
    "(byte b mod 16 * 4 + byte c div 64) mod 4 = byte c div 64"
    by simp_all
  show "b64_byte1 (byte a div 4) (byte a mod 4 * 16) = a"
    "b64_byte1 (byte a div 4) (byte a mod 4 * 16 + byte b div 16) = a"
    "b64_byte2 (byte a mod 4 * 16 + byte b div 16) (byte b mod 16 * 4) = b"
    "b64_byte2 (byte a mod 4 * 16 + byte b div 16) (byte b mod 16 * 4 + byte c div 64) = b"
    "b64_byte3 (byte b mod 16 * 4 + byte c div 64) (byte c mod 64) = c"
    by (simp_all add: b64_byte1_def b64_byte2_def b64_byte3_def d)
qed

lemma b64_quads_encode: "b64_quads (b64_encode s) = Some s"
  by (induction s rule: b64_encode.induct) simp_all

lemma b64_encode_no_breaks: "c \<in> set (b64_encode s) \<Longrightarrow> byte c \<noteq> 10 \<and> byte c \<noteq> 13"
  by (induction s rule: b64_encode.induct) auto

lemma b64_decode_encode [simp]: "b64_decode (b64_encode s) = Some s"
proof -
  have "filter (\<lambda>c. byte c \<noteq> 10 \<and> byte c \<noteq> 13) (b64_encode s) = b64_encode s"
    using b64_encode_no_breaks by (auto simp: filter_id_conv)
  then show ?thesis by (simp add: b64_decode_def b64_quads_encode)
qed

definition hex_char :: "nat \<Rightarrow> char" where
  "hex_char n = ''0123456789abcdef'' ! n"

definition hex_encode :: "string \<Rightarrow> string" where
  "hex_encode s = concat (map (\<lambda>c. [hex_char (byte c div 16), hex_char (byte c mod 16)]) s)"

lemma length_hex_encode [simp]: "length (hex_encode s) = 2 * length s"
  by (induction s) (auto simp: hex_encode_def)

lemma hex_char_inject: "m < 16 \<Longrightarrow> n < 16 \<Longrightarrow> hex_char m = hex_char n \<longleftrightarrow> m = n"
  unfolding hex_char_def by (rule nth_eq_iff_index_eq) simp_all

lemma hex_encode_inject: "hex_encode s = hex_encode t \<longleftrightarrow> s = t"
proof (induction s arbitrary: t)
  case Nil
  then show ?case by (cases t) (auto simp: hex_encode_def)
next
  case (Cons c s)
  show ?case
  proof (cases t)
    case (Cons d u)
    have "hex_char (byte c div 16) = hex_char (byte d div 16) \<and>
        hex_char (byte c mod 16) = hex_char (byte d mod 16) \<longleftrightarrow> c = d"
      by (auto simp: hex_char_inject) (metis byte_inject div_mult_mod_eq)
    with Cons Cons.IH [of u] show ?thesis by (auto simp: hex_encode_def)
  qed (simp add: hex_encode_def)
qed

text \<open>\<open>hex.DecodeString\<close> reads digits of either case.\<close>

definition hex_digit :: "char \<Rightarrow> nat option" where
  "hex_digit c =
     (if is_digit c then Some (byte c - 48)
      else if 97 \<le> byte c \<and> byte c \<le> 102 then Some (byte c - 87)
      else if 65 \<le> byte c \<and> byte c \<le> 70 then Some (byte c - 55)
      else None)"

fun hex_decode :: "string \<Rightarrow> string option" where
  "hex_decode [] = Some []"
| "hex_decode (a # b # s) =
     (case (hex_digit a, hex_digit b, hex_decode s) of
        (Some h, Some l, Some t) \<Rightarrow> Some (chr (h * 16 + l) # t)
      | _ \<Rightarrow> None)"
| "hex_decode [_] = None"

lemma hex_digit_char [simp]: "n < 16 \<Longrightarrow> hex_digit (hex_char n) = Some n"
proof -
  have "\<forall>n\<in>set [0..<16]. hex_digit (hex_char n) = Some n" by code_simp
  then show "n < 16 \<Longrightarrow> hex_digit (hex_char n) = Some n" by simp
qed

lemma nibbles [simp]: "byte c div 16 < 16" "byte c mod 16 < 16" "chr (byte c div 16 * 16 + byte c mod 16) = c"
  by (simp_all add: less_mult_imp_div_less)

lemma hex_decode_encode [simp]: "hex_decode (hex_encode s) = Some s"
  by (induction s) (simp_all add: hex_encode_def)

section \<open>Header names and header maps\<close>

text \<open>\<open>textproto.CanonicalMIMEHeaderKey\<close>: a name with a byte that is not a token byte is
  returned as it is.\<close>

definition is_alpha :: "char \<Rightarrow> bool" where
  "is_alpha c \<longleftrightarrow> 65 \<le> byte c \<and> byte c \<le> 90 \<or> 97 \<le> byte c \<and> byte c \<le> 122"

definition is_token_char :: "char \<Rightarrow> bool" where
  "is_token_char c \<longleftrightarrow> is_alpha c \<or> is_digit c \<or>
     byte c \<in> {33, 35, 36, 37, 38, 39, 42, 43, 45, 46, 94, 95, 96, 124, 126}"

fun canon_from :: "bool \<Rightarrow> string \<Rightarrow> string" where
  "canon_from up [] = []"
| "canon_from up (c # s) = (if up then upper c else lower c) # canon_from (byte c = 45) s"

definition canonical_key :: "string \<Rightarrow> string" where
  "canonical_key s = (if \<forall>c\<in>set s. is_token_char c then canon_from True s else s)"

text \<open>\<open>http.Header\<close> and \<open>url.Values\<close> are maps from a name to a list of strings.\<close>

type_synonym header = "(string \<times> string list) list"

definition hvalues :: "header \<Rightarrow> string \<Rightarrow> string list" where
  "hvalues h k = dflt [] (map_of h k)"

definition hget :: "header \<Rightarrow> string \<Rightarrow> string" where
  "hget h k = (case hvalues h (canonical_key k) of [] \<Rightarrow> [] | v # _ \<Rightarrow> v)"

definition hset :: "header \<Rightarrow> string \<Rightarrow> string \<Rightarrow> header" where
  "hset h k v = AList.update (canonical_key k) [v] h"

definition hadd :: "header \<Rightarrow> string \<Rightarrow> string \<Rightarrow> header" where
  "hadd h k v = AList.update (canonical_key k) (hvalues h (canonical_key k) @ [v]) h"

lemma lower_canon [simp]: "to_lower (canon_from up s) = to_lower s"
  by (induction s arbitrary: up) auto

lemma canonical_key_fold [simp]: "equal_fold (canonical_key s) s"
  by (simp add: canonical_key_def equal_fold_def)

lemma byte_dash_upper: "byte (upper c) = 45 \<longleftrightarrow> byte c = 45" "byte (lower c) = 45 \<longleftrightarrow> byte c = 45"
  using byte_less [of c] by (auto simp: byte_upper byte_lower)

lemma token_case [simp]: "is_token_char (upper c) = is_token_char c" "is_token_char (lower c) = is_token_char c"
proof -
  show "is_token_char (upper c) = is_token_char c"
  proof (cases "97 \<le> byte c \<and> byte c \<le> 122")
    case True
    then have "is_alpha c" "is_alpha (upper c)" by (auto simp: is_alpha_def byte_upper)
    then show ?thesis by (simp add: is_token_char_def)
  qed (auto simp: upper_def)
  show "is_token_char (lower c) = is_token_char c"
  proof (cases "65 \<le> byte c \<and> byte c \<le> 90")
    case True
    then have "is_alpha c" "is_alpha (lower c)" by (auto simp: is_alpha_def byte_lower)
    then show ?thesis by (simp add: is_token_char_def)
  qed (auto simp: lower_def)
qed

lemma set_lower_token: "(\<forall>c\<in>set (to_lower s). is_token_char c) = (\<forall>c\<in>set s. is_token_char c)"
  by (auto simp: to_lower_def)

lemma upper_upper [simp]: "upper (upper c) = upper c"
  by (auto simp: byte_upper simp flip: byte_inject)

lemma canon_from_idem: "canon_from up (canon_from up s) = canon_from up s"
  by (induction s arbitrary: up) (auto simp: byte_dash_upper)

lemma set_canon_from: "(\<forall>c\<in>set (canon_from up s). is_token_char c) = (\<forall>c\<in>set s. is_token_char c)"
  by (induction s arbitrary: up) auto

lemma canonical_key_idem [simp]: "canonical_key (canonical_key s) = canonical_key s"
  by (auto simp: canonical_key_def set_canon_from canon_from_idem)

lemma canon_from_cong: "to_lower s = to_lower t \<Longrightarrow> canon_from up s = canon_from up t"
proof (induction s arbitrary: t up)
  case (Cons c s)
  then obtain d u where t: "t = d # u" "lower c = lower d" "to_lower s = to_lower u"
    by (cases t) auto
  then have "upper c = upper d" "byte c = 45 \<longleftrightarrow> byte d = 45"
    by (metis upper_lower, metis byte_dash_upper(2))
  with t Cons.IH show ?case by auto
qed (simp add: to_lower_def)

lemma canonical_key_cong:
  assumes "equal_fold s t" and "\<forall>c\<in>set s. is_token_char c"
  shows "canonical_key s = canonical_key t"
proof -
  from assms have "\<forall>c\<in>set t. is_token_char c"
    unfolding equal_fold_def by (metis set_lower_token)
  with assms show ?thesis
    by (auto simp: canonical_key_def equal_fold_def intro: canon_from_cong)
qed

section \<open>Hosts and ports\<close>

text \<open>\<open>net.SplitHostPort\<close>.\<close>

definition split_host_port :: "string \<Rightarrow> (string \<times> string) option" where
  "split_host_port s =
     (case last_index_byte s (CHR '':'') of
        None \<Rightarrow> None
      | Some i \<Rightarrow>
          if has_prefix s ''['' then
            (case index_byte s (CHR '']'') of
               None \<Rightarrow> None
             | Some e \<Rightarrow>
                 if e + 1 \<noteq> i then None
                 else if CHR ''['' \<in> set (drop 1 s) \<or> CHR '']'' \<in> set (drop (e + 1) s) then None
                 else Some (take (e - 1) (drop 1 s), drop (i + 1) s))
          else if CHR '':'' \<in> set (take i s) then None
          else if CHR ''['' \<in> set s \<or> CHR '']'' \<in> set s then None
          else Some (take i s, drop (i + 1) s))"

definition trim_brackets :: "string \<Rightarrow> string" where
  "trim_brackets s = trim_set (\<lambda>c. c = CHR ''['' \<or> c = CHR '']'') s"

section \<open>URLs and query strings\<close>

text \<open>The fields of \<open>url.URL\<close> that the program reads. \<open>url.Parse\<close> is a parameter of the
  models; \<open>EscapedPath\<close>, \<open>Query\<close> and \<open>Values.Encode\<close> are computed.\<close>

record gourl =
  uScheme :: string
  uHost :: string
  uPath :: string
  uRawPath :: string
  uRawQuery :: string

fun unescape :: "bool \<Rightarrow> string \<Rightarrow> string option" where
  "unescape query [] = Some []"
| "unescape query (c # s) =
     (if c = CHR ''%'' then
        (case s of
           a # b # t \<Rightarrow>
             (case (hex_digit a, hex_digit b) of
                (Some h, Some l) \<Rightarrow> map_option (Cons (chr (h * 16 + l))) (unescape query t)
              | _ \<Rightarrow> None)
         | _ \<Rightarrow> None)
      else map_option (Cons (if query \<and> c = CHR ''+'' then CHR '' '' else c)) (unescape query s))"

definition hex_upper :: "nat \<Rightarrow> char" where
  "hex_upper n = ''0123456789ABCDEF'' ! n"

definition pct_enc :: "char \<Rightarrow> string" where
  "pct_enc c = [CHR ''%'', hex_upper (byte c div 16), hex_upper (byte c mod 16)]"

definition is_unreserved :: "char \<Rightarrow> bool" where
  "is_unreserved c \<longleftrightarrow> is_alpha c \<or> is_digit c \<or> c \<in> set ''-_.~''"

definition query_escape :: "string \<Rightarrow> string" where
  "query_escape s =
     concat (map (\<lambda>c. if is_unreserved c then [c] else if c = CHR '' '' then ''+'' else pct_enc c) s)"

definition path_escape :: "string \<Rightarrow> string" where
  "path_escape s =
     concat (map (\<lambda>c. if is_unreserved c \<or> c \<in> set ''$&+,/:;=@'' then [c] else pct_enc c) s)"

definition valid_encoded_path :: "string \<Rightarrow> bool" where
  "valid_encoded_path s \<longleftrightarrow>
     (\<forall>c\<in>set s. is_unreserved c \<or> byte c = 39 \<or> c \<in> set ''!$&()*+,;=:@[]%/'')"

definition url_escaped_path :: "gourl \<Rightarrow> string" where
  "url_escaped_path u =
     (if uRawPath u \<noteq> [] \<and> valid_encoded_path (uRawPath u) \<and>
         unescape False (uRawPath u) = Some (uPath u) then uRawPath u
      else if uPath u = ''*'' then ''*''
      else path_escape (uPath u))"

text \<open>\<open>url.ParseQuery\<close> keeps the pairs it can read and drops the others.\<close>

definition add_pair :: "header \<Rightarrow> string \<Rightarrow> header" where
  "add_pair m part =
     (if part = [] \<or> CHR '';'' \<in> set part then m
      else let (k, v) = dflt (part, []) (cut (CHR ''='') part)
           in case (unescape True k, unescape True v) of
                (Some k', Some v') \<Rightarrow> AList.update k' (hvalues m k' @ [v']) m
              | _ \<Rightarrow> m)"

definition parse_query :: "string \<Rightarrow> header" where
  "parse_query s = foldl add_pair [] (split_on (CHR ''&'') s)"

definition url_query :: "gourl \<Rightarrow> header" where
  "url_query u = parse_query (uRawQuery u)"

text \<open>\<open>Values.Get\<close> does not canonicalise the name.\<close>

definition qget :: "header \<Rightarrow> string \<Rightarrow> string" where
  "qget m k = (case hvalues m k of [] \<Rightarrow> [] | v # _ \<Rightarrow> v)"

definition sorted_entries :: "header \<Rightarrow> header" where
  "sorted_entries m = stable_sort (\<lambda>a b. fst a < fst b) m"

definition encode_entry :: "string \<times> string list \<Rightarrow> string list" where
  "encode_entry e = map (\<lambda>v. query_escape (fst e) @ ''='' @ query_escape v) (snd e)"

definition values_encode :: "header \<Rightarrow> string" where
  "values_encode m = join ''&'' (concat (map encode_entry (sorted_entries m)))"

section \<open>Values.Encode determines the values\<close>

lemma hex_digit_upper [simp]: "n < 16 \<Longrightarrow> hex_digit (hex_upper n) = Some n"
proof -
  have "\<forall>n\<in>set [0..<16]. hex_digit (hex_upper n) = Some n" by code_simp
  then show "n < 16 \<Longrightarrow> hex_digit (hex_upper n) = Some n" by simp
qed

lemma hex_upper_plain: "n < 16 \<Longrightarrow> hex_upper n \<noteq> CHR ''&'' \<and> hex_upper n \<noteq> CHR ''=''"
proof -
  have "\<forall>n\<in>set [0..<16]. hex_upper n \<noteq> CHR ''&'' \<and> hex_upper n \<noteq> CHR ''=''" by code_simp
  then show "n < 16 \<Longrightarrow> hex_upper n \<noteq> CHR ''&'' \<and> hex_upper n \<noteq> CHR ''=''" by simp
qed

lemma unreserved_plain: "is_unreserved c \<Longrightarrow> c \<notin> {CHR ''%'', CHR ''+'', CHR ''&'', CHR ''=''}"
  by (auto simp: is_unreserved_def is_alpha_def is_digit_def byte_def)

lemma unescape_query_escape [simp]: "unescape True (query_escape s) = Some s"
proof (induction s)
  case (Cons c s)
  then show ?case
    using unreserved_plain [of c] by (auto simp: query_escape_def pct_enc_def)
qed (simp add: query_escape_def)

definition query_escape_char :: "char \<Rightarrow> string" where
  "query_escape_char c = (if is_unreserved c then [c] else if c = CHR '' '' then ''+'' else pct_enc c)"

lemma query_escape_char_plain: "CHR ''&'' \<notin> set (query_escape_char c)" "CHR ''='' \<notin> set (query_escape_char c)"
  using unreserved_plain [of c] hex_upper_plain [OF nibbles(1) [of c]] hex_upper_plain [OF nibbles(2) [of c]]
  by (simp_all add: query_escape_char_def pct_enc_def eq_commute)

lemma query_escape_plain: "CHR ''&'' \<notin> set (query_escape s)" "CHR ''='' \<notin> set (query_escape s)"
  using query_escape_char_plain by (simp_all add: query_escape_def flip: query_escape_char_def)

lemma query_escape_inject [simp]: "query_escape s = query_escape t \<longleftrightarrow> s = t"
  by (metis option.inject unescape_query_escape)

lemma split_on_plain: "c \<notin> set s \<Longrightarrow> split_on c s = [s]"
  by (induction s) auto

lemma split_on_append: "c \<notin> set s \<Longrightarrow> split_on c (s @ c # t) = s # split_on c t"
  by (induction s) auto

lemma split_on_join: "xs \<noteq> [] \<Longrightarrow> \<forall>x\<in>set xs. c \<notin> set x \<Longrightarrow> split_on c (join [c] xs) = xs"
  by (induction "[c]" xs rule: join.induct) (auto simp: split_on_plain split_on_append)

lemma join_nonempty: "xs \<noteq> [] \<Longrightarrow> \<forall>x\<in>set xs. x \<noteq> [] \<Longrightarrow> join sep xs \<noteq> []"
  by (induction sep xs rule: join.induct) auto

lemma join_inject:
  assumes "\<forall>x\<in>set xs. c \<notin> set x \<and> x \<noteq> []" and "\<forall>y\<in>set ys. c \<notin> set y \<and> y \<noteq> []"
  shows "join [c] xs = join [c] ys \<longleftrightarrow> xs = ys"
proof
  assume eq: "join [c] xs = join [c] ys"
  show "xs = ys"
  proof (cases "xs = [] \<or> ys = []")
    case True
    have "xs = [] \<longleftrightarrow> join [c] xs = []" "ys = [] \<longleftrightarrow> join [c] ys = []"
      using assms join_nonempty [of xs "[c]"] join_nonempty [of ys "[c]"] by fastforce+
    with True eq show ?thesis by metis
  next
    case False
    then have "xs = split_on c (join [c] xs)" "ys = split_on c (join [c] ys)"
      using assms by (auto simp: split_on_join)
    with eq show ?thesis by simp
  qed
qed simp

text \<open>The pairs of a query, key by key.\<close>

definition pairs_of :: "header \<Rightarrow> (string \<times> string) list" where
  "pairs_of m = concat (map (\<lambda>(k, vs). map (Pair k) vs) m)"

definition pair_text :: "string \<times> string \<Rightarrow> string" where
  "pair_text p = query_escape (fst p) @ CHR ''='' # query_escape (snd p)"

lemma pair_text_inject: "pair_text p = pair_text q \<longleftrightarrow> p = q"
proof
  assume "pair_text p = pair_text q"
  then have "cut (CHR ''='') (pair_text p) = cut (CHR ''='') (pair_text q)" by simp
  moreover have "cut (CHR ''='') (pair_text r) = Some (query_escape (fst r), query_escape (snd r))" for r
    by (simp add: cut_Some pair_text_def query_escape_plain)
  ultimately show "p = q" by (simp add: prod_eq_iff)
qed simp

lemma values_encode_pairs: "values_encode m = join ''&'' (map pair_text (pairs_of (sorted_entries m)))"
proof -
  have "concat (map encode_entry es) = map pair_text (pairs_of es)" for es
    by (induction es) (auto simp: pairs_of_def encode_entry_def pair_text_def)
  then show ?thesis by (simp add: values_encode_def)
qed

lemma values_encode_eq_pairs:
  "values_encode m = values_encode m' \<longleftrightarrow> pairs_of (sorted_entries m) = pairs_of (sorted_entries m')"
proof -
  have "values_encode m = values_encode m' \<longleftrightarrow>
      map pair_text (pairs_of (sorted_entries m)) = map pair_text (pairs_of (sorted_entries m'))"
    unfolding values_encode_pairs
    by (rule join_inject) (auto simp: pair_text_def query_escape_plain)
  also have "\<dots> \<longleftrightarrow> pairs_of (sorted_entries m) = pairs_of (sorted_entries m')"
    by (rule inj_map_eq_map) (simp add: inj_def pair_text_inject)
  finally show ?thesis .
qed

definition wf_values :: "header \<Rightarrow> bool" where
  "wf_values m \<longleftrightarrow> distinct (map fst m) \<and> (\<forall>(k, vs)\<in>set m. vs \<noteq> [])"

interpretation entry_order: keyed_order fst "\<lambda>a b :: string \<times> string list. fst a < fst b"
  by unfold_locales simp

lemma set_sorted_entries [simp]: "set (sorted_entries m) = set m"
  by (simp add: sorted_entries_def)

lemma distinct_sorted_entries: "distinct (map fst m) \<Longrightarrow> distinct (map fst (sorted_entries m))"
  unfolding sorted_entries_def by (metis mset_map mset_stable_sort mset_eq_imp_distinct_iff)

lemma pairs_of_Cons [simp]: "pairs_of (e # m) = map (Pair (fst e)) (snd e) @ pairs_of m"
  by (simp add: pairs_of_def case_prod_beta)

lemma pairs_of_absent: "k \<notin> fst ` set m \<Longrightarrow> filter (\<lambda>p. fst p = k) (pairs_of m) = []"
  by (induction m) (auto simp: pairs_of_def [of "[]"])

lemma hvalues_pairs: "distinct (map fst m) \<Longrightarrow> hvalues m k = map snd (filter (\<lambda>p. fst p = k) (pairs_of m))"
  by (induction m) (auto simp: hvalues_def pairs_of_def [of "[]"] pairs_of_absent filter_map o_def)

lemma hvalues_entry: "distinct (map fst m) \<Longrightarrow> (k, vs) \<in> set m \<Longrightarrow> hvalues m k = vs"
  by (simp add: hvalues_def)

lemma hvalues_sorted: "distinct (map fst m) \<Longrightarrow> hvalues (sorted_entries m) k = hvalues m k"
proof -
  assume d: "distinct (map fst m)"
  then have "map_of (sorted_entries m) = map_of m"
    using map_of_inject_set [OF distinct_sorted_entries [OF d] d] by simp
  then show ?thesis by (simp add: hvalues_def)
qed

lemma keys_of_values: "wf_values m \<Longrightarrow> fst ` set m = {k. hvalues m k \<noteq> []}"
proof -
  assume m: "wf_values m"
  have "k \<in> fst ` set m \<longleftrightarrow> hvalues m k \<noteq> []" for k
  proof (cases "map_of m k")
    case None
    then have "k \<notin> fst ` set m" by (rule map_of_eq_None_iff [THEN iffD1])
    with None show ?thesis by (simp add: hvalues_def)
  next
    case (Some vs)
    have "k \<in> fst ` set m" using map_of_SomeD [OF Some] by (rule rev_image_eqI) simp
    moreover have "vs \<noteq> []" using m map_of_SomeD [OF Some] by (auto simp: wf_values_def)
    ultimately show ?thesis using Some by (simp add: hvalues_def)
  qed
  then show ?thesis by blast
qed

lemma values_encode_eq:
  assumes "wf_values m" and "wf_values m'"
  shows "values_encode m = values_encode m' \<longleftrightarrow> (\<forall>k. hvalues m k = hvalues m' k)"
proof
  assume "values_encode m = values_encode m'"
  then have "hvalues (sorted_entries m) k = hvalues (sorted_entries m') k" for k
    using assms by (simp add: values_encode_eq_pairs hvalues_pairs distinct_sorted_entries wf_values_def)
  then show "\<forall>k. hvalues m k = hvalues m' k"
    using assms by (simp add: hvalues_sorted wf_values_def)
next
  assume eq: "\<forall>k. hvalues m k = hvalues m' k"
  have s: "sorted (map fst (sorted_entries n))" for n
    unfolding sorted_entries_def by (rule entry_order.sort_keys_sorted)
  have d: "distinct (map fst (sorted_entries m))" "distinct (map fst (sorted_entries m'))"
    using assms by (auto simp: distinct_sorted_entries wf_values_def)
  have "set (map fst (sorted_entries m)) = set (map fst (sorted_entries m'))"
    using keys_of_values [OF assms(1)] keys_of_values [OF assms(2)] eq by simp
  with s d have keys: "map fst (sorted_entries m) = map fst (sorted_entries m')"
    by (metis sorted_distinct_set_unique)
  have "sorted_entries n = map (\<lambda>k. (k, hvalues n k)) (map fst (sorted_entries n))" if "wf_values n" for n
    using that hvalues_entry [of n] by (auto simp: wf_values_def intro!: map_idI [symmetric])
  then have "sorted_entries m = sorted_entries m'"
    using assms keys eq by (metis (no_types, lifting) map_eq_conv)
  then show "values_encode m = values_encode m'" by (simp add: values_encode_def)
qed

lemma wf_values_update: "wf_values m \<Longrightarrow> vs \<noteq> [] \<Longrightarrow> wf_values (AList.update k vs m)"
proof -
  assume m: "wf_values m" "vs \<noteq> []"
  have "set (AList.update k vs m) \<subseteq> insert (k, vs) (set m)" by (induction m) auto
  with m show ?thesis by (auto simp: wf_values_def distinct_update)
qed

lemma wf_url_query [simp]: "wf_values (url_query u)"
proof -
  have step: "wf_values m \<Longrightarrow> wf_values (add_pair m p)" for m p
    by (auto simp: add_pair_def Let_def wf_values_update split: prod.splits option.splits)
  have "wf_values m \<Longrightarrow> wf_values (foldl add_pair m ps)" for m ps
    by (induction ps arbitrary: m) (auto simp: step)
  moreover have "wf_values []" by (simp add: wf_values_def)
  ultimately show ?thesis by (simp add: url_query_def parse_query_def)
qed

section \<open>Reading an encoded query back\<close>

lemma hex_upper_no_semicolon: "n < 16 \<Longrightarrow> hex_upper n \<noteq> CHR '';''"
proof -
  have "\<forall>n\<in>set [0..<16]. hex_upper n \<noteq> CHR '';''" by code_simp
  then show "n < 16 \<Longrightarrow> hex_upper n \<noteq> CHR '';''" by simp
qed

lemma query_escape_no_semicolon: "CHR '';'' \<notin> set (query_escape s)"
proof -
  have "\<not> is_unreserved (CHR '';'')" by code_simp
  then have "CHR '';'' \<notin> set (query_escape_char c)" for c
    using hex_upper_no_semicolon [OF nibbles(1) [of c]] hex_upper_no_semicolon [OF nibbles(2) [of c]]
    by (auto simp: query_escape_char_def pct_enc_def eq_commute)
  then show ?thesis by (simp add: query_escape_def flip: query_escape_char_def)
qed

lemma add_pair_text: "add_pair m (pair_text (k, v)) = AList.update k (hvalues m k @ [v]) m"
proof -
  have "cut (CHR ''='') (pair_text (k, v)) = Some (query_escape k, query_escape v)"
    by (simp add: cut_Some pair_text_def query_escape_plain)
  moreover have "CHR '';'' \<notin> set (pair_text (k, v))" "pair_text (k, v) \<noteq> []"
    by (simp_all add: pair_text_def query_escape_no_semicolon)
  ultimately show ?thesis by (simp add: add_pair_def)
qed

lemma hvalues_update: "hvalues (AList.update k vs m) n = (if n = k then vs else hvalues m n)"
  by (simp add: hvalues_def update_conv')

lemma fold_add_pairs:
  "hvalues (foldl add_pair m (map pair_text ps)) k = hvalues m k @ map snd (filter (\<lambda>p. fst p = k) ps)"
proof (induction ps arbitrary: m)
  case (Cons p ps)
  then show ?case by (cases p) (simp add: add_pair_text hvalues_update)
qed simp

lemma parse_query_encode:
  assumes "wf_values m"
  shows "hvalues (parse_query (values_encode m)) k = hvalues m k"
proof -
  let ?ps = "pairs_of (sorted_entries m)"
  have "foldl add_pair [] (split_on (CHR ''&'') (values_encode m)) = foldl add_pair [] (map pair_text ?ps)"
  proof (cases "?ps = []")
    case True
    then show ?thesis by (simp add: values_encode_pairs add_pair_def)
  next
    case False
    then show ?thesis
      unfolding values_encode_pairs by (subst split_on_join) (auto simp: pair_text_def query_escape_plain)
  qed
  then have "hvalues (parse_query (values_encode m)) k = map snd (filter (\<lambda>p. fst p = k) ?ps)"
    by (simp only: parse_query_def fold_add_pairs) (simp add: hvalues_def)
  also have "\<dots> = hvalues m k"
    using assms hvalues_pairs [of "sorted_entries m" k] hvalues_sorted [of m k]
    by (simp add: wf_values_def distinct_sorted_entries)
  finally show ?thesis .
qed

end
