(* ===== verification/Event.thy ===== *)
theory Event
  imports GoNet
begin

text \<open>
  \<open>pkg/event\<close>: the captured event, trace identifiers, and the JSONL logger that numbers the
  events it writes (\<open>event.go\<close>, \<open>log.go\<close>). Timestamps and durations are nanoseconds; a zero
  timestamp is Go's zero \<open>time.Time\<close>. The JSON codec of an event and the random source are
  parameters.
\<close>

section \<open>The event record\<close>

record event =
  evID :: string
  evType :: string
  evTimestamp :: int
  evSequence :: int
  evService :: string
  evMethod :: string
  evURL :: string
  evStatus :: int
  evDuration :: int
  evError :: string
  evHeaders :: header
  evBodySize :: int
  evTraceID :: string
  evBodyB64 :: string
  evBodySha256 :: string
  evBodyTruncated :: bool
  evBodyRedacted :: bool
  evBytesSent :: int
  evBytesReceived :: int
  evResponseHeaders :: header
  evResponseTrailers :: header
  evResponseBodyB64 :: string
  evResponseBodySha256 :: string
  evResponseBodyTruncated :: bool
  evResponseBodyRedacted :: bool
  evResponseCaptured :: bool
  evGrpcServiceMethod :: string
  evGrpcStatus :: string
  evInjectionApplied :: string

text \<open>The zero value \<open>event.Event{}\<close>.\<close>

definition zero_event :: event where
  "zero_event = \<lparr>evID = [], evType = [], evTimestamp = 0, evSequence = 0, evService = [],
     evMethod = [], evURL = [], evStatus = 0, evDuration = 0, evError = [], evHeaders = [],
     evBodySize = 0, evTraceID = [], evBodyB64 = [], evBodySha256 = [], evBodyTruncated = False,
     evBodyRedacted = False, evBytesSent = 0, evBytesReceived = 0, evResponseHeaders = [],
     evResponseTrailers = [], evResponseBodyB64 = [], evResponseBodySha256 = [],
     evResponseBodyTruncated = False, evResponseBodyRedacted = False, evResponseCaptured = False,
     evGrpcServiceMethod = [], evGrpcStatus = [], evInjectionApplied = []\<rparr>"

text \<open>Replays order events by capture time, then by sequence number: the comparator that
  \<open>LoadInboundEvents\<close>, \<open>NewReplayer\<close> and \<open>message.Load\<close> all pass to \<open>sort.SliceStable\<close>.\<close>

definition time_seq_less :: "(int \<times> int) \<Rightarrow> (int \<times> int) \<Rightarrow> bool" where
  "time_seq_less a b = (if fst a = fst b then snd a < snd b else fst a < fst b)"

definition event_less :: "event \<Rightarrow> event \<Rightarrow> bool" where
  "event_less a b =
     (if evTimestamp a = evTimestamp b then evSequence a < evSequence b
      else evTimestamp a < evTimestamp b)"

interpretation event_order: keyed_order "\<lambda>e. (evTimestamp e, evSequence e)" event_less
  by unfold_locales (auto simp: event_less_def)

section \<open>Trace identifiers\<close>

text \<open>\<open>GenerateID\<close> panics when the system's random source fails (\<open>None\<close>).\<close>

definition generate_id :: "string option \<Rightarrow> string option" where
  "generate_id rand = (case rand of None \<Rightarrow> None | Some b \<Rightarrow> Some (hex_encode b))"

definition is_lower_hex :: "char \<Rightarrow> bool" where
  "is_lower_hex c \<longleftrightarrow> 48 \<le> byte c \<and> byte c \<le> 57 \<or> 97 \<le> byte c \<and> byte c \<le> 102"

definition sanitize_trace_id :: "string \<Rightarrow> string" where
  "sanitize_trace_id raw =
     (if length raw = 32 \<and> (\<forall>c\<in>set raw. is_lower_hex c) then raw else [])"

lemma hex_char_is_hex [simp]: "n < 16 \<Longrightarrow> is_lower_hex (hex_char n)"
proof -
  assume "n < 16"
  then have "hex_char n \<in> set ''0123456789abcdef''"
    unfolding hex_char_def by (intro nth_mem) simp
  then show ?thesis by (auto simp: is_lower_hex_def byte_def)
qed

lemma hex_encode_is_hex: "c \<in> set (hex_encode s) \<Longrightarrow> is_lower_hex c"
  by (induction s) (auto simp: hex_encode_def less_mult_imp_div_less)

section \<open>The logger\<close>

text \<open>
  What numbering loggers promise, whatever they store: each write takes the next number, also
  when nothing is stored, and a stored record carries the number taken.
\<close>

primrec run_writes :: "('s \<Rightarrow> 'r \<Rightarrow> 's \<times> 'r option) \<Rightarrow> 's \<Rightarrow> 'r list \<Rightarrow> 's \<times> 'r list" where
  "run_writes w s [] = (s, [])"
| "run_writes w s (r # rs) =
     (let (s', x) = w s r; (t, ys) = run_writes w s' rs
      in (t, case x of None \<Rightarrow> ys | Some y \<Rightarrow> y # ys))"

locale numbering_logger =
  fixes put :: "'s \<Rightarrow> 'r \<Rightarrow> 's \<times> 'r option"
    and counter :: "'s \<Rightarrow> int"
    and number :: "'r \<Rightarrow> int"
  assumes counter_write: "counter (fst (put s r)) = counter s + 1"
    and number_write: "snd (put s r) = Some r' \<Longrightarrow> number r' = counter s + 1"
begin

lemma run_counter: "counter (fst (run_writes put s rs)) = counter s + int (length rs)"
proof (induction rs arbitrary: s)
  case (Cons r rs)
  from Cons [of "fst (put s r)"] counter_write [of s r] show ?case
    by (auto simp: Let_def split: prod.splits)
qed simp

lemma run_numbers:
  "sorted_wrt (<) (map number (snd (run_writes put s rs))) \<and>
   (\<forall>y\<in>set (snd (run_writes put s rs)). counter s < number y \<and> number y \<le> counter s + int (length rs))"
proof (induction rs arbitrary: s)
  case (Cons r rs)
  obtain s' x where w: "put s r = (s', x)" by fastforce
  obtain t ys where run: "run_writes put s' rs = (t, ys)" by fastforce
  have s': "counter s' = counter s + 1" using counter_write [of s r] w by simp
  from Cons [of s'] run s' have ys: "sorted_wrt (<) (map number ys)"
    "\<forall>y\<in>set ys. counter s + 1 < number y \<and> number y \<le> counter s + 1 + int (length rs)"
    by simp_all
  show ?case
  proof (cases x)
    case None
    with ys show ?thesis by (auto simp: w run)
  next
    case (Some y)
    then have "number y = counter s + 1" using number_write [of s r] w by simp
    with Some ys show ?thesis by (auto simp: w run)
  qed
qed simp

end

text \<open>The file as bytes, and the last number handed out.\<close>

record logger =
  lgData :: string
  lgSeq :: int

text \<open>
  \<open>NewLogger\<close> decodes the existing log from the start. The decoder is given the whole file and
  an offset and answers end of file, an error, or an event and the offset behind it. A partial
  tail is cut off at the last good offset, and a missing final line break is added. The scan uses
  one unit of fuel per event; a file has fewer events than bytes, so \<open>Suc (length data)\<close> units
  are enough (\<open>scan_log_total\<close>).
\<close>

datatype decoded = DecEOF | DecErr | DecOk event nat

fun scan_log :: "(string \<Rightarrow> nat \<Rightarrow> decoded) \<Rightarrow> nat \<Rightarrow> string \<Rightarrow> nat \<Rightarrow> int \<Rightarrow> (string \<times> int) option" where
  "scan_log dec 0 data off hi = None"
| "scan_log dec (Suc fuel) data off hi =
     (case dec data off of
        DecEOF \<Rightarrow> Some (data, hi)
      | DecErr \<Rightarrow> Some (take off data, hi)
      | DecOk e off' \<Rightarrow>
          scan_log dec fuel data off' (if evSequence e > hi then evSequence e else hi))"

definition new_logger :: "(string \<Rightarrow> nat \<Rightarrow> decoded) \<Rightarrow> string \<Rightarrow> logger option" where
  "new_logger dec data =
     (case scan_log dec (Suc (length data)) data 0 0 of
        None \<Rightarrow> None
      | Some (kept, hi) \<Rightarrow>
          Some \<lparr>lgData = (if kept \<noteq> [] \<and> List.last kept \<noteq> chr 10 then kept @ [chr 10] else kept),
                lgSeq = hi\<rparr>)"

text \<open>\<open>Logger.Write\<close>: the number is taken before the event is encoded, so an event that cannot
  be encoded leaves a gap. \<open>enc\<close> is \<open>json.Encoder.Encode\<close>, which ends the line itself.\<close>

definition write_event :: "(event \<Rightarrow> string option) \<Rightarrow> logger \<Rightarrow> event \<Rightarrow> logger \<times> event option" where
  "write_event enc l e =
     (let n = lgSeq l + 1; e' = e\<lparr>evSequence := n\<rparr>
      in case enc e' of
           None \<Rightarrow> (l\<lparr>lgSeq := n\<rparr>, None)
         | Some line \<Rightarrow> (l\<lparr>lgSeq := n, lgData := lgData l @ line\<rparr>, Some e'))"

interpretation event_log: numbering_logger "write_event enc" lgSeq evSequence
  by unfold_locales (auto simp: write_event_def Let_def split: option.splits)

text \<open>The events a scan reads, for the statements below.\<close>

fun scan_events :: "(string \<Rightarrow> nat \<Rightarrow> decoded) \<Rightarrow> nat \<Rightarrow> string \<Rightarrow> nat \<Rightarrow> event list" where
  "scan_events dec 0 data off = []"
| "scan_events dec (Suc fuel) data off =
     (case dec data off of DecOk e off' \<Rightarrow> e # scan_events dec fuel data off' | _ \<Rightarrow> [])"

lemma scan_log_last:
  "scan_log dec fuel data off l = Some (kept, m) \<Longrightarrow>
   l \<le> m \<and> (\<forall>e\<in>set (scan_events dec fuel data off). evSequence e \<le> m)"
proof (induction fuel arbitrary: off l)
  case (Suc fuel)
  then show ?case
    by (cases "dec data off") (force split: if_splits)+
qed simp

lemma scan_log_total:
  assumes adv: "\<And>off e off'. dec data off = DecOk e off' \<Longrightarrow> off < off' \<and> off' \<le> length data"
  shows "off \<le> length data \<Longrightarrow> length data - off < fuel \<Longrightarrow>
    \<exists>kept m. scan_log dec fuel data off l = Some (kept, m)"
proof (induction fuel arbitrary: off l)
  case (Suc fuel)
  show ?case
  proof (cases "dec data off")
    case (DecOk e off')
    with adv have "off < off'" "off' \<le> length data" by blast+
    with Suc.prems have "length data - off' < fuel" by linarith
    with Suc.IH [OF \<open>off' \<le> length data\<close>] DecOk show ?thesis by simp
  qed simp_all
qed simp

end
