(* ===== verification/Json.thy ===== *)
theory Json
  imports GoNet "HOL-Library.Sublist"
begin

text \<open>
  JSON documents as the program sees them after \<open>json.Unmarshal\<close> into \<open>any\<close>, the JSONPath subset
  of \<open>pkg/matcher\<close> (\<open>parseJSONPath\<close>, \<open>JSONPathValue\<close>, \<open>removeJSONPath\<close>, \<open>stringValue\<close>) and
  \<open>json.Marshal\<close>. A number is kept as the text \<open>Marshal\<close> prints for it. An object is a map, so its
  association list has distinct keys and its order carries no meaning.
\<close>

datatype json =
    JNull
  | JBool bool
  | JNum string
  | JStr string
  | JArr "json list"
  | JObj "(string \<times> json) list"

section \<open>json.Marshal\<close>

text \<open>The escapes of the encoder with HTML escaping on; U+2028 and U+2029 are escaped too. Other
  bytes from 128 up belong to valid UTF-8 after \<open>Unmarshal\<close> and are copied.\<close>

definition hex2 :: "nat \<Rightarrow> string" where
  "hex2 n = [hex_char (n div 16), hex_char (n mod 16)]"

definition escape_char :: "char \<Rightarrow> string" where
  "escape_char c =
     (let n = byte c in
      if n = 34 \<or> n = 92 then [chr 92, c]
      else if n = 8 then [chr 92, CHR ''b''] else if n = 12 then [chr 92, CHR ''f'']
      else if n = 10 then [chr 92, CHR ''n''] else if n = 13 then [chr 92, CHR ''r'']
      else if n = 9 then [chr 92, CHR ''t'']
      else if n < 32 \<or> n = 60 \<or> n = 62 \<or> n = 38 then [chr 92, CHR ''u'', CHR ''0'', CHR ''0''] @ hex2 n
      else [c])"

fun escape_json :: "string \<Rightarrow> string" where
  "escape_json (a # b # c # s) =
     (if byte a = 226 \<and> byte b = 128 \<and> (byte c = 168 \<or> byte c = 169)
      then [chr 92, CHR ''u'', CHR ''2'', CHR ''0'', CHR ''2'', hex_char (byte c - 160)] @ escape_json s
      else escape_char a @ escape_json (b # c # s))"
| "escape_json (a # s) = escape_char a @ escape_json s"
| "escape_json [] = []"

definition quote :: "string \<Rightarrow> string" where
  "quote s = [chr 34] @ escape_json s @ [chr 34]"

definition member_text :: "string \<times> string \<Rightarrow> string" where
  "member_text m = quote (fst m) @ '':'' @ snd m"

fun marshal :: "json \<Rightarrow> string" where
  "marshal JNull = ''null''"
| "marshal (JBool b) = (if b then ''true'' else ''false'')"
| "marshal (JNum t) = t"
| "marshal (JStr s) = quote s"
| "marshal (JArr xs) = ''['' @ join '','' (map marshal xs) @ '']''"
| "marshal (JObj kvs) =
     ''{'' @ join '','' (map member_text
       (stable_sort (\<lambda>a b. fst a < fst b) (map (\<lambda>(k, v). (k, marshal v)) kvs))) @ ''}''"

text \<open>\<open>stringValue\<close> of \<open>pkg/matcher\<close>: a string itself, nothing for null, the JSON text otherwise.\<close>

fun string_value :: "json \<Rightarrow> string" where
  "string_value (JStr s) = s"
| "string_value JNull = []"
| "string_value v = marshal v"

section \<open>JSON paths\<close>

datatype jptok = PKey string | PIdx nat

datatype path_error = BadPathStart | BadArrayIndex | BadPathNear string

definition plain_key_char :: "char \<Rightarrow> bool" where
  "plain_key_char c \<longleftrightarrow> c \<noteq> CHR ''.'' \<and> c \<noteq> CHR ''[''"

text \<open>An index in brackets: the token and what follows the closing bracket and one dot.\<close>

definition path_index :: "string \<Rightarrow> (path_error, nat \<times> string) result" where
  "path_index r =
     (case index_byte r (CHR '']'') of
        None \<Rightarrow> Inl BadArrayIndex
      | Some cl \<Rightarrow>
          if cl < 2 then Inl BadArrayIndex
          else case atoi (take (cl - 1) (drop 1 r)) of
                 None \<Rightarrow> Inl BadArrayIndex
               | Some i \<Rightarrow>
                   if i < 0 then Inl BadArrayIndex
                   else Inr (nat i, (let rest = drop (cl + 1) r
                                     in if has_prefix rest ''.'' then drop 1 rest else rest)))"

lemma path_index_shorter: "path_index r = Inr (i, rest) \<Longrightarrow> length rest < length r"
  by (auto simp: path_index_def Let_def index_byte_def dest!: index_where_less
      split: option.splits if_splits)

function path_loop :: "string \<Rightarrow> (path_error, jptok list) result" where
  "path_loop [] = Inr []"
| "path_loop (c # s) =
     (let w = takeWhile plain_key_char (c # s);
          r = dropWhile plain_key_char (c # s);
          key = (if w = [] then [] else [PKey w])
      in if has_prefix r ''.'' then
           and_then (path_loop (drop 1 r)) (\<lambda>ts. Inr (key @ ts))
         else if has_prefix r ''['' then
           and_then (path_index r) (\<lambda>(i, rest).
             and_then (path_loop rest) (\<lambda>ts. Inr (key @ PIdx i # ts)))
         else if w = [] then Inl (BadPathNear r)
         else and_then (path_loop r) (\<lambda>ts. Inr (key @ ts)))"
  by pat_completeness auto
termination
proof (relation "measure length", goal_cases)
  case (2 c s w r key)
  then have r: "r = dropWhile plain_key_char (c # s)" by (simp only:)
  from 2 have "has_prefix r ''.''" by (simp only:)
  then have pos: "0 < length r" by (auto simp: has_prefix_append)
  from r have "length r \<le> length (c # s)" by (metis length_dropWhile_le)
  with pos have "length (drop 1 r) < length (c # s)" unfolding length_drop by linarith
  then show ?case by (simp only: in_measure)
next
  case (3 c s w r key x i rest)
  then have r: "r = dropWhile plain_key_char (c # s)" by (simp only:)
  from 3 have "length rest < length r" by (auto simp only: dest: path_index_shorter)
  with r have "length rest < length (c # s)" by (metis length_dropWhile_le order_less_le_trans)
  then show ?case by (simp only: in_measure)
next
  case (4 c s w r key)
  then have r: "r = dropWhile plain_key_char (c # s)" by (simp only:)
  from 4 have "plain_key_char c" by (auto split: if_splits)
  with r have "length r \<le> length s" by (simp add: length_dropWhile_le)
  then show ?case by simp
qed simp

text \<open>\<open>parseJSONPath\<close>.\<close>

definition parse_json_path :: "string \<Rightarrow> (path_error, jptok list) result" where
  "parse_json_path path =
     (if path = ''$'' then Inr []
      else if has_prefix path ''$.'' then path_loop (drop 2 path)
      else if has_prefix path ''$['' then path_loop (drop 1 path)
      else Inl BadPathStart)"

section \<open>Reading and removing\<close>

fun json_child :: "json \<Rightarrow> jptok \<Rightarrow> json option" where
  "json_child (JArr xs) (PIdx i) = (if i < length xs then Some (xs ! i) else None)"
| "json_child (JObj kvs) (PKey k) = map_of kvs k"
| "json_child _ _ = None"

fun json_at :: "json \<Rightarrow> jptok list \<Rightarrow> json option" where
  "json_at j [] = Some j"
| "json_at j (t # ts) = (case json_child j t of None \<Rightarrow> None | Some c \<Rightarrow> json_at c ts)"

text \<open>\<open>JSONPathValue\<close>: \<open>None\<close> when the path is malformed or leads nowhere.\<close>

definition json_path_value :: "json \<Rightarrow> string \<Rightarrow> json option" where
  "json_path_value root path = (case parse_json_path path of Inl _ \<Rightarrow> None | Inr ts \<Rightarrow> json_at root ts)"

text \<open>Writing through a path: walk to the container of the last token, then apply \<open>f\<close> to it there.
  A walk that leaves the document changes nothing. The decoder builds a tree, so the in-place
  update of the Go code is this functional update.\<close>

fun json_put :: "json \<Rightarrow> jptok \<Rightarrow> json \<Rightarrow> json" where
  "json_put (JArr xs) (PIdx i) c = JArr (xs[i := c])"
| "json_put (JObj kvs) (PKey k) c = JObj (AList.update k c kvs)"
| "json_put j _ _ = j"

fun json_edit :: "(json \<Rightarrow> jptok \<Rightarrow> json) \<Rightarrow> json \<Rightarrow> jptok list \<Rightarrow> json" where
  "json_edit f j [] = j"
| "json_edit f j [t] = f j t"
| "json_edit f j (t # u # ts) =
     (case json_child j t of None \<Rightarrow> j | Some c \<Rightarrow> json_put j t (json_edit f c (u # ts)))"

text \<open>\<open>removeJSONPath\<close> deletes an object member and sets an array element to null.\<close>

fun json_drop :: "json \<Rightarrow> jptok \<Rightarrow> json" where
  "json_drop (JArr xs) (PIdx i) = JArr (xs[i := JNull])"
| "json_drop (JObj kvs) (PKey k) = JObj (AList.delete k kvs)"
| "json_drop j _ = j"

definition remove_json_path :: "json \<Rightarrow> string \<Rightarrow> json" where
  "remove_json_path root path =
     (case parse_json_path path of Inl _ \<Rightarrow> root | Inr ts \<Rightarrow> json_edit json_drop root ts)"

section \<open>Laws of paths\<close>

lemma json_at_append:
  "json_at j (p @ q) = (case json_at j p of None \<Rightarrow> None | Some c \<Rightarrow> json_at c q)"
  by (induction j p rule: json_at.induct) (auto split: option.splits)

lemma json_child_put [simp]:
  "json_child j t = Some c \<Longrightarrow> json_child (json_put j t d) t = Some d"
  by (cases "(j, t)" rule: json_child.cases) (auto split: if_splits simp: update_conv')

lemma json_child_put_other [simp]: "t \<noteq> u \<Longrightarrow> json_child (json_put j t d) u = json_child j u"
  by (cases "(j, t)" rule: json_child.cases; cases u) (auto simp: update_conv')

lemma json_child_drop: "json_child (json_drop j t) t \<in> {None, Some JNull}"
  by (cases "(j, t)" rule: json_child.cases) (auto simp: delete_conv')

lemma json_child_drop_other [simp]: "t \<noteq> u \<Longrightarrow> json_child (json_drop j t) u = json_child j u"
  by (cases "(j, t)" rule: json_child.cases; cases u) (auto simp: delete_conv')

text \<open>An editing step is local when it leaves the other children of the container alone.\<close>

locale local_edit =
  fixes f :: "json \<Rightarrow> jptok \<Rightarrow> json"
  assumes other_child: "t \<noteq> u \<Longrightarrow> json_child (f j t) u = json_child j u"
begin

lemma edit_elsewhere: "p \<parallel> q \<Longrightarrow> json_at (json_edit f j p) q = json_at j q"
proof (induction p arbitrary: j q)
  case (Cons t p)
  show ?case
  proof (cases p)
    case Nil
    with Cons.prems obtain u us where "q = u # us" "t \<noteq> u" by (cases q) auto
    with Nil show ?thesis by (simp add: other_child)
  next
    case (Cons v vs)
    note p = this
    from Cons.prems obtain u us where q: "q = u # us" by (cases q) auto
    show ?thesis
    proof (cases "json_child j t")
      case (Some c)
      show ?thesis
      proof (cases "t = u")
        case True
        with Cons.prems q have "p \<parallel> us" by (auto simp: parallel_def)
        then have "json_at (json_edit f c p) us = json_at c us" by (rule Cons.IH)
        with True Some p q show ?thesis by simp
      next
        case False
        with Some p q show ?thesis by simp
      qed
    qed (simp add: p)
  qed
qed simp

end

interpretation drop_edit: local_edit json_drop
  by unfold_locales simp

lemma edit_reaches:
  assumes "p \<noteq> []"
  shows "json_at (json_edit f j p) p =
    (case json_at j (butlast p) of None \<Rightarrow> None | Some c \<Rightarrow> json_child (f c (last p)) (last p))"
  using assms
proof (induction p arbitrary: j)
  case (Cons t p)
  show ?case
  proof (cases p)
    case (Cons v vs)
    with Cons.IH show ?thesis by (auto split: option.splits)
  qed (auto split: option.splits)
qed simp

lemma remove_gone: "p \<noteq> [] \<Longrightarrow> json_at (json_edit json_drop j p) p \<in> {None, Some JNull}"
  using json_child_drop by (auto simp: edit_reaches split: option.splits)

section \<open>Printing a path and reading it back\<close>

definition tok_text :: "jptok \<Rightarrow> string" where
  "tok_text t = (case t of PKey k \<Rightarrow> CHR ''.'' # k | PIdx i \<Rightarrow> CHR ''['' # nat_digits i @ '']'')"

definition path_text :: "jptok list \<Rightarrow> string" where
  "path_text ts = CHR ''$'' # concat (map tok_text ts)"

definition plain_tok :: "jptok \<Rightarrow> bool" where
  "plain_tok t \<longleftrightarrow>
     (case t of PKey k \<Rightarrow> k \<noteq> [] \<and> (\<forall>c\<in>set k. plain_key_char c) | PIdx i \<Rightarrow> int i < 2 ^ 63)"

text \<open>The text of a path behind its first separator.\<close>

fun path_body :: "jptok list \<Rightarrow> string" where
  "path_body [] = []"
| "path_body (PKey k # ts) = k @ concat (map tok_text ts)"
| "path_body (PIdx i # ts) = concat (map tok_text (PIdx i # ts))"

definition after_dot :: "string \<Rightarrow> string" where
  "after_dot s = (if has_prefix s ''.'' then drop 1 s else s)"

lemma after_dot_text: "after_dot (concat (map tok_text ts)) = path_body ts"
proof (cases ts)
  case (Cons t us)
  then show ?thesis by (cases t) (auto simp: after_dot_def has_prefix_def tok_text_def)
qed (simp add: after_dot_def has_prefix_def)

lemma bracket_not_digit: "CHR '']'' \<notin> set (nat_digits i)"
  using nat_digits_all_digits [of "CHR '']''" i] by (auto simp: is_digit_def byte_def)

lemma index_byte_append: "c \<notin> set s \<Longrightarrow> index_byte (s @ c # t) c = Some (length s)"
  unfolding index_byte_def by (induction s) auto

lemma path_index_text:
  assumes "int i < 2 ^ 63"
  shows "path_index (CHR ''['' # nat_digits i @ CHR '']'' # t) = Inr (i, after_dot t)"
proof -
  have "index_byte (CHR ''['' # nat_digits i @ CHR '']'' # t) (CHR '']'') = Some (Suc (length (nat_digits i)))"
    using index_byte_append [of "CHR '']''" "CHR ''['' # nat_digits i" t] bracket_not_digit by simp
  moreover have "0 < length (nat_digits i)" by simp
  ultimately show ?thesis
    using atoi_nat_digits [OF assms] by (simp add: path_index_def after_dot_def Let_def)
qed

lemma path_loop_bracket:
  "path_loop (CHR ''['' # s) =
   and_then (path_index (CHR ''['' # s)) (\<lambda>(i, rest). and_then (path_loop rest) (\<lambda>ts. Inr (PIdx i # ts)))"
  by (simp add: plain_key_char_def has_prefix_def)

lemma path_loop_key:
  assumes "k \<noteq> []" and "\<forall>c\<in>set k. plain_key_char c" and "r = [] \<or> (\<exists>c s. r = c # s \<and> \<not> plain_key_char c)"
  shows "path_loop (k @ r) = and_then (path_loop (after_dot r)) (\<lambda>ts. Inr (PKey k # ts))"
proof -
  obtain c k' where k: "k = c # k'" using assms(1) by (cases k) auto
  have w: "takeWhile plain_key_char (k @ r) = k" "dropWhile plain_key_char (k @ r) = r"
    using assms(2,3) by (auto simp: takeWhile_append dropWhile_append)
  have unf: "path_loop (k @ r) =
     (if has_prefix r ''.'' then and_then (path_loop (drop 1 r)) (\<lambda>ts. Inr (PKey k # ts))
      else if has_prefix r ''['' then
        and_then (path_index r) (\<lambda>(i, rest). and_then (path_loop rest) (\<lambda>ts. Inr (PKey k # PIdx i # ts)))
      else and_then (path_loop r) (\<lambda>ts. Inr (PKey k # ts)))"
    using w assms(1) unfolding k append_Cons path_loop.simps by (simp add: Let_def)
  show ?thesis
  proof (cases "has_prefix r ''[''")
    case True
    then obtain s where "r = CHR ''['' # s" by (auto simp: has_prefix_append)
    then show ?thesis
      unfolding unf
      by (simp add: path_loop_bracket has_prefix_def after_dot_def and_then_def del: path_loop.simps
          split: sum.splits prod.splits)
  qed (simp add: unf after_dot_def del: path_loop.simps)
qed

lemma path_loop_body: "\<forall>t\<in>set ts. plain_tok t \<Longrightarrow> path_loop (path_body ts) = Inr ts"
proof (induction ts)
  case (Cons t ts)
  then have IH: "path_loop (path_body ts) = Inr ts" by simp
  show ?case
  proof (cases t)
    case (PKey k)
    have r: "concat (map tok_text ts) = [] \<or> (\<exists>c s. concat (map tok_text ts) = c # s \<and> \<not> plain_key_char c)"
      by (cases ts) (auto simp: tok_text_def plain_key_char_def split: jptok.split)
    from Cons.prems PKey have "k \<noteq> []" "\<forall>c\<in>set k. plain_key_char c" by (auto simp: plain_tok_def)
    from path_loop_key [OF this r] show ?thesis
      by (simp add: PKey after_dot_text IH del: path_loop.simps)
  next
    case (PIdx i)
    with Cons.prems have "int i < 2 ^ 63" by (simp add: plain_tok_def)
    from path_index_text [OF this, of "concat (map tok_text ts)"] show ?thesis
      by (simp add: PIdx tok_text_def path_loop_bracket after_dot_text IH del: path_loop.simps)
  qed
qed simp

lemma parse_path_text: "\<forall>t\<in>set ts. plain_tok t \<Longrightarrow> parse_json_path (path_text ts) = Inr ts"
proof (cases ts)
  case (Cons t us)
  assume "\<forall>t\<in>set ts. plain_tok t"
  then have "path_loop (path_body ts) = Inr ts" by (rule path_loop_body)
  with Cons show ?thesis
    by (cases t) (auto simp: parse_json_path_def path_text_def tok_text_def has_prefix_def
        simp del: path_loop.simps)
qed (simp add: parse_json_path_def path_text_def)

section \<open>Properties\<close>

text \<open>Paths round trip: printing a list of tokens whose keys are not empty and contain neither
  a dot nor an opening bracket gives a path that \<open>parseJSONPath\<close> reads back as the same tokens.\<close>

theorem json_path_roundtrip:
  assumes "\<forall>t\<in>set ts. plain_tok t"
  shows "parse_json_path (path_text ts) = Inr ts"
  using assms by (rule parse_path_text)

theorem json_path_roundtrip_witness:
  "parse_json_path (path_text [PKey ''orders'', PIdx 0, PKey ''id'']) = Inr [PKey ''orders'', PIdx 0, PKey ''id'']
   \<and> path_text [PKey ''orders'', PIdx 0, PKey ''id''] = ''$.orders[0].id''"
proof -
  have "\<forall>t\<in>set [PKey ''orders'', PIdx 0, PKey ''id'']. plain_tok t"
    by (simp add: plain_tok_def plain_key_char_def)
  from json_path_roundtrip [OF this] show ?thesis by code_simp
qed

text \<open>\<open>removeJSONPath\<close> removes exactly what it names: afterwards the path leads nowhere or to
  null, and every path that is neither inside it nor above it reads as before. (An array element is
  set to null, not removed, so the indexes behind it keep their meaning.)\<close>

theorem remove_json_path_exact:
  assumes "parse_json_path path = Inr p" and "p \<noteq> []"
  shows "json_at (remove_json_path j path) p \<in> {None, Some JNull} \<and>
    (\<forall>q. p \<parallel> q \<longrightarrow> json_at (remove_json_path j path) q = json_at j q)"
  using assms remove_gone [of p j] drop_edit.edit_elsewhere [of p _ j]
  by (simp add: remove_json_path_def)

theorem remove_json_path_exact_witness:
  "json_at (remove_json_path (JObj [(''id'', JNum ''7''), (''tags'', JArr [JStr ''a'', JStr ''b''])]) ''$.tags[0]'')
     [PKey ''tags'', PIdx 0] \<in> {None, Some JNull} \<and>
   json_at (remove_json_path (JObj [(''id'', JNum ''7''), (''tags'', JArr [JStr ''a'', JStr ''b''])]) ''$.tags[0]'')
     [PKey ''tags'', PIdx 1] = Some (JStr ''b'')"
proof -
  let ?j = "JObj [(''id'', JNum ''7''), (''tags'', JArr [JStr ''a'', JStr ''b''])]"
  have p: "parse_json_path ''$.tags[0]'' = Inr [PKey ''tags'', PIdx 0]" by code_simp
  have "[PKey ''tags'', PIdx 0] \<parallel> [PKey ''tags'', PIdx 1]" by (simp add: parallel_def)
  then have "json_at (remove_json_path ?j ''$.tags[0]'') [PKey ''tags'', PIdx 1] = json_at ?j [PKey ''tags'', PIdx 1]"
    using remove_json_path_exact [OF p, of ?j] by blast
  also have "\<dots> = Some (JStr ''b'')" by simp
  finally show ?thesis using remove_json_path_exact [OF p, of ?j] by blast
qed

end
