(* ===== verification/GoEnv.thy ===== *)
theory GoEnv
  imports Event Json
begin

text \<open>
  What the models take as given, collected in one record that the definitions pass around: the
  regular expression compiler (\<open>regexp.Compile\<close>, giving the \<open>MatchString\<close> of the compiled
  expression), \<open>url.Parse\<close>, \<open>json.Unmarshal\<close> into \<open>any\<close>, the Protobuf libraries behind
  \<open>pkg/grpcsim\<close>, \<open>URL.String\<close> and \<open>RequestURI\<close>, \<open>Response.Cookies\<close>, the \<open>%v\<close> and \<open>%q\<close> formats, the
  conversion of a JSON number to \<open>int64\<close>, the syntax check of \<open>text/template\<close>, \<open>time.ParseDuration\<close>, SHA-256, HMAC, and
  the bytes \<open>DecodeString\<close> returns beside an error. Every
  theorem holds for every such record. Also here: the HTTP request as the handlers read it.
\<close>

type_synonym regex = "string \<Rightarrow> bool"

text \<open>\<open>grpcsim.Config\<close>.\<close>

record grpc_config =
  gcProtoFiles :: "string list"
  gcDescriptorSets :: "string list"
  gcImportPaths :: "string list"

definition grpc_config_empty :: "grpc_config \<Rightarrow> bool" where
  "grpc_config_empty c \<longleftrightarrow> gcProtoFiles c = [] \<and> gcDescriptorSets c = []"

text \<open>A loaded registry: which methods it knows, and its codecs, which end in the third-party
  Protobuf reflection library. A decoded message is JSON; encoding gives frames or an error text.\<close>

record grpc_registry =
  grHasMethod :: "string \<Rightarrow> bool"
  grDecodeRequest :: "string \<Rightarrow> string \<Rightarrow> (string, json) result"
  grEncodeMessage :: "string \<Rightarrow> string list \<Rightarrow> (string, string list) result"
  grEncodeResponse :: "string \<Rightarrow> string list \<Rightarrow> (string, string list) result"

text \<open>What a template sees (\<open>simtemplate.Data\<close>) and the functions it may call. A nil value and JSON
  null are the same here, as they are in Go after \<open>json.Unmarshal\<close>.\<close>

record template_data =
  tdMethod :: string
  tdURL :: string
  tdPath :: string
  tdHeaders :: header
  tdQuery :: header
  tdJSON :: json
  tdProtobuf :: json
  tdBody :: string

record template_funcs =
  tfJsonPath :: "string \<Rightarrow> json"
  tfProto :: "string \<Rightarrow> json"
  tfHeader :: "string \<Rightarrow> string"
  tfQuery :: "string \<Rightarrow> string"
  tfUuid :: "string \<Rightarrow> string"
  tfToken :: "string \<Rightarrow> string"
  tfNowUnix :: int
  tfToJSON :: "json \<Rightarrow> string"
  tfDefault :: "json \<Rightarrow> json \<Rightarrow> json"

text \<open>\<open>gTemplateOk\<close> and \<open>gTemplateExec\<close> are \<open>Parse\<close> and \<open>Execute\<close> of \<open>text/template\<close>.\<close>

record go_env =
  gCompile :: "string \<Rightarrow> regex option"
  gUrlParse :: "string \<Rightarrow> gourl option"
  gUnmarshal :: "string \<Rightarrow> json option"
  gGrpcLoad :: "grpc_config \<Rightarrow> grpc_registry option"
  gUrlString :: "gourl \<Rightarrow> string"
  gRequestURI :: "gourl \<Rightarrow> string"
  gCookies :: "header \<Rightarrow> (string \<times> string) list"
  gFormat :: "json \<Rightarrow> string"
  gNumInt :: "string \<Rightarrow> int"
  gQuote :: "string \<Rightarrow> string"
  gTemplateOk :: "string \<Rightarrow> bool"
  gTemplateExec :: "string \<Rightarrow> template_funcs \<Rightarrow> template_data \<Rightarrow> string option"
  gParseDuration :: "string \<Rightarrow> int option"
  gSha256 :: "string \<Rightarrow> string"
  gHmacSha256 :: "string \<Rightarrow> string \<Rightarrow> string"
  gB64Rest :: "string \<Rightarrow> string"

text \<open>\<open>simtemplate.Validate\<close>: the empty text is no template, and a template has at most 256 KiB.\<close>

definition validate_template :: "go_env \<Rightarrow> string \<Rightarrow> bool" where
  "validate_template E v \<longleftrightarrow> v = [] \<or> length v \<le> 262144 \<and> gTemplateOk E v"

text \<open>\<open>http.Request\<close>; the URL may be nil.\<close>

record request =
  rqMethod :: string
  rqURL :: "gourl option"
  rqHost :: string
  rqHeader :: header

text \<open>An environment for concrete examples: a regular expression matches itself only, a URL is
  \<open>http://host/path?query\<close>, nothing is JSON, a template is its own output.\<close>

definition simple_url :: "string \<Rightarrow> gourl option" where
  "simple_url s =
     (if has_prefix s ''http://'' then
        (let r = drop 7 s;
             h = takeWhile (\<lambda>c. c \<noteq> CHR ''/'') r;
             p = dropWhile (\<lambda>c. c \<noteq> CHR ''/'') r
         in Some \<lparr>uScheme = ''http'', uHost = h,
              uPath = takeWhile (\<lambda>c. c \<noteq> CHR ''?'') p, uRawPath = [],
              uRawQuery = drop 1 (dropWhile (\<lambda>c. c \<noteq> CHR ''?'') p)\<rparr>)
      else None)"

definition example_env :: go_env where
  "example_env = \<lparr>gCompile = (\<lambda>p. Some (\<lambda>s. s = p)), gUrlParse = simple_url,
     gUnmarshal = (\<lambda>_. None), gGrpcLoad = (\<lambda>_. None), 
     gUrlString = (\<lambda>u. uScheme u @ ''://'' @ uHost u @ uPath u @ ''?'' @ uRawQuery u),
     gRequestURI = (\<lambda>u. uPath u @ ''?'' @ uRawQuery u),
     gCookies = (\<lambda>h. map (\<lambda>v. dflt (v, []) (cut (CHR ''='') v)) (hvalues h ''Set-Cookie'')),
     gFormat = string_value, gNumInt = (\<lambda>t. dflt 0 (atoi t)), gQuote = quote,
     gTemplateOk = (\<lambda>_. True), gTemplateExec = (\<lambda>t _ _. Some t),
     gParseDuration = (\<lambda>_. None), gSha256 = (\<lambda>s. take 32 (s @ replicate 32 (CHR ''x''))),
     gHmacSha256 = (\<lambda>k s. take 32 (k @ s @ replicate 32 (CHR ''x''))),
     gB64Rest = (\<lambda>_. [])\<rparr>"

end
