(* ===== verification/Matcher.thy ===== *)
theory Matcher
  imports GoEnv
begin

text \<open>
  \<open>pkg/matcher\<close> (\<open>matcher.go\<close>): rules and their compilation (\<open>NewWithRegistry\<close>), the comparison
  of a request with a captured call (\<open>Match\<close>), standalone rules (\<open>RuleMatcher.Match\<close>), and the
  comparisons of hosts, queries and headers they use. A verdict is the pair Go returns: whether
  the request matches, and the reason when it does not.
\<close>

section \<open>Configuration and compiled rules\<close>

record match_rule =
  rlName :: string
  rlMethods :: "string list"
  rlHostRegex :: string
  rlPathRegex :: string
  rlHeaderRegex :: "(string \<times> string) list"
  rlQueryRegex :: "(string \<times> string) list"
  rlJSONPathRegex :: "(string \<times> string) list"
  rlGRPCMethod :: string
  rlProtobufFieldRegex :: "(string \<times> string) list"
  rlIgnoredProtobufFields :: "string list"
  rlIgnoredQueryParameters :: "string list"
  rlIgnoredHeaders :: "string list"
  rlIgnoredJSONPaths :: "string list"
  rlCompareHeaders :: bool
  rlCompareJSON :: bool
  rlCompareProtobuf :: bool

record match_config =
  mcIgnoredQueryParameters :: "string list"
  mcIgnoredHeaders :: "string list"
  mcIgnoredJSONPaths :: "string list"
  mcGRPC :: grpc_config
  mcRules :: "match_rule list"

definition no_matching :: match_config where
  "no_matching = \<lparr>mcIgnoredQueryParameters = [], mcIgnoredHeaders = [], mcIgnoredJSONPaths = [],
     mcGRPC = \<lparr>gcProtoFiles = [], gcDescriptorSets = [], gcImportPaths = []\<rparr>, mcRules = []\<rparr>"

record compiled_rule =
  crRule :: match_rule
  crHost :: "regex option"
  crPath :: "regex option"
  crHeaders :: "(string \<times> regex) list"
  crQuery :: "(string \<times> regex) list"
  crJson :: "(string \<times> regex) list"
  crProto :: "(string \<times> regex) list"

record matcher =
  maCfg :: match_config
  maRules :: "compiled_rule list"
  maGrpc :: "grpc_registry option"

datatype match_error =
    GrpcLoadFailed
  | BadHostRegex nat | BadPathRegex nat | BadHeaderRegex nat string | BadQueryRegex nat string
  | BadJSONPath nat string path_error | BadJSONPathRegex nat string
  | NeedsSchemas nat | UnknownGrpcMethod nat string
  | BadProtobufPath nat string path_error | BadProtobufRegex nat string
  | BadIgnoredProtobuf nat string path_error | BadIgnoredJSONPath string path_error

definition compile_opt :: "go_env \<Rightarrow> string \<Rightarrow> match_error \<Rightarrow> (match_error, regex option) result" where
  "compile_opt E p e =
     (if p = [] then Inr None else case gCompile E p of None \<Rightarrow> Inl e | Some r \<Rightarrow> Inr (Some r))"

text \<open>Compiling a map of patterns; later entries with the same key win.\<close>

definition compile_map ::
  "go_env \<Rightarrow> (string \<Rightarrow> string) \<Rightarrow> (string \<Rightarrow> (match_error, unit) result) \<Rightarrow> (string \<Rightarrow> match_error) \<Rightarrow>
   (string \<times> string) list \<Rightarrow> (match_error, (string \<times> regex) list) result" where
  "compile_map E key chk err ps =
     fold_err (\<lambda>m (name, pat). and_then (chk name) (\<lambda>_.
        case gCompile E pat of None \<Rightarrow> Inl (err name) | Some r \<Rightarrow> Inr (AList.update (key name) r m))) [] ps"

definition check_path :: "(path_error \<Rightarrow> match_error) \<Rightarrow> string \<Rightarrow> (match_error, unit) result" where
  "check_path f p = (case parse_json_path p of Inl e \<Rightarrow> Inl (f e) | Inr _ \<Rightarrow> Inr ())"

definition compile_rule ::
  "go_env \<Rightarrow> match_config \<Rightarrow> grpc_registry option \<Rightarrow> nat \<Rightarrow> match_rule \<Rightarrow> (match_error, compiled_rule) result" where
  "compile_rule E cfg grpc i r =
     and_then (compile_opt E (rlHostRegex r) (BadHostRegex i)) (\<lambda>host.
     and_then (compile_opt E (rlPathRegex r) (BadPathRegex i)) (\<lambda>path.
     and_then (compile_map E canonical_key (\<lambda>_. Inr ()) (BadHeaderRegex i) (rlHeaderRegex r)) (\<lambda>hs.
     and_then (compile_map E id (\<lambda>_. Inr ()) (BadQueryRegex i) (rlQueryRegex r)) (\<lambda>qs.
     and_then (compile_map E id (\<lambda>p. check_path (BadJSONPath i p) p) (BadJSONPathRegex i)
        (rlJSONPathRegex r)) (\<lambda>js.
     and_then (fail_if ((rlGRPCMethod r \<noteq> [] \<or> rlProtobufFieldRegex r \<noteq> [] \<or> rlCompareProtobuf r) \<and> Option.is_none grpc)
        (NeedsSchemas i)) (\<lambda>_.
     and_then (fail_if (rlGRPCMethod r \<noteq> [] \<and> \<not> (case grpc of None \<Rightarrow> False | Some g \<Rightarrow> grHasMethod g (rlGRPCMethod r)))
        (UnknownGrpcMethod i (rlGRPCMethod r))) (\<lambda>_.
     and_then (compile_map E id (\<lambda>p. check_path (BadProtobufPath i p) p) (BadProtobufRegex i)
        (rlProtobufFieldRegex r)) (\<lambda>ps.
     and_then (check_all (\<lambda>p. check_path (BadIgnoredProtobuf i p) p) (rlIgnoredProtobufFields r)) (\<lambda>_.
     and_then (check_all (\<lambda>p. check_path (BadIgnoredJSONPath p) p)
        (mcIgnoredJSONPaths cfg @ rlIgnoredJSONPaths r)) (\<lambda>_.
     Inr \<lparr>crRule = r, crHost = host, crPath = path, crHeaders = hs, crQuery = qs, crJson = js,
          crProto = ps\<rparr>))))))))))"

definition load_grpc ::
  "go_env \<Rightarrow> match_config \<Rightarrow> grpc_registry option \<Rightarrow> (match_error, grpc_registry option) result" where
  "load_grpc E cfg reg =
     (case reg of
        Some g \<Rightarrow> Inr (Some g)
      | None \<Rightarrow> if grpc_config_empty (mcGRPC cfg) then Inr None
                else case gGrpcLoad E (mcGRPC cfg) of None \<Rightarrow> Inl GrpcLoadFailed | Some g \<Rightarrow> Inr (Some g))"

text \<open>\<open>NewWithRegistry\<close> and \<open>New\<close>.\<close>

definition new_matcher ::
  "go_env \<Rightarrow> match_config \<Rightarrow> grpc_registry option \<Rightarrow> (match_error, matcher) result" where
  "new_matcher E cfg reg =
     and_then (load_grpc E cfg reg) (\<lambda>grpc.
     and_then (map_err (\<lambda>(i, r). compile_rule E cfg grpc i r) (enumerate 0 (mcRules cfg))) (\<lambda>rs.
     Inr \<lparr>maCfg = cfg, maRules = rs, maGrpc = grpc\<rparr>))"

section \<open>Hosts, paths, queries, headers\<close>

definition method_allowed :: "string list \<Rightarrow> string \<Rightarrow> bool" where
  "method_allowed ms m \<longleftrightarrow> ms = [] \<or> (\<exists>c\<in>set ms. equal_fold c m)"

definition strip_default_port :: "string \<Rightarrow> string" where
  "strip_default_port host = trim_suffix (trim_suffix (to_lower host) '':80'') '':443''"

definition equal_host :: "string \<Rightarrow> string \<Rightarrow> bool" where
  "equal_host a b \<longleftrightarrow> equal_fold (strip_default_port a) (strip_default_port b)"

definition strip_port :: "string \<Rightarrow> string" where
  "strip_port host =
     (case split_host_port host of Some (h, _) \<Rightarrow> trim_brackets h | None \<Rightarrow> trim_brackets host)"

definition escaped_path :: "gourl \<Rightarrow> string" where
  "escaped_path u = (if url_escaped_path u = [] then ''/'' else url_escaped_path u)"

definition drop_keys :: "string list \<Rightarrow> header \<Rightarrow> header" where
  "drop_keys ign h = filter (\<lambda>(k, _). k \<notin> set ign) h"

definition equal_query :: "header \<Rightarrow> header \<Rightarrow> string list \<Rightarrow> bool" where
  "equal_query a b ign \<longleftrightarrow> values_encode (drop_keys ign a) = values_encode (drop_keys ign b)"

definition add_header ::
  "string list \<Rightarrow> (string \<times> string) list \<Rightarrow> string \<times> string list \<Rightarrow> (string \<times> string) list" where
  "add_header ign out e =
     (let n = canonical_key (fst e)
      in if n \<in> canonical_key ` set ign then out
         else AList.update n (join [chr 0] (sort (snd e))) out)"

definition canonical_headers :: "string list \<Rightarrow> header \<Rightarrow> (string \<times> string) list" where
  "canonical_headers ign h = foldl (add_header ign) [] h"

definition equal_headers :: "header \<Rightarrow> header \<Rightarrow> string list \<Rightarrow> bool" where
  "equal_headers a b ign \<longleftrightarrow>
     (let l = canonical_headers ign a; r = canonical_headers ign b
      in length l = length r \<and> (\<forall>(n, v)\<in>set l. dflt [] (map_of r n) = v))"

section \<open>Matching a captured call\<close>

text \<open>\<open>ruleFor\<close>: the first rule whose selectors accept the request.\<close>

definition selects :: "string \<Rightarrow> string \<Rightarrow> string \<Rightarrow> compiled_rule \<Rightarrow> bool" where
  "selects m host path cr \<longleftrightarrow>
     method_allowed (rlMethods (crRule cr)) m \<and>
     (case crHost cr of None \<Rightarrow> True | Some re \<Rightarrow> re (strip_port host)) \<and>
     (case crPath cr of None \<Rightarrow> True | Some re \<Rightarrow> re path) \<and>
     (rlGRPCMethod (crRule cr) = [] \<or> rlGRPCMethod (crRule cr) = path)"

definition rule_for :: "matcher \<Rightarrow> string \<Rightarrow> string \<Rightarrow> string \<Rightarrow> compiled_rule option" where
  "rule_for ma m host path = List.find (selects m host path) (maRules ma)"

definition match_default :: "matcher \<Rightarrow> string \<Rightarrow> gourl \<Rightarrow> gourl \<Rightarrow> (string, unit) result" where
  "match_default ma host u cu =
     and_then (fail_if (\<not> equal_host host (uHost cu)) ''host mismatch'') (\<lambda>_.
     and_then (fail_if (escaped_path u \<noteq> escaped_path cu) ''path mismatch'') (\<lambda>_.
     fail_if (\<not> equal_query (url_query u) (url_query cu) (mcIgnoredQueryParameters (maCfg ma)))
       ''query mismatch''))"

definition match_target ::
  "compiled_rule \<Rightarrow> string \<Rightarrow> gourl \<Rightarrow> gourl \<Rightarrow> string \<Rightarrow> (string, unit) result" where
  "match_target cr host u cu capturedMethod =
     and_then (fail_if (\<not> method_allowed (rlMethods (crRule cr)) capturedMethod)
        ''captured method does not satisfy rule'') (\<lambda>_.
     and_then (case crHost cr of
          Some re \<Rightarrow> fail_if (\<not> re (strip_port host) \<or> \<not> re (strip_port (uHost cu))) ''host regex mismatch''
        | None \<Rightarrow> fail_if (\<not> equal_host host (uHost cu)) ''host mismatch'') (\<lambda>_.
     case crPath cr of
       Some re \<Rightarrow> fail_if (\<not> re (uPath u) \<or> \<not> re (uPath cu)) ''path regex mismatch''
     | None \<Rightarrow> fail_if (escaped_path u \<noteq> escaped_path cu) ''path mismatch''))"

definition match_fields ::
  "matcher \<Rightarrow> compiled_rule \<Rightarrow> gourl \<Rightarrow> gourl \<Rightarrow> header \<Rightarrow> header \<Rightarrow> (string, unit) result" where
  "match_fields ma cr u cu hdr capturedHdr =
     and_then (fail_if (\<not> equal_query (url_query u) (url_query cu)
          (mcIgnoredQueryParameters (maCfg ma) @ rlIgnoredQueryParameters (crRule cr) @ map fst (crQuery cr)))
        ''query mismatch'') (\<lambda>_.
     and_then (check_all (\<lambda>(n, re). fail_if (\<not> re (qget (url_query u) n)) (''query regex mismatch: '' @ n))
        (crQuery cr)) (\<lambda>_.
     and_then (check_all (\<lambda>(n, re). fail_if (\<not> re (hget hdr n)) (''header regex mismatch: '' @ n))
        (crHeaders cr)) (\<lambda>_.
     fail_if (rlCompareHeaders (crRule cr) \<and>
          \<not> equal_headers hdr capturedHdr
             (mcIgnoredHeaders (maCfg ma) @ rlIgnoredHeaders (crRule cr) @ map fst (crHeaders cr)))
        ''header mismatch'')))"

text \<open>The regular expressions on the values of a document.\<close>

definition match_values :: "string \<Rightarrow> json \<Rightarrow> (string \<times> regex) list \<Rightarrow> (string, unit) result" where
  "match_values msg doc res =
     check_all (\<lambda>(p, re). fail_if (\<not> (case json_path_value doc p of None \<Rightarrow> False | Some v \<Rightarrow> re (string_value v)))
        (msg @ p)) res"

definition remove_paths :: "json \<Rightarrow> string list \<Rightarrow> json" where
  "remove_paths = foldl remove_json_path"

definition match_json ::
  "go_env \<Rightarrow> matcher \<Rightarrow> compiled_rule \<Rightarrow> event \<Rightarrow> string \<Rightarrow> (string, unit) result" where
  "match_json E ma cr captured body =
     (if crJson cr = [] \<and> \<not> rlCompareJSON (crRule cr) then Inr ()
      else case gUnmarshal E body of
        None \<Rightarrow> Inl ''request body is not valid JSON''
      | Some doc \<Rightarrow>
          and_then (match_values ''JSONPath regex mismatch: '' doc (crJson cr)) (\<lambda>_.
          if \<not> rlCompareJSON (crRule cr) then Inr ()
          else case b64_decode (evBodyB64 captured) of
            None \<Rightarrow> Inl ''captured JSON body unavailable''
          | Some cb \<Rightarrow>
              if cb = [] then Inl ''captured JSON body unavailable''
              else case gUnmarshal E cb of
                None \<Rightarrow> Inl ''captured body is not valid JSON''
              | Some expected \<Rightarrow>
                  (let ps = mcIgnoredJSONPaths (maCfg ma) @ rlIgnoredJSONPaths (crRule cr) @ map fst (crJson cr)
                   in fail_if (marshal (remove_paths doc ps) \<noteq> marshal (remove_paths expected ps))
                        ''JSON body mismatch'')))"

definition match_protobuf ::
  "matcher \<Rightarrow> compiled_rule \<Rightarrow> gourl \<Rightarrow> event \<Rightarrow> string \<Rightarrow> (string, unit) result" where
  "match_protobuf ma cr u captured body =
     (if crProto cr = [] \<and> \<not> rlCompareProtobuf (crRule cr) then Inr ()
      else case maGrpc ma of
        None \<Rightarrow> Inl ''Protobuf descriptors unavailable''
      | Some g \<Rightarrow>
          (let mp = (if rlGRPCMethod (crRule cr) \<noteq> [] then rlGRPCMethod (crRule cr) else uPath u)
           in case grDecodeRequest g mp body of
                Inl e \<Rightarrow> Inl (''request Protobuf unavailable: '' @ e)
              | Inr doc \<Rightarrow>
                  and_then (match_values ''Protobuf field regex mismatch: '' doc (crProto cr)) (\<lambda>_.
                  if \<not> rlCompareProtobuf (crRule cr) then Inr ()
                  else case b64_decode (evBodyB64 captured) of
                    None \<Rightarrow> Inl ''captured Protobuf body unavailable''
                  | Some cb \<Rightarrow>
                      if cb = [] then Inl ''captured Protobuf body unavailable''
                      else case grDecodeRequest g mp cb of
                        Inl e \<Rightarrow> Inl (''captured Protobuf unavailable: '' @ e)
                      | Inr expected \<Rightarrow>
                          (let ps = rlIgnoredProtobufFields (crRule cr) @ map fst (crProto cr)
                           in fail_if (marshal (remove_paths doc ps) \<noteq> marshal (remove_paths expected ps))
                                ''Protobuf message mismatch''))))"

definition request_host :: "request \<Rightarrow> gourl \<Rightarrow> string" where
  "request_host rq u = (if uHost u = [] then rqHost rq else uHost u)"

text \<open>\<open>Matcher.Match\<close>.\<close>

definition match_checks ::
  "go_env \<Rightarrow> matcher \<Rightarrow> event \<Rightarrow> request \<Rightarrow> string \<Rightarrow> (string, unit) result" where
  "match_checks E ma captured rq body =
     (case rqURL rq of
        None \<Rightarrow> Inl ''missing request URL''
      | Some u \<Rightarrow>
          (case gUrlParse E (evURL captured) of
             None \<Rightarrow> Inl ''captured URL is invalid''
           | Some cu \<Rightarrow>
               (let host = request_host rq u in
                and_then (fail_if (\<not> equal_fold (to_upper (rqMethod rq)) (to_upper (evMethod captured)))
                   ''method mismatch'') (\<lambda>_.
                case rule_for ma (rqMethod rq) host (escaped_path u) of
                  None \<Rightarrow> match_default ma host u cu
                | Some cr \<Rightarrow>
                    and_then (match_target cr host u cu (evMethod captured)) (\<lambda>_.
                    and_then (match_fields ma cr u cu (rqHeader rq) (evHeaders captured)) (\<lambda>_.
                    and_then (match_json E ma cr captured body) (\<lambda>_.
                    match_protobuf ma cr u captured body)))))))"

definition verdict :: "(string, unit) result \<Rightarrow> bool \<times> string" where
  "verdict r = (case r of Inl why \<Rightarrow> (False, why) | Inr _ \<Rightarrow> (True, []))"

lemma verdict_ok [simp]: "fst (verdict r) \<longleftrightarrow> r = Inr ()"
  by (cases r) (auto simp: verdict_def)

definition match_event :: "go_env \<Rightarrow> matcher \<Rightarrow> event \<Rightarrow> request \<Rightarrow> string \<Rightarrow> bool \<times> string" where
  "match_event E ma captured rq body = verdict (match_checks E ma captured rq body)"

section \<open>Standalone rules\<close>

text \<open>\<open>CompileRuleWithRegistry\<close>: a matcher with one rule. \<open>RuleMatcher.Match\<close> looks at the request
  only; its path selector sees the decoded path.\<close>

definition compile_rule_matcher ::
  "go_env \<Rightarrow> match_rule \<Rightarrow> match_config \<Rightarrow> grpc_registry option \<Rightarrow> (match_error, matcher) result" where
  "compile_rule_matcher E r cfg reg = new_matcher E (cfg\<lparr>mcRules := [r]\<rparr>) reg"

definition rule_protobuf :: "matcher \<Rightarrow> compiled_rule \<Rightarrow> gourl \<Rightarrow> string \<Rightarrow> (string, unit) result" where
  "rule_protobuf ma cr u body =
     (if crProto cr = [] \<and> \<not> rlCompareProtobuf (crRule cr) then Inr ()
      else case maGrpc ma of
        None \<Rightarrow> Inl ''Protobuf descriptors unavailable''
      | Some g \<Rightarrow>
          (case grDecodeRequest g (if rlGRPCMethod (crRule cr) \<noteq> [] then rlGRPCMethod (crRule cr) else uPath u) body of
             Inl e \<Rightarrow> Inl (''request Protobuf unavailable: '' @ e)
           | Inr doc \<Rightarrow> match_values ''Protobuf field regex mismatch: '' doc (crProto cr)))"

definition rule_checks :: "go_env \<Rightarrow> matcher \<Rightarrow> request \<Rightarrow> string \<Rightarrow> (string, unit) result" where
  "rule_checks E ma rq body =
     (case rqURL rq of
        None \<Rightarrow> Inl ''missing request URL''
      | Some u \<Rightarrow>
          (case rule_for ma (rqMethod rq) (request_host rq u) (uPath u) of
             None \<Rightarrow> Inl ''rule selector mismatch''
           | Some cr \<Rightarrow>
               and_then (check_all (\<lambda>(n, re). fail_if (\<not> re (hget (rqHeader rq) n)) (''header regex mismatch: '' @ n))
                  (crHeaders cr)) (\<lambda>_.
               and_then (check_all (\<lambda>(n, re). fail_if (\<not> re (qget (url_query u) n)) (''query regex mismatch: '' @ n))
                  (crQuery cr)) (\<lambda>_.
               and_then (if crJson cr = [] then Inr ()
                  else case gUnmarshal E body of
                         None \<Rightarrow> Inl ''request body is not valid JSON''
                       | Some doc \<Rightarrow> match_values ''JSONPath regex mismatch: '' doc (crJson cr)) (\<lambda>_.
               rule_protobuf ma cr u body)))))"

definition match_standalone :: "go_env \<Rightarrow> matcher \<Rightarrow> request \<Rightarrow> string \<Rightarrow> bool \<times> string" where
  "match_standalone E ma rq body = verdict (rule_checks E ma rq body)"

text \<open>\<open>Explain\<close>: the verdict for every candidate, in order.\<close>

record explanation =
  exIndex :: nat
  exMethod :: string
  exURL :: string
  exMatched :: bool
  exReason :: string

definition explain :: "go_env \<Rightarrow> matcher \<Rightarrow> event list \<Rightarrow> request \<Rightarrow> string \<Rightarrow> explanation list" where
  "explain E ma cands rq body =
     map (\<lambda>(i, c). let v = match_event E ma c rq body
        in \<lparr>exIndex = i, exMethod = evMethod c, exURL = evURL c, exMatched = fst v, exReason = snd v\<rparr>)
       (enumerate 0 cands)"

section \<open>What the comparisons mean\<close>

lemma hvalues_drop_keys: "hvalues (drop_keys ign h) k = (if k \<in> set ign then [] else hvalues h k)"
  by (induction h) (auto simp: drop_keys_def hvalues_def)

lemma wf_drop_keys: "wf_values h \<Longrightarrow> wf_values (drop_keys ign h)"
  by (induction h) (auto simp: wf_values_def drop_keys_def image_iff)

text \<open>Comparing two encoded queries is comparing the values of every key that is not ignored.\<close>

lemma equal_query_iff:
  assumes "wf_values a" and "wf_values b"
  shows "equal_query a b ign \<longleftrightarrow> (\<forall>k. k \<notin> set ign \<longrightarrow> hvalues a k = hvalues b k)"
  using assms by (auto simp: equal_query_def values_encode_eq wf_drop_keys hvalues_drop_keys)

lemma equal_query_sym: "equal_query a b ign \<longleftrightarrow> equal_query b a ign"
  by (auto simp: equal_query_def)

lemma equal_host_sym: "equal_host a b \<longleftrightarrow> equal_host b a"
  by (auto simp: equal_host_def equal_fold_def)

lemma match_default_ok:
  "match_default ma host u cu = Inr r \<longleftrightarrow>
     equal_host host (uHost cu) \<and> escaped_path u = escaped_path cu \<and>
     (\<forall>k. k \<notin> set (mcIgnoredQueryParameters (maCfg ma)) \<longrightarrow> hvalues (url_query u) k = hvalues (url_query cu) k)"
  by (auto simp: match_default_def equal_query_iff)

lemma rule_for_Some:
  "rule_for ma m host path = Some cr \<longleftrightarrow>
     (\<exists>i<length (maRules ma). maRules ma ! i = cr \<and> selects m host path cr \<and>
        (\<forall>j<i. \<not> selects m host path (maRules ma ! j)))"
  by (auto simp: rule_for_def find_Some_iff)

lemma rule_for_None:
  "rule_for ma m host path = None \<longleftrightarrow> (\<forall>cr\<in>set (maRules ma). \<not> selects m host path cr)"
  by (auto simp: rule_for_def find_None_iff)

definition values_agree :: "json \<Rightarrow> (string \<times> regex) list \<Rightarrow> bool" where
  "values_agree doc res \<longleftrightarrow>
     (\<forall>(p, re)\<in>set res. case json_path_value doc p of None \<Rightarrow> False | Some v \<Rightarrow> re (string_value v))"

lemma match_values_ok: "match_values msg doc res = Inr r \<longleftrightarrow> values_agree doc res"
  by (auto simp: match_values_def values_agree_def check_all_ok case_prod_beta)

definition target_agrees :: "compiled_rule \<Rightarrow> string \<Rightarrow> gourl \<Rightarrow> gourl \<Rightarrow> string \<Rightarrow> bool" where
  "target_agrees cr host u cu m \<longleftrightarrow>
     method_allowed (rlMethods (crRule cr)) m \<and>
     (case crHost cr of None \<Rightarrow> equal_host host (uHost cu)
      | Some re \<Rightarrow> re (strip_port host) \<and> re (strip_port (uHost cu))) \<and>
     (case crPath cr of None \<Rightarrow> escaped_path u = escaped_path cu
      | Some re \<Rightarrow> re (uPath u) \<and> re (uPath cu))"

lemma match_target_ok: "match_target cr host u cu m = Inr r \<longleftrightarrow> target_agrees cr host u cu m"
  by (auto simp: match_target_def target_agrees_def split: option.splits)

definition fields_agree :: "matcher \<Rightarrow> compiled_rule \<Rightarrow> gourl \<Rightarrow> gourl \<Rightarrow> header \<Rightarrow> header \<Rightarrow> bool" where
  "fields_agree ma cr u cu hdr capturedHdr \<longleftrightarrow>
     (\<forall>k. k \<notin> set (mcIgnoredQueryParameters (maCfg ma)) \<and> k \<notin> set (rlIgnoredQueryParameters (crRule cr)) \<and>
        k \<notin> fst ` set (crQuery cr) \<longrightarrow> hvalues (url_query u) k = hvalues (url_query cu) k) \<and>
     (\<forall>(n, re)\<in>set (crQuery cr). re (qget (url_query u) n)) \<and>
     (\<forall>(n, re)\<in>set (crHeaders cr). re (hget hdr n)) \<and>
     (rlCompareHeaders (crRule cr) \<longrightarrow>
        equal_headers hdr capturedHdr
          (mcIgnoredHeaders (maCfg ma) @ rlIgnoredHeaders (crRule cr) @ map fst (crHeaders cr)))"

lemma match_fields_ok: "match_fields ma cr u cu hdr ch = Inr r \<longleftrightarrow> fields_agree ma cr u cu hdr ch"
  by (auto simp: match_fields_def fields_agree_def check_all_ok equal_query_iff case_prod_beta)

text \<open>What comparing two documents with some paths removed means for a captured body.\<close>

definition body_agrees :: "(string \<Rightarrow> json option) \<Rightarrow> string list \<Rightarrow> event \<Rightarrow> json \<Rightarrow> bool" where
  "body_agrees dec ps captured doc \<longleftrightarrow>
     (\<exists>cb expected. b64_decode (evBodyB64 captured) = Some cb \<and> cb \<noteq> [] \<and> dec cb = Some expected \<and>
        marshal (remove_paths doc ps) = marshal (remove_paths expected ps))"

definition json_agrees :: "go_env \<Rightarrow> matcher \<Rightarrow> compiled_rule \<Rightarrow> event \<Rightarrow> string \<Rightarrow> bool" where
  "json_agrees E ma cr captured body \<longleftrightarrow>
     crJson cr = [] \<and> \<not> rlCompareJSON (crRule cr) \<or>
     (\<exists>doc. gUnmarshal E body = Some doc \<and> values_agree doc (crJson cr) \<and>
        (rlCompareJSON (crRule cr) \<longrightarrow>
           body_agrees (gUnmarshal E)
             (mcIgnoredJSONPaths (maCfg ma) @ rlIgnoredJSONPaths (crRule cr) @ map fst (crJson cr)) captured doc))"

lemma match_json_ok: "match_json E ma cr captured body = Inr r \<longleftrightarrow> json_agrees E ma cr captured body"
  by (auto simp: match_json_def json_agrees_def body_agrees_def match_values_ok Let_def
      split: option.splits)

definition protobuf_agrees :: "matcher \<Rightarrow> compiled_rule \<Rightarrow> gourl \<Rightarrow> event \<Rightarrow> string \<Rightarrow> bool" where
  "protobuf_agrees ma cr u captured body \<longleftrightarrow>
     crProto cr = [] \<and> \<not> rlCompareProtobuf (crRule cr) \<or>
     (\<exists>g doc. maGrpc ma = Some g \<and>
        (let mp = (if rlGRPCMethod (crRule cr) \<noteq> [] then rlGRPCMethod (crRule cr) else uPath u)
         in grDecodeRequest g mp body = Inr doc \<and> values_agree doc (crProto cr) \<and>
            (rlCompareProtobuf (crRule cr) \<longrightarrow>
               body_agrees (\<lambda>b. case grDecodeRequest g mp b of Inl _ \<Rightarrow> None | Inr d \<Rightarrow> Some d)
                 (rlIgnoredProtobufFields (crRule cr) @ map fst (crProto cr)) captured doc)))"

lemma match_protobuf_ok: "match_protobuf ma cr u captured body = Inr r \<longleftrightarrow> protobuf_agrees ma cr u captured body"
  by (auto simp: match_protobuf_def protobuf_agrees_def body_agrees_def match_values_ok Let_def
      split: option.splits sum.splits)

lemmas rule_parts_ok = match_target_ok match_fields_ok match_json_ok match_protobuf_ok

section \<open>What a match means\<close>

lemma match_event_ok:
  "rqURL rq = Some u \<Longrightarrow> gUrlParse E (evURL ev) = Some cu \<Longrightarrow>
   fst (match_event E ma ev rq body) \<longleftrightarrow>
     equal_fold (rqMethod rq) (evMethod ev) \<and>
     (case rule_for ma (rqMethod rq) (request_host rq u) (escaped_path u) of
        None \<Rightarrow> match_default ma (request_host rq u) u cu = Inr ()
      | Some cr \<Rightarrow> target_agrees cr (request_host rq u) u cu (evMethod ev) \<and>
          fields_agree ma cr u cu (rqHeader rq) (evHeaders ev) \<and>
          json_agrees E ma cr ev body \<and> protobuf_agrees ma cr u ev body)"
  by (auto simp: match_event_def match_checks_def Let_def rule_parts_ok split: option.splits)

definition example_get :: "string \<Rightarrow> request" where
  "example_get url = \<lparr>rqMethod = ''GET'', rqURL = simple_url url, rqHost = [], rqHeader = []\<rparr>"

definition example_call :: "string \<Rightarrow> event" where
  "example_call url = zero_event\<lparr>evMethod := ''get'', evURL := url\<rparr>"

definition plain_matcher :: "string list \<Rightarrow> matcher" where
  "plain_matcher ign = \<lparr>maCfg = \<lparr>mcIgnoredQueryParameters = ign, mcIgnoredHeaders = [],
      mcIgnoredJSONPaths = [], mcGRPC = \<lparr>gcProtoFiles = [], gcDescriptorSets = [], gcImportPaths = []\<rparr>,
      mcRules = []\<rparr>, maRules = [], maGrpc = None\<rparr>"

text \<open>Without a rule for the request, a captured call matches exactly when the methods agree
  up to case, the hosts agree up to case and a default port, the escaped paths are equal, and
  every query key that is not ignored has the same list of values in both URLs; the order of the
  keys in either URL plays no part, the order of one key's values does.\<close>

theorem match_event_without_rule:
  assumes "rqURL rq = Some u" and "gUrlParse E (evURL ev) = Some cu"
    and "rule_for ma (rqMethod rq) (request_host rq u) (escaped_path u) = None"
  shows "fst (match_event E ma ev rq body) \<longleftrightarrow>
     equal_fold (rqMethod rq) (evMethod ev) \<and> equal_host (request_host rq u) (uHost cu) \<and>
     escaped_path u = escaped_path cu \<and>
     (\<forall>k. k \<notin> set (mcIgnoredQueryParameters (maCfg ma)) \<longrightarrow>
        hvalues (url_query u) k = hvalues (url_query cu) k)"
  using assms by (simp add: match_event_ok match_default_ok)

lemma match_event_without_rule_witness:
  "fst (match_event example_env (plain_matcher [''t'']) (example_call ''http://H:80/p?a=1&t=2&b=3'')
     (example_get ''http://h/p?b=3&a=1'') []) \<longleftrightarrow>
   equal_fold ''GET'' ''get'' \<and> equal_host ''h'' ''H:80'' \<and> True \<and>
   (\<forall>k. k \<notin> {''t''} \<longrightarrow> hvalues (parse_query ''b=3&a=1'') k = hvalues (parse_query ''a=1&t=2&b=3'') k)"
proof -
  have "rqURL (example_get ''http://h/p?b=3&a=1'') =
      Some \<lparr>uScheme = ''http'', uHost = ''h'', uPath = ''/p'', uRawPath = [], uRawQuery = ''b=3&a=1''\<rparr>"
    by code_simp
  moreover have "gUrlParse example_env (evURL (example_call ''http://H:80/p?a=1&t=2&b=3'')) =
      Some \<lparr>uScheme = ''http'', uHost = ''H:80'', uPath = ''/p'', uRawPath = [], uRawQuery = ''a=1&t=2&b=3''\<rparr>"
    by code_simp
  moreover have "rule_for (plain_matcher [''t'']) a b c = None" for a b c
    by (simp add: rule_for_def plain_matcher_def)
  ultimately show ?thesis
    using match_event_without_rule [of "example_get ''http://h/p?b=3&a=1''" _ example_env
      "example_call ''http://H:80/p?a=1&t=2&b=3''" _ "plain_matcher [''t'']" "[]"]
    by (simp add: request_host_def escaped_path_def url_escaped_path_def url_query_def
        plain_matcher_def example_get_def example_call_def)
qed

text \<open>C16. Under a rule the verdict is exactly this: the methods agree; host and path of both calls
  satisfy the rule (its regular expression, or equality where it has none); the query values agree
  outside the three lists of ignored keys; the request satisfies every query and header expression;
  headers, JSON and Protobuf bodies agree where the rule compares them. No other check takes part,
  and none of these can be skipped by an earlier one.\<close>

theorem match_event_with_rule:
  assumes "rqURL rq = Some u" and "gUrlParse E (evURL ev) = Some cu"
    and "rule_for ma (rqMethod rq) (request_host rq u) (escaped_path u) = Some cr"
  shows "fst (match_event E ma ev rq body) \<longleftrightarrow>
     equal_fold (rqMethod rq) (evMethod ev) \<and>
     target_agrees cr (request_host rq u) u cu (evMethod ev) \<and>
     fields_agree ma cr u cu (rqHeader rq) (evHeaders ev) \<and>
     json_agrees E ma cr ev body \<and> protobuf_agrees ma cr u ev body"
  using assms by (simp add: match_event_ok)

definition empty_rule :: match_rule where
  "empty_rule = \<lparr>rlName = [], rlMethods = [], rlHostRegex = [], rlPathRegex = [], rlHeaderRegex = [],
     rlQueryRegex = [], rlJSONPathRegex = [], rlGRPCMethod = [], rlProtobufFieldRegex = [],
     rlIgnoredProtobufFields = [], rlIgnoredQueryParameters = [], rlIgnoredHeaders = [],
     rlIgnoredJSONPaths = [], rlCompareHeaders = False, rlCompareJSON = False,
     rlCompareProtobuf = False\<rparr>"

definition path_rule :: "string \<Rightarrow> compiled_rule" where
  "path_rule p = \<lparr>crRule = empty_rule\<lparr>rlPathRegex := p\<rparr>, crHost = None, crPath = Some (\<lambda>s. s = p),
     crHeaders = [], crQuery = [], crJson = [], crProto = []\<rparr>"

lemma match_event_with_rule_witness:
  "fst (match_event example_env (plain_matcher []\<lparr>maRules := [path_rule ''/p'']\<rparr>)
     (example_call ''http://h/p?a=1'') (example_get ''http://h/p?a=2'') []) = False"
proof -
  let ?rq = "example_get ''http://h/p?a=2''" and ?ev = "example_call ''http://h/p?a=1''"
  let ?ma = "plain_matcher []\<lparr>maRules := [path_rule ''/p'']\<rparr>"
  let ?u = "\<lparr>uScheme = ''http'', uHost = ''h'', uPath = ''/p'', uRawPath = [], uRawQuery = ''a=2''\<rparr>"
  let ?cu = "?u\<lparr>uRawQuery := ''a=1''\<rparr>"
  have "rqURL ?rq = Some ?u" "gUrlParse example_env (evURL ?ev) = Some ?cu" by code_simp+
  moreover have "rule_for ?ma (rqMethod ?rq) (request_host ?rq ?u) (escaped_path ?u) = Some (path_rule ''/p'')"
    by (simp add: rule_for_def plain_matcher_def path_rule_def empty_rule_def selects_def
        method_allowed_def) code_simp
  moreover have "\<not> fields_agree ?ma (path_rule ''/p'') ?u ?cu (rqHeader ?rq) (evHeaders ?ev)"
  proof -
    have "hvalues (url_query ?u) ''a'' \<noteq> hvalues (url_query ?cu) ''a''" by code_simp
    then show ?thesis
      unfolding fields_agree_def plain_matcher_def path_rule_def empty_rule_def by force
  qed
  ultimately show ?thesis
    using match_event_with_rule [of ?rq ?u example_env ?ev ?cu ?ma "path_rule ''/p''" "[]"] by blast
qed

text \<open>A rule is selected by the escaped path of a request and then checked against the decoded
  one, so a request matches under a path expression only when the expression accepts both forms. An
  expression written for the decoded form alone of a path with an escaped byte never matches.\<close>

theorem path_expression_sees_both_forms:
  assumes "rqURL rq = Some u"
    and "rule_for ma (rqMethod rq) (request_host rq u) (escaped_path u) = Some cr"
    and "crPath cr = Some re" and "fst (match_event E ma ev rq body)"
  shows "re (escaped_path u) \<and> re (uPath u)"
proof -
  from assms(1,4) obtain cu where "gUrlParse E (evURL ev) = Some cu"
    by (auto simp: match_event_def match_checks_def split: option.splits)
  with assms have "target_agrees cr (request_host rq u) u cu (evMethod ev)"
    by (simp add: match_event_ok)
  with assms(3) have "re (uPath u)" by (simp add: target_agrees_def)
  moreover from assms(2,3) have "re (escaped_path u)" by (auto simp: rule_for_Some selects_def)
  ultimately show ?thesis by simp
qed

lemma path_expression_sees_both_forms_witness:
  "(\<lambda>s. s = ''/p'') (escaped_path \<lparr>uScheme = ''http'', uHost = ''h'', uPath = ''/p'', uRawPath = [], uRawQuery = []\<rparr>) \<and>
   (\<lambda>s. s = ''/p'') ''/p''"
proof -
  let ?u = "\<lparr>uScheme = ''http'', uHost = ''h'', uPath = ''/p'', uRawPath = [], uRawQuery = []\<rparr>"
  let ?ma = "plain_matcher []\<lparr>maRules := [path_rule ''/p'']\<rparr>"
  have "rqURL (example_get ''http://h/p'') = Some ?u" by code_simp
  moreover have "rule_for ?ma (rqMethod (example_get ''http://h/p'')) (request_host (example_get ''http://h/p'') ?u)
      (escaped_path ?u) = Some (path_rule ''/p'')"
    by (simp add: rule_for_def plain_matcher_def path_rule_def empty_rule_def selects_def
        method_allowed_def) code_simp
  moreover have "crPath (path_rule ''/p'') = Some (\<lambda>s. s = ''/p'')" by (simp add: path_rule_def)
  moreover have "fst (match_event example_env ?ma (example_call ''http://h/p'') (example_get ''http://h/p'') [])"
    by (simp add: match_event_def match_checks_def rule_for_def plain_matcher_def path_rule_def
        empty_rule_def selects_def method_allowed_def) code_simp
  ultimately show ?thesis using path_expression_sees_both_forms by fastforce
qed

section \<open>Comparing headers\<close>

definition header_text :: "string list \<Rightarrow> string" where
  "header_text vs = join [chr 0] (sort vs)"

definition plain_header :: "header \<Rightarrow> bool" where
  "plain_header h \<longleftrightarrow> distinct (map fst h) \<and>
     (\<forall>(k, vs)\<in>set h. canonical_key k = k \<and> vs \<noteq> [] \<and> (\<forall>v\<in>set vs. chr 0 \<notin> set v))"

lemma update_new: "k \<notin> fst ` set m \<Longrightarrow> AList.update k v m = m @ [(k, v)]"
  by (induction m) auto

lemma canonical_headers_plain:
  assumes "plain_header h"
  shows "canonical_headers ign h =
    map (\<lambda>(k, vs). (k, header_text vs)) (filter (\<lambda>(k, _). k \<notin> canonical_key ` set ign) h)"
proof -
  have "foldl (add_header ign) out h =
      out @ map (\<lambda>(k, vs). (k, header_text vs)) (filter (\<lambda>(k, _). k \<notin> canonical_key ` set ign) h)"
    if "plain_header h" "fst ` set out \<inter> fst ` set h = {}" for out
    using that
  proof (induction h arbitrary: out)
    case (Cons e h)
    obtain k vs where e: "e = (k, vs)" by (cases e)
    with Cons.prems have "plain_header h" "canonical_key k = k" "k \<notin> fst ` set out" "k \<notin> fst ` set h"
      by (auto simp: plain_header_def)
    moreover from this have "add_header ign out e =
        (if k \<in> canonical_key ` set ign then out else out @ [(k, header_text vs)])"
      by (simp add: e add_header_def header_text_def update_new)
    ultimately show ?case using Cons.prems Cons.IH by (simp add: e)
  qed simp
  from this [OF assms, of "[]"] show ?thesis by (simp add: canonical_headers_def)
qed

lemma header_text_inject:
  assumes "vs \<noteq> []" "ws \<noteq> []" "\<forall>v\<in>set vs. chr 0 \<notin> set v" "\<forall>v\<in>set ws. chr 0 \<notin> set v"
  shows "header_text vs = header_text ws \<longleftrightarrow> mset vs = mset ws"
proof -
  have "header_text vs = header_text ws \<longleftrightarrow> sort vs = sort ws"
  proof
    assume "header_text vs = header_text ws"
    then have "split_on (chr 0) (join [chr 0] (sort vs)) = split_on (chr 0) (join [chr 0] (sort ws))"
      by (simp add: header_text_def)
    then show "sort vs = sort ws"
      using assms by (subst (asm) (1 2) split_on_join) (auto dest: arg_cong [of _ _ set])
  qed (simp add: header_text_def)
  then show ?thesis by (metis mset_sort properties_for_sort sorted_sort)
qed

lemma header_text_empty: "vs \<noteq> [] \<Longrightarrow> header_text vs = [] \<longleftrightarrow> vs = [[]]"
proof -
  assume "vs \<noteq> []"
  then obtain w ws where s: "sort vs = w # ws" by (cases "sort vs") (auto dest: arg_cong [of _ _ set])
  have "header_text vs = [] \<longleftrightarrow> w = [] \<and> ws = []" by (cases ws) (auto simp: header_text_def s)
  also have "\<dots> \<longleftrightarrow> sort vs = [[]]" by (simp add: s)
  also have "\<dots> \<longleftrightarrow> vs = [[]]"
    by (metis mset_sort mset_single_iff sort_key_simps(1) s sorted_sort_id sorted1 mset.simps(1) mset.simps(2))
  finally show ?thesis .
qed

lemma plain_wf: "plain_header h \<Longrightarrow> wf_values h"
  by (auto simp: plain_header_def wf_values_def)

lemma plain_entry:
  assumes "plain_header h" "hvalues h k \<noteq> []"
  shows "(k, hvalues h k) \<in> set h" "\<forall>v\<in>set (hvalues h k). chr 0 \<notin> set v"
proof -
  show "(k, hvalues h k) \<in> set h"
    using assms(2) map_of_SomeD by (fastforce simp: hvalues_def dflt_def split: option.splits)
  with assms(1) show "\<forall>v\<in>set (hvalues h k). chr 0 \<notin> set v" by (auto simp: plain_header_def)
qed

lemma same_headers:
  assumes a: "plain_header a" and b: "plain_header b" and ne: "\<forall>(k, vs)\<in>set a. vs \<noteq> [[]]"
  shows "length a = length b \<and> (\<forall>(k, vs)\<in>set a. dflt [] (map_option header_text (map_of b k)) = header_text vs)
    \<longleftrightarrow> (\<forall>k. mset (hvalues a k) = mset (hvalues b k))" (is "?L \<longleftrightarrow> ?R")
proof
  have dist: "distinct (map fst a)" "distinct (map fst b)" using a b by (auto simp: plain_header_def)
  have keys: "fst ` set a = {k. hvalues a k \<noteq> []}" "fst ` set b = {k. hvalues b k \<noteq> []}"
    using keys_of_values plain_wf a b by blast+
  assume L: ?L
  have same: "mset (hvalues a k) = mset (hvalues b k) \<and> hvalues b k \<noteq> []" if "hvalues a k \<noteq> []" for k
  proof -
    let ?vs = "hvalues a k"
    from that a ne have e: "(k, ?vs) \<in> set a" "?vs \<noteq> [[]]" using plain_entry(1) [OF a that] by auto
    with L have t: "dflt [] (map_option header_text (map_of b k)) = header_text ?vs" by auto
    moreover have "header_text ?vs \<noteq> []" using that e header_text_empty by simp
    ultimately obtain ws where ws: "map_of b k = Some ws" by (cases "map_of b k") auto
    then have w: "hvalues b k = ws" "ws \<noteq> []" using b map_of_SomeD by (auto simp: hvalues_def plain_header_def)
    with t ws that plain_entry [OF a that] plain_entry [OF b, of k] show ?thesis
      by (simp add: header_text_inject)
  qed
  then have "fst ` set a \<subseteq> fst ` set b" by (auto simp: keys)
  moreover have "card (fst ` set a) = card (fst ` set b)"
    using dist L by (metis distinct_card length_map set_map)
  ultimately have eq: "fst ` set a = fst ` set b" by (simp add: card_subset_eq)
  show ?R
  proof
    fix k
    show "mset (hvalues a k) = mset (hvalues b k)"
    proof (cases "hvalues a k = []")
      case True
      then have "k \<notin> fst ` set a" unfolding keys(1) by simp
      then have "k \<notin> {k. hvalues b k \<noteq> []}" using eq keys(2) by simp
      then have "hvalues b k = []" by simp
      with True show ?thesis by simp
    next
      case False
      then show ?thesis using same [of k] by simp
    qed
  qed
next
  have dist: "distinct (map fst a)" "distinct (map fst b)" using a b by (auto simp: plain_header_def)
  have keys: "fst ` set a = {k. hvalues a k \<noteq> []}" "fst ` set b = {k. hvalues b k \<noteq> []}"
    using keys_of_values plain_wf a b by blast+
  assume R: ?R
  then have iff: "hvalues a k = [] \<longleftrightarrow> hvalues b k = []" for k by (metis mset_zero_iff)
  then have "card (fst ` set a) = card (fst ` set b)" by (simp add: keys)
  then have "length a = length b" using dist by (metis distinct_card length_map set_map)
  moreover have "dflt [] (map_option header_text (map_of b k)) = header_text vs" if "(k, vs) \<in> set a" for k vs
  proof -
    have va: "hvalues a k = vs" "hvalues a k \<noteq> []"
      using that dist a by (auto simp: hvalues_def plain_header_def)
    then have vb: "hvalues b k \<noteq> []" using iff [of k] by simp
    then have "map_of b k = Some (hvalues b k)" by (cases "map_of b k") (auto simp: hvalues_def)
    moreover have "mset (hvalues b k) = mset vs" using R [rule_format, of k] va(1) by simp
    ultimately show ?thesis
      using va vb plain_entry [OF a va(2)] plain_entry [OF b vb] by (simp add: header_text_inject)
  qed
  ultimately show ?L by auto
qed

lemma plain_filter: "plain_header h \<Longrightarrow> plain_header (filter P h)"
  by (induction h) (auto simp: plain_header_def image_iff)

lemma hvalues_filter: "hvalues (filter (\<lambda>(k, _). P k) h) k = (if P k then hvalues h k else [])"
  by (induction h) (auto simp: hvalues_def)

text \<open>Comparing headers ignores the ignored names and the order of a name's values, and nothing
  else, for headers as \<open>net/http\<close> builds them (canonical names, no NUL in a value) in which no
  compared name has the empty text as its only value.\<close>

theorem equal_headers_exact:
  assumes "plain_header a" and "plain_header b"
    and "\<forall>(k, vs)\<in>set a. k \<notin> canonical_key ` set ign \<longrightarrow> vs \<noteq> [[]]"
  shows "equal_headers a b ign \<longleftrightarrow>
    (\<forall>k. k \<notin> canonical_key ` set ign \<longrightarrow> mset (hvalues a k) = mset (hvalues b k))"
proof -
  let ?P = "\<lambda>k. k \<notin> canonical_key ` set ign"
  let ?a = "filter (\<lambda>(k, _). ?P k) a" and ?b = "filter (\<lambda>(k, _). ?P k) b"
  have "equal_headers a b ign \<longleftrightarrow> length ?a = length ?b \<and>
      (\<forall>(k, vs)\<in>set ?a. dflt [] (map_option header_text (map_of ?b k)) = header_text vs)"
    using assms by (auto simp: equal_headers_def canonical_headers_plain Let_def map_of_map case_prod_beta)
  also have "\<dots> \<longleftrightarrow> (\<forall>k. mset (hvalues ?a k) = mset (hvalues ?b k))"
    by (rule same_headers) (use assms plain_filter in auto)
  also have "\<dots> \<longleftrightarrow> (\<forall>k. ?P k \<longrightarrow> mset (hvalues a k) = mset (hvalues b k))"
    by (auto simp: hvalues_filter)
  finally show ?thesis .
qed

lemma equal_headers_exact_witness:
  "equal_headers [(''Accept'', [''a'', ''b'']), (''Date'', [''1''])] [(''Accept'', [''b'', ''a''])] [''date''] \<longleftrightarrow>
   (\<forall>k. k \<notin> canonical_key ` set [''date''] \<longrightarrow>
      mset (hvalues [(''Accept'', [''a'', ''b'']), (''Date'', [''1''])] k) = mset (hvalues [(''Accept'', [''b'', ''a''])] k))"
  by (rule equal_headers_exact) code_simp+

text \<open>The exception is real, and not a corner of the proof: one header with an empty value
  stands for any one header that the request lacks, so a request whose only header is an empty \<open>n\<close>
  is taken to agree with a capture whose only header is \<open>m\<close>, whatever the value of \<open>m\<close>.\<close>

theorem empty_header_stands_for_any:
  assumes "canonical_key n = n" and "canonical_key m = m" and "n \<noteq> m"
  shows "equal_headers [(n, [[]])] [(m, [v])] []"
  using assms by (simp add: equal_headers_def canonical_headers_def add_header_def Let_def)

lemma empty_header_stands_for_any_witness:
  "equal_headers [(''X-Debug'', [[]])] [(''Authorization'', [''secret''])] []"
  by (rule empty_header_stands_for_any) code_simp+

section \<open>Compiling a configuration\<close>

lemma compile_rule_rule: "compile_rule E cfg grpc i r = Inr cr \<Longrightarrow> crRule cr = r"
  by (auto simp: compile_rule_def)

lemma check_path_ok: "check_path f p = Inr u \<longleftrightarrow> is_ok (parse_json_path p)"
  by (auto simp: check_path_def is_ok_def split: sum.splits)

text \<open>What a matcher that was built guarantees: its rules are the configured ones, in order;
  every ignored path of the configuration and of the rule is a path of the grammar; a rule that
  needs Protobuf schemas has them, and its method is one they declare.\<close>

theorem new_matcher_sound:
  assumes "new_matcher E cfg reg = Inr ma"
  shows "map crRule (maRules ma) = mcRules cfg \<and>
    (\<forall>r\<in>set (mcRules cfg).
       (\<forall>p\<in>set (mcIgnoredJSONPaths cfg @ rlIgnoredJSONPaths r @ rlIgnoredProtobufFields r). is_ok (parse_json_path p)) \<and>
       (rlGRPCMethod r \<noteq> [] \<or> rlCompareProtobuf r \<or> rlProtobufFieldRegex r \<noteq> [] \<longrightarrow> maGrpc ma \<noteq> None) \<and>
       (rlGRPCMethod r \<noteq> [] \<longrightarrow> (\<exists>g. maGrpc ma = Some g \<and> grHasMethod g (rlGRPCMethod r))))"
proof -
  from assms obtain grpc rs where
    rs: "map_err (\<lambda>(i, r). compile_rule E cfg grpc i r) (enumerate 0 (mcRules cfg)) = Inr rs"
    and ma: "maRules ma = rs" "maGrpc ma = grpc"
    by (auto simp: new_matcher_def)
  have len: "length rs = length (mcRules cfg)" using map_err_length [OF rs] by simp
  have each: "compile_rule E cfg grpc i (mcRules cfg ! i) = Inr (rs ! i)" if "i < length (mcRules cfg)" for i
    using map_err_nth [OF rs, of i] that by (simp add: nth_enumerate_eq)
  have "map crRule rs = mcRules cfg"
    using compile_rule_rule [OF each] len by (auto intro!: nth_equalityI)
  moreover have "(\<forall>p\<in>set (mcIgnoredJSONPaths cfg @ rlIgnoredJSONPaths r @ rlIgnoredProtobufFields r). is_ok (parse_json_path p)) \<and>
       (rlGRPCMethod r \<noteq> [] \<or> rlCompareProtobuf r \<or> rlProtobufFieldRegex r \<noteq> [] \<longrightarrow> grpc \<noteq> None) \<and>
       (rlGRPCMethod r \<noteq> [] \<longrightarrow> (\<exists>g. grpc = Some g \<and> grHasMethod g (rlGRPCMethod r)))" if r: "r \<in> set (mcRules cfg)" for r
  proof -
    from r obtain i where "i < length (mcRules cfg)" "mcRules cfg ! i = r" by (auto simp: in_set_conv_nth)
    with each obtain cr where "compile_rule E cfg grpc i r = Inr cr" by metis
    then show ?thesis
      by (auto simp: compile_rule_def check_all_ok check_path_ok split: option.splits)
  qed
  ultimately show ?thesis using ma by blast
qed

end
