(* ===== verification/Scenario.thy ===== *)
theory Scenario
  imports Matcher
begin

text \<open>
  \<open>pkg/scenario\<close> (\<open>scenario.go\<close>): the engine that answers requests from explicit scenarios. Its
  state is one current state name per scenario; \<open>Match\<close> finds the first step of the first scenario
  whose state is current and whose rule accepts the request, and moves that scenario on. The
  contract of an engine is the locale \<open>scenario_engine\<close>, which the model interprets.
\<close>

section \<open>Configuration and validation\<close>

record response =
  rpStatus :: int
  rpHeaders :: header
  rpTrailers :: header
  rpGRPCStatus :: string
  rpBody :: string
  rpBodyB64 :: string
  rpBodyTemplate :: string
  rpProtobufType :: string
  rpProtobufJSON :: string
  rpProtobufStream :: "string list"
  rpStreamMessageDelay :: string

record scenario_step =
  stName :: string
  stState :: string
  stMatch :: match_rule
  stNextState :: string
  stResponse :: response

record scenario_config =
  scName :: string
  scInitialState :: string
  scSteps :: "scenario_step list"

record engine =
  enConfigs :: "scenario_config list"
  enStates :: "string \<rightharpoonup> string"
  enCompiled :: "matcher list list"

datatype scenario_error =
    MatchingInvalid match_error
  | NameRequired nat | NameDuplicated string | InitialStateRequired string
  | StateRequired string nat | StatusRange string nat | SeveralBodies string nat
  | BadBodyB64 string nat | BadStreamDelay string nat | BadTemplate string nat
  | BadStepMatch string nat match_error | UnknownNextState string nat

text \<open>\<open>validateResponseTemplates\<close>: which template is refused first is not kept.\<close>

definition validate_response_templates :: "go_env \<Rightarrow> response \<Rightarrow> bool" where
  "validate_response_templates E r \<longleftrightarrow>
     validate_template E (rpBodyTemplate r) \<and>
     (\<forall>(n, vs)\<in>set (rpHeaders r). \<forall>v\<in>set vs. validate_template E v) \<and>
     (\<forall>(n, vs)\<in>set (rpTrailers r). \<forall>v\<in>set vs. validate_template E v) \<and>
     validate_template E (rpProtobufJSON r) \<and>
     (\<forall>v\<in>set (rpProtobufStream r). validate_template E v)"

definition response_forms :: "response \<Rightarrow> nat" where
  "response_forms r =
     length (filter (\<lambda>present. present)
       [rpBody r \<noteq> [], rpBodyB64 r \<noteq> [], rpBodyTemplate r \<noteq> [], rpProtobufJSON r \<noteq> [],
        rpProtobufStream r \<noteq> []])"

definition delay_ok :: "go_env \<Rightarrow> string \<Rightarrow> bool" where
  "delay_ok E d \<longleftrightarrow> d = [] \<or> (case gParseDuration E d of None \<Rightarrow> False | Some n \<Rightarrow> 0 \<le> n)"

definition validate_step ::
  "go_env \<Rightarrow> match_config \<Rightarrow> grpc_registry option \<Rightarrow> string \<Rightarrow> nat \<times> scenario_step \<Rightarrow>
   (scenario_error, matcher) result" where
  "validate_step E matching reg name js =
     (case js of (j, st) \<Rightarrow>
        and_then (fail_if (stState st = []) (StateRequired name j)) (\<lambda>_.
        and_then (fail_if (rpStatus (stResponse st) < 100 \<or> 599 < rpStatus (stResponse st)) (StatusRange name j)) (\<lambda>_.
        and_then (fail_if (1 < response_forms (stResponse st)) (SeveralBodies name j)) (\<lambda>_.
        and_then (fail_if (rpBodyB64 (stResponse st) \<noteq> [] \<and> b64_decode (rpBodyB64 (stResponse st)) = None)
           (BadBodyB64 name j)) (\<lambda>_.
        and_then (fail_if (\<not> delay_ok E (rpStreamMessageDelay (stResponse st))) (BadStreamDelay name j)) (\<lambda>_.
        and_then (fail_if (\<not> validate_response_templates E (stResponse st)) (BadTemplate name j)) (\<lambda>_.
        case compile_rule_matcher E (stMatch st) matching reg of
          Inl e \<Rightarrow> Inl (BadStepMatch name j e)
        | Inr m \<Rightarrow> Inr m)))))))"

definition declared_states :: "scenario_config \<Rightarrow> string set" where
  "declared_states c = insert (scInitialState c) (stState ` set (scSteps c))"

definition next_state_ok :: "scenario_config \<Rightarrow> nat \<times> scenario_step \<Rightarrow> (scenario_error, unit) result" where
  "next_state_ok c js =
     fail_if (stNextState (snd js) \<noteq> [] \<and> stNextState (snd js) \<notin> declared_states c)
       (UnknownNextState (scName c) (fst js))"

definition add_scenario ::
  "go_env \<Rightarrow> match_config \<Rightarrow> grpc_registry option \<Rightarrow> engine \<times> string set \<Rightarrow> nat \<times> scenario_config \<Rightarrow>
   (scenario_error, engine \<times> string set) result" where
  "add_scenario E matching reg acc ic =
     (case (acc, ic) of ((e, names), (i, c)) \<Rightarrow>
        and_then (fail_if (trim_space (scName c) = []) (NameRequired i)) (\<lambda>_.
        and_then (fail_if (scName c \<in> names) (NameDuplicated (scName c))) (\<lambda>_.
        and_then (fail_if (scInitialState c = []) (InitialStateRequired (scName c))) (\<lambda>_.
        and_then (map_err (validate_step E matching reg (scName c)) (enumerate 0 (scSteps c))) (\<lambda>ms.
        and_then (check_all (next_state_ok c) (enumerate 0 (scSteps c))) (\<lambda>_.
        Inr (e\<lparr>enStates := (enStates e)(scName c \<mapsto> scInitialState c),
               enCompiled := enCompiled e @ [ms]\<rparr>, insert (scName c) names)))))))"

text \<open>\<open>NewWithRegistry\<close>, and \<open>NewWithMatching\<close>, which loads the schemas through a matcher.\<close>

definition new_with_registry ::
  "go_env \<Rightarrow> scenario_config list \<Rightarrow> match_config \<Rightarrow> grpc_registry option \<Rightarrow> (scenario_error, engine) result" where
  "new_with_registry E cfgs matching reg =
     and_then (fold_err (add_scenario E matching reg)
        (\<lparr>enConfigs = cfgs, enStates = Map.empty, enCompiled = []\<rparr>, {}) (enumerate 0 cfgs))
       (\<lambda>(e, _). Inr e)"

definition new_with_matching ::
  "go_env \<Rightarrow> scenario_config list \<Rightarrow> match_config \<Rightarrow> (scenario_error, engine) result" where
  "new_with_matching E cfgs matching =
     (case new_matcher E matching None of
        Inl e \<Rightarrow> Inl (MatchingInvalid e)
      | Inr m \<Rightarrow> new_with_registry E cfgs matching (maGrpc m))"

section \<open>Operations\<close>

record match_result =
  mrScenario :: string
  mrStep :: string
  mrResponse :: response

text \<open>\<open>Reset\<close>.\<close>

primrec initial_states :: "(string \<rightharpoonup> string) \<Rightarrow> scenario_config list \<Rightarrow> (string \<rightharpoonup> string)" where
  "initial_states m [] = m"
| "initial_states m (c # cs) = initial_states (m(scName c \<mapsto> scInitialState c)) cs"

definition reset_engine :: "engine \<Rightarrow> engine" where
  "reset_engine e = e\<lparr>enStates := initial_states (enStates e) (enConfigs e)\<rparr>"

text \<open>\<open>Match\<close>: a state that the map does not hold reads as the empty text.\<close>

fun match_steps ::
  "(matcher \<Rightarrow> bool) \<Rightarrow> string \<Rightarrow> scenario_step list \<Rightarrow> matcher list \<Rightarrow> scenario_step option" where
  "match_steps accepts current (st # sts) (m # ms) =
     (if stState st = current \<and> accepts m then Some st else match_steps accepts current sts ms)"
| "match_steps accepts current _ _ = None"

fun match_scenarios ::
  "(matcher \<Rightarrow> bool) \<Rightarrow> (string \<rightharpoonup> string) \<Rightarrow> scenario_config list \<Rightarrow> matcher list list \<Rightarrow>
   (scenario_config \<times> scenario_step) option" where
  "match_scenarios accepts states (c # cs) (ms # mss) =
     (case match_steps accepts (dflt [] (states (scName c))) (scSteps c) ms of
        Some st \<Rightarrow> Some (c, st)
      | None \<Rightarrow> match_scenarios accepts states cs mss)"
| "match_scenarios accepts states _ _ = None"

definition move_on :: "engine \<Rightarrow> scenario_config \<Rightarrow> scenario_step \<Rightarrow> engine" where
  "move_on e c st =
     (if stNextState st \<noteq> [] then e\<lparr>enStates := (enStates e)(scName c \<mapsto> stNextState st)\<rparr> else e)"

definition match_request ::
  "go_env \<Rightarrow> engine \<Rightarrow> request \<Rightarrow> string \<Rightarrow> match_result option \<times> engine" where
  "match_request E e rq body =
     (case match_scenarios (\<lambda>m. fst (match_standalone E m rq body)) (enStates e) (enConfigs e) (enCompiled e) of
        None \<Rightarrow> (None, e)
      | Some (c, st) \<Rightarrow>
          (Some \<lparr>mrScenario = scName c, mrStep = stName st, mrResponse = stResponse st\<rparr>, move_on e c st))"

definition response_bytes :: "response \<Rightarrow> string option" where
  "response_bytes r = (if rpBodyB64 r \<noteq> [] then b64_decode (rpBodyB64 r) else Some (rpBody r))"

text \<open>The requests of a session, answered one after the other.\<close>

definition answer :: "go_env \<Rightarrow> engine \<Rightarrow> request \<times> string \<Rightarrow> match_result option \<times> engine" where
  "answer E e rb = match_request E e (fst rb) (snd rb)"

section \<open>The engine as the callers see it\<close>

lemma reset_states:
  "enStates (reset_engine e) =
     enStates e ++ map_of (rev (map (\<lambda>c. (scName c, scInitialState c)) (enConfigs e)))"
proof -
  have "initial_states m cs = m ++ map_of (rev (map (\<lambda>c. (scName c, scInitialState c)) cs))" for m cs
    by (induction cs arbitrary: m) (simp_all only: initial_states.simps list.map rev.simps map_of_append
        map_add_assoc map_of.simps map_add_empty fst_conv snd_conv map_add_upd)
  then show ?thesis by (simp add: reset_engine_def)
qed

lemma reset_fields [simp]:
  "enConfigs (reset_engine e) = enConfigs e" "enCompiled (reset_engine e) = enCompiled e"
  by (simp_all add: reset_engine_def)

lemma match_scenarios_mem:
  "match_scenarios acc states cs mss = Some (c, st) \<Longrightarrow> c \<in> set cs \<and> st \<in> set (scSteps c) \<and>
     stState st = dflt [] (states (scName c))"
proof (induction acc states cs mss rule: match_scenarios.induct)
  case (1 acc states c' cs ms mss)
  have step: "match_steps acc cur sts ns = Some st' \<Longrightarrow> st' \<in> set sts \<and> stState st' = cur" for cur sts ns st'
    by (induction acc cur sts ns rule: match_steps.induct) (auto split: if_splits)
  from 1 show ?case by (auto split: option.splits dest: step)
qed auto

lemma move_on_fields [simp]:
  "enConfigs (move_on e c st) = enConfigs e" "enCompiled (move_on e c st) = enCompiled e"
  by (simp_all add: move_on_def)

lemma match_request_fields [simp]:
  "enConfigs (snd (match_request E e rq body)) = enConfigs e"
  "enCompiled (snd (match_request E e rq body)) = enCompiled e"
  by (auto simp: match_request_def split: option.splits)

lemma update_under: "k \<in> dom n \<Longrightarrow> m(k \<mapsto> v) ++ n = m ++ n"
  by (rule ext) (auto simp: map_add_def split: option.splits)

lemma reset_move_on:
  assumes "c \<in> set (enConfigs e)"
  shows "reset_engine (move_on e c st) = reset_engine e"
proof -
  have "scName c \<in> dom (map_of (rev (map (\<lambda>c. (scName c, scInitialState c)) (enConfigs e))))"
    using assms by (auto simp: dom_map_of_conv_image_fst image_iff)
  then have "enStates (reset_engine (move_on e c st)) = enStates (reset_engine e)"
    by (simp add: reset_states) (simp add: move_on_def update_under)
  then show ?thesis by (simp add: engine.equality)
qed

interpretation eng: resettable "answer E" reset_engine for E
proof
  show "reset_engine (snd (answer E e rb)) = reset_engine e" for e rb
    by (auto simp: answer_def match_request_def reset_move_on split: option.splits
        dest!: match_scenarios_mem)
  show "reset_engine (reset_engine e) = reset_engine e" for e
    by (rule engine.equality) (simp_all add: reset_states map_add_assoc [symmetric] map_add_subsumed1)
qed

section \<open>What validation establishes\<close>

definition scenario_ok :: "scenario_config \<Rightarrow> bool" where
  "scenario_ok c \<longleftrightarrow> scInitialState c \<noteq> [] \<and>
     (\<forall>st\<in>set (scSteps c). stState st \<noteq> [] \<and> 100 \<le> rpStatus (stResponse st) \<and> rpStatus (stResponse st) \<le> 599 \<and>
        response_forms (stResponse st) \<le> 1 \<and> response_bytes (stResponse st) \<noteq> None \<and>
        (stNextState st = [] \<or> stNextState st \<in> declared_states c))"

lemma validate_step_ok:
  "validate_step E matching reg name (j, st) = Inr m \<Longrightarrow> stState st \<noteq> [] \<and>
     100 \<le> rpStatus (stResponse st) \<and> rpStatus (stResponse st) \<le> 599 \<and>
     response_forms (stResponse st) \<le> 1 \<and> response_bytes (stResponse st) \<noteq> None"
  by (auto simp: validate_step_def response_bytes_def)

lemma add_scenario_ok:
  assumes "add_scenario E matching reg (e, names) (i, c) = Inr (e', names')"
  shows "scName c \<notin> names \<and> names' = insert (scName c) names \<and> scenario_ok c \<and>
    enConfigs e' = enConfigs e \<and> enStates e' = (enStates e)(scName c \<mapsto> scInitialState c) \<and>
    (\<exists>ms. enCompiled e' = enCompiled e @ [ms] \<and> length ms = length (scSteps c))"
proof -
  from assms obtain ms where
    ms: "map_err (validate_step E matching reg (scName c)) (enumerate 0 (scSteps c)) = Inr ms"
    and nexts: "check_all (next_state_ok c) (enumerate 0 (scSteps c)) = Inr ()"
    and rest: "scInitialState c \<noteq> []" "scName c \<notin> names" "names' = insert (scName c) names"
      "e' = e\<lparr>enStates := (enStates e)(scName c \<mapsto> scInitialState c), enCompiled := enCompiled e @ [ms]\<rparr>"
    by (auto simp: add_scenario_def)
  have "stState st \<noteq> [] \<and> 100 \<le> rpStatus (stResponse st) \<and> rpStatus (stResponse st) \<le> 599 \<and>
      response_forms (stResponse st) \<le> 1 \<and> response_bytes (stResponse st) \<noteq> None \<and>
      (stNextState st = [] \<or> stNextState st \<in> declared_states c)" if "st \<in> set (scSteps c)" for st
  proof -
    from that obtain j where j: "j < length (scSteps c)" "scSteps c ! j = st" by (auto simp: in_set_conv_nth)
    then have "validate_step E matching reg (scName c) (j, st) = Inr (ms ! j)"
      using map_err_nth [OF ms, of j] by (simp add: nth_enumerate_eq)
    moreover have "next_state_ok c (j, st) = Inr ()"
      using nexts j by (force simp: check_all_ok in_set_conv_nth nth_enumerate_eq)
    ultimately show ?thesis using validate_step_ok by (auto simp: next_state_ok_def)
  qed
  with rest map_err_length [OF ms] show ?thesis by (simp add: scenario_ok_def)
qed

lemma add_scenarios_ok:
  assumes "fold_err (add_scenario E matching reg) (e, names) (enumerate i cs) = Inr (e', names')"
  shows "distinct (map scName cs) \<and> names \<inter> scName ` set cs = {} \<and> (\<forall>c\<in>set cs. scenario_ok c) \<and>
    enConfigs e' = enConfigs e \<and> enStates e' = initial_states (enStates e) cs \<and>
    (\<exists>mss. enCompiled e' = enCompiled e @ mss \<and> list_all2 (\<lambda>c ms. length ms = length (scSteps c)) cs mss)"
  using assms
proof (induction cs arbitrary: e names i)
  case (Cons c cs)
  then obtain e1 n1 where one: "add_scenario E matching reg (e, names) (i, c) = Inr (e1, n1)"
    and rest: "fold_err (add_scenario E matching reg) (e1, n1) (enumerate (Suc i) cs) = Inr (e', names')"
    by auto
  from add_scenario_ok [OF one] obtain ms where ms: "enCompiled e1 = enCompiled e @ [ms]" "length ms = length (scSteps c)"
    and o: "scName c \<notin> names" "n1 = insert (scName c) names" "scenario_ok c" "enConfigs e1 = enConfigs e"
      "enStates e1 = (enStates e)(scName c \<mapsto> scInitialState c)" by blast
  from Cons.IH [OF rest] obtain mss where mss: "enCompiled e' = enCompiled e1 @ mss"
      "list_all2 (\<lambda>c ms. length ms = length (scSteps c)) cs mss"
    and r: "distinct (map scName cs)" "n1 \<inter> scName ` set cs = {}" "\<forall>c\<in>set cs. scenario_ok c"
      "enConfigs e' = enConfigs e1"
      "enStates e' = initial_states (enStates e1) cs" by blast
  have "\<exists>mss'. enCompiled e' = enCompiled e @ mss' \<and> list_all2 (\<lambda>c ms. length ms = length (scSteps c)) (c # cs) mss'"
    using ms mss by (intro exI [of _ "ms # mss"]) simp
  with o r show ?case by auto
qed simp

definition wf_engine :: "engine \<Rightarrow> bool" where
  "wf_engine e \<longleftrightarrow> distinct (map scName (enConfigs e)) \<and> (\<forall>c\<in>set (enConfigs e). scenario_ok c) \<and>
     list_all2 (\<lambda>c ms. length ms = length (scSteps c)) (enConfigs e) (enCompiled e)"

lemma new_engine:
  assumes "new_with_registry E cfgs matching reg = Inr e"
  shows "wf_engine e" and "enConfigs e = cfgs" and "reset_engine e = e"
    and "c \<in> set cfgs \<Longrightarrow> enStates e (scName c) = Some (scInitialState c)"
proof -
  from assms obtain names where
    "fold_err (add_scenario E matching reg) (\<lparr>enConfigs = cfgs, enStates = Map.empty, enCompiled = []\<rparr>, {})
       (enumerate 0 cfgs) = Inr (e, names)"
    by (auto simp: new_with_registry_def)
  note facts = add_scenarios_ok [OF this, simplified]
  then show wf: "wf_engine e" and cfgs: "enConfigs e = cfgs" by (auto simp: wf_engine_def)
  have st: "enStates e = map_of (rev (map (\<lambda>c. (scName c, scInitialState c)) cfgs))"
    using facts reset_states [of "\<lparr>enConfigs = cfgs, enStates = Map.empty, enCompiled = []\<rparr>"]
    by (simp add: reset_engine_def)
  then have "enStates (reset_engine e) = enStates e" by (simp add: reset_states cfgs map_add_subsumed1)
  then show "reset_engine e = e" by (simp add: engine.equality)
  assume "c \<in> set cfgs"
  moreover have "distinct (map fst (rev (map (\<lambda>c. (scName c, scInitialState c)) cfgs)))"
    using facts by (simp add: rev_map [symmetric] o_def)
  ultimately show "enStates e (scName c) = Some (scInitialState c)" by (auto simp: st)
qed

section \<open>Sessions\<close>

inductive reachable :: "scenario_config \<Rightarrow> string \<Rightarrow> bool" for c where
  initial: "reachable c (scInitialState c)"
| move: "reachable c (stState st) \<Longrightarrow> st \<in> set (scSteps c) \<Longrightarrow> stNextState st \<noteq> [] \<Longrightarrow>
    reachable c (stNextState st)"

lemma reachable_declared:
  assumes "reachable c s" and "scenario_ok c"
  shows "s \<in> declared_states c"
  using assms(1) assms(2) by (induction) (auto simp: scenario_ok_def declared_states_def)

definition states_ok :: "engine \<Rightarrow> bool" where
  "states_ok e \<longleftrightarrow> wf_engine e \<and>
     (\<forall>c\<in>set (enConfigs e). \<exists>s. enStates e (scName c) = Some s \<and> reachable c s)"

lemma same_name: "wf_engine e \<Longrightarrow> c \<in> set (enConfigs e) \<Longrightarrow> d \<in> set (enConfigs e) \<Longrightarrow> scName c = scName d \<Longrightarrow> c = d"
  by (auto simp: wf_engine_def distinct_map inj_on_def)

lemma move_on_wf [simp]: "wf_engine (move_on e c st) = wf_engine e"
  by (simp add: wf_engine_def)

lemma answer_states_ok: "states_ok e \<Longrightarrow> states_ok (snd (answer E e rb))"
proof -
  assume ok: "states_ok e"
  let ?acc = "\<lambda>m. fst (match_standalone E m (fst rb) (snd rb))"
  show ?thesis
  proof (cases "match_scenarios ?acc (enStates e) (enConfigs e) (enCompiled e)")
    case None
    with ok show ?thesis by (simp add: answer_def match_request_def)
  next
    case (Some cst)
    obtain c st where cst: "cst = (c, st)" by (cases cst)
    with Some match_scenarios_mem have st: "c \<in> set (enConfigs e)" "st \<in> set (scSteps c)"
      "stState st = dflt [] (enStates e (scName c))" by blast+
    with ok have "reachable c (stState st)" by (fastforce simp: states_ok_def)
    with st have next_ok: "stNextState st \<noteq> [] \<Longrightarrow> reachable c (stNextState st)" by (auto intro: move)
    have wf: "wf_engine e" using ok by (simp add: states_ok_def)
    have "\<exists>s. enStates (move_on e c st) (scName d) = Some s \<and> reachable d s" if "d \<in> set (enConfigs e)" for d
      using ok that next_ok same_name [OF wf that st(1)] by (auto simp: states_ok_def move_on_def)
    with wf Some cst show ?thesis by (simp add: answer_def match_request_def states_ok_def)
  qed
qed

lemma new_engine_states_ok: "new_with_registry E cfgs matching reg = Inr e \<Longrightarrow> states_ok e"
  using new_engine by (auto simp: states_ok_def intro: initial)

lemma session_configs [simp]: "enConfigs (snd (run_all (answer E) e rbs)) = enConfigs e"
  by (rule run_all_invariant [of "\<lambda>e'. enConfigs e' = enConfigs e"]) (simp_all add: answer_def)

text \<open>An engine with one scenario, for concrete sessions: \<open>/login\<close>, then \<open>/pay\<close>.\<close>

definition ok_response :: "string \<Rightarrow> response" where
  "ok_response body = \<lparr>rpStatus = 200, rpHeaders = [], rpTrailers = [], rpGRPCStatus = [], rpBody = body,
     rpBodyB64 = [], rpBodyTemplate = [], rpProtobufType = [], rpProtobufJSON = [], rpProtobufStream = [],
     rpStreamMessageDelay = []\<rparr>"

definition checkout :: scenario_config where
  "checkout = \<lparr>scName = ''checkout'', scInitialState = ''anonymous'', scSteps =
     [\<lparr>stName = ''login'', stState = ''anonymous'', stMatch = empty_rule\<lparr>rlPathRegex := ''/login''\<rparr>,
       stNextState = ''known'', stResponse = ok_response ''in''\<rparr>,
      \<lparr>stName = ''pay'', stState = ''known'', stMatch = empty_rule\<lparr>rlPathRegex := ''/pay''\<rparr>,
       stNextState = [], stResponse = ok_response ''paid''\<rparr>]\<rparr>"

definition checkout_engine :: engine where
  "checkout_engine = (case new_with_registry example_env [checkout] (maCfg (plain_matcher [])) None of
     Inr e \<Rightarrow> e | Inl _ \<Rightarrow> \<lparr>enConfigs = [], enStates = Map.empty, enCompiled = []\<rparr>)"

lemma new_checkout:
  "new_with_registry example_env [checkout] (maCfg (plain_matcher [])) None = Inr checkout_engine"
proof -
  have "is_ok (new_with_registry example_env [checkout] (maCfg (plain_matcher [])) None)"
    by (simp add: new_with_registry_def) code_simp
  then show ?thesis by (auto simp: checkout_engine_def is_ok_def split: sum.splits)
qed

text \<open>C17. However a session goes, every scenario is in a state that its configuration declares and
  that its own transitions reach from the initial one.\<close>

theorem scenario_states_reachable:
  assumes "new_with_registry E cfgs matching reg = Inr e" and "c \<in> set cfgs"
  shows "\<exists>s. enStates (snd (run_all (answer E) e rbs)) (scName c) = Some s \<and> reachable c s \<and>
    s \<in> declared_states c"
proof -
  have "states_ok (snd (run_all (answer E) e rbs))"
    using run_all_invariant answer_states_ok new_engine_states_ok [OF assms(1)] by metis
  moreover have "scenario_ok c" using new_engine(1,2) [OF assms(1)] assms(2) by (auto simp: wf_engine_def)
  ultimately show ?thesis
    using assms(2) reachable_declared new_engine(2) [OF assms(1)] by (fastforce simp: states_ok_def)
qed

lemma scenario_states_reachable_witness:
  "\<exists>s. enStates (snd (run_all (answer example_env) checkout_engine [(example_get ''http://h/login'', [])])) ''checkout'' = Some s \<and>
    reachable checkout s \<and> s \<in> declared_states checkout"
proof -
  have "scName checkout = ''checkout''" by (simp add: checkout_def)
  moreover have "checkout \<in> set [checkout]" by simp
  ultimately show ?thesis using scenario_states_reachable [OF new_checkout, of checkout] by metis
qed

text \<open>\<open>Reset\<close> restores the engine as it was built: after any session and a reset, every further
  session gets the answers a new engine gives.\<close>

theorem scenario_reset_repeats:
  assumes "new_with_registry E cfgs matching reg = Inr e"
  shows "run_all (answer E) (reset_engine (snd (run_all (answer E) e rbs))) qs = run_all (answer E) e qs"
  using eng.session_repeats [of E e rbs qs] new_engine(3) [OF assms] by simp

lemma scenario_reset_repeats_witness:
  "run_all (answer example_env)
     (reset_engine (snd (run_all (answer example_env) checkout_engine [(example_get ''http://h/login'', [])])))
     [(example_get ''http://h/pay'', [])] =
   run_all (answer example_env) checkout_engine [(example_get ''http://h/pay'', [])]"
  by (rule scenario_reset_repeats [OF new_checkout])

text \<open>The steps that can answer a request, in the order of the configuration: the state is current
  and the compiled rule accepts.\<close>

definition fitting ::
  "(matcher \<Rightarrow> bool) \<Rightarrow> (string \<rightharpoonup> string) \<Rightarrow> scenario_config \<times> matcher list \<Rightarrow>
   (scenario_config \<times> scenario_step) list" where
  "fitting accepts states cm =
     map (\<lambda>sm. (fst cm, fst sm))
       (filter (\<lambda>sm. stState (fst sm) = dflt [] (states (scName (fst cm))) \<and> accepts (snd sm))
          (zip (scSteps (fst cm)) (snd cm)))"

definition candidates :: "go_env \<Rightarrow> engine \<Rightarrow> request \<Rightarrow> string \<Rightarrow> (scenario_config \<times> scenario_step) list" where
  "candidates E e rq body =
     concat (map (fitting (\<lambda>m. fst (match_standalone E m rq body)) (enStates e)) (zip (enConfigs e) (enCompiled e)))"

lemma match_steps_first:
  "match_steps acc cur sts ms =
     map_option fst (first_of (filter (\<lambda>sm. stState (fst sm) = cur \<and> acc (snd sm)) (zip sts ms)))"
  by (induction acc cur sts ms rule: match_steps.induct) auto

lemma match_scenarios_first:
  "match_scenarios acc states cs mss = first_of (concat (map (fitting acc states) (zip cs mss)))"
proof (induction acc states cs mss rule: match_scenarios.induct)
  case (1 acc states c cs ms mss)
  have "first_of (fitting acc states (c, ms)) =
      map_option (Pair c) (match_steps acc (dflt [] (states (scName c))) (scSteps c) ms)"
    by (simp add: fitting_def match_steps_first option.map_comp o_def)
  with 1 show ?case by (auto simp: first_of_append split: option.splits)
qed auto

text \<open>A request is answered by the first step, in the order of the configuration, whose state
  is the current state of its scenario and whose rule accepts the request; that scenario alone
  moves, to the step's next state when it names one. Without such a step there is no answer and the
  engine stays as it is.\<close>

theorem match_request_first:
  "match_request E e rq body =
     (case candidates E e rq body of
        [] \<Rightarrow> (None, e)
      | (c, st) # _ \<Rightarrow>
          (Some \<lparr>mrScenario = scName c, mrStep = stName st, mrResponse = stResponse st\<rparr>,
           e\<lparr>enStates := (\<lambda>n. if n = scName c \<and> stNextState st \<noteq> [] then Some (stNextState st) else enStates e n)\<rparr>))"
proof -
  have "move_on e c st =
      e\<lparr>enStates := (\<lambda>n. if n = scName c \<and> stNextState st \<noteq> [] then Some (stNextState st) else enStates e n)\<rparr>" for c st
    by (auto simp: move_on_def fun_upd_def intro!: engine.equality)
  then show ?thesis
    unfolding match_request_def match_scenarios_first candidates_def [symmetric]
    by (cases "candidates E e rq body") (auto split: prod.splits)
qed

end
