(* ===== verification/SimLint.thy ===== *)
theory SimLint
  imports Scenario
begin

text \<open>
  \<open>pkg/simlint\<close> (\<open>lint.go\<close>): the diagnostics for a loaded configuration. \<open>File\<close> is modelled from the
  point where the configuration has been read; the message texts are not kept. The search for
  reachable states is a loop until nothing changes; it is shown to terminate and to compute the
  states of \<open>Scenario.reachable\<close>.
\<close>

section \<open>Diagnostics\<close>

datatype level = Error | Warning

record diagnostic =
  dgLevel :: level
  dgCode :: string
  dgLocation :: string

definition warning :: "string \<Rightarrow> string \<Rightarrow> diagnostic" where
  "warning code loc = \<lparr>dgLevel = Warning, dgCode = code, dgLocation = loc\<rparr>"

definition lint_error :: "string \<Rightarrow> string \<Rightarrow> diagnostic" where
  "lint_error code loc = \<lparr>dgLevel = Error, dgCode = code, dgLocation = loc\<rparr>"

definition count_level :: "level \<Rightarrow> diagnostic list \<Rightarrow> nat" where
  "count_level l ds = length (filter (\<lambda>d. dgLevel d = l) ds)"

definition indexed :: "string \<Rightarrow> nat \<Rightarrow> string" where
  "indexed base i = base @ ''['' @ nat_digits i @ '']''"

definition selector_key :: "match_rule \<Rightarrow> string" where
  "selector_key r =
     join ''|'' [join '','' (rlMethods r), rlHostRegex r, rlPathRegex r, rlGRPCMethod r]"

section \<open>Rules\<close>

definition lint_rule :: "string set \<Rightarrow> string \<Rightarrow> match_rule \<Rightarrow> diagnostic list" where
  "lint_rule names loc r =
     (if rlName r = [] then [warning ''RULE_UNNAMED'' loc]
      else if rlName r \<in> names then [lint_error ''RULE_DUPLICATE_NAME'' loc] else []) @
     (if selector_key r = [] then [warning ''RULE_GLOBAL'' loc] else [])"

fun lint_rules_from :: "nat \<Rightarrow> string set \<Rightarrow> match_rule list \<Rightarrow> diagnostic list" where
  "lint_rules_from i names [] = []"
| "lint_rules_from i names (r # rs) =
     lint_rule names (indexed ''matching.rules'' i) r @ lint_rules_from (Suc i) (insert (rlName r) names) rs"

definition lint_rules :: "match_config \<Rightarrow> diagnostic list" where
  "lint_rules cfg = lint_rules_from 0 {} (mcRules cfg)"

section \<open>Reachable states\<close>

text \<open>One pass over the steps, and the loop that repeats it while it changes something.\<close>

fun lint_pass :: "scenario_step list \<Rightarrow> string set \<Rightarrow> string set \<times> bool" where
  "lint_pass [] R = (R, False)"
| "lint_pass (st # sts) R =
     (if stState st \<in> R \<and> stNextState st \<noteq> [] \<and> stNextState st \<notin> R
      then (fst (lint_pass sts (insert (stNextState st) R)), True)
      else lint_pass sts R)"

lemma lint_pass_bounds: "R \<subseteq> fst (lint_pass sts R)" "fst (lint_pass sts R) \<subseteq> R \<union> stNextState ` set sts"
  by (induction sts R rule: lint_pass.induct) auto

lemma lint_pass_changed: "snd (lint_pass sts R) \<Longrightarrow> R \<subset> fst (lint_pass sts R)"
proof (induction sts R rule: lint_pass.induct)
  case (2 st sts R)
  then show ?case using lint_pass_bounds(1) [of "insert (stNextState st) R" sts] by (auto split: if_splits)
qed simp

lemma lint_pass_unchanged:
  "\<not> snd (lint_pass sts R) \<Longrightarrow> fst (lint_pass sts R) = R \<and>
     (\<forall>st\<in>set sts. stState st \<in> R \<longrightarrow> stNextState st \<noteq> [] \<longrightarrow> stNextState st \<in> R)"
  by (induction sts R rule: lint_pass.induct) (auto split: if_splits)

lemma fewer_left: "R \<subset> F \<Longrightarrow> F \<subseteq> R \<union> A \<Longrightarrow> A - F \<subset> A - R"
  by blast

function lint_reach :: "scenario_step list \<Rightarrow> string set \<Rightarrow> string set" where
  "lint_reach sts R =
     (if snd (lint_pass sts R) then lint_reach sts (fst (lint_pass sts R)) else fst (lint_pass sts R))"
  by pat_completeness auto

termination
proof (relation "measure (\<lambda>(sts, R). card (stNextState ` set sts - R))", goal_cases)
  case (2 sts R)
  have "stNextState ` set sts - fst (lint_pass sts R) \<subset> stNextState ` set sts - R"
    by (rule fewer_left [OF lint_pass_changed [OF 2] lint_pass_bounds(2)])
  then show ?case by (simp add: psubset_card_mono)
qed simp

declare lint_reach.simps [simp del]

section \<open>Scenarios\<close>

record lint_state =
  lsNames :: "string set"
  lsSelectors :: "string set"
  lsDiags :: "diagnostic list"

definition lint_step ::
  "match_config \<Rightarrow> string set \<Rightarrow> string \<Rightarrow> lint_state \<Rightarrow> nat \<times> scenario_step \<Rightarrow> lint_state" where
  "lint_step cfg reach loc s js =
     (case js of (j, st) \<Rightarrow>
       (let here = indexed (loc @ ''.steps'') j;
            key = stState st @ chr 0 # selector_key (stMatch st)
        in \<lparr>lsNames = insert (stName st) (lsNames s),
            lsSelectors = insert key (lsSelectors s),
            lsDiags = lsDiags s @
              (if stName st = [] then [warning ''STEP_UNNAMED'' here]
               else if stName st \<in> lsNames s then [lint_error ''STEP_DUPLICATE_NAME'' here] else []) @
              (if stState st \<notin> reach then [warning ''STATE_UNREACHABLE'' here] else []) @
              (if key \<in> lsSelectors s then [warning ''STEP_SHADOWED'' here] else []) @
              (if (rpProtobufJSON (stResponse st) \<noteq> [] \<or> rpProtobufStream (stResponse st) \<noteq> []) \<and>
                  grpc_config_empty (mcGRPC cfg)
               then [lint_error ''PROTOBUF_SCHEMA_REQUIRED'' (here @ ''.response'')] else [])\<rparr>))"

definition lint_scenario :: "match_config \<Rightarrow> nat \<times> scenario_config \<Rightarrow> diagnostic list" where
  "lint_scenario cfg ic =
     (case ic of (i, c) \<Rightarrow>
       (let loc = indexed ''scenarios'' i
        in if scSteps c = [] then [warning ''SCENARIO_EMPTY'' loc]
           else lsDiags (foldl (lint_step cfg (lint_reach (scSteps c) {scInitialState c}) loc)
                  \<lparr>lsNames = {}, lsSelectors = {}, lsDiags = []\<rparr> (enumerate 0 (scSteps c)))))"

definition diag_before :: "diagnostic \<Rightarrow> diagnostic \<Rightarrow> bool" where
  "diag_before a b \<longleftrightarrow>
     (if dgLevel a \<noteq> dgLevel b then dgLevel a = Error else dgLocation a < dgLocation b)"

text \<open>\<open>File\<close>, for a configuration that loaded.\<close>

definition lint_config :: "match_config \<Rightarrow> scenario_config list \<Rightarrow> diagnostic list" where
  "lint_config cfg scs =
     stable_sort diag_before
       (lint_rules cfg @ concat (map (lint_scenario cfg) (enumerate 0 scs)) @
        (if scs = [] then [warning ''NO_SCENARIOS'' ''scenarios''] else []))"

interpretation diag_order: keyed_order "\<lambda>d. (dgLevel d \<noteq> Error, dgLocation d)" diag_before
proof
  show "diag_before a b \<longleftrightarrow> (dgLevel a \<noteq> Error, dgLocation a) < (dgLevel b \<noteq> Error, dgLocation b)" for a b
    by (cases "dgLevel a"; cases "dgLevel b") (simp_all add: diag_before_def less_prod_simp)
qed

section \<open>The search computes reachability\<close>

lemma lint_pass_sound:
  "set sts \<subseteq> set (scSteps c) \<Longrightarrow> (\<And>s. s \<in> R \<Longrightarrow> reachable c s) \<Longrightarrow> s \<in> fst (lint_pass sts R) \<Longrightarrow> reachable c s"
proof (induction sts R rule: lint_pass.induct)
  case (2 st sts R)
  then show ?case by (auto split: if_splits intro: move)
qed simp

lemma lint_reach_sound:
  "(\<And>s. s \<in> R \<Longrightarrow> reachable c s) \<Longrightarrow> s \<in> lint_reach (scSteps c) R \<Longrightarrow> reachable c s"
proof (induction "scSteps c" R rule: lint_reach.induct)
  case (1 R)
  have pass: "\<And>s. s \<in> fst (lint_pass (scSteps c) R) \<Longrightarrow> reachable c s"
    using lint_pass_sound [of "scSteps c" c R] 1(2) by blast
  with 1 show ?case by (subst (asm) lint_reach.simps) (auto split: if_splits)
qed

lemma lint_reach_closed:
  "R \<subseteq> lint_reach sts R \<and>
   (\<forall>st\<in>set sts. stState st \<in> lint_reach sts R \<longrightarrow> stNextState st \<noteq> [] \<longrightarrow> stNextState st \<in> lint_reach sts R)"
proof (induction sts R rule: lint_reach.induct)
  case (1 sts R)
  show ?case
  proof (cases "snd (lint_pass sts R)")
    case True
    with 1 lint_pass_bounds(1) [of R sts] show ?thesis by (auto simp: lint_reach.simps [of sts R])
  next
    case False
    with lint_pass_unchanged [OF False] show ?thesis by (simp add: lint_reach.simps [of sts R])
  qed
qed

text \<open>C21. The loop of the linter ends, and the states it has marked are exactly those that the
  scenario's transitions reach from its initial state.\<close>

theorem lint_reach_exact: "s \<in> lint_reach (scSteps c) {scInitialState c} \<longleftrightarrow> reachable c s"
proof
  show "s \<in> lint_reach (scSteps c) {scInitialState c} \<Longrightarrow> reachable c s"
    by (rule lint_reach_sound) (auto intro: initial)
  note closed = lint_reach_closed [of "{scInitialState c}" "scSteps c"]
  show "reachable c s \<Longrightarrow> s \<in> lint_reach (scSteps c) {scInitialState c}"
    by (induction rule: reachable.induct) (use closed in auto)
qed

lemma candidate_state:
  "(c, st) \<in> set (candidates E e rq body) \<Longrightarrow>
     c \<in> set (enConfigs e) \<and> st \<in> set (scSteps c) \<and> stState st = dflt [] (enStates e (scName c))"
  by (auto simp: candidates_def fitting_def dest: set_zip_leftD)


definition lost_step :: scenario_step where
  "lost_step = \<lparr>stName = ''lost'', stState = ''nowhere'', stMatch = empty_rule, stNextState = [],
     stResponse = ok_response []\<rparr>"

definition lost_scenario :: scenario_config where
  "lost_scenario = checkout\<lparr>scSteps := scSteps checkout @ [lost_step]\<rparr>"


section \<open>What the other diagnostics are worth\<close>

lemma selector_key_nonempty [simp]: "selector_key r \<noteq> []"
  by (simp add: selector_key_def)

text \<open>The warning for a rule without any selector is dead code: the key it tests is joined with
  separators and is never empty, so no configuration gets RULE_GLOBAL.\<close>

theorem rule_global_never_reported:
  "''RULE_GLOBAL'' \<notin> dgCode ` set (lint_rules cfg)"
proof -
  have "''RULE_GLOBAL'' \<notin> dgCode ` set (lint_rules_from i names rs)" for i names rs
    by (induction i names rs rule: lint_rules_from.induct)
       (auto simp: lint_rule_def warning_def lint_error_def)
  then show ?thesis by (simp add: lint_rules_def)
qed

text \<open>The report lists every diagnostic once, errors before warnings, each group by location.\<close>

theorem lint_report_sorted:
  "sorted (map (\<lambda>d. (dgLevel d \<noteq> Error, dgLocation d)) (lint_config cfg scs)) \<and>
   mset (lint_config cfg scs) =
     mset (lint_rules cfg) + mset (concat (map (lint_scenario cfg) (enumerate 0 scs))) +
     (if scs = [] then {#warning ''NO_SCENARIOS'' ''scenarios''#} else {#})"
  unfolding lint_config_def by (simp add: diag_order.sort_keys_sorted)

text \<open>Two steps of one state that only a header tells apart.\<close>

definition tenant_step :: "string \<Rightarrow> scenario_step" where
  "tenant_step t = \<lparr>stName = t, stState = ''on'', stMatch = empty_rule\<lparr>rlHeaderRegex := [(''X-Tenant'', t)]\<rparr>,
     stNextState = [], stResponse = ok_response t\<rparr>"

definition tenants :: scenario_config where
  "tenants = \<lparr>scName = ''tenants'', scInitialState = ''on'', scSteps = [tenant_step ''a'', tenant_step ''b'']\<rparr>"

text \<open>STEP_SHADOWED compares methods, host, path and gRPC method only: it calls the second of two
  steps shadowed that a header expression tells apart, although the engine answers with it.\<close>

theorem shadowed_step_answers:
  "map dgCode (lint_config (maCfg (plain_matcher [])) [tenants]) = [''STEP_SHADOWED''] \<and>
   (case new_with_registry example_env [tenants] (maCfg (plain_matcher [])) None of
      Inr e \<Rightarrow> map_option mrStep (fst (match_request example_env e
         ((example_get ''http://h/x'')\<lparr>rqHeader := [(''X-Tenant'', [''b''])]\<rparr>) [])) = Some ''b''
    | Inl _ \<Rightarrow> False)"
proof (rule conjI)
  show "map dgCode (lint_config (maCfg (plain_matcher [])) [tenants]) = [''STEP_SHADOWED'']" by code_simp
qed (simp add: new_with_registry_def, code_simp)

end
