(* ===== verification/Message.thy ===== *)
theory Message
  imports GoEnv
begin

text \<open>
  \<open>pkg/message\<close> (\<open>message.go\<close>): captured broker messages, their encoding, validation, the log that
  numbers them and the loader that orders them. Identifiers come from the random source and clocks
  from the system, so both are arguments. A timestamp counts nanoseconds from the zero time.
\<close>

section \<open>Records\<close>

record msg_header =
  mhKey :: string
  mhValueB64 :: string

type_synonym binary_header = "string \<times> string"

record message =
  msVersion :: int
  msID :: string
  msTimestamp :: int
  msSequence :: int
  msBroker :: string
  msDirection :: string
  msTopic :: string
  msPartition :: int
  msOffset :: int
  msKeyB64 :: string
  msHeaders :: "msg_header list"
  msPayloadB64 :: string
  msPayloadSHA256 :: string
  msRedacted :: bool
  msCorrelationID :: string
  msSchema :: string

datatype msg_error =
    DecodeFailed string | HashMismatch | EmptyHeaderName | BadVersion int | MissingField | BadDirection
  | DuplicateID string | BadRecord

definition sha256_hex :: "go_env \<Rightarrow> string \<Rightarrow> string" where
  "sha256_hex E v = hex_encode (gSha256 E v)"

definition decode_b64 :: "string \<Rightarrow> string \<Rightarrow> (msg_error, string) result" where
  "decode_b64 name v = (case b64_decode v of None \<Rightarrow> Inl (DecodeFailed name) | Some b \<Rightarrow> Inr b)"

section \<open>Correlation\<close>

definition safe_correlation :: "go_env \<Rightarrow> string \<Rightarrow> string" where
  "safe_correlation E v = (let t = trim_space v in if 256 < length t then sha256_hex E t else t)"

definition header_correlation :: "binary_header list \<Rightarrow> string option" where
  "header_correlation hs =
     first_of (concat (map (\<lambda>wanted. map snd (filter (\<lambda>h. equal_fold (fst h) wanted \<and> snd h \<noteq> []) hs))
       [''correlation-id'', ''x-correlation-id'', ''traceparent'', ''x-request-id'']))"

definition payload_correlation :: "go_env \<Rightarrow> string \<Rightarrow> string option" where
  "payload_correlation E payload =
     (case gUnmarshal E payload of
        Some (JObj kvs) \<Rightarrow>
          first_of (concat (map (\<lambda>n. case map_of kvs n of Some (JStr s) \<Rightarrow> [s] | _ \<Rightarrow> [])
            [''correlation_id'', ''trace_id'', ''request_id'']))
      | _ \<Rightarrow> None)"

definition infer_correlation :: "go_env \<Rightarrow> binary_header list \<Rightarrow> string \<Rightarrow> string" where
  "infer_correlation E hs payload =
     (case header_correlation hs of
        Some v \<Rightarrow> safe_correlation E v
      | None \<Rightarrow> (case payload_correlation E payload of Some v \<Rightarrow> safe_correlation E v | None \<Rightarrow> []))"

section \<open>Construction and access\<close>

text \<open>\<open>NewWithHeaders\<close> with the identifier and the time it draws; \<open>New\<close> takes a map and sorts its names.\<close>

definition new_with_headers ::
  "go_env \<Rightarrow> string \<Rightarrow> int \<Rightarrow> string \<Rightarrow> string \<Rightarrow> string \<Rightarrow> binary_header list \<Rightarrow> message" where
  "new_with_headers E ident now topic key payload hs =
     \<lparr>msVersion = 1, msID = ident, msTimestamp = now, msSequence = 0, msBroker = [], msDirection = [],
      msTopic = topic, msPartition = - 1, msOffset = - 1, msKeyB64 = b64_encode key,
      msHeaders = map (\<lambda>(k, v). \<lparr>mhKey = k, mhValueB64 = b64_encode v\<rparr>) hs,
      msPayloadB64 = b64_encode payload, msPayloadSHA256 = sha256_hex E payload, msRedacted = False,
      msCorrelationID = infer_correlation E hs payload, msSchema = []\<rparr>"

definition new_message ::
  "go_env \<Rightarrow> string \<Rightarrow> int \<Rightarrow> string \<Rightarrow> string \<Rightarrow> string \<Rightarrow> (string \<times> string) list \<Rightarrow> message" where
  "new_message E ident now topic key payload headers =
     new_with_headers E ident now topic key payload
       (map (\<lambda>k. (k, dflt [] (map_of headers k))) (sort (map fst headers)))"

definition msg_key :: "message \<Rightarrow> (msg_error, string) result" where
  "msg_key m = decode_b64 ''key'' (msKeyB64 m)"

definition msg_payload :: "go_env \<Rightarrow> message \<Rightarrow> (msg_error, string) result" where
  "msg_payload E m =
     and_then (decode_b64 ''payload'' (msPayloadB64 m)) (\<lambda>b.
       if msPayloadSHA256 m \<noteq> [] \<and> sha256_hex E b \<noteq> msPayloadSHA256 m then Inl HashMismatch else Inr b)"

definition header_value :: "msg_header \<Rightarrow> (msg_error, binary_header) result" where
  "header_value h =
     and_then (fail_if (trim_space (mhKey h) = []) EmptyHeaderName) (\<lambda>_.
     and_then (decode_b64 (''header '' @ mhKey h) (mhValueB64 h)) (\<lambda>v. Inr (mhKey h, v)))"

definition header_values :: "message \<Rightarrow> (msg_error, binary_header list) result" where
  "header_values m = map_err header_value (msHeaders m)"

definition header_map :: "message \<Rightarrow> (msg_error, string \<rightharpoonup> string) result" where
  "header_map m = and_then (header_values m) (\<lambda>hs. Inr (map_of (rev hs)))"

definition validate_message :: "go_env \<Rightarrow> message \<Rightarrow> (msg_error, unit) result" where
  "validate_message E m =
     and_then (fail_if (msVersion m \<noteq> 1) (BadVersion (msVersion m))) (\<lambda>_.
     and_then (fail_if (msID m = [] \<or> msTopic m = [] \<or> msTimestamp m = 0) MissingField) (\<lambda>_.
     and_then (fail_if (msDirection m \<noteq> [] \<and> msDirection m \<noteq> ''publish'' \<and> msDirection m \<noteq> ''consume'') BadDirection) (\<lambda>_.
     and_then (msg_key m) (\<lambda>_.
     and_then (msg_payload E m) (\<lambda>_.
     and_then (header_map m) (\<lambda>_. Inr ()))))))"

section \<open>Loading a log\<close>

definition message_less :: "message \<Rightarrow> message \<Rightarrow> bool" where
  "message_less a b =
     (if msTimestamp a = msTimestamp b then msSequence a < msSequence b else msTimestamp a < msTimestamp b)"

interpretation message_order: keyed_order "\<lambda>m. (msTimestamp m, msSequence m)" message_less
  by unfold_locales (auto simp: message_less_def)

text \<open>\<open>Load\<close>: the records as the decoder gives them, None where it fails; the loop validates each and
  refuses a repeated identifier.\<close>

fun collect :: "go_env \<Rightarrow> string set \<Rightarrow> message option list \<Rightarrow> (msg_error, message list) result" where
  "collect E seen [] = Inr []"
| "collect E seen (None # rest) = Inl BadRecord"
| "collect E seen (Some m # rest) =
     and_then (validate_message E m) (\<lambda>_.
       if msID m \<in> seen then Inl (DuplicateID (msID m))
       else and_then (collect E (insert (msID m) seen) rest) (\<lambda>ms. Inr (m # ms)))"

definition load_messages :: "go_env \<Rightarrow> message option list \<Rightarrow> (msg_error, message list) result" where
  "load_messages E decoded = and_then (collect E {} decoded) (\<lambda>ms. Inr (stable_sort message_less ms))"

section \<open>The logger\<close>

text \<open>\<open>NewLogger\<close> continues after the largest sequence number; \<open>Write\<close> numbers before it validates. The
  log is the list of records written.\<close>

record msg_logger =
  mlRecords :: "message list"
  mlSequence :: int

definition new_msg_logger :: "go_env \<Rightarrow> message option list \<Rightarrow> (msg_error, msg_logger) result" where
  "new_msg_logger E decoded =
     and_then (load_messages E decoded) (\<lambda>ms.
       Inr \<lparr>mlRecords = map the decoded,
            mlSequence = foldl (\<lambda>s m. if s < msSequence m then msSequence m else s) 0 ms\<rparr>)"

definition write_message :: "go_env \<Rightarrow> msg_logger \<Rightarrow> message \<Rightarrow> msg_logger \<times> message option" where
  "write_message E l m =
     (let n = mlSequence l + 1;
          m' = m\<lparr>msSequence := n, msVersion := (if msVersion m = 0 then 1 else msVersion m)\<rparr>
      in case validate_message E m' of
           Inl _ \<Rightarrow> (l\<lparr>mlSequence := n\<rparr>, None)
         | Inr _ \<Rightarrow> (l\<lparr>mlSequence := n, mlRecords := mlRecords l @ [m']\<rparr>, Some m'))"

interpretation message_log: numbering_logger "write_message E" mlSequence msSequence for E
  by unfold_locales (auto simp: write_message_def Let_def split: sum.splits)

section \<open>Correctness\<close>

lemma decode_encoded [simp]: "decode_b64 n (b64_encode v) = Inr v"
  by (simp add: decode_b64_def)

text \<open>A record gives back what it was made from: its key, its payload with the recorded hash, and its
  headers in order; and it validates as soon as it has an identifier, a topic and a time.\<close>

theorem message_roundtrip:
  fixes E :: go_env and now :: int and ident topic key payload :: string
  assumes "\<forall>(k, v)\<in>set hs. trim_space k \<noteq> []"
  defines "m \<equiv> new_with_headers E ident now topic key payload hs"
  shows "msg_key m = Inr key \<and> msg_payload E m = Inr payload \<and> header_values m = Inr hs \<and>
    (ident \<noteq> [] \<and> topic \<noteq> [] \<and> now \<noteq> 0 \<longrightarrow> validate_message E m = Inr ())"
proof -
  have hv: "header_values m = Inr hs"
    using assms(1) unfolding m_def header_values_def new_with_headers_def
    by (induction hs) (auto simp: header_value_def)
  have "msg_key m = Inr key" "msg_payload E m = Inr payload"
    by (simp_all add: m_def msg_key_def msg_payload_def new_with_headers_def)
  with hv show ?thesis
    by (simp add: validate_message_def header_map_def) (simp add: m_def new_with_headers_def)
qed

lemma message_roundtrip_witness:
  "header_values (new_with_headers example_env ''i'' 1 ''t'' ''k'' ''p'' [(''h'', ''v'')]) = Inr [(''h'', ''v'')] \<and>
   validate_message example_env (new_with_headers example_env ''i'' 1 ''t'' ''k'' ''p'' [(''h'', ''v'')]) = Inr ()"
proof -
  have "\<forall>(k, v)\<in>set [(''h'', ''v'')]. trim_space k \<noteq> []" by code_simp
  from message_roundtrip [OF this, of example_env "''i''" 1 "''t''" "''k''" "''p''"] show ?thesis by simp
qed

lemma collect_ok:
  "collect E seen ds = Inr ms \<Longrightarrow> ds = map Some ms \<and> distinct (map msID ms) \<and> msID ` set ms \<inter> seen = {} \<and>
     (\<forall>m\<in>set ms. validate_message E m = Inr ())"
proof (induction E seen ds arbitrary: ms rule: collect.induct)
  case (3 E seen m rest)
  then obtain ms' where "validate_message E m = Inr ()" "msID m \<notin> seen"
    "collect E (insert (msID m) seen) rest = Inr ms'" "ms = m # ms'"
    by (auto split: if_splits)
  with 3 show ?case by auto
qed auto

text \<open>A log that loads contains every decoded record exactly once, each valid, no two with the same
  identifier, ordered by time and then by sequence number.\<close>

theorem load_messages_sound:
  assumes "load_messages E decoded = Inr ms"
  shows "mset (map Some ms) = mset decoded \<and> distinct (map msID ms) \<and>
    sorted (map (\<lambda>m. (msTimestamp m, msSequence m)) ms) \<and> (\<forall>m\<in>set ms. validate_message E m = Inr ())"
proof -
  from assms obtain raw where raw: "collect E {} decoded = Inr raw" "ms = stable_sort message_less raw"
    by (auto simp: load_messages_def)
  have "distinct (map msID ms)"
    using collect_ok [OF raw(1)] raw(2) by (metis mset_eq_imp_distinct_iff mset_map mset_stable_sort)
  moreover have "mset (map Some ms) = mset decoded"
    using collect_ok [OF raw(1)] raw(2) by simp
  ultimately show ?thesis
    using collect_ok [OF raw(1)] raw(2) by (simp add: message_order.sort_keys_sorted)
qed

definition example_message :: "string \<Rightarrow> message" where
  "example_message ident = new_with_headers example_env ident 1 ''t'' ''k'' ''p'' []"

lemma load_messages_sound_witness:
  "\<exists>ms. load_messages example_env [Some (example_message ''a''), Some (example_message ''b'')] = Inr ms \<and>
     distinct (map msID ms)"
proof -
  have "is_ok (load_messages example_env [Some (example_message ''a''), Some (example_message ''b'')])" by code_simp
  then obtain ms where ms: "load_messages example_env [Some (example_message ''a''), Some (example_message ''b'')] = Inr ms"
    by (auto simp: is_ok_def split: sum.splits)
  with load_messages_sound [OF ms] show ?thesis by blast
qed

lemma max_sequence:
  "(s :: int) \<le> foldl (\<lambda>s m. if s < msSequence m then msSequence m else s) s ms \<and>
   (\<forall>m\<in>set ms. msSequence m \<le> foldl (\<lambda>s m. if s < msSequence m then msSequence m else s) s ms)"
proof (induction ms arbitrary: s)
  case (Cons m ms)
  show ?case using Cons [of "if s < msSequence m then msSequence m else s"] by (auto split: if_splits)
qed simp

text \<open>A logger opened on an existing log numbers what it writes in increasing order and beyond every
  number already there, so appending never reuses a sequence number; a record that fails validation
  only leaves a gap.\<close>

theorem message_log_numbers:
  assumes "new_msg_logger E (map Some old) = Inr l"
  shows "sorted_wrt (<) (map msSequence (snd (run_writes (write_message E) l ms))) \<and>
    (\<forall>x\<in>set old. \<forall>y\<in>set (snd (run_writes (write_message E) l ms)). msSequence x < msSequence y)"
proof -
  from assms obtain sorted_ms where ms: "load_messages E (map Some old) = Inr sorted_ms"
    and l: "mlSequence l = foldl (\<lambda>s m. if s < msSequence m then msSequence m else s) 0 sorted_ms"
    by (auto simp: new_msg_logger_def)
  from ms obtain raw where raw: "collect E {} (map Some old) = Inr raw" "sorted_ms = stable_sort message_less raw"
    by (auto simp: load_messages_def)
  with collect_ok [OF raw(1)] have "set sorted_ms = set old" by (simp add: inj_map_eq_map)
  with max_sequence [of 0 sorted_ms] l have old: "\<forall>x\<in>set old. msSequence x \<le> mlSequence l" by simp
  note run = message_log.run_numbers [of E l ms]
  with old show ?thesis by fastforce
qed

lemma message_log_numbers_witness:
  "\<exists>l. new_msg_logger example_env (map Some [(example_message ''a'')\<lparr>msSequence := 7\<rparr>]) = Inr l \<and>
     sorted_wrt (<) (map msSequence (snd (run_writes (write_message example_env) l [example_message ''b'', example_message ''c''])))"
proof -
  have "is_ok (new_msg_logger example_env (map Some [(example_message ''a'')\<lparr>msSequence := 7\<rparr>]))" by code_simp
  then obtain l where l: "new_msg_logger example_env (map Some [(example_message ''a'')\<lparr>msSequence := 7\<rparr>]) = Inr l"
    by (auto simp: is_ok_def split: sum.splits)
  with message_log_numbers [OF l] show ?thesis by blast
qed

end
