(* ===== verification/Privacy.thy ===== *)
theory Privacy
  imports GoEnv
begin

text \<open>
  \<open>pkg/privacy\<close> (\<open>policy.go\<close>): the policy that removes, replaces or tokenizes headers, query
  parameters, JSON fields and message parts before anything is stored. \<open>Load\<close> is modelled from the
  decoded YAML; the environment variable with the token key is an argument. A nil policy is None.
\<close>

section \<open>The policy\<close>

type_synonym named_rule = "string \<times> string"

record policy =
  pyVersion :: int
  pyCaptureBodies :: bool
  pyTokenKeyEnv :: string
  pyHeaders :: "named_rule list"
  pyQuery :: "named_rule list"
  pyJSON :: "(string \<times> string) list"
  pyMessageKey :: string
  pyMessageHeaders :: "named_rule list"
  pyTokenKey :: string

datatype policy_error =
    BadPolicyVersion | NameMissing string | NamePadded string | BadAction string | Duplicated string
  | PathMissing | BadFieldPath string path_error | KeyEnvMissing | KeyTooShort

definition action_ok :: "string \<Rightarrow> bool" where
  "action_ok a \<longleftrightarrow> a \<in> {''redact'', ''tokenize'', ''drop''}"

definition validate_named_rule :: "named_rule \<Rightarrow> (policy_error, unit) result" where
  "validate_named_rule r =
     and_then (fail_if (trim_space (fst r) = []) (NameMissing (fst r))) (\<lambda>_.
     and_then (fail_if (fst r \<noteq> trim_space (fst r)) (NamePadded (fst r))) (\<lambda>_.
     fail_if (\<not> action_ok (snd r)) (BadAction (fst r))))"

text \<open>The three loops over named rules differ in how they compare names.\<close>

fun check_named :: "(string \<Rightarrow> string) \<Rightarrow> string set \<Rightarrow> named_rule list \<Rightarrow> (policy_error, unit) result" where
  "check_named norm seen [] = Inr ()"
| "check_named norm seen (r # rs) =
     and_then (validate_named_rule r) (\<lambda>_.
     and_then (fail_if (norm (fst r) \<in> seen) (Duplicated (fst r))) (\<lambda>_.
     check_named norm (insert (norm (fst r)) seen) rs))"

text \<open>\<open>parsePath\<close>: the same loop as in \<open>pkg/matcher\<close> behind a stricter start.\<close>

definition parse_field_path :: "string \<Rightarrow> (path_error, jptok list) result" where
  "parse_field_path path =
     (if path = ''$'' then Inr []
      else if has_prefix path ''$.'' then path_loop (drop 2 path)
      else Inl BadPathStart)"

fun check_fields :: "string set \<Rightarrow> (string \<times> string) list \<Rightarrow> (policy_error, unit) result" where
  "check_fields seen [] = Inr ()"
| "check_fields seen (r # rs) =
     and_then (fail_if (trim_space (fst r) = []) PathMissing) (\<lambda>_.
     and_then (case parse_field_path (fst r) of Inl e \<Rightarrow> Inl (BadFieldPath (fst r) e) | Inr _ \<Rightarrow> Inr ()) (\<lambda>_.
     and_then (fail_if (\<not> action_ok (snd r)) (BadAction (fst r))) (\<lambda>_.
     and_then (fail_if (fst r \<in> seen) (Duplicated (fst r))) (\<lambda>_.
     check_fields (insert (fst r) seen) rs))))"

definition needs_key :: "policy \<Rightarrow> bool" where
  "needs_key p \<longleftrightarrow>
     ''tokenize'' \<in> snd ` (set (pyHeaders p) \<union> set (pyQuery p) \<union> set (pyJSON p) \<union> set (pyMessageHeaders p)) \<or>
     pyMessageKey p = ''tokenize''"

definition load_policy :: "(string \<Rightarrow> string) \<Rightarrow> policy \<Rightarrow> (policy_error, policy) result" where
  "load_policy getenv p =
     and_then (fail_if (pyVersion p \<noteq> 1) BadPolicyVersion) (\<lambda>_.
     and_then (check_named to_lower {} (pyHeaders p)) (\<lambda>_.
     and_then (check_named id {} (pyQuery p)) (\<lambda>_.
     and_then (check_fields {} (pyJSON p)) (\<lambda>_.
     and_then (fail_if (pyMessageKey p \<noteq> [] \<and> \<not> action_ok (pyMessageKey p)) (BadAction ''message_key'')) (\<lambda>_.
     and_then (check_named to_lower {} (pyMessageHeaders p)) (\<lambda>_.
     if needs_key p then
       and_then (fail_if (pyTokenKeyEnv p = []) KeyEnvMissing) (\<lambda>_.
       and_then (fail_if (length (getenv (pyTokenKeyEnv p)) < 16) KeyTooShort) (\<lambda>_.
       Inr (p\<lparr>pyTokenKey := getenv (pyTokenKeyEnv p)\<rparr>)))
     else Inr p))))))"

section \<open>Sanitizing values\<close>

definition redacted :: string where
  "redacted = ''[REDACTED]''"

definition token :: "go_env \<Rightarrow> policy \<Rightarrow> string \<Rightarrow> string" where
  "token E p v = ''tok_'' @ hex_encode (take 16 (gHmacSha256 E (pyTokenKey p) v))"

definition apply_bytes :: "go_env \<Rightarrow> policy \<Rightarrow> string \<Rightarrow> string \<Rightarrow> string" where
  "apply_bytes E p v a =
     (if a = ''drop'' then [] else if a = ''redact'' then redacted
      else if a = ''tokenize'' then token E p v else v)"

section \<open>JSON bodies\<close>

fun value_string :: "json \<Rightarrow> string" where
  "value_string (JStr s) = s"
| "value_string v = marshal v"

text \<open>What \<open>applyJSONRule\<close> does to the container of the last path element.\<close>

fun hide_child :: "go_env \<Rightarrow> policy \<Rightarrow> string \<Rightarrow> json \<Rightarrow> jptok \<Rightarrow> json" where
  "hide_child E p a (JArr xs) (PIdx i) =
     (if length xs \<le> i then JArr xs
      else if a = ''drop'' \<or> a = ''redact'' then JArr (xs[i := JStr redacted])
      else if a = ''tokenize'' then JArr (xs[i := JStr (token E p (value_string (xs ! i)))])
      else JArr xs)"
| "hide_child E p a (JObj kvs) (PKey k) =
     (case map_of kvs k of
        None \<Rightarrow> JObj kvs
      | Some v \<Rightarrow>
          if a = ''drop'' then JObj (AList.delete k kvs)
          else if a = ''redact'' then JObj (AList.update k (JStr redacted) kvs)
          else if a = ''tokenize'' then JObj (AList.update k (JStr (token E p (value_string v))) kvs)
          else JObj kvs)"
| "hide_child E p a j _ = j"

definition apply_json_rule :: "go_env \<Rightarrow> policy \<Rightarrow> json \<Rightarrow> string \<times> string \<Rightarrow> json" where
  "apply_json_rule E p root r =
     (case parse_field_path (fst r) of Inl _ \<Rightarrow> root | Inr ts \<Rightarrow> json_edit (hide_child E p (snd r)) root ts)"

definition apply_json_rules :: "go_env \<Rightarrow> policy \<Rightarrow> json \<Rightarrow> json" where
  "apply_json_rules E p root = foldl (apply_json_rule E p) root (pyJSON p)"

definition apply_body :: "go_env \<Rightarrow> policy option \<Rightarrow> string \<Rightarrow> string option" where
  "apply_body E po body =
     (case po of
        None \<Rightarrow> Some body
      | Some p \<Rightarrow>
          if pyJSON p = [] \<or> body = [] then Some body
          else map_option (\<lambda>v. marshal (apply_json_rules E p v)) (gUnmarshal E body))"

section \<open>Messages\<close>

definition hide_message_header ::
  "go_env \<Rightarrow> policy \<Rightarrow> named_rule \<Rightarrow> (string \<times> string) list \<Rightarrow> (string \<times> string) list" where
  "hide_message_header E p r hs =
     concat (map (\<lambda>h. if \<not> equal_fold (fst h) (fst r) then [h]
                      else if snd r = ''drop'' then []
                      else [(fst h, apply_bytes E p (snd h) (snd r))]) hs)"

definition apply_message ::
  "go_env \<Rightarrow> policy option \<Rightarrow> string \<Rightarrow> (string \<times> string) list \<Rightarrow> string \<Rightarrow>
   (string \<times> (string \<times> string) list \<times> string) option" where
  "apply_message E po key hs payload =
     (case po of
        None \<Rightarrow> Some (key, hs, payload)
      | Some p \<Rightarrow>
          (let key' = (if pyMessageKey p \<noteq> [] then apply_bytes E p key (pyMessageKey p) else key);
               hs' = foldl (\<lambda>hs r. hide_message_header E p r hs) hs (pyMessageHeaders p)
           in if payload \<noteq> [] \<and> pyJSON p \<noteq> [] then
                (case apply_body E po payload of None \<Rightarrow> None | Some b \<Rightarrow> Some (key', hs', b))
              else Some (key', hs', payload)))"

section \<open>HTTP headers and URLs\<close>

definition header_rule :: "policy option \<Rightarrow> string \<Rightarrow> string option" where
  "header_rule po name =
     (case po of None \<Rightarrow> None
      | Some p \<Rightarrow> map_option snd (List.find (\<lambda>r. equal_fold (fst r) name) (pyHeaders p)))"

definition hide_values :: "go_env \<Rightarrow> policy \<Rightarrow> string \<Rightarrow> string list \<Rightarrow> string list option" where
  "hide_values E p a vs =
     (if a = ''drop'' then None else if a = ''redact'' then Some [redacted]
      else if a = ''tokenize'' then Some (map (token E p) vs) else Some vs)"

definition hide1 :: "go_env \<Rightarrow> policy \<Rightarrow> named_rule \<Rightarrow> string \<times> string list \<Rightarrow> header" where
  "hide1 E p r e =
     (if \<not> equal_fold (fst e) (fst r) then [e]
      else case hide_values E p (snd r) (snd e) of None \<Rightarrow> [] | Some ws \<Rightarrow> [(fst e, ws)])"

definition hide_header :: "go_env \<Rightarrow> policy \<Rightarrow> named_rule \<Rightarrow> header \<Rightarrow> header" where
  "hide_header E p r h = concat (map (hide1 E p r) h)"

definition apply_headers :: "go_env \<Rightarrow> policy option \<Rightarrow> header \<Rightarrow> header" where
  "apply_headers E po h =
     (case po of None \<Rightarrow> h | Some p \<Rightarrow> foldl (\<lambda>h r. hide_header E p r h) h (pyHeaders p))"

definition hide_query :: "go_env \<Rightarrow> policy \<Rightarrow> named_rule \<Rightarrow> header \<Rightarrow> header" where
  "hide_query E p r q =
     (case map_of q (fst r) of
        None \<Rightarrow> q
      | Some vs \<Rightarrow>
          (case hide_values E p (snd r) vs of
             None \<Rightarrow> AList.delete (fst r) q
           | Some ws \<Rightarrow> AList.update (fst r) ws q))"

definition apply_url :: "go_env \<Rightarrow> policy option \<Rightarrow> gourl \<Rightarrow> gourl" where
  "apply_url E po u =
     (case po of None \<Rightarrow> u
      | Some p \<Rightarrow> u\<lparr>uRawQuery := values_encode (foldl (\<lambda>q r. hide_query E p r q) (url_query u) (pyQuery p))\<rparr>)"

section \<open>What validation establishes\<close>

lemma validate_named_rule_ok: "validate_named_rule r = Inr u \<Longrightarrow> action_ok (snd r) \<and> fst r \<noteq> []"
  by (simp only: validate_named_rule_def and_then_Inr fail_if_simps) metis

lemma check_named_ok:
  "check_named norm seen rs = Inr u \<Longrightarrow>
   (\<forall>r\<in>set rs. action_ok (snd r) \<and> fst r \<noteq> []) \<and>
   distinct (map (norm \<circ> fst) rs) \<and> (norm \<circ> fst) ` set rs \<inter> seen = {}"
proof (induction norm seen rs rule: check_named.induct)
  case (2 norm seen r rs)
  then have r: "validate_named_rule r = Inr ()" "norm (fst r) \<notin> seen"
    "check_named norm (insert (norm (fst r)) seen) rs = Inr u"
    by auto
  with 2 validate_named_rule_ok [OF r(1)] show ?case by auto
qed simp

lemma check_fields_ok:
  "check_fields seen rs = Inr u \<Longrightarrow>
   (\<forall>r\<in>set rs. action_ok (snd r) \<and> is_ok (parse_field_path (fst r))) \<and>
   distinct (map fst rs) \<and> fst ` set rs \<inter> seen = {}"
proof (induction seen rs rule: check_fields.induct)
  case (2 seen r rs)
  then show ?case by (auto simp: is_ok_def split: sum.splits)
qed simp

definition policy_ok :: "policy \<Rightarrow> bool" where
  "policy_ok p \<longleftrightarrow>
     (\<forall>r\<in>set (pyHeaders p) \<union> set (pyQuery p) \<union> set (pyMessageHeaders p). action_ok (snd r) \<and> fst r \<noteq> []) \<and>
     distinct (map (to_lower \<circ> fst) (pyHeaders p)) \<and> distinct (map fst (pyQuery p)) \<and>
     distinct (map (to_lower \<circ> fst) (pyMessageHeaders p)) \<and> distinct (map fst (pyJSON p)) \<and>
     (\<forall>r\<in>set (pyJSON p). action_ok (snd r) \<and> is_ok (parse_field_path (fst r))) \<and>
     (pyMessageKey p = [] \<or> action_ok (pyMessageKey p)) \<and>
     (needs_key p \<longrightarrow> 16 \<le> length (pyTokenKey p))"

definition example_policy :: policy where
  "example_policy = \<lparr>pyVersion = 1, pyCaptureBodies = True, pyTokenKeyEnv = ''KEY'',
     pyHeaders = [(''Authorization'', ''redact''), (''X-User'', ''tokenize'')],
     pyQuery = [(''card'', ''redact''), (''t'', ''drop'')],
     pyJSON = [(''$.user.email'', ''tokenize''), (''$.cards[0]'', ''drop'')],
     pyMessageKey = ''tokenize'', pyMessageHeaders = [(''trace'', ''drop'')], pyTokenKey = ''0123456789abcdef''\<rparr>"

lemma load_example: "load_policy (\<lambda>_. ''0123456789abcdef'') example_policy = Inr example_policy"
  by code_simp

text \<open>A policy that loads has valid actions everywhere, no two rules for one name, readable paths,
  and, where anything is tokenized, a key of at least sixteen bytes.\<close>

theorem load_policy_sound:
  assumes "load_policy getenv p = Inr q"
  shows "policy_ok q"
proof -
  from assms have checks: "check_named to_lower {} (pyHeaders p) = Inr ()" "check_named id {} (pyQuery p) = Inr ()"
    "check_fields {} (pyJSON p) = Inr ()" "check_named to_lower {} (pyMessageHeaders p) = Inr ()"
    "pyMessageKey p = [] \<or> action_ok (pyMessageKey p)"
    and q: "q = p \<and> \<not> needs_key p \<or> q = p\<lparr>pyTokenKey := getenv (pyTokenKeyEnv p)\<rparr> \<and> 16 \<le> length (getenv (pyTokenKeyEnv p))"
    by (auto simp: load_policy_def split: if_splits)
  have same: "pyHeaders q = pyHeaders p" "pyQuery q = pyQuery p" "pyJSON q = pyJSON p"
    "pyMessageHeaders q = pyMessageHeaders p" "pyMessageKey q = pyMessageKey p"
    using q by auto
  then have "needs_key q \<longleftrightarrow> needs_key p" by (simp add: needs_key_def)
  with q have "needs_key q \<longrightarrow> 16 \<le> length (pyTokenKey q)" by auto
  with same checks check_named_ok [OF checks(1)] check_named_ok [OF checks(2)] check_named_ok [OF checks(4)]
    check_fields_ok [OF checks(3)] show ?thesis
    by (auto simp: policy_ok_def)
qed

lemma load_policy_sound_witness: "policy_ok example_policy"
  by (rule load_policy_sound [OF load_example])

section \<open>JSON fields\<close>

definition masked :: "string \<Rightarrow> bool" where
  "masked s \<longleftrightarrow> s = redacted \<or> has_prefix s ''tok_''"

definition hidden :: "json option \<Rightarrow> bool" where
  "hidden v \<longleftrightarrow> (case v of None \<Rightarrow> True | Some j \<Rightarrow> \<exists>s. j = JStr s \<and> masked s)"

lemma masked_simps [simp]: "masked redacted" "masked (token E p v)"
  by (simp_all add: masked_def token_def has_prefix_append)

interpretation hide_edit: local_edit "hide_child E p a" for E p a
proof
  show "t \<noteq> u \<Longrightarrow> json_child (hide_child E p a j t) u = json_child j u" for t u j
    by (cases "(E, p, a, j, t)" rule: hide_child.cases; cases u)
       (auto simp: update_conv' delete_conv' split: option.splits)
qed

lemma hide_child_hides: "action_ok a \<Longrightarrow> hidden (json_child (hide_child E p a j t) t)"
  by (cases "(E, p, a, j, t)" rule: hide_child.cases)
     (auto simp: action_ok_def hidden_def update_conv' delete_conv' split: option.splits)

lemma edit_hides:
  "action_ok a \<Longrightarrow> ts \<noteq> [] \<Longrightarrow> hidden (json_at (json_edit (hide_child E p a) j ts) ts)"
proof (cases "json_at j (butlast ts)")
  case None
  then show "ts \<noteq> [] \<Longrightarrow> ?thesis" by (simp add: edit_reaches hidden_def)
next
  case (Some c)
  then show "action_ok a \<Longrightarrow> ts \<noteq> [] \<Longrightarrow> ?thesis" by (simp add: edit_reaches hide_child_hides)
qed

lemma json_put_same: "json_child j t = Some c \<Longrightarrow> json_put j t c = j"
proof (cases "(j, t)" rule: json_child.cases)
  case (2 kvs k)
  have "map_of kvs k = Some c \<Longrightarrow> AList.update k c kvs = kvs" by (induction kvs) auto
  then show "json_child j t = Some c \<Longrightarrow> json_put j t c = j" using 2 by simp
qed (auto split: if_splits simp: list_update_id)

lemma edit_below:
  "x \<noteq> [] \<Longrightarrow> (json_at j q = None \<or> (\<exists>s. json_at j q = Some (JStr s))) \<Longrightarrow> json_edit (hide_child E p a) j (q @ x) = j"
proof (induction q arbitrary: j)
  case Nil
  then show ?case by (cases x; cases "tl x") auto
next
  case (Cons t q)
  show ?case
  proof (cases "json_child j t")
    case None
    with Cons.prems show ?thesis by (cases "q @ x") auto
  next
    case (Some c)
    with Cons have "json_edit (hide_child E p a) c (q @ x) = c" by simp
    with Some Cons.prems(1) json_put_same [OF Some] show ?thesis by (cases "q @ x") auto
  qed
qed

lemma json_at_string: "x \<noteq> [] \<Longrightarrow> json_at (JStr s) x = None"
  by (cases x) auto

lemma hidden_stays:
  assumes "hidden (json_at j q)" and "action_ok a"
  shows "hidden (json_at (json_edit (hide_child E p a) j ts) q)"
proof (cases "ts = []")
  case False
  have at: "hidden (json_at (json_edit (hide_child E p a) j ts) ts)"
    using edit_hides [OF assms(2) False] .
  consider "ts \<parallel> q" | x where "q = ts @ x" | x where "ts = q @ x" "x \<noteq> []"
    by (metis parallelI prefix_def append_Nil2)
  then show ?thesis
  proof cases
    case 1
    with hide_edit.edit_elsewhere assms(1) show ?thesis by simp
  next
    case (2 x)
    then show ?thesis
      using at by (cases "x = []") (auto simp: json_at_append hidden_def json_at_string split: option.splits)
  next
    case (3 x)
    have "json_at j q = None \<or> (\<exists>s. json_at j q = Some (JStr s))"
      using assms(1) by (auto simp: hidden_def split: option.splits)
    with edit_below [OF 3(2)] 3(1) assms(1) show ?thesis by simp
  qed
qed (use assms in simp)

lemma apply_rules_hide:
  assumes "\<forall>r\<in>set rs. action_ok (snd r)" and "r \<in> set rs" and "parse_field_path (fst r) = Inr ts" and "ts \<noteq> []"
  shows "hidden (json_at (foldl (apply_json_rule E p) v rs) ts)"
proof -
  have keep: "hidden (json_at v ts) \<Longrightarrow> \<forall>r\<in>set rs. action_ok (snd r) \<Longrightarrow> hidden (json_at (foldl (apply_json_rule E p) v rs) ts)" for v rs
    by (induction rs arbitrary: v) (auto simp: apply_json_rule_def hidden_stays split: sum.splits)
  show ?thesis
    using assms(1,2)
  proof (induction rs arbitrary: v)
    case (Cons r' rs)
    show ?case
    proof (cases "r = r'")
      case True
      have "hidden (json_at (json_edit (hide_child E p (snd r)) v ts) ts)"
        using edit_hides assms(4) Cons.prems True by simp
      moreover have "apply_json_rule E p v r' = json_edit (hide_child E p (snd r)) v ts"
        using assms(3) True by (simp add: apply_json_rule_def)
      ultimately show ?thesis using keep Cons.prems(1) by simp
    qed (use Cons in simp)
  qed simp
qed

text \<open>C18. When a body passes, its output is a JSON document in which every field a rule names below the root
  is gone or replaced by the redaction text or a token, whatever the other rules do before or after;
  a body that is not JSON is refused, not passed on.\<close>

theorem body_fields_hidden:
  assumes "load_policy getenv p0 = Inr p" and "pyJSON p \<noteq> []" and "body \<noteq> []"
  shows "case apply_body E (Some p) body of
      None \<Rightarrow> gUnmarshal E body = None
    | Some out \<Rightarrow> \<exists>w. out = marshal w \<and>
        (\<forall>r\<in>set (pyJSON p). \<exists>ts. parse_field_path (fst r) = Inr ts \<and> (ts = [] \<or> hidden (json_at w ts)))"
proof (cases "gUnmarshal E body")
  case None
  with assms show ?thesis by (simp add: apply_body_def)
next
  case (Some v)
  have "check_fields {} (pyJSON p) = Inr ()"
    using assms(1) by (auto simp: load_policy_def split: if_splits)
  note fields = check_fields_ok [OF this]
  let ?w = "apply_json_rules E p v"
  have "\<exists>ts. parse_field_path (fst r) = Inr ts \<and> (ts = [] \<or> hidden (json_at ?w ts))" if "r \<in> set (pyJSON p)" for r
  proof -
    from that fields obtain ts where ts: "parse_field_path (fst r) = Inr ts"
      by (cases "parse_field_path (fst r)") (auto simp: is_ok_def)
    then show ?thesis
      using apply_rules_hide [of "pyJSON p" r ts E p v] fields that by (auto simp: apply_json_rules_def)
  qed
  with assms Some show ?thesis by (auto simp: apply_body_def)
qed

definition json_env :: go_env where
  "json_env = example_env\<lparr>gUnmarshal := (\<lambda>_. Some (JObj [(''user'', JObj [(''email'', JStr ''a@b'')]), (''cards'', JArr [JNum ''1''])]))\<rparr>"

lemma body_fields_hidden_witness:
  "case apply_body json_env (Some example_policy) ''{}'' of
      None \<Rightarrow> gUnmarshal json_env ''{}'' = None
    | Some out \<Rightarrow> \<exists>w. out = marshal w \<and>
        (\<forall>r\<in>set (pyJSON example_policy). \<exists>ts. parse_field_path (fst r) = Inr ts \<and> (ts = [] \<or> hidden (json_at w ts)))"
  by (rule body_fields_hidden [OF load_example]) (simp_all add: example_policy_def)

definition root_policy :: policy where
  "root_policy = example_policy\<lparr>pyJSON := [(''$'', ''redact''), (''$.'', ''drop'')]\<rparr>"

text \<open>A rule for the whole document is accepted and does nothing: a policy that redacts \<open>$\<close> loads, and
  every JSON document passes through it unchanged.\<close>

theorem root_rule_hides_nothing:
  "load_policy (\<lambda>_. ''0123456789abcdef'') root_policy = Inr root_policy \<and> apply_json_rules E root_policy v = v"
proof (rule conjI)
  have "parse_field_path ''$'' = Inr []" "parse_field_path ''$.'' = Inr []" by code_simp+
  then show "apply_json_rules E root_policy v = v"
    by (simp add: apply_json_rules_def apply_json_rule_def root_policy_def)
qed code_simp

section \<open>Headers, messages and queries\<close>

text \<open>Rules that each treat the entries one by one can be run entry by entry.\<close>

lemma fold_entrywise:
  "foldl (\<lambda>h r. concat (map (g r) h)) h rs = concat (map (\<lambda>e. foldl (\<lambda>h r. concat (map (g r) h)) [e] rs) h)"
proof (induction rs arbitrary: h)
  case (Cons r rs)
  have "foldl (\<lambda>h r. concat (map (g r) h)) (concat (map (g r) h)) rs =
      concat (map (\<lambda>e. foldl (\<lambda>h r. concat (map (g r) h)) [e] rs) (concat (map (g r) h)))"
    by (rule Cons.IH)
  also have "\<dots> = concat (map (\<lambda>e. foldl (\<lambda>h r. concat (map (g r) h)) (g r e) rs) h)"
    by (subst (2) Cons.IH) (induction h, simp_all)
  finally show ?case by simp
qed simp

text \<open>Of rules with different names, at most one treats an entry.\<close>

lemma fold_one_rule:
  assumes idle: "\<And>r x. \<not> applies r x \<Longrightarrow> g r x = [x]"
    and keeps: "\<And>r x y r'. y \<in> set (g r x) \<Longrightarrow> applies r' y = applies r' x"
    and single: "\<And>x r r'. r \<in> set rs \<Longrightarrow> r' \<in> set rs \<Longrightarrow> applies r x \<Longrightarrow> applies r' x \<Longrightarrow> r = r'"
    and small: "\<And>r x. g r x = [] \<or> (\<exists>y. g r x = [y])" and dist: "distinct rs"
  shows "foldl (\<lambda>h r. concat (map (g r) h)) [x] rs =
    (case List.find (\<lambda>r. applies r x) rs of None \<Rightarrow> [x] | Some r \<Rightarrow> g r x)"
  using single dist
proof (induction rs arbitrary: x)
  case (Cons r rs)
  have none: "foldl (\<lambda>h r. concat (map (g r) h)) [y] rs = [y]" if "\<forall>r'\<in>set rs. \<not> applies r' y" for y
    using that by (induction rs) (auto simp: idle)
  have empty: "foldl (\<lambda>h r. concat (map (g r) h)) [] rs = []" by (induction rs) auto
  show ?case
  proof (cases "applies r x")
    case True
    have "\<not> applies r' x" if "r' \<in> set rs" for r' using Cons.prems True that by auto
    then have "\<forall>r'\<in>set rs. \<not> applies r' y" if "y \<in> set (g r x)" for y using keeps [OF that] by simp
    with small [of r x] True none empty show ?thesis by auto
  next
    case False
    with Cons show ?thesis by (auto simp: idle)
  qed
qed simp

lemma distinct_names_single:
  "distinct (map (to_lower \<circ> fst) rs) \<Longrightarrow> r \<in> set rs \<Longrightarrow> r' \<in> set rs \<Longrightarrow>
   equal_fold n (fst r) \<Longrightarrow> equal_fold n (fst r') \<Longrightarrow> r = r'"
  by (auto simp: distinct_map inj_on_def equal_fold_def)

text \<open>\<open>ApplyHeaders\<close> does to every header what \<open>HeaderRule\<close> says for its name, whatever the order of the
  rules and of the headers: no rule, unchanged; drop, gone; redact, the redaction text alone; tokenize,
  one token per value.\<close>

theorem apply_headers_by_rule:
  assumes "load_policy getenv p0 = Inr p"
  shows "apply_headers E (Some p) h =
    concat (map (\<lambda>e. case header_rule (Some p) (fst e) of
        None \<Rightarrow> [e]
      | Some a \<Rightarrow> (case hide_values E p a (snd e) of None \<Rightarrow> [] | Some ws \<Rightarrow> [(fst e, ws)])) h)"
proof -
  have "check_named to_lower {} (pyHeaders p) = Inr ()"
    using assms by (auto simp: load_policy_def split: if_splits)
  from check_named_ok [OF this] have d: "distinct (map (to_lower \<circ> fst) (pyHeaders p))" by simp
  have one: "foldl (\<lambda>h r. concat (map (hide1 E p r) h)) [e] (pyHeaders p) =
      (case List.find (\<lambda>r. equal_fold (fst r) (fst e)) (pyHeaders p) of None \<Rightarrow> [e] | Some r \<Rightarrow> hide1 E p r e)" for e
  proof (rule fold_one_rule)
    show "r \<in> set (pyHeaders p) \<Longrightarrow> r' \<in> set (pyHeaders p) \<Longrightarrow> equal_fold (fst r) (fst x) \<Longrightarrow>
        equal_fold (fst r') (fst x) \<Longrightarrow> r = r'" for x :: "string \<times> string list" and r r'
      using distinct_names_single [OF d] equal_fold_sym by blast
    show "distinct (pyHeaders p)" using d by (simp add: distinct_map)
  qed (auto simp: hide1_def equal_fold_sym split: option.splits if_splits)
  have "(case List.find (\<lambda>r. equal_fold (fst r) (fst e)) (pyHeaders p) of None \<Rightarrow> [e] | Some r \<Rightarrow> hide1 E p r e) =
      (case header_rule (Some p) (fst e) of None \<Rightarrow> [e]
       | Some a \<Rightarrow> (case hide_values E p a (snd e) of None \<Rightarrow> [] | Some ws \<Rightarrow> [(fst e, ws)]))" for e
  proof (cases "List.find (\<lambda>r. equal_fold (fst r) (fst e)) (pyHeaders p)")
    case (Some r)
    then have "equal_fold (fst e) (fst r)" by (auto simp: find_Some_iff equal_fold_sym)
    with Some show ?thesis by (simp add: header_rule_def hide1_def)
  qed (simp add: header_rule_def)
  with one show ?thesis
    unfolding apply_headers_def hide_header_def option.case by (subst fold_entrywise) simp
qed

lemma apply_headers_by_rule_witness:
  "apply_headers example_env (Some example_policy) [(''Authorization'', [''s'']), (''Accept'', [''a''])] =
   [(''Authorization'', [redacted]), (''Accept'', [''a''])]"
proof -
  have r: "header_rule (Some example_policy) ''Authorization'' = Some ''redact''"
    "header_rule (Some example_policy) ''Accept'' = None"
    by code_simp+
  show ?thesis
    unfolding apply_headers_by_rule [OF load_example]
    by (simp add: r hide_values_def del: option.case) (simp add: r hide_values_def)
qed

definition hides_message :: "go_env \<Rightarrow> policy \<Rightarrow> string \<times> string \<Rightarrow> (string \<times> string) list" where
  "hides_message E p h =
     (case List.find (\<lambda>r. equal_fold (fst r) (fst h)) (pyMessageHeaders p) of
        None \<Rightarrow> [h]
      | Some r \<Rightarrow> if snd r = ''drop'' then [] else [(fst h, apply_bytes E p (snd h) (snd r))])"

text \<open>A message that passes has its key replaced as the policy says, each header treated by the rule for
  its name and by no other, the others unchanged and in order, and its payload as \<open>ApplyBody\<close> gives it;
  it is refused exactly when a JSON rule meets a payload that is not JSON.\<close>

theorem apply_message_exact:
  assumes "load_policy getenv p0 = Inr p"
  shows "apply_message E (Some p) key hs payload =
    map_option (\<lambda>b. (if pyMessageKey p = [] then key else apply_bytes E p key (pyMessageKey p),
                     concat (map (hides_message E p) hs), b))
      (apply_body E (Some p) payload)"
proof -
  have "check_named to_lower {} (pyMessageHeaders p) = Inr ()"
    using assms by (auto simp: load_policy_def split: if_splits)
  from check_named_ok [OF this] have d: "distinct (map (to_lower \<circ> fst) (pyMessageHeaders p))" by simp
  let ?g = "\<lambda>r h. if \<not> equal_fold (fst h) (fst r) then [h] else if snd r = ''drop'' then []
      else [(fst h, apply_bytes E p (snd h) (snd r))]"
  have one: "foldl (\<lambda>h r. concat (map (?g r) h)) [e] (pyMessageHeaders p) =
      (case List.find (\<lambda>r. equal_fold (fst r) (fst e)) (pyMessageHeaders p) of None \<Rightarrow> [e] | Some r \<Rightarrow> ?g r e)" for e
  proof (rule fold_one_rule)
    show "r \<in> set (pyMessageHeaders p) \<Longrightarrow> r' \<in> set (pyMessageHeaders p) \<Longrightarrow> equal_fold (fst r) (fst x) \<Longrightarrow>
        equal_fold (fst r') (fst x) \<Longrightarrow> r = r'" for x :: "string \<times> string" and r r'
      using distinct_names_single [OF d] equal_fold_sym by blast
    show "distinct (pyMessageHeaders p)" using d by (simp add: distinct_map)
  qed (auto simp: equal_fold_sym split: if_splits)
  have "foldl (\<lambda>h r. concat (map (?g r) h)) [e] (pyMessageHeaders p) = hides_message E p e" for e
  proof (cases "List.find (\<lambda>r. equal_fold (fst r) (fst e)) (pyMessageHeaders p)")
    case (Some r)
    then have "equal_fold (fst e) (fst r)" by (auto simp: find_Some_iff equal_fold_sym)
    with Some one [of e] show ?thesis by (simp add: hides_message_def)
  qed (simp add: hides_message_def one)
  then have hs: "foldl (\<lambda>hs r. hide_message_header E p r hs) hs (pyMessageHeaders p) = concat (map (hides_message E p) hs)"
    unfolding hide_message_header_def by (subst fold_entrywise) simp
  show ?thesis
  proof (cases "payload \<noteq> [] \<and> pyJSON p \<noteq> []")
    case True
    then show ?thesis unfolding apply_message_def by (simp add: hs Let_def split: option.splits)
  next
    case False
    then have "apply_body E (Some p) payload = Some payload" by (auto simp: apply_body_def)
    with False show ?thesis unfolding apply_message_def by (auto simp: hs Let_def)
  qed
qed

lemma apply_message_exact_witness:
  "apply_message json_env (Some example_policy) ''k'' [(''Trace'', ''1''), (''x'', ''2'')] [] =
   Some (token json_env example_policy ''k'', [(''x'', ''2'')], [])"
proof -
  have "concat (map (hides_message json_env example_policy) [(''Trace'', ''1''), (''x'', ''2'')]) = [(''x'', ''2'')]"
    "pyMessageKey example_policy = ''tokenize''" "apply_body json_env (Some example_policy) [] = Some []"
    "apply_bytes json_env example_policy ''k'' ''tokenize'' = token json_env example_policy ''k''"
    by (code_simp, code_simp, code_simp, simp add: apply_bytes_def)
  then show ?thesis unfolding apply_message_exact [OF load_example] by simp
qed

lemma wf_delete: "wf_values q \<Longrightarrow> wf_values (AList.delete k q)"
proof -
  assume q: "wf_values q"
  have "set (AList.delete k q) \<subseteq> set q" by (auto simp: AList.delete_eq)
  with q show ?thesis by (auto simp: wf_values_def distinct_delete)
qed

lemma hvalues_delete: "hvalues (AList.delete k q) n = (if n = k then [] else hvalues q n)"
  by (simp add: hvalues_def delete_conv')

definition hidden_values :: "go_env \<Rightarrow> policy \<Rightarrow> string option \<Rightarrow> string list \<Rightarrow> string list" where
  "hidden_values E p ao vs =
     (case ao of None \<Rightarrow> vs | Some a \<Rightarrow> if vs = [] then [] else dflt [] (hide_values E p a vs))"

lemma hide_values_nonempty: "hide_values E p a vs = Some ws \<Longrightarrow> vs \<noteq> [] \<Longrightarrow> ws \<noteq> []"
  by (auto simp: hide_values_def split: if_splits)

lemma hide_query_step:
  assumes "wf_values q"
  shows "wf_values (hide_query E p r q)" and
    "hvalues (hide_query E p r q) k = (if k = fst r then hidden_values E p (Some (snd r)) (hvalues q k) else hvalues q k)"
proof -
  show "wf_values (hide_query E p r q)"
  proof (cases "map_of q (fst r)")
    case (Some vs)
    then have "vs \<noteq> []" using assms map_of_SomeD [OF Some] by (auto simp: wf_values_def)
    with Some assms show ?thesis
      by (auto simp: hide_query_def wf_delete wf_values_update dest: hide_values_nonempty split: option.splits)
  qed (use assms in \<open>simp add: hide_query_def\<close>)
  show "hvalues (hide_query E p r q) k = (if k = fst r then hidden_values E p (Some (snd r)) (hvalues q k) else hvalues q k)"
  proof (cases "map_of q (fst r)")
    case None
    then show ?thesis by (simp add: hide_query_def hidden_values_def hvalues_def)
  next
    case (Some vs)
    then have vs: "vs \<noteq> []" "hvalues q (fst r) = vs"
      using assms map_of_SomeD [OF Some] by (auto simp: wf_values_def hvalues_def)
    with Some show ?thesis
      by (cases "hide_values E p (snd r) vs")
         (auto simp: hide_query_def hidden_values_def hvalues_delete hvalues_update)
  qed
qed

lemma hide_queries:
  assumes "wf_values q" and "distinct (map fst rs)"
  shows "wf_values (foldl (\<lambda>q r. hide_query E p r q) q rs) \<and>
    hvalues (foldl (\<lambda>q r. hide_query E p r q) q rs) k = hidden_values E p (map_of rs k) (hvalues q k)"
  using assms
proof (induction rs arbitrary: q)
  case (Cons r rs)
  have none: "k = fst r \<Longrightarrow> map_of rs k = None" using Cons.prems(2) by (simp add: map_of_eq_None_iff)
  show ?case
    using Cons.IH [OF hide_query_step(1) [OF Cons.prems(1), of E p r]] Cons.prems(2) none
    by (cases r) (auto simp: hide_query_step(2) [OF Cons.prems(1)] hidden_values_def)
qed (simp add: hidden_values_def)

text \<open>After \<open>ApplyURL\<close> the query reads, key by key, as its rule says: without one the values are those of
  the input, a dropped key has none, a redacted one the redaction text alone, a tokenized one a token per
  value. Encoding the query again loses nothing of it.\<close>

theorem apply_url_by_rule:
  assumes "load_policy getenv p0 = Inr p"
  shows "hvalues (url_query (apply_url E (Some p) u)) k = hidden_values E p (map_of (pyQuery p) k) (hvalues (url_query u) k)"
proof -
  have "check_named id {} (pyQuery p) = Inr ()"
    using assms by (auto simp: load_policy_def split: if_splits)
  from check_named_ok [OF this] have "distinct (map fst (pyQuery p))" by (simp add: o_def)
  note q = hide_queries [OF wf_url_query this, of E p u k]
  then show ?thesis
    using parse_query_encode by (simp add: apply_url_def url_query_def)
qed

lemma apply_url_by_rule_witness:
  "hvalues (url_query (apply_url example_env (Some example_policy)
     \<lparr>uScheme = ''http'', uHost = ''h'', uPath = ''/p'', uRawPath = [], uRawQuery = ''card=1&card=2&a=3''\<rparr>)) ''card'' = [redacted]"
  unfolding apply_url_by_rule [OF load_example] by code_simp

end
