(* ===== verification/KafkaSim.thy ===== *)
theory KafkaSim
  imports Message Privacy
begin

text \<open>
  \<open>pkg/kafkasim\<close> (\<open>kafka.go\<close>): the checks before a capture, the record made of each fetched message,
  the fault plan of a replay (\<open>Plan\<close>), and what a replay sends. The broker client, its timers and its
  options are outside; a replay is modelled as the list of records it produces, in order, and the pauses
  before them only as far as the configured delay. The pacing by \<open>TimeScale\<close> is left out.
\<close>

section \<open>Topics and capture\<close>

definition topic_char :: "char \<Rightarrow> bool" where
  "topic_char c \<longleftrightarrow> is_alpha c \<or> is_digit c \<or> c \<in> set ''._-''"

definition validate_topic :: "string \<Rightarrow> bool" where
  "validate_topic t \<longleftrightarrow> t \<noteq> [] \<and> length t \<le> 249 \<and> t \<noteq> ''.'' \<and> t \<noteq> ''..'' \<and> (\<forall>c\<in>set t. topic_char c)"

record capture_options =
  coBrokers :: "string list"
  coTopics :: "string list"
  coOutputPath :: string
  coMaxMessages :: int
  coPrivacy :: "policy option"
  coAllowSensitive :: bool
  coDirection :: string

datatype kafka_error =
    OptionsRequired | InvalidTopic string | PrivacyRequired | BodiesRequired | NegativeMax | BadDirectionOption
  | SanitizeFailed | WriteFailed | NegativeFault | LoadFailed msg_error | RecordUnreadable msg_error

text \<open>The guards of \<open>Capture\<close>, in order; they end with the direction that is used.\<close>

definition capture_checks :: "capture_options \<Rightarrow> (kafka_error, string) result" where
  "capture_checks o' =
     and_then (fail_if (coBrokers o' = [] \<or> coTopics o' = [] \<or> coOutputPath o' = []) OptionsRequired) (\<lambda>_.
     and_then (check_all (\<lambda>t. fail_if (\<not> validate_topic t) (InvalidTopic t)) (coTopics o')) (\<lambda>_.
     and_then (fail_if (Option.is_none (coPrivacy o') \<and> \<not> coAllowSensitive o') PrivacyRequired) (\<lambda>_.
     and_then (fail_if (case coPrivacy o' of None \<Rightarrow> False
         | Some p \<Rightarrow> \<not> pyCaptureBodies p \<and> \<not> coAllowSensitive o') BodiesRequired) (\<lambda>_.
     and_then (fail_if (coMaxMessages o' < 0) NegativeMax) (\<lambda>_.
       let d = (if coDirection o' = [] then ''publish'' else coDirection o')
       in if d \<noteq> ''publish'' \<and> d \<noteq> ''consume'' then Inl BadDirectionOption else Inr d)))))"

definition schema_name :: "binary_header list \<Rightarrow> string" where
  "schema_name hs =
     dflt [] (first_of (concat (map (\<lambda>wanted. map snd (filter (\<lambda>h. equal_fold (fst h) wanted) hs))
       [''message-type'', ''ce-type'', ''schema-name''])))"

record fetched =
  ftTopic :: string
  ftPartition :: int
  ftOffset :: int
  ftTimestamp :: int
  ftKey :: string
  ftValue :: string
  ftHeaders :: "binary_header list"

text \<open>One fetched message: sanitized, turned into a record, written. The identifier is drawn.\<close>

definition capture_one ::
  "go_env \<Rightarrow> capture_options \<Rightarrow> string \<Rightarrow> string \<Rightarrow> msg_logger \<Rightarrow> fetched \<Rightarrow> (kafka_error, msg_logger) result" where
  "capture_one E o' dir ident l f =
     (case apply_message E (coPrivacy o') (ftKey f) (ftHeaders f) (ftValue f) of
        None \<Rightarrow> Inl SanitizeFailed
      | Some (key, hs, payload) \<Rightarrow>
          (let m = new_with_headers E ident 0 (ftTopic f) key payload hs;
               m' = m\<lparr>msBroker := join '','' (coBrokers o'), msDirection := dir, msTimestamp := ftTimestamp f,
                      msPartition := ftPartition f, msOffset := ftOffset f,
                      msRedacted := (coPrivacy o' \<noteq> None), msSchema := schema_name hs\<rparr>
           in case write_message E l m' of
                (l', None) \<Rightarrow> Inl WriteFailed
              | (l', Some _) \<Rightarrow> Inr l'))"

text \<open>The fetch loop over everything a broker delivers, until the maximum is reached (zero: no maximum).\<close>

fun capture_loop ::
  "go_env \<Rightarrow> capture_options \<Rightarrow> string \<Rightarrow> nat \<Rightarrow> msg_logger \<Rightarrow> (string \<times> fetched) list \<Rightarrow>
   (kafka_error, nat \<times> msg_logger) result" where
  "capture_loop E o' dir n l [] = Inr (n, l)"
| "capture_loop E o' dir n l ((ident, f) # fs) =
     and_then (capture_one E o' dir ident l f) (\<lambda>l'.
       if 0 < coMaxMessages o' \<and> coMaxMessages o' \<le> int (Suc n) then Inr (Suc n, l')
       else capture_loop E o' dir (Suc n) l' fs)"

section \<open>The fault plan\<close>

record faults =
  faDelay :: int
  faDropEvery :: int
  faDuplicateEvery :: int
  faPoisonEvery :: int
  faReorderWindow :: int

record planned =
  plRecord :: message
  plOriginal :: nat
  plDuplicate :: nat
  plPoisoned :: bool

text \<open>The two nested loops that turn each window around in place.\<close>

function swap_range :: "'a list \<Rightarrow> nat \<Rightarrow> nat \<Rightarrow> 'a list" where
  "swap_range xs l r = (if l < r then swap_range (xs[l := xs ! r, r := xs ! l]) (l + 1) (r - 1) else xs)"
  by pat_completeness auto
termination by (relation "measure (\<lambda>(xs, l, r). r - l)") auto

declare swap_range.simps [simp del]

lemma length_swap_range [simp]: "length (swap_range xs l r) = length xs"
  by (induction xs l r rule: swap_range.induct) (subst swap_range.simps, simp)

function reorder_from :: "nat \<Rightarrow> nat \<Rightarrow> 'a list \<Rightarrow> 'a list" where
  "reorder_from w start xs =
     (if 0 < w \<and> start < length xs
      then (let e = (if length xs < start + w then length xs else start + w)
            in reorder_from w (start + w) (swap_range xs start (e - 1)))
      else xs)"
  by pat_completeness auto

termination by (relation "measure (\<lambda>(w, start, xs). length xs - start)") auto

declare reorder_from.simps [simp del]

definition reorder :: "int \<Rightarrow> 'a list \<Rightarrow> 'a list" where
  "reorder w xs = (if 1 < w then reorder_from (nat w) 0 xs else xs)"

text \<open>\<open>indexByID\<close>: the last record with an identifier.\<close>

definition index_by_id :: "message list \<Rightarrow> string \<Rightarrow> nat" where
  "index_by_id ms i = dflt 0 (map_of (rev (map (\<lambda>(n, m). (msID m, n)) (enumerate 0 ms))) i)"

definition poison :: "go_env \<Rightarrow> message \<Rightarrow> message" where
  "poison E m = m\<lparr>msPayloadB64 := b64_encode ''{'', msPayloadSHA256 := sha256_hex E ''{''\<rparr>"

definition every :: "int \<Rightarrow> nat \<Rightarrow> bool" where
  "every k pos \<longleftrightarrow> 0 < k \<and> int pos mod k = 0"

definition plan_entry :: "go_env \<Rightarrow> faults \<Rightarrow> (string \<Rightarrow> nat) \<Rightarrow> nat \<Rightarrow> message \<Rightarrow> planned list" where
  "plan_entry E f idx pos m =
     (if every (faDropEvery f) pos then []
      else let entry = \<lparr>plRecord = (if every (faPoisonEvery f) pos then poison E m else m),
                        plOriginal = idx (msID m), plDuplicate = 0,
                        plPoisoned = every (faPoisonEvery f) pos\<rparr>
           in if every (faDuplicateEvery f) pos then [entry, entry\<lparr>plDuplicate := 1\<rparr>] else [entry])"

fun plan_from :: "go_env \<Rightarrow> faults \<Rightarrow> (string \<Rightarrow> nat) \<Rightarrow> nat \<Rightarrow> message list \<Rightarrow> planned list" where
  "plan_from E f idx pos [] = []"
| "plan_from E f idx pos (m # ms) = plan_entry E f idx pos m @ plan_from E f idx (Suc pos) ms"

definition plan :: "go_env \<Rightarrow> message list \<Rightarrow> faults \<Rightarrow> (kafka_error, planned list) result" where
  "plan E ms f =
     (if faDelay f < 0 \<or> faDropEvery f < 0 \<or> faDuplicateEvery f < 0 \<or> faPoisonEvery f < 0 \<or> faReorderWindow f < 0
      then Inl NegativeFault
      else Inr (plan_from E f (index_by_id ms) 1 (reorder (faReorderWindow f) ms)))"

definition unique_planned :: "planned list \<Rightarrow> nat" where
  "unique_planned ps = length (remdups (map plOriginal ps))"

section \<open>Replay\<close>

record produced =
  prTopic :: string
  prPartition :: int
  prKey :: string
  prValue :: string
  prHeaders :: "binary_header list"
  prTimestamp :: int

record replay_result =
  rrLoaded :: nat
  rrDropped :: int
  rrDuplicated :: int
  rrPoisoned :: nat
  rrProduced :: "produced list"

definition produce_record :: "go_env \<Rightarrow> string \<Rightarrow> planned \<Rightarrow> (kafka_error, produced) result" where
  "produce_record E pre p =
     (case msg_key (plRecord p) of Inl e \<Rightarrow> Inl (RecordUnreadable e) | Inr key \<Rightarrow>
     (case msg_payload E (plRecord p) of Inl e \<Rightarrow> Inl (RecordUnreadable e) | Inr payload \<Rightarrow>
     (case header_values (plRecord p) of Inl e \<Rightarrow> Inl (RecordUnreadable e) | Inr hs \<Rightarrow>
        Inr \<lparr>prTopic = pre @ msTopic (plRecord p),
             prPartition = (if msPartition (plRecord p) < 0 then 0 else msPartition (plRecord p)),
             prKey = key, prValue = payload, prHeaders = hs, prTimestamp = msTimestamp (plRecord p)\<rparr>)))"

text \<open>\<open>Replay\<close> with a broker that accepts everything and no AsyncAPI document.\<close>

definition replay_messages ::
  "go_env \<Rightarrow> message option list \<Rightarrow> string \<Rightarrow> faults \<Rightarrow> (kafka_error, replay_result) result" where
  "replay_messages E decoded pre f =
     (case load_messages E decoded of
        Inl e \<Rightarrow> Inl (LoadFailed e)
      | Inr ms \<Rightarrow>
          and_then (plan E ms f) (\<lambda>ps.
          and_then (check_all (\<lambda>p. let t = pre @ msTopic (plRecord p)
                                   in fail_if (\<not> validate_topic t) (InvalidTopic t)) ps) (\<lambda>_.
          and_then (map_err (produce_record E pre) ps) (\<lambda>out.
          Inr \<lparr>rrLoaded = length ms,
               rrDropped = int (length ms) - int (unique_planned ps),
               rrDuplicated = int (length ps) - int (unique_planned ps),
               rrPoisoned = length (filter plPoisoned ps), rrProduced = out\<rparr>))))"

section \<open>Reordering turns windows around\<close>

fun rev_windows :: "nat \<Rightarrow> 'a list \<Rightarrow> 'a list" where
  "rev_windows w [] = []"
| "rev_windows w (x # xs) = (if w = 0 then x # xs else rev (take w (x # xs)) @ rev_windows w (drop w (x # xs)))"

lemma swap_range_rev:
  "m \<noteq> [] \<Longrightarrow> swap_range (a @ m @ b) (length a) (length a + length m - 1) = a @ rev m @ b"
proof (induction "length m" arbitrary: a m b rule: less_induct)
  case less
  obtain x m' where m: "m = x # m'" using less.prems by (cases m) auto
  show ?case
  proof (cases "m' = []")
    case True
    then show ?thesis by (subst swap_range.simps) (simp add: m)
  next
    case False
    then obtain y mid where m': "m' = mid @ [y]" by (metis rev_exhaust)
    have "swap_range (a @ m @ b) (length a) (length a + length m - 1) =
        swap_range ((a @ [y]) @ mid @ (x # b)) (length (a @ [y])) (length a + length m - 2)"
      by (subst swap_range.simps) (simp add: m m' nth_append list_update_append)
    also have "\<dots> = (a @ [y]) @ rev mid @ (x # b)"
    proof (cases "mid = []")
      case True
      then show ?thesis by (subst swap_range.simps) (simp add: m m')
    next
      case False
      with less.hyps [of mid "a @ [y]" "x # b"] show ?thesis by (simp add: m m')
    qed
    finally show ?thesis by (simp add: m m')
  qed
qed

lemma reorder_from_windows:
  "0 < w \<Longrightarrow> reorder_from w (length a) (a @ xs) = a @ rev_windows w xs"
proof (induction "length xs" arbitrary: a xs rule: less_induct)
  case less
  show ?case
  proof (cases xs)
    case Nil
    then show ?thesis by (subst reorder_from.simps) simp
  next
    case (Cons x xs')
    let ?t = "take w xs" and ?d = "drop w xs"
    have t: "?t \<noteq> []" using Cons less.prems by simp
    have e: "(if length (a @ xs) < length a + w then length (a @ xs) else length a + w) - 1 = length a + length ?t - 1"
      by simp
    have split: "a @ xs = a @ ?t @ ?d" by simp
    have "reorder_from w (length a) (a @ xs) = reorder_from w (length a + w) (a @ rev ?t @ ?d)"
      using less.prems Cons swap_range_rev [OF t, of a ?d] e
      by (subst reorder_from.simps) (simp add: Let_def split: if_splits)
    also have "\<dots> = a @ rev ?t @ rev_windows w ?d"
    proof (cases "length xs \<le> w")
      case True
      then show ?thesis by (subst reorder_from.simps) simp
    next
      case False
      then have "length (a @ rev ?t) = length a + w" by simp
      with less.hyps [of ?d "a @ rev ?t"] less.prems Cons show ?thesis by simp
    qed
    finally show ?thesis using Cons less.prems by simp
  qed
qed

lemma rev_windows_short: "length xs \<le> n \<Longrightarrow> rev_windows n xs = rev xs"
  by (cases xs) auto

lemma mset_rev_windows: "mset (rev_windows w xs) = mset xs"
proof (induction w xs rule: rev_windows.induct)
  case (2 w x xs)
  have "mset (take w (x # xs)) + mset (drop w (x # xs)) = mset (x # xs)"
    by (metis append_take_drop_id mset_append)
  with 2 show ?case by (cases w) auto
qed simp

text \<open>The in-place loops of the reorder fault reverse each window of the given size, the last one as far
  as it goes: nothing is lost, and applying the fault twice gives the original order back. A window of at
  most one changes nothing.\<close>

theorem reorder_reverses_windows:
  "reorder w xs = (if 1 < w then rev_windows (nat w) xs else xs) \<and> mset (reorder w xs) = mset xs \<and>
   reorder w (reorder w xs) = xs"
proof -
  have eq: "reorder w ys = (if 1 < w then rev_windows (nat w) ys else ys)" for ys :: "'a list"
    using reorder_from_windows [of "nat w" "[]" ys] by (simp add: reorder_def)
  have "rev_windows n (rev_windows n ys) = ys" for n and ys :: "'a list"
  proof (induction n ys rule: rev_windows.induct)
    case (2 n y ys)
    show ?case
    proof (cases "n = 0")
      case False
      let ?t = "take n (y # ys)" and ?d = "drop n (y # ys)"
      obtain z zs where z: "rev ?t @ rev_windows n ?d = z # zs" using False by (cases "rev ?t") auto
      have "rev_windows n (z # zs) = ?t @ ?d"
      proof (cases "length (y # ys) \<le> n")
        case True
        with z have e: "z # zs = rev (y # ys)" by simp
        from True have "length (z # zs) \<le> n" unfolding e by simp
        from rev_windows_short [OF this] e True show ?thesis by simp
      next
        case long: False
        then have "take n (rev ?t @ rev_windows n ?d) = rev ?t" "drop n (rev ?t @ rev_windows n ?d) = rev_windows n ?d"
          by simp_all
        with z False 2 show ?thesis by simp
      qed
      with z False show ?thesis by simp
    qed simp
  qed simp
  with eq mset_rev_windows show ?thesis by auto
qed

section \<open>What the plan contains\<close>

definition kept_at :: "faults \<Rightarrow> nat \<Rightarrow> bool" where
  "kept_at f pos \<longleftrightarrow> \<not> every (faDropEvery f) pos"

lemma plan_from_entries:
  "p \<in> set (plan_from E f idx pos ms) \<Longrightarrow>
   \<exists>m\<in>set ms. plOriginal p = idx (msID m) \<and> plRecord p = (if plPoisoned p then poison E m else m)"
proof (induction ms arbitrary: pos)
  case (Cons m ms)
  show ?case
  proof (cases "p \<in> set (plan_entry E f idx pos m)")
    case True
    then show ?thesis by (auto simp: plan_entry_def Let_def split: if_splits)
  next
    case False
    with Cons show ?thesis by auto
  qed
qed simp

lemma map_enumerate_snd: "map (\<lambda>x. f (snd x)) (enumerate n xs) = map f xs"
  by (induction xs arbitrary: n) auto

lemma upt_Suc_front: "[pos..<pos + Suc k] = pos # [Suc pos..<Suc pos + k]"
  by (subst upt_conv_Cons) simp_all

lemma map_of_enumerate_ids:
  assumes "distinct (map msID ms)" and "i < length ms"
  shows "index_by_id ms (msID (ms ! i)) = i"
proof -
  let ?xs = "map (\<lambda>(n, m). (msID m, n)) (enumerate 0 ms)"
  have keys: "map fst ?xs = map msID ms" by (simp add: o_def case_prod_beta map_enumerate_snd)
  have "(msID (ms ! i), i) \<in> set ?xs"
    using assms(2) by (force simp: in_set_conv_nth nth_enumerate_eq)
  moreover have "map fst (rev ?xs) = rev (map msID ms)" unfolding rev_map [symmetric] keys ..
  then have "distinct (map fst (rev ?xs))" using assms(1) by (simp only: distinct_rev)
  ultimately have "map_of (rev ?xs) (msID (ms ! i)) = Some i" by simp
  then show ?thesis by (simp add: index_by_id_def)
qed

lemma reorder_set: "set (reorder w xs) = set xs"
proof -
  have "mset (reorder w xs) = mset xs"
    using reorder_from_windows [of "nat w" "[]" xs] by (simp add: reorder_def mset_rev_windows)
  then show ?thesis by (metis set_mset_mset)
qed

definition kept_messages :: "faults \<Rightarrow> nat \<Rightarrow> message list \<Rightarrow> message list" where
  "kept_messages f pos ms = map snd (filter (\<lambda>(n, m). kept_at f n) (enumerate pos ms))"

lemma plan_originals: "set (map plOriginal (plan_from E f idx pos ms)) = (\<lambda>m. idx (msID m)) ` set (kept_messages f pos ms)"
proof (induction ms arbitrary: pos)
  case (Cons m ms)
  then show ?case by (auto simp: plan_entry_def kept_messages_def kept_at_def Let_def)
qed (simp add: kept_messages_def)

lemma plan_length:
  "length (plan_from E f idx pos ms) = length (kept_messages f pos ms) +
     length (filter (\<lambda>n. kept_at f n \<and> every (faDuplicateEvery f) n) [pos..<pos + length ms])"
proof (induction ms arbitrary: pos)
  case (Cons m ms)
  have "[pos..<pos + length (m # ms)] = pos # [Suc pos..<Suc pos + length ms]"
    using upt_Suc_front [of pos "length ms"] by simp
  with Cons show ?case by (auto simp: plan_entry_def kept_messages_def kept_at_def Let_def)
qed (simp add: kept_messages_def)

lemma length_kept: "length (kept_messages f pos ms) = length (filter (kept_at f) [pos..<pos + length ms])"
proof (induction ms arbitrary: pos)
  case (Cons m ms)
  have "[pos..<pos + length (m # ms)] = pos # [Suc pos..<Suc pos + length ms]"
    using upt_Suc_front [of pos "length ms"] by simp
  with Cons show ?case by (auto simp: kept_messages_def)
qed (simp add: kept_messages_def)

lemma count_every:
  assumes "0 < k"
  shows "int (length (filter (every k) [1..<1 + n])) = int n div k"
proof -
  obtain d where k: "k = int d" "0 < d" using assms by (metis pos_int_cases)
  have e: "every k m \<longleftrightarrow> m mod d = 0" for m
    using k by (auto simp: every_def simp flip: zmod_int)
  have "length (filter (every k) [1..<1 + n]) = n div d"
    by (induction n) (auto simp: e div_Suc)
  then show ?thesis by (simp add: k zdiv_int)
qed

lemma ids_injective: "distinct (map msID ms) \<Longrightarrow> inj_on (\<lambda>m. index_by_id ms (msID m)) (set ms)"
proof (rule inj_onI)
  fix x y
  assume d: "distinct (map msID ms)" and xy: "x \<in> set ms" "y \<in> set ms" "index_by_id ms (msID x) = index_by_id ms (msID y)"
  then obtain i j where "i < length ms" "ms ! i = x" "j < length ms" "ms ! j = y" by (auto simp: in_set_conv_nth)
  with map_of_enumerate_ids [OF d] xy(3) show "x = y" by metis
qed

lemma kept_sublist: "distinct ms \<Longrightarrow> distinct (kept_messages f pos ms) \<and> set (kept_messages f pos ms) \<subseteq> set ms"
  by (induction ms arbitrary: pos) (auto simp: kept_messages_def)

lemma unique_kept:
  assumes "distinct (map msID ms)" and "mset os = mset ms"
  shows "unique_planned (plan_from E f (index_by_id ms) pos os) = length (kept_messages f pos os)"
proof -
  have d: "distinct os" "set os = set ms"
    using assms by (metis distinct_map mset_eq_imp_distinct_iff, metis set_mset_mset)
  have kept: "distinct (kept_messages f pos os)" "set (kept_messages f pos os) \<subseteq> set ms"
    using kept_sublist [OF d(1)] d(2) by auto
  have "unique_planned (plan_from E f (index_by_id ms) pos os) =
      card ((\<lambda>m. index_by_id ms (msID m)) ` set (kept_messages f pos os))"
    unfolding unique_planned_def length_remdups_card_conv plan_originals ..
  also have "\<dots> = card (set (kept_messages f pos os))"
    by (rule card_image) (rule inj_on_subset [OF ids_injective [OF assms(1)] kept(2)])
  also have "\<dots> = length (kept_messages f pos os)" using kept(1) by (rule distinct_card)
  finally show ?thesis .
qed

definition two_messages :: "message list" where
  "two_messages = [example_message ''a'', example_message ''b'', example_message ''c'']"

definition no_faults :: faults where
  "no_faults = \<lparr>faDelay = 0, faDropEvery = 0, faDuplicateEvery = 0, faPoisonEvery = 0, faReorderWindow = 0\<rparr>"

text \<open>The counters of a replay are right: of \<open>n\<close> records with different identifiers, every \<open>k\<close>-th is
  dropped, that is \<open>n div k\<close> of them, and the number reported as duplicated is the number of kept positions
  that the duplicate fault selects, whatever the reordering.\<close>

theorem plan_counts:
  assumes "distinct (map msID ms)" and "plan E ms f = Inr ps"
  shows "int (length ms) - int (unique_planned ps) =
      (if faDropEvery f = 0 then 0 else int (length ms) div faDropEvery f) \<and>
    int (length ps) - int (unique_planned ps) =
      int (length (filter (\<lambda>n. kept_at f n \<and> every (faDuplicateEvery f) n) [1..<1 + length ms]))"
proof -
  let ?os = "reorder (faReorderWindow f) ms"
  from assms(2) have ps: "ps = plan_from E f (index_by_id ms) 1 ?os" and nonneg: "0 \<le> faDropEvery f"
    by (auto simp: plan_def split: if_splits)
  have m: "mset ?os = mset ms"
    using reorder_from_windows [of "nat (faReorderWindow f)" "[]" ms] by (simp add: reorder_def mset_rev_windows)
  then have len: "length ?os = length ms" by (metis size_mset)
  have u: "unique_planned ps = length (kept_messages f 1 ?os)" unfolding ps by (rule unique_kept [OF assms(1) m])
  also have "\<dots> = length (filter (kept_at f) [1..<1 + length ms])" by (simp only: length_kept len)
  finally have k: "unique_planned ps = length (filter (kept_at f) [1..<1 + length ms])" .
  have split: "length (filter (kept_at f) [1..<1 + length ms]) + length (filter (every (faDropEvery f)) [1..<1 + length ms]) = length ms"
    unfolding kept_at_def [abs_def]
    using sum_length_filter_compl [of "\<lambda>n. \<not> every (faDropEvery f) n" "[1..<1 + length ms]"]
    by (simp only: not_not length_upt add_diff_cancel_left')
  have drop: "int (length (filter (every (faDropEvery f)) [1..<1 + length ms])) =
      (if faDropEvery f = 0 then 0 else int (length ms) div faDropEvery f)"
  proof (cases "faDropEvery f = 0")
    case True
    then have "every (faDropEvery f) = (\<lambda>_. False)" by (auto simp: every_def)
    with True show ?thesis by simp
  next
    case False
    with nonneg have pos: "0 < faDropEvery f" by simp
    from count_every [OF pos, of "length ms"] False show ?thesis by simp
  qed
  have "length ps = unique_planned ps + length (filter (\<lambda>n. kept_at f n \<and> every (faDuplicateEvery f) n) [1..<1 + length ms])"
    unfolding u unfolding ps by (simp only: plan_length len)
  then show ?thesis using k split drop by simp
qed

lemma plan_counts_witness:
  "\<exists>ps. plan example_env two_messages (no_faults\<lparr>faDropEvery := 2\<rparr>) = Inr ps \<and>
     int (length two_messages) - int (unique_planned ps) = 1"
proof -
  have "is_ok (plan example_env two_messages (no_faults\<lparr>faDropEvery := 2\<rparr>))" by (simp add: plan_def no_faults_def)
  then obtain ps where ps: "plan example_env two_messages (no_faults\<lparr>faDropEvery := 2\<rparr>) = Inr ps"
    by (auto simp: is_ok_def split: sum.splits)
  have "distinct (map msID two_messages)" by code_simp
  from plan_counts [OF this ps] ps show ?thesis by (simp add: no_faults_def two_messages_def)
qed

text \<open>Every planned entry is one of the records, at the index it claims: unchanged, or with the poison
  payload, whose hash is right, so that it passes the checks a record must pass before it is sent.\<close>

theorem plan_entries_faithful:
  assumes "distinct (map msID ms)" and "plan E ms f = Inr ps" and "p \<in> set ps"
  shows "plOriginal p < length ms \<and>
    plRecord p = (if plPoisoned p then poison E (ms ! plOriginal p) else ms ! plOriginal p) \<and>
    (plPoisoned p \<longrightarrow> msg_payload E (plRecord p) = Inr ''{'')"
proof -
  from assms(2) have "ps = plan_from E f (index_by_id ms) 1 (reorder (faReorderWindow f) ms)"
    by (auto simp: plan_def split: if_splits)
  with assms(3) plan_from_entries obtain m where
    m: "m \<in> set (reorder (faReorderWindow f) ms)" "plOriginal p = index_by_id ms (msID m)"
      "plRecord p = (if plPoisoned p then poison E m else m)" by blast
  then obtain i where i: "i < length ms" "ms ! i = m" unfolding reorder_set in_set_conv_nth by blast
  with m(2) map_of_enumerate_ids [OF assms(1) i(1)] have o: "plOriginal p = i" by simp
  have "msg_payload E (poison E m) = Inr ''{''"
    by (simp add: msg_payload_def poison_def del: b64_encode.simps)
  with m(3) i o show ?thesis by simp
qed

lemma plan_entries_faithful_witness:
  "\<exists>ps. plan example_env two_messages (no_faults\<lparr>faPoisonEvery := 1\<rparr>) = Inr ps \<and> ps \<noteq> [] \<and>
     plOriginal (hd ps) < length two_messages"
proof -
  have ok: "is_ok (plan example_env two_messages (no_faults\<lparr>faPoisonEvery := 1\<rparr>))" by (simp add: plan_def no_faults_def)
  then obtain ps where ps: "plan example_env two_messages (no_faults\<lparr>faPoisonEvery := 1\<rparr>) = Inr ps"
    by (auto simp: is_ok_def split: sum.splits)
  then have ne: "ps \<noteq> []" by (auto simp: plan_def no_faults_def reorder_def two_messages_def plan_entry_def every_def Let_def)
  have "distinct (map msID two_messages)" by code_simp
  from plan_entries_faithful [OF this ps, of "hd ps"] ps ne show ?thesis by auto
qed

section \<open>Replaying without faults\<close>

definition sent_as :: "go_env \<Rightarrow> string \<Rightarrow> message \<Rightarrow> produced \<Rightarrow> bool" where
  "sent_as E pre m p \<longleftrightarrow> prTopic p = pre @ msTopic m \<and> validate_topic (prTopic p) \<and>
     prPartition p = max 0 (msPartition m) \<and> msg_key m = Inr (prKey p) \<and> msg_payload E m = Inr (prValue p) \<and>
     header_values m = Inr (prHeaders p) \<and> prTimestamp p = msTimestamp m"

lemma plan_no_faults:
  "plan_from E no_faults idx pos ms = map (\<lambda>m. \<lparr>plRecord = m, plOriginal = idx (msID m), plDuplicate = 0, plPoisoned = False\<rparr>) ms"
  by (induction ms arbitrary: pos) (auto simp: plan_entry_def no_faults_def every_def Let_def)

lemma produce_ok: "produce_record E pre p = Inr q \<Longrightarrow> validate_topic (pre @ msTopic (plRecord p)) \<Longrightarrow> sent_as E pre (plRecord p) q"
  by (auto simp: produce_record_def sent_as_def split: sum.splits if_splits)

text \<open>A replay without faults sends every record of the log once, ordered by time and sequence number,
  with its key, payload, headers and time, to its topic behind the prefix and to its partition (an
  unknown one becomes partition zero), and reports nothing dropped, duplicated or poisoned. Every topic
  is checked before the first record is sent.\<close>

theorem faultless_replay_exact:
  assumes "replay_messages E decoded pre no_faults = Inr r"
  shows "\<exists>ms. load_messages E decoded = Inr ms \<and> list_all2 (sent_as E pre) ms (rrProduced r) \<and>
    rrLoaded r = length ms \<and> rrDropped r = 0 \<and> rrDuplicated r = 0 \<and> rrPoisoned r = 0"
proof -
  from assms obtain ms where ms: "load_messages E decoded = Inr ms"
    by (auto simp: replay_messages_def split: sum.splits)
  let ?pl = "\<lambda>m. \<lparr>plRecord = m, plOriginal = index_by_id ms (msID m), plDuplicate = 0, plPoisoned = False\<rparr>"
  have plan: "plan E ms no_faults = Inr (map ?pl ms)"
    by (simp add: plan_def plan_no_faults) (simp add: no_faults_def reorder_def)
  have r0: "replay_messages E decoded pre no_faults =
      and_then (check_all (\<lambda>p. fail_if (\<not> validate_topic (pre @ msTopic (plRecord p))) (InvalidTopic (pre @ msTopic (plRecord p)))) (map ?pl ms)) (\<lambda>_.
      and_then (map_err (produce_record E pre) (map ?pl ms)) (\<lambda>out.
        Inr \<lparr>rrLoaded = length ms, rrDropped = int (length ms) - int (unique_planned (map ?pl ms)),
             rrDuplicated = int (length (map ?pl ms)) - int (unique_planned (map ?pl ms)),
             rrPoisoned = length (filter plPoisoned (map ?pl ms)), rrProduced = out\<rparr>))"
    by (simp add: replay_messages_def ms plan Let_def)
  from assms[unfolded r0] obtain out where
    topics: "\<forall>m\<in>set ms. validate_topic (pre @ msTopic m)"
    and out: "map_err (produce_record E pre) (map ?pl ms) = Inr out"
    and r: "rrProduced r = out" "rrLoaded r = length ms" "rrDropped r = int (length ms) - int (unique_planned (map ?pl ms))"
      "rrDuplicated r = int (length ms) - int (unique_planned (map ?pl ms))" "rrPoisoned r = 0"
    by (auto simp: check_all_ok)
  have "list_all2 (sent_as E pre) ms out"
    using out topics unfolding map_err_all2 list_all2_map1
    by (rule_tac list_all2_mono [OF list_all2_all_nthI]) (auto simp: list_all2_conv_all_nth intro: produce_ok [of _ _ "?pl _", simplified])
  moreover have "unique_planned (map ?pl ms) = length ms"
  proof -
    from ms obtain raw where raw: "collect E {} decoded = Inr raw" "ms = stable_sort message_less raw"
      by (auto simp: load_messages_def)
    then have d: "distinct (map msID ms)"
      using collect_ok [OF raw(1)] by (metis mset_eq_imp_distinct_iff mset_map mset_stable_sort)
    have "kept_messages no_faults 1 ms = ms"
      by (simp add: kept_messages_def kept_at_def every_def no_faults_def case_prod_beta map_enumerate_snd [of id, simplified])
    with unique_kept [OF d refl, of E no_faults 1] show ?thesis by (simp add: plan_no_faults)
  qed
  ultimately show ?thesis using ms r by simp
qed

lemma faultless_replay_exact_witness:
  "\<exists>r ms. replay_messages example_env [Some (example_message ''a''), Some (example_message ''b'')] ''x.'' no_faults = Inr r \<and>
     load_messages example_env [Some (example_message ''a''), Some (example_message ''b'')] = Inr ms \<and>
     list_all2 (sent_as example_env ''x.'') ms (rrProduced r)"
proof -
  have "is_ok (replay_messages example_env [Some (example_message ''a''), Some (example_message ''b'')] ''x.'' no_faults)"
    by code_simp
  then obtain r where r: "replay_messages example_env [Some (example_message ''a''), Some (example_message ''b'')] ''x.'' no_faults = Inr r"
    by (auto simp: is_ok_def split: sum.splits)
  from faultless_replay_exact [OF r] r show ?thesis by blast
qed

section \<open>What a capture stores\<close>

lemma capture_one_stores:
  assumes "capture_one E opts dir ident l f = Inr l'"
  shows "\<exists>key hs payload m. apply_message E (coPrivacy opts) (ftKey f) (ftHeaders f) (ftValue f) = Some (key, hs, payload) \<and>
    mlRecords l' = mlRecords l @ [m] \<and> msg_key m = Inr key \<and> msg_payload E m = Inr payload \<and>
    header_values m = Inr hs \<and> msSequence m = mlSequence l + 1 \<and> msRedacted m = (coPrivacy opts \<noteq> None)"
proof -
  from assms obtain key hs payload where am: "apply_message E (coPrivacy opts) (ftKey f) (ftHeaders f) (ftValue f) = Some (key, hs, payload)"
    by (auto simp: capture_one_def split: option.splits)
  define m0 where "m0 = (new_with_headers E ident 0 (ftTopic f) key payload hs)
      \<lparr>msBroker := join '','' (coBrokers opts), msDirection := dir, msTimestamp := ftTimestamp f,
       msPartition := ftPartition f, msOffset := ftOffset f, msRedacted := (coPrivacy opts \<noteq> None), msSchema := schema_name hs\<rparr>"
  from assms have "(case write_message E l m0 of (l', None) \<Rightarrow> Inl WriteFailed | (l', Some _) \<Rightarrow> Inr l') = Inr l'"
    unfolding capture_one_def am option.case prod.case Let_def m0_def [symmetric] .
  then have w: "snd (write_message E l m0) \<noteq> None" "l' = fst (write_message E l m0)"
    by (auto split: prod.splits option.splits)
  let ?m = "m0\<lparr>msSequence := mlSequence l + 1, msVersion := (if msVersion m0 = 0 then 1 else msVersion m0)\<rparr>"
  from w have v: "validate_message E ?m = Inr ()" and l': "mlRecords l' = mlRecords l @ [?m]"
    by (cases "validate_message E ?m"; simp add: write_message_def Let_def)+
  have same: "msg_key ?m = Inr key" "msg_payload E ?m = Inr payload"
    by (simp_all add: m0_def msg_key_def msg_payload_def new_with_headers_def)
  have "map (\<lambda>(k, v). \<lparr>mhKey = k, mhValueB64 = b64_encode v\<rparr>) hs = msHeaders ?m" by (simp add: m0_def new_with_headers_def)
  moreover from v obtain hm where "header_values ?m = Inr hm" by (auto simp: validate_message_def header_map_def)
  moreover have "map_err header_value (map (\<lambda>(k, v). \<lparr>mhKey = k, mhValueB64 = b64_encode v\<rparr>) hs) = Inr hm \<Longrightarrow> hm = hs" for hm
    by (induction hs arbitrary: hm) (auto simp: header_value_def)
  ultimately have "header_values ?m = Inr hs" by (simp add: header_values_def)
  with am l' same show ?thesis by (intro exI [of _ key] exI [of _ hs] exI [of _ payload] exI [of _ ?m]) (simp add: m0_def)
qed

text \<open>A message is stored as the policy leaves it: the key, headers and payload of the record written are
  those \<open>ApplyMessage\<close> returns, under a fresh sequence number, and a message that cannot be sanitized is
  not written at all.\<close>

theorem capture_stores_sanitized:
  assumes "capture_one E opts dir ident l f = Inr l'"
  shows "\<exists>key hs payload m. apply_message E (coPrivacy opts) (ftKey f) (ftHeaders f) (ftValue f) = Some (key, hs, payload) \<and>
    mlRecords l' = mlRecords l @ [m] \<and> msg_key m = Inr key \<and> msg_payload E m = Inr payload \<and>
    header_values m = Inr hs \<and> msSequence m = mlSequence l + 1 \<and> msRedacted m = (coPrivacy opts \<noteq> None)"
  using assms by (rule capture_one_stores)

definition kafka_options :: capture_options where
  "kafka_options = \<lparr>coBrokers = [''b:9092''], coTopics = [''t''], coOutputPath = ''o'', coMaxMessages = 0,
     coPrivacy = Some example_policy, coAllowSensitive = False, coDirection = []\<rparr>"

definition one_fetched :: fetched where
  "one_fetched = \<lparr>ftTopic = ''t'', ftPartition = 0, ftOffset = 5, ftTimestamp = 9, ftKey = ''k'', ftValue = [],
     ftHeaders = [(''Trace'', ''1''), (''x'', ''2'')]\<rparr>"

lemma capture_stores_sanitized_witness:
  "\<exists>l' key hs payload m. capture_one json_env kafka_options ''publish'' ''id'' \<lparr>mlRecords = [], mlSequence = 3\<rparr> one_fetched = Inr l' \<and>
     apply_message json_env (Some example_policy) ''k'' [(''Trace'', ''1''), (''x'', ''2'')] [] = Some (key, hs, payload) \<and>
     mlRecords l' = [m] \<and> header_values m = Inr hs \<and> msSequence m = 4"
proof -
  have "is_ok (capture_one json_env kafka_options ''publish'' ''id'' \<lparr>mlRecords = [], mlSequence = 3\<rparr> one_fetched)"
    by code_simp
  then obtain l' where l': "capture_one json_env kafka_options ''publish'' ''id'' \<lparr>mlRecords = [], mlSequence = 3\<rparr> one_fetched = Inr l'"
    by (auto simp: is_ok_def split: sum.splits)
  from capture_stores_sanitized [OF l'] l' show ?thesis
    by (simp add: kafka_options_def one_fetched_def) blast
qed

lemma capture_loop_max:
  "capture_loop E opts dir n l fs = Inr (n', l') \<Longrightarrow> 0 < coMaxMessages opts \<Longrightarrow> int n < coMaxMessages opts \<Longrightarrow>
   int n' \<le> coMaxMessages opts \<and> length (mlRecords l') + n = length (mlRecords l) + n'"
proof (induction E opts dir n l fs rule: capture_loop.induct)
  case (2 E opts dir n l ident f fs)
  from "2.prems"(1) obtain l1 where l1: "capture_one E opts dir ident l f = Inr l1" by auto
  from capture_one_stores [OF l1] have len: "length (mlRecords l1) = Suc (length (mlRecords l))" by auto
  show ?case
  proof (cases "coMaxMessages opts \<le> int (Suc n)")
    case True
    with 2 l1 len show ?thesis by auto
  next
    case False
    with "2.prems" l1 have "capture_loop E opts dir (Suc n) l1 fs = Inr (n', l')" by simp
    from "2.IH" [OF l1 _ this] "2.prems"(2) False len show ?thesis by auto
  qed
qed simp

end
