(* ===== verification/Reporting.thy ===== *)
theory Reporting
  imports GoText
begin

text \<open>
  \<open>pkg/reporting\<close> (\<open>reporting.go\<close>): the findings every check reports, the JUnit and SARIF documents made of
  them, and which files \<open>WriteFormats\<close> writes. The documents are records of what is marshalled; the XML, JSON
  and HTML texts and the file system are outside. A time stamp is a parameter.
\<close>

section \<open>Findings and results\<close>

record finding =
  fdRuleID :: string
  fdLevel :: string
  fdTitle :: string
  fdMessage :: string
  fdLocation :: string

record report_result =
  rrTool :: string
  rrOutcome :: string
  rrSummary :: string
  rrGenerated :: int
  rrFindings :: "finding list"

definition failed_outcome :: "report_result \<Rightarrow> bool" where
  "failed_outcome r \<longleftrightarrow> has_prefix (rrOutcome r) ''FAIL''"

section \<open>JUnit\<close>

record junit_failure =
  jfMessage :: string
  jfType :: string
  jfBody :: string

record junit_case =
  jcName :: string
  jcClassname :: string
  jcFailure :: "junit_failure option"

record junit_suite =
  jsName :: string
  jsTests :: nat
  jsFailures :: nat
  jsCases :: "junit_case list"

definition finding_case :: "nat \<times> finding \<Rightarrow> junit_case" where
  "finding_case = (\<lambda>(i, f).
     \<lparr>jcName = fdRuleID f @ ''-'' @ nat_digits (Suc i), jcClassname = ''infernosim.contract'',
      jcFailure = Some \<lparr>jfMessage = fdTitle f, jfType = fdRuleID f, jfBody = fdMessage f\<rparr>\<rparr>)"

definition add_case :: "junit_suite \<Rightarrow> nat \<times> finding \<Rightarrow> junit_suite" where
  "add_case s i_f = s\<lparr>jsFailures := Suc (jsFailures s), jsCases := jsCases s @ [finding_case i_f]\<rparr>"

definition marshal_junit :: "report_result \<Rightarrow> junit_suite" where
  "marshal_junit r =
     (let outcome = \<lparr>jcName = ''replay-outcome'', jcClassname = ''infernosim.replay'',
            jcFailure = (if failed_outcome r
              then Some \<lparr>jfMessage = rrSummary r, jfType = rrOutcome r, jfBody = rrSummary r\<rparr> else None)\<rparr>
      in foldl add_case
           \<lparr>jsName = rrTool r, jsTests = length (rrFindings r) + 1,
            jsFailures = (if failed_outcome r then 1 else 0), jsCases = [outcome]\<rparr>
           (enumerate 0 (rrFindings r)))"

section \<open>SARIF\<close>

record sarif_rule =
  srID :: string
  srText :: string

record sarif_result =
  seRuleID :: string
  seLevel :: string
  seMessage :: string
  seLocations :: "string list"

record sarif_run =
  suTool :: string
  suVersion :: string
  suRules :: "sarif_rule list"
  suResults :: "sarif_result list"

text \<open>\<open>sarifSemanticVersionPattern\<close>: three numbers, then optionally \<open>-\<close> and \<open>+\<close> parts.\<close>

definition number_then :: "string \<Rightarrow> string option" where
  "number_then s = (if s \<noteq> [] \<and> is_digit (hd s) then Some (dropWhile is_digit s) else None)"

definition version_char :: "char \<Rightarrow> bool" where
  "version_char c \<longleftrightarrow> is_digit c \<or> 65 \<le> byte c \<and> byte c \<le> 90 \<or> 97 \<le> byte c \<and> byte c \<le> 122 \<or> c = CHR ''.'' \<or> c = CHR ''-''"

definition version_part :: "char \<Rightarrow> string \<Rightarrow> string option" where
  "version_part c s =
     (case s of
        x # y # t \<Rightarrow> if x = c \<and> version_char y then Some (dropWhile version_char (y # t)) else None
      | _ \<Rightarrow> None)"

definition version_tail :: "string \<Rightarrow> bool" where
  "version_tail s \<longleftrightarrow>
     (let t = dflt s (version_part (CHR ''-'') s) in t = [] \<or> version_part (CHR ''+'') t = Some [])"

definition is_semantic_version :: "string \<Rightarrow> bool" where
  "is_semantic_version s \<longleftrightarrow>
     (case number_then s of
        Some (a # s1) \<Rightarrow>
          a = CHR ''.'' \<and>
          (case number_then s1 of
             Some (b # s2) \<Rightarrow> b = CHR ''.'' \<and> (case number_then s2 of Some s3 \<Rightarrow> version_tail s3 | None \<Rightarrow> False)
           | _ \<Rightarrow> False)
      | _ \<Rightarrow> False)"

definition sarif_version :: "string \<Rightarrow> string" where
  "sarif_version v =
     (let w = trim_prefix (trim_space v) ''v'' in if is_semantic_version w then w else [])"

definition sarif_level :: "string \<Rightarrow> string" where
  "sarif_level l = (let m = to_lower l in if m \<noteq> ''error'' \<and> m \<noteq> ''warning'' \<and> m \<noteq> ''note'' then ''error'' else m)"

definition outcome_rule :: string where
  "outcome_rule = ''INFERNOSIM_OUTCOME''"

definition finding_result :: "finding \<Rightarrow> sarif_result" where
  "finding_result f =
     \<lparr>seRuleID = fdRuleID f, seLevel = sarif_level (fdLevel f), seMessage = fdMessage f,
      seLocations = (if fdLocation f = [] then [] else [fdLocation f])\<rparr>"

text \<open>The map of rules by identifier: a later finding's title replaces an earlier one's.\<close>

definition rules_by_id :: "report_result \<Rightarrow> (string \<times> sarif_rule) list" where
  "rules_by_id r =
     foldl (\<lambda>m f. AList.update (fdRuleID f) \<lparr>srID = fdRuleID f, srText = fdTitle f\<rparr> m)
       (if failed_outcome r then [(outcome_rule, \<lparr>srID = outcome_rule, srText = ''InfernoSIM command failed''\<rparr>)] else [])
       (rrFindings r)"

definition rule_less :: "sarif_rule \<Rightarrow> sarif_rule \<Rightarrow> bool" where
  "rule_less a b \<longleftrightarrow> srID a < srID b"

interpretation rule_order: keyed_order srID rule_less
  by unfold_locales (simp add: rule_less_def)

definition marshal_sarif :: "string \<Rightarrow> report_result \<Rightarrow> sarif_run" where
  "marshal_sarif version r =
     \<lparr>suTool = rrTool r, suVersion = sarif_version version,
      suRules = stable_sort rule_less (map snd (rules_by_id r)),
      suResults =
        (if failed_outcome r
         then [\<lparr>seRuleID = outcome_rule, seLevel = ''error'', seMessage = rrOutcome r @ '': '' @ rrSummary r, seLocations = []\<rparr>]
         else []) @ map finding_result (rrFindings r)\<rparr>"

section \<open>Formats\<close>

datatype format_doc = JUnitDoc junit_suite | SarifDoc sarif_run | HtmlDoc report_result

definition format_file :: "string \<Rightarrow> report_result \<Rightarrow> string \<Rightarrow> (string \<times> format_doc) option" where
  "format_file version r f =
     (if f = ''junit'' then Some (''infernosim-report.junit.xml'', JUnitDoc (marshal_junit r))
      else if f = ''sarif'' then Some (''infernosim-report.sarif'', SarifDoc (marshal_sarif version r))
      else if f = ''html'' then Some (''infernosim-report.html'', HtmlDoc r)
      else None)"

text \<open>The loop of \<open>WriteFormats\<close>: the files written, and whether it ended with an error. Marshalling these
  records and writing the files succeed.\<close>

fun write_loop :: "string \<Rightarrow> report_result \<Rightarrow> string set \<Rightarrow> string list \<Rightarrow> (string \<times> format_doc) list \<times> bool" where
  "write_loop version r seen [] = ([], True)"
| "write_loop version r seen (raw # rest) =
     (let f = to_lower (trim_space raw)
      in if f = [] \<or> f \<in> seen then write_loop version r seen rest
         else case format_file version r f of
           None \<Rightarrow> ([], False)
         | Some d \<Rightarrow> (case write_loop version r (insert f seen) rest of (ds, ok) \<Rightarrow> (d # ds, ok)))"

definition write_formats :: "string \<Rightarrow> int \<Rightarrow> string list \<Rightarrow> report_result \<Rightarrow> (string \<times> format_doc) list \<times> bool" where
  "write_formats version now formats r =
     write_loop version
       (r\<lparr>rrTool := (if rrTool r = [] then ''InfernoSIM'' else rrTool r),
          rrGenerated := (if rrGenerated r = 0 then now else rrGenerated r)\<rparr>) {} formats"

section \<open>Lemmas\<close>

lemma add_cases:
  "jsCases (foldl add_case s fs) = jsCases s @ map finding_case fs \<and>
   jsFailures (foldl add_case s fs) = jsFailures s + length fs \<and> jsTests (foldl add_case s fs) = jsTests s"
  by (induction fs arbitrary: s) (auto simp: add_case_def)

lemma dom_rules:
  "set (map fst (foldl (\<lambda>m f. AList.update (fdRuleID f) \<lparr>srID = fdRuleID f, srText = fdTitle f\<rparr> m) m fs)) =
   set (map fst m) \<union> fdRuleID ` set fs"
  by (induction fs arbitrary: m) (auto simp: dom_update)

lemma rules_shape:
  assumes "distinct (map fst m)" and "\<forall>(i, r)\<in>set m. srID r = i"
  shows "distinct (map fst (foldl (\<lambda>m f. AList.update (fdRuleID f) \<lparr>srID = fdRuleID f, srText = fdTitle f\<rparr> m) m fs)) \<and>
    (\<forall>(i, r)\<in>set (foldl (\<lambda>m f. AList.update (fdRuleID f) \<lparr>srID = fdRuleID f, srText = fdTitle f\<rparr> m) m fs). srID r = i)"
  using assms
proof (induction fs arbitrary: m)
  case (Cons f fs)
  let ?m = "AList.update (fdRuleID f) \<lparr>srID = fdRuleID f, srText = fdTitle f\<rparr> m"
  have "distinct (map fst ?m)" using Cons.prems(1) by (simp add: distinct_update)
  moreover have "\<forall>(i, r)\<in>set ?m. srID r = i"
    using Cons.prems(2) by (induction m) auto
  ultimately show ?case using Cons.IH by simp
qed simp

lemma rules_ids: "map fst (rules_by_id r) = map srID (map snd (rules_by_id r))" "distinct (map fst (rules_by_id r))"
proof -
  note s = rules_shape [of "if failed_outcome r then [(outcome_rule, \<lparr>srID = outcome_rule, srText = ''InfernoSIM command failed''\<rparr>)] else []"
      "rrFindings r", folded rules_by_id_def]
  show "distinct (map fst (rules_by_id r))" using s by simp
  have "\<forall>(i, q)\<in>set (rules_by_id r). srID q = i" using s by simp
  then show "map fst (rules_by_id r) = map srID (map snd (rules_by_id r))" by (induction "rules_by_id r") auto
qed

section \<open>Properties\<close>

text \<open>The generated reports are consistent documents: in the JUnit suite the two counters are the numbers of
  its cases and of its failed cases; in the SARIF run every result refers to a declared rule, every declared rule
  has a result, the rules are declared once and in the order of their identifiers, and every level is one the
  format knows.\<close>

theorem reports_consistent:
  "jsTests (marshal_junit r) = length (jsCases (marshal_junit r)) \<and>
   jsFailures (marshal_junit r) = length (filter (\<lambda>c. jcFailure c \<noteq> None) (jsCases (marshal_junit r))) \<and>
   srID ` set (suRules (marshal_sarif v r)) = seRuleID ` set (suResults (marshal_sarif v r)) \<and>
   sorted (map srID (suRules (marshal_sarif v r))) \<and> distinct (map srID (suRules (marshal_sarif v r))) \<and>
   seLevel ` set (suResults (marshal_sarif v r)) \<subseteq> {''error'', ''warning'', ''note''}"
proof -
  have f: "length (filter (\<lambda>c. jcFailure c \<noteq> None) (map finding_case fs)) = length fs" for fs
    by (induction fs) (auto simp: finding_case_def)
  have j: "jsTests (marshal_junit r) = length (jsCases (marshal_junit r)) \<and>
     jsFailures (marshal_junit r) = length (filter (\<lambda>c. jcFailure c \<noteq> None) (jsCases (marshal_junit r)))"
    using f [of "enumerate 0 (rrFindings r)"] by (simp add: marshal_junit_def add_cases del: filter_map)
  have "mset (map srID (suRules (marshal_sarif v r))) = mset (map srID (map snd (rules_by_id r)))"
    by (simp add: marshal_sarif_def multiset.map_comp)
  with rules_ids [of r] have d: "distinct (map srID (suRules (marshal_sarif v r)))"
    by (metis mset_eq_imp_distinct_iff)
  have "srID ` set (suRules (marshal_sarif v r)) = set (map fst (rules_by_id r))"
    by (simp add: marshal_sarif_def rules_ids(1) image_image comp_def)
  also have "\<dots> = seRuleID ` set (suResults (marshal_sarif v r))"
    unfolding rules_by_id_def dom_rules
    by (cases "failed_outcome r") (simp_all add: marshal_sarif_def finding_result_def image_Un image_image)
  finally have e: "srID ` set (suRules (marshal_sarif v r)) = seRuleID ` set (suResults (marshal_sarif v r))" .
  have l: "seLevel ` set (suResults (marshal_sarif v r)) \<subseteq> {''error'', ''warning'', ''note''}"
    by (auto simp: marshal_sarif_def finding_result_def sarif_level_def Let_def split: if_splits)
  show ?thesis using j e d l by (simp add: marshal_sarif_def rule_order.sort_keys_sorted)
qed

text \<open>Asking for a format twice, in any spelling, writes its file once, and no two files have the same name.\<close>

lemma write_formats_distinct: "distinct (map fst (fst (write_formats v now fs r)))"
proof -
  have names: "format_file u q f = Some d \<Longrightarrow> format_file u q g = Some e \<Longrightarrow> fst d = fst e \<Longrightarrow> f = g" for u q f g d e
    by (auto simp: format_file_def split: if_splits)
  have "distinct (map fst (fst (write_loop v q seen gs))) \<and>
      (\<forall>d\<in>set (fst (write_loop v q seen gs)). \<exists>f. f \<notin> seen \<and> format_file v q f = Some d)" for q seen gs
  proof (induction v q seen gs rule: write_loop.induct)
    case (2 v q seen raw rest)
    show ?case
    proof (cases "to_lower (trim_space raw) = [] \<or> to_lower (trim_space raw) \<in> seen")
      case False
      show ?thesis
      proof (cases "format_file v q (to_lower (trim_space raw))")
        case (Some d)
        obtain ds ok where l: "write_loop v q (insert (to_lower (trim_space raw)) seen) rest = (ds, ok)" by fastforce
        have "fst d \<notin> set (map fst ds)"
        proof
          assume "fst d \<in> set (map fst ds)"
          then obtain e where "e \<in> set ds" "fst d = fst e" by auto
          moreover from this(1) 2(2) [OF refl False Some] l obtain g where
            "g \<noteq> to_lower (trim_space raw)" "format_file v q g = Some e" by auto
          ultimately show False using names [OF Some, of g e] by simp
        qed
        with False 2(2) [OF refl False Some] l Some show ?thesis by (auto simp: Let_def)
      qed (use False in \<open>simp add: Let_def\<close>)
    qed (use 2(1) [OF refl] in \<open>simp add: Let_def\<close>)
  qed simp
  then show ?thesis by (simp add: write_formats_def)
qed

end
