(* ===== verification/Contract.thy ===== *)
theory Contract
  imports GoEnv Reporting
begin

text \<open>
  \<open>pkg/contract\<close> (\<open>openapi.go\<close>): validation of captured events against an OpenAPI document. The document is what YAML
  decoding gives: pointers that may be nil are options, values of type \<open>any\<close> are JSON. The texts of library errors
  are a parameter. Names are valid UTF-8, as YAML and URL paths are.
\<close>

section \<open>Documents\<close>

datatype schema =
  Schema (scRef: string) (scType: json) (scRequired: "string list") (scProperties: "(string \<times> schema option) list")
    (scItems: "schema option") (scEnum: "json list") (scNullable: bool)

type_synonym media = "(string \<times> schema option) list"

record request_body =
  rbRequired :: bool
  rbContent :: media

record response_header =
  rhRequired :: bool
  rhSchema :: "schema option"

record api_response =
  arHeaders :: "(string \<times> response_header) list"
  arContent :: media

record operation =
  opID :: string
  opRequestBody :: "request_body option"
  opResponses :: "(string \<times> api_response) list"

text \<open>\<open>PathItem\<close>: the operation of each method the document gives one.\<close>

type_synonym path_item = "string \<rightharpoonup> operation"

record api_document =
  adOpenAPI :: string
  adPaths :: "(string \<times> path_item) list"
  adSchemas :: "(string \<times> schema option) list"

datatype load_problem = DocumentUnreadable | DocumentInvalid | WrongVersion | NoPaths

definition load_contract :: "string option \<Rightarrow> (string \<Rightarrow> api_document option) \<Rightarrow> (load_problem, api_document) result" where
  "load_contract file parse =
     (case file of
        None \<Rightarrow> Inl DocumentUnreadable
      | Some data \<Rightarrow> (case parse data of
          None \<Rightarrow> Inl DocumentInvalid
        | Some d \<Rightarrow>
            and_then (fail_if (\<not> has_prefix (adOpenAPI d) ''3.'') WrongVersion) (\<lambda>_.
            and_then (fail_if (adPaths d = []) NoPaths) (\<lambda>_. Inr d))))"

section \<open>Schemas\<close>

definition schema_prefix :: string where
  "schema_prefix = ''#/components/schemas/''"

definition schema_type :: "json \<Rightarrow> string" where
  "schema_type t =
     (case t of
        JStr s \<Rightarrow> s
      | JArr xs \<Rightarrow> dflt [] (first_of (filter (\<lambda>s. s \<noteq> ''null'') (concat (map (\<lambda>x. case x of JStr s \<Rightarrow> [s] | _ \<Rightarrow> []) xs))))
      | _ \<Rightarrow> [])"

text \<open>\<open>number == float64(int64(number))\<close> on the text \<open>Marshal\<close> prints for the number: below 2^63 an integer is printed
  in digits, and a conversion outside the range of \<open>int64\<close> does not give the number back.\<close>

definition is_int64 :: "string \<Rightarrow> bool" where
  "is_int64 t \<longleftrightarrow> atoi t \<noteq> None"

definition matches_type :: "string \<Rightarrow> json \<Rightarrow> bool" where
  "matches_type expected v =
     (if expected = ''object'' then (case v of JObj _ \<Rightarrow> True | _ \<Rightarrow> False)
      else if expected = ''array'' then (case v of JArr _ \<Rightarrow> True | _ \<Rightarrow> False)
      else if expected = ''string'' then (case v of JStr _ \<Rightarrow> True | _ \<Rightarrow> False)
      else if expected = ''number'' then (case v of JNum _ \<Rightarrow> True | _ \<Rightarrow> False)
      else if expected = ''integer'' then (case v of JNum t \<Rightarrow> is_int64 t | _ \<Rightarrow> False)
      else if expected = ''boolean'' then (case v of JBool _ \<Rightarrow> True | _ \<Rightarrow> False)
      else if expected = ''null'' then v = JNull
      else True)"

definition enum_contains :: "json list \<Rightarrow> json \<Rightarrow> bool" where
  "enum_contains vs v \<longleftrightarrow> marshal v \<in> marshal ` set vs"

text \<open>The verb \<open>%T\<close> on a decoded value.\<close>

fun go_type :: "json \<Rightarrow> string" where
  "go_type JNull = ''<nil>''"
| "go_type (JBool _) = ''bool''"
| "go_type (JNum _) = ''float64''"
| "go_type (JStr _) = ''string''"
| "go_type (JArr _) = ''[]interface {}''"
| "go_type (JObj _) = ''map[string]interface {}''"

definition component :: "(string \<times> schema option) list \<Rightarrow> string \<Rightarrow> schema option" where
  "component C n = (case map_of C n of None \<Rightarrow> None | Some s \<Rightarrow> s)"

lemma component_dom: "component C n = Some s \<Longrightarrow> n \<in> fst ` set C"
  by (force simp: component_def dest: map_of_SomeD split: option.splits)

lemma schema_size_property:
  "(n, Some s) \<in> set props \<Longrightarrow> size s < Suc (size_list (size_prod (\<lambda>x. 0) (size_option size)) props + k)"
proof -
  assume "(n, Some s) \<in> set props"
  then have "size s \<le> size_list (size_prod (\<lambda>x. 0) (size_option size)) props"
    by (rule size_list_estimation') simp
  then show ?thesis by simp
qed

text \<open>\<open>validateSchema\<close> with the names being resolved; the result is what it appends. A name stays among them while the
  schema it names is checked, also for the parts of the value.\<close>

function validate_schema ::
  "(string \<times> schema option) list \<Rightarrow> string set \<Rightarrow> schema \<Rightarrow> json \<Rightarrow> string \<Rightarrow> string list" where
  "validate_schema C resolving (Schema ref ty required props items enum nullable) v path =
     (if ref \<noteq> [] then
        (if \<not> has_prefix ref schema_prefix then [path @ '' uses unsupported external schema reference '' @ ref]
         else if trim_prefix ref schema_prefix \<in> resolving then []
         else case component C (trim_prefix ref schema_prefix) of
             None \<Rightarrow> [path @ '' references missing schema '' @ trim_prefix ref schema_prefix]
           | Some t \<Rightarrow> validate_schema C (insert (trim_prefix ref schema_prefix) resolving) t v path)
      else if v = JNull \<and> nullable then []
      else if schema_type ty \<noteq> [] \<and> \<not> matches_type (schema_type ty) v
        then [path @ '' expected '' @ schema_type ty @ '' but received '' @ go_type v]
      else
        (if enum \<noteq> [] \<and> \<not> enum_contains enum v then [path @ '' is not one of the permitted enum values''] else []) @
        (case v of
           JObj kvs \<Rightarrow>
             map (\<lambda>r. path @ ''.'' @ r @ '' is required'') (filter (\<lambda>r. map_of kvs r = None) required) @
             concat (map (\<lambda>p. case snd p of None \<Rightarrow> [] | Some s \<Rightarrow>
                 (case map_of kvs (fst p) of None \<Rightarrow> []
                  | Some c \<Rightarrow> validate_schema C resolving s c (path @ ''.'' @ fst p))) props)
         | JArr xs \<Rightarrow>
             (case items of None \<Rightarrow> []
              | Some s \<Rightarrow> concat (map (\<lambda>p. validate_schema C resolving s (snd p) (path @ ''['' @ nat_digits (fst p) @ '']''))
                                   (enumerate 0 xs)))
         | _ \<Rightarrow> []))"
  by pat_completeness auto
termination
proof (relation "inv_image (less_than <*lex*> less_than)
    (\<lambda>(C, resolving, s, v, path). (card (fst ` set C - resolving), size s))")
  fix C :: "(string \<times> schema option) list" and resolving ref ty required props items enum nullable v path t
  assume "trim_prefix ref schema_prefix \<notin> resolving" and "component C (trim_prefix ref schema_prefix) = Some t"
  then have "trim_prefix ref schema_prefix \<in> fst ` set C - resolving" by (simp add: component_dom)
  then have "card (fst ` set C - insert (trim_prefix ref schema_prefix) resolving) < card (fst ` set C - resolving)"
    by (metis Diff_insert card_Diff1_less finite_Diff finite_imageI List.finite_set)
  then show "((C, insert (trim_prefix ref schema_prefix) resolving, t, v, path), C, resolving,
      Schema ref ty required props items enum nullable, v, path)
    \<in> inv_image (less_than <*lex*> less_than) (\<lambda>(C, resolving, s, v, path). (card (fst ` set C - resolving), size s))"
    by simp
qed (auto dest: schema_size_property)

declare validate_schema.simps [simp del]

section \<open>Paths and operations\<close>

text \<open>\<open>literalPathLength\<close> ranges over the characters outside braces: continuation bytes of UTF-8 are not counted.\<close>

fun literal_length :: "bool \<Rightarrow> string \<Rightarrow> nat" where
  "literal_length inside [] = 0"
| "literal_length inside (c # s) =
     (if c = CHR ''{'' then literal_length True s
      else if c = CHR ''}'' then literal_length False s
      else (if \<not> inside \<and> \<not> (128 \<le> byte c \<and> byte c < 192) then 1 else 0) + literal_length inside s)"

text \<open>The expression \<open>pathMatches\<close> builds: \<open>string(template[index])\<close> makes a character of a byte, so a byte from 128
  up becomes the two bytes of that code point. None stands for a brace that is not closed.\<close>

datatype path_atom = Lit string | Segment

definition byte_as_char :: "char \<Rightarrow> string" where
  "byte_as_char c = (if byte c < 128 then [c] else [chr (192 + byte c div 64), chr (128 + byte c mod 64)])"

function path_atoms :: "string \<Rightarrow> path_atom list option" where
  "path_atoms [] = Some []"
| "path_atoms (c # s) =
     (if c = CHR ''{'' then
        (case cut (CHR ''}'') s of None \<Rightarrow> None | Some (_, rest) \<Rightarrow> map_option (Cons Segment) (path_atoms rest))
      else map_option (Cons (Lit (byte_as_char c))) (path_atoms s))"
  by pat_completeness auto
termination
  by (relation "measure length") (auto simp: cut_Some)

text \<open>Matching \<open>^...$\<close> with \<open>[^/]+\<close> for a segment.\<close>

function atoms_match :: "path_atom list \<Rightarrow> string \<Rightarrow> bool" where
  "atoms_match [] s = (s = [])"
| "atoms_match (Lit l # as) s = (has_prefix s l \<and> atoms_match as (drop (length l) s))"
| "atoms_match (Segment # as) [] = False"
| "atoms_match (Segment # as) (c # s) = (c \<noteq> CHR ''/'' \<and> (atoms_match as s \<or> atoms_match (Segment # as) s))"
  by pat_completeness auto
termination
  by (relation "inv_image (less_than <*lex*> less_than) (\<lambda>(as, s). (length as, length s))") auto

definition path_matches :: "string \<Rightarrow> string \<Rightarrow> bool" where
  "path_matches template actual \<longleftrightarrow>
     template = actual \<or> (case path_atoms template of None \<Rightarrow> False | Some as \<Rightarrow> atoms_match as actual)"

definition documented_methods :: "string list" where
  "documented_methods = [''GET'', ''POST'', ''PUT'', ''PATCH'', ''DELETE'', ''HEAD'', ''OPTIONS'', ''TRACE'']"

definition operation_for_method :: "path_item \<Rightarrow> string \<Rightarrow> operation option" where
  "operation_for_method item m = (if m \<in> set documented_methods then item m else None)"

definition longer_literal :: "string \<Rightarrow> string \<Rightarrow> bool" where
  "longer_literal a b \<longleftrightarrow> literal_length False b < literal_length False a"

text \<open>The document's own path wins; otherwise the first template that matches, those with more literal characters
  first. Only that path is asked for the method.\<close>

definition find_template :: "api_document \<Rightarrow> string \<Rightarrow> (string \<times> path_item) option" where
  "find_template d actual =
     (case map_of (adPaths d) actual of
        Some item \<Rightarrow> Some (actual, item)
      | None \<Rightarrow>
          List.find (\<lambda>(t, item). path_matches t actual)
            (stable_sort (\<lambda>a b. longer_literal (fst a) (fst b)) (filter (\<lambda>(t, item). t \<noteq> actual) (adPaths d))))"

definition find_operation :: "api_document \<Rightarrow> string \<Rightarrow> string \<Rightarrow> string \<times> operation option" where
  "find_operation d m actual =
     (case find_template d actual of None \<Rightarrow> ([], None) | Some (t, item) \<Rightarrow> (t, operation_for_method item m))"

section \<open>Events\<close>

definition contract_finding :: "string \<Rightarrow> string \<Rightarrow> string \<Rightarrow> string \<Rightarrow> finding" where
  "contract_finding rule title message location =
     \<lparr>fdRuleID = rule, fdLevel = ''error'', fdTitle = title, fdMessage = message, fdLocation = location\<rparr>"

definition header_first :: "header \<Rightarrow> string \<Rightarrow> string" where
  "header_first h name =
     (case List.find (\<lambda>(k, vs). equal_fold k name \<and> vs \<noteq> []) h of None \<Rightarrow> [] | Some (_, vs) \<Rightarrow> hd vs)"

definition select_schema :: "media \<Rightarrow> string \<Rightarrow> schema option" where
  "select_schema content contentType =
     (let t = trim_space (hd (split_on (CHR '';'') contentType))
      in case map_of content t of
           Some s \<Rightarrow> s
         | None \<Rightarrow> (case map_of content ''application/json'' of
             Some s \<Rightarrow> s
           | None \<Rightarrow> (case content of [] \<Rightarrow> None | (_, s) # _ \<Rightarrow> s)))"

definition response_for_status :: "(string \<times> api_response) list \<Rightarrow> int \<Rightarrow> api_response option" where
  "response_for_status rs status =
     (case map_of rs (itoa status) of
        Some r \<Rightarrow> Some r
      | None \<Rightarrow> (case List.find (\<lambda>(k, r). equal_fold k (itoa (status div 100) @ ''XX'')) rs of
          Some (_, r) \<Rightarrow> Some r
        | None \<Rightarrow> map_of rs ''default''))"

text \<open>\<open>T\<close> gives the text of the error a library reports on an input.\<close>

definition validate_payload ::
  "go_env \<Rightarrow> (string \<Rightarrow> string) \<Rightarrow> api_document \<Rightarrow> schema option \<Rightarrow> string \<Rightarrow> string \<Rightarrow> string \<Rightarrow> finding list" where
  "validate_payload E T d s body direction location =
     (case s of
        None \<Rightarrow> []
      | Some sc \<Rightarrow>
          if body = [] then []
          else (case gUnmarshal E body of
              None \<Rightarrow> [contract_finding ''OPENAPI_INVALID_JSON'' ''Payload is not valid JSON''
                        (direction @ '' body: '' @ T body) location]
            | Some v \<Rightarrow>
                map (\<lambda>x. contract_finding ''OPENAPI_SCHEMA_VIOLATION'' ''Payload violates its OpenAPI schema''
                       (direction @ '' body '' @ x) location)
                  (validate_schema (adSchemas d) {} sc v ''$'')))"

definition validate_request ::
  "go_env \<Rightarrow> (string \<Rightarrow> string) \<Rightarrow> api_document \<Rightarrow> event \<Rightarrow> request_body \<Rightarrow> string \<Rightarrow> finding list" where
  "validate_request E T d e rb location =
     (if evBodyB64 e = [] then
        (if rbRequired rb \<and> evBodySize e = 0
         then [contract_finding ''OPENAPI_REQUIRED_REQUEST_BODY'' ''Required request body is missing''
                 ''The OpenAPI operation requires a request body'' location]
         else [])
      else case b64_decode (evBodyB64 e) of
          None \<Rightarrow> [contract_finding ''OPENAPI_INVALID_BODY_ENCODING'' ''Request body cannot be decoded''
                    (T (evBodyB64 e)) location]
        | Some body \<Rightarrow>
            validate_payload E T d (select_schema (rbContent rb) (header_first (evHeaders e) ''Content-Type''))
              body ''request'' location)"

definition missing_headers :: "event \<Rightarrow> api_response \<Rightarrow> string \<Rightarrow> finding list" where
  "missing_headers e r location =
     map (\<lambda>(name, h). contract_finding ''OPENAPI_REQUIRED_RESPONSE_HEADER'' ''Required response header is missing''
            (''response status '' @ itoa (evStatus e) @ '' is missing required header '' @ name) location)
       (filter (\<lambda>(name, h). rhRequired h \<and> header_first (evResponseHeaders e) name = []) (arHeaders r))"

definition validate_response ::
  "go_env \<Rightarrow> (string \<Rightarrow> string) \<Rightarrow> api_document \<Rightarrow> event \<Rightarrow> operation \<Rightarrow> string \<Rightarrow> string \<Rightarrow> finding list" where
  "validate_response E T d e oper template location =
     (case response_for_status (opResponses oper) (evStatus e) of
        None \<Rightarrow> [contract_finding ''OPENAPI_UNDOCUMENTED_STATUS'' ''Response status is not documented''
                  (evMethod e @ '' returned status '' @ itoa (evStatus e) @ '', which is absent from '' @ template) location]
      | Some r \<Rightarrow>
          missing_headers e r location @
          (if evResponseBodyB64 e = [] then []
           else case b64_decode (evResponseBodyB64 e) of
               None \<Rightarrow> [contract_finding ''OPENAPI_INVALID_BODY_ENCODING'' ''Response body cannot be decoded''
                         (T (evResponseBodyB64 e)) location]
             | Some body \<Rightarrow>
                 validate_payload E T d
                   (select_schema (arContent r) (header_first (evResponseHeaders e) ''Content-Type''))
                   body ''response'' location))"

definition validate_event ::
  "go_env \<Rightarrow> (string \<Rightarrow> string) \<Rightarrow> api_document \<Rightarrow> string \<Rightarrow> event \<Rightarrow> finding list" where
  "validate_event E T d location e =
     (case gUrlParse E (evURL e) of
        None \<Rightarrow> [contract_finding ''OPENAPI_INVALID_URL'' ''Captured URL is invalid'' (T (evURL e)) location]
      | Some u \<Rightarrow>
          (case find_operation d (to_upper (evMethod e)) (uPath u) of
             (t, None) \<Rightarrow> [contract_finding ''OPENAPI_UNDOCUMENTED_OPERATION'' ''Operation is not documented''
                 (evMethod e @ '' '' @ uPath u @ '' is not present in the OpenAPI contract'') location]
           | (t, Some oper) \<Rightarrow>
               (case opRequestBody oper of None \<Rightarrow> [] | Some rb \<Rightarrow> validate_request E T d e rb location) @
               (if 0 < evStatus e then validate_response E T d e oper t location else [])))"

definition validate_events ::
  "go_env \<Rightarrow> (string \<Rightarrow> string) \<Rightarrow> api_document \<Rightarrow> event list \<Rightarrow> string \<Rightarrow> finding list" where
  "validate_events E T d es phase =
     concat (map (\<lambda>(i, e). validate_event E T d (phase @ ''#event-'' @ nat_digits (Suc i)) e) (enumerate 0 es))"

section \<open>Drift\<close>

definition normalize_content_type :: "string \<Rightarrow> string" where
  "normalize_content_type v = to_lower (trim_space (hd (split_on (CHR '';'') v)))"

definition pair_drift :: "(string \<Rightarrow> string) \<Rightarrow> nat \<Rightarrow> event \<Rightarrow> event \<Rightarrow> finding list" where
  "pair_drift q i b c =
     (let location = ''candidate#event-'' @ nat_digits (Suc i);
          bt = header_first (evResponseHeaders b) ''Content-Type''; ct = header_first (evResponseHeaders c) ''Content-Type''
      in (if evStatus b \<noteq> evStatus c
          then [contract_finding ''CONTRACT_STATUS_DRIFT'' ''Response status changed''
                  (evMethod b @ '' '' @ evURL b @ '' changed from '' @ itoa (evStatus b) @ '' to '' @ itoa (evStatus c)) location]
          else []) @
         (if bt \<noteq> [] \<and> normalize_content_type bt \<noteq> normalize_content_type ct
          then [contract_finding ''CONTRACT_CONTENT_TYPE_DRIFT'' ''Response content type changed''
                  (evURL b @ '' changed from '' @ q bt @ '' to '' @ q ct) location]
          else []))"

definition drift_findings :: "(string \<Rightarrow> string) \<Rightarrow> event list \<Rightarrow> event list \<Rightarrow> finding list" where
  "drift_findings q bs cs =
     concat (map (\<lambda>(i, b, c). pair_drift q i b c) (enumerate 0 (zip bs cs))) @
     (if length cs < length bs
      then [contract_finding ''CONTRACT_MISSING_RESPONSES'' ''Candidate returned fewer responses''
              (''candidate produced '' @ nat_digits (length cs) @ '' responses for '' @ nat_digits (length bs) @ '' baseline events'')
              ''candidate'']
      else [])"

section \<open>What a schema means\<close>

text \<open>The reference: a value conforms to a schema when it conforms to what a reference names, is null where that is
  allowed, or has the type, is among the permitted values, has the required members, and its parts conform.\<close>

inductive conforms :: "(string \<times> schema option) list \<Rightarrow> schema \<Rightarrow> json \<Rightarrow> bool" for C where
  conf_ref: "ref \<noteq> [] \<Longrightarrow> has_prefix ref schema_prefix \<Longrightarrow> component C (trim_prefix ref schema_prefix) = Some t \<Longrightarrow>
    conforms C t v \<Longrightarrow> conforms C (Schema ref ty required props items enum nullable) v"
| conf_null: "conforms C (Schema [] ty required props items enum True) JNull"
| conf_plain: "schema_type ty = [] \<or> matches_type (schema_type ty) v \<Longrightarrow> enum = [] \<or> enum_contains enum v \<Longrightarrow>
    (\<And>kvs r. v = JObj kvs \<Longrightarrow> r \<in> set required \<Longrightarrow> map_of kvs r \<noteq> None) \<Longrightarrow>
    (\<And>kvs n s c. v = JObj kvs \<Longrightarrow> (n, Some s) \<in> set props \<Longrightarrow> map_of kvs n = Some c \<Longrightarrow> conforms C s c) \<Longrightarrow>
    (\<And>xs s x. v = JArr xs \<Longrightarrow> items = Some s \<Longrightarrow> x \<in> set xs \<Longrightarrow> conforms C s x) \<Longrightarrow>
    conforms C (Schema [] ty required props items enum nullable) v"

lemma conforms_no_violations: "conforms C s v \<Longrightarrow> validate_schema C resolving s v path = []"
proof (induction arbitrary: resolving path rule: conforms.induct)
  case (conf_ref ref t v ty required props items enum nullable)
  then show ?case by (simp add: validate_schema.simps)
next
  case (conf_null ty required props items enum)
  then show ?case by (simp add: validate_schema.simps)
next
  case (conf_plain ty v enum required props items nullable)
  have "(case snd p of None \<Rightarrow> [] | Some s \<Rightarrow> (case map_of kvs (fst p) of None \<Rightarrow> []
      | Some c \<Rightarrow> validate_schema C resolving s c (path @ ''.'' @ fst p))) = []"
    if "v = JObj kvs" "p \<in> set props" for kvs p
    using that conf_plain.IH(1) [of kvs "fst p" _ _ resolving "path @ ''.'' @ fst p"]
    by (cases p) (auto split: option.splits)
  moreover have "validate_schema C resolving s x (path @ ''['' @ nat_digits i @ '']'') = []"
    if "v = JArr xs" "items = Some s" "(i, x) \<in> set (enumerate 0 xs)" for xs s i x
    using that conf_plain.IH(2) [of xs s x] by (auto simp: enumerate_eq_zip dest: set_zip_rightD)
  ultimately show ?case
    using conf_plain.hyps by (auto simp: validate_schema.simps split: json.splits option.splits)
qed

text \<open>The components a schema refers to, and documents without recursion: a rank that falls along references.\<close>

primrec schema_refs :: "schema \<Rightarrow> string set" where
  "schema_refs (Schema ref ty required props items enum nullable) =
     (if ref \<noteq> [] then {trim_prefix ref schema_prefix}
      else (\<Union>p\<in>set (map (map_prod id (map_option schema_refs)) props). dflt {} (snd p)) \<union>
           dflt {} (map_option schema_refs items))"

definition ranked :: "(string \<times> schema option) list \<Rightarrow> (string \<Rightarrow> nat) \<Rightarrow> bool" where
  "ranked C rk \<longleftrightarrow> (\<forall>n s. component C n = Some s \<longrightarrow> (\<forall>m\<in>schema_refs s. rk m < rk n))"

lemma schema_refs_parts:
  "(n, Some s) \<in> set props \<Longrightarrow> schema_refs s \<subseteq> schema_refs (Schema [] ty required props items enum nullable)"
  "schema_refs s \<subseteq> schema_refs (Schema [] ty required props (Some s) enum nullable)"
  by (force simp: dflt_def)+

lemma validated_conforms:
  assumes "validate_schema C resolving s v path = []" and "\<forall>r\<in>resolving. \<forall>m\<in>schema_refs s. rk m < rk r"
    and "ranked C rk"
  shows "conforms C s v"
  using assms
proof (induction C resolving s v path rule: validate_schema.induct)
  case (1 C resolving ref ty required props items enum nullable v path)
  note ok = "1.prems"(1) [unfolded validate_schema.simps [of C resolving ref]]
  show ?case
  proof (cases "ref = []")
    case False
    let ?n = "trim_prefix ref schema_prefix"
    have fresh: "?n \<notin> resolving" using "1.prems"(2) False by auto
    from ok False fresh obtain t where p: "has_prefix ref schema_prefix" and t: "component C ?n = Some t"
      and sub: "validate_schema C (insert ?n resolving) t v path = []"
      by (auto split: if_splits option.splits)
    have low: "m \<in> schema_refs t \<Longrightarrow> rk m < rk ?n" for m using "1.prems"(3) t by (auto simp: ranked_def)
    have "\<forall>r\<in>insert ?n resolving. \<forall>m\<in>schema_refs t. rk m < rk r"
      using "1.prems"(2) False low by (fastforce intro: less_trans)
    from "1.IH"(1) [OF False _ fresh t sub this "1.prems"(3)] p have "conforms C t v" by simp
    with False p t show ?thesis by (intro conf_ref) auto
  next
    case ref: True
    show ?thesis
    proof (cases "v = JNull \<and> nullable")
      case True
      with ref show ?thesis by (auto intro: conf_null)
    next
      case nn: False
      with ok ref have ty: "schema_type ty = [] \<or> matches_type (schema_type ty) v"
        and en: "enum = [] \<or> enum_contains enum v"
        by (auto split: if_splits)
      then have nt: "\<not> (schema_type ty \<noteq> [] \<and> \<not> matches_type (schema_type ty) v)" by blast
      have ok: "(case v of
           JObj kvs \<Rightarrow>
             map (\<lambda>r. path @ ''.'' @ r @ '' is required'') (filter (\<lambda>r. map_of kvs r = None) required) @
             concat (map (\<lambda>p. case snd p of None \<Rightarrow> [] | Some s \<Rightarrow>
                 (case map_of kvs (fst p) of None \<Rightarrow> []
                  | Some c \<Rightarrow> validate_schema C resolving s c (path @ ''.'' @ fst p))) props)
         | JArr xs \<Rightarrow>
             (case items of None \<Rightarrow> []
              | Some s \<Rightarrow> concat (map (\<lambda>p. validate_schema C resolving s (snd p) (path @ ''['' @ nat_digits (fst p) @ '']''))
                                   (enumerate 0 xs)))
         | _ \<Rightarrow> []) = []"
        using ok ref nn nt by (simp split: if_splits)
      show ?thesis unfolding ref
      proof (rule conf_plain [OF ty en])
        fix kvs r assume "v = JObj kvs" "r \<in> set required"
        with ok show "map_of kvs r \<noteq> None" by (auto simp: filter_empty_conv)
      next
        fix kvs n s c assume h: "v = JObj kvs" "(n, Some s) \<in> set props" "map_of kvs n = Some c"
        with ok have "validate_schema C resolving s c (path @ ''.'' @ n) = []" by fastforce
        moreover have "\<forall>r\<in>resolving. \<forall>m\<in>schema_refs s. rk m < rk r"
          using ref "1.prems"(2) schema_refs_parts(1) [OF h(2), of ty required items enum nullable] by blast
        ultimately show "conforms C s c"
          using "1.IH"(3) [OF _ nn nt h(1,2), of s c] ref h(3) "1.prems"(3) by simp
      next
        fix xs s x assume h: "v = JArr xs" "items = Some s" "x \<in> set xs"
        then obtain i where i: "(i, x) \<in> set (enumerate 0 xs)" by (auto simp: enumerate_eq_zip in_set_conv_nth set_zip)
        with ok h have "validate_schema C resolving s x (path @ ''['' @ nat_digits i @ '']'') = []" by fastforce
        moreover have "\<forall>r\<in>resolving. \<forall>m\<in>schema_refs s. rk m < rk r"
          using ref h(2) "1.prems"(2) schema_refs_parts(2) [of s ty required props enum nullable] by blast
        ultimately show "conforms C s x"
          using "1.IH"(2) [OF _ nn nt h(1,2) i] ref "1.prems"(3) by simp
      qed
    qed
  qed
qed


definition object_schema :: "string list \<Rightarrow> (string \<times> schema option) list \<Rightarrow> schema" where
  "object_schema required props = Schema [] (JStr ''object'') required props None [] False"

definition type_schema :: "string \<Rightarrow> schema" where
  "type_schema t = Schema [] (JStr t) [] [] None [] False"

definition ref_schema :: "string \<Rightarrow> schema" where
  "ref_schema n = Schema (schema_prefix @ n) JNull [] [] None [] False"

definition order_schemas :: "(string \<times> schema option) list" where
  "order_schemas = [(''Order'', Some (object_schema [''id''] [(''id'', Some (type_schema ''integer''))]))]"

lemma order_schemas_ranked: "ranked order_schemas (\<lambda>_. 0)"
  by (auto simp: ranked_def order_schemas_def component_def object_schema_def type_schema_def split: if_splits)


definition node_schemas :: "(string \<times> schema option) list" where
  "node_schemas = [(''Node'', Some (object_schema [] [(''next'', Some (ref_schema ''Node''))]))]"

text \<open>A recursive schema is checked on its first level only: below a reference that is being resolved every value is
  accepted, whatever its type, although it does not conform.\<close>

theorem recursive_part_unchecked:
  "validate_schema node_schemas {} (ref_schema ''Node'') (JObj [(''next'', x)]) path = [] \<and>
   \<not> conforms node_schemas (ref_schema ''Node'') (JObj [(''next'', JBool True)])"
proof
  have prefix_facts: "has_prefix (schema_prefix @ ''Node'') schema_prefix"
    "trim_prefix (schema_prefix @ ''Node'') schema_prefix = ''Node''" by code_simp+
  have comp: "component node_schemas ''Node'' = Some (object_schema [] [(''next'', Some (ref_schema ''Node''))])"
    by (simp add: component_def node_schemas_def)
  show "validate_schema node_schemas {} (ref_schema ''Node'') (JObj [(''next'', x)]) path = []"
    by (simp add: validate_schema.simps ref_schema_def prefix_facts comp object_schema_def schema_type_def matches_type_def)
  show "\<not> conforms node_schemas (ref_schema ''Node'') (JObj [(''next'', JBool True)])"
  proof
    assume "conforms node_schemas (ref_schema ''Node'') (JObj [(''next'', JBool True)])"
    then have "conforms node_schemas (object_schema [] [(''next'', Some (ref_schema ''Node''))]) (JObj [(''next'', JBool True)])"
      by (cases rule: conforms.cases) (auto simp: ref_schema_def prefix_facts comp)
    then have "conforms node_schemas (ref_schema ''Node'') (JBool True)"
      by (cases rule: conforms.cases) (auto simp: object_schema_def)
    then have "conforms node_schemas (object_schema [] [(''next'', Some (ref_schema ''Node''))]) (JBool True)"
      by (cases rule: conforms.cases) (auto simp: ref_schema_def prefix_facts comp)
    then show False
      by (cases rule: conforms.cases) (auto simp: object_schema_def schema_type_def matches_type_def)
  qed
qed

section \<open>Which operation an event is held to\<close>

fun fits :: "path_atom \<Rightarrow> string \<Rightarrow> bool" where
  "fits (Lit l) w = (w = l)"
| "fits Segment w = (w \<noteq> [] \<and> CHR ''/'' \<notin> set w)"

lemma atoms_match_exact: "atoms_match as s \<longleftrightarrow> (\<exists>ws. s = concat ws \<and> list_all2 fits as ws)"
proof (induction as s rule: atoms_match.induct)
  case (1 s)
  show ?case by (auto intro: exI [of _ "[]"])
next
  case (2 l as s)
  show ?case
  proof
    assume "atoms_match (Lit l # as) s"
    with 2 obtain ws where "has_prefix s l" "drop (length l) s = concat ws" "list_all2 fits as ws" by auto
    then have "s = concat (l # ws)" "list_all2 fits (Lit l # as) (l # ws)"
      by (auto simp: has_prefix_def) (metis append_take_drop_id)
    then show "\<exists>ws. s = concat ws \<and> list_all2 fits (Lit l # as) ws" by blast
  next
    assume "\<exists>ws. s = concat ws \<and> list_all2 fits (Lit l # as) ws"
    then obtain ws where "s = l @ concat ws" "list_all2 fits as ws" by (auto simp: list_all2_Cons1)
    with 2 show "atoms_match (Lit l # as) s" by (auto simp: has_prefix_def)
  qed
next
  case (3 as)
  show ?case by (auto simp: list_all2_Cons1)
next
  case (4 as c s)
  show ?case
  proof
    assume "atoms_match (Segment # as) (c # s)"
    then have c: "c \<noteq> CHR ''/''" and "atoms_match as s \<or> atoms_match (Segment # as) s" by auto
    then show "\<exists>ws. c # s = concat ws \<and> list_all2 fits (Segment # as) ws"
    proof (elim disjE)
      assume "atoms_match as s"
      with 4(1) c obtain ws where "s = concat ws" "list_all2 fits as ws" by auto
      with c have "c # s = concat ([c] # ws)" "list_all2 fits (Segment # as) ([c] # ws)" by auto
      then show ?thesis by blast
    next
      assume "atoms_match (Segment # as) s"
      with 4(2) c obtain w ws where "s = w @ concat ws" "fits Segment w" "list_all2 fits as ws"
        by (auto simp: list_all2_Cons1)
      with c have "c # s = concat ((c # w) # ws)" "list_all2 fits (Segment # as) ((c # w) # ws)" by auto
      then show ?thesis by blast
    qed
  next
    assume "\<exists>ws. c # s = concat ws \<and> list_all2 fits (Segment # as) ws"
    then obtain w ws where w: "c # s = w @ concat ws" "fits Segment w" and ws: "list_all2 fits as ws"
      by (auto simp: list_all2_Cons1)
    then obtain w' where w': "w = c # w'" "s = w' @ concat ws" "c \<noteq> CHR ''/''" by (cases w) auto
    show "atoms_match (Segment # as) (c # s)"
    proof (cases "w' = []")
      case True
      with w' ws 4(1) show ?thesis by auto
    next
      case False
      with w w' ws have "list_all2 fits (Segment # as) (w' # ws)" "s = concat (w' # ws)" by auto
      with 4(2) w'(3) show ?thesis by (metis atoms_match.simps(4))
    qed
  qed
qed

interpretation literal_order: keyed_order "\<lambda>a. - int (literal_length False (fst a))" "\<lambda>a b. longer_literal (fst a) (fst b)"
  by unfold_locales (simp add: longer_literal_def)

text \<open>The path an event is held to is the request's own path when the document has it, and otherwise a template
  that matches it with the greatest number of literal characters; there is none exactly when no path of the document
  matches.\<close>

theorem find_template_most_literal:
  "(case find_template d p of
      None \<Rightarrow> filter (\<lambda>(t, i). path_matches t p) (adPaths d) = []
    | Some (t, item) \<Rightarrow>
        (t, item) \<in> set (adPaths d) \<and> path_matches t p \<and>
        (t = p \<or> filter (\<lambda>(u, i). path_matches u p \<and> literal_length False t < literal_length False u) (adPaths d) = []))"
proof (cases "map_of (adPaths d) p")
  case (Some item)
  then show ?thesis by (auto simp: find_template_def path_matches_def dest: map_of_SomeD)
next
  case None
  then have absent: "p \<notin> fst ` set (adPaths d)" by (simp add: map_of_eq_None_iff)
  then have all: "filter (\<lambda>(t, item). t \<noteq> p) (adPaths d) = adPaths d"
    by (force simp: filter_id_conv)
  let ?ts = "stable_sort (\<lambda>a b. longer_literal (fst a) (fst b)) (adPaths d)"
  have find: "find_template d p = List.find (\<lambda>(t, item). path_matches t p) ?ts"
    using None all by (simp add: find_template_def)
  have sorted: "sorted_wrt (\<lambda>a b. \<not> longer_literal (fst b) (fst a)) ?ts" by (rule literal_order.sort_sorted)
  show ?thesis
  proof (cases "find_template d p")
    case None
    with find have "\<forall>x\<in>set ?ts. \<not> (case x of (t, item) \<Rightarrow> path_matches t p)" by (auto simp: find_None_iff find_None_iff2)
    with None show ?thesis by (auto simp: filter_empty_conv)
  next
    case (Some ti)
    then obtain t item where ti: "find_template d p = Some (t, item)" by (cases ti) auto
    with find_sorted [OF _ sorted, of "\<lambda>(t, item). path_matches t p" "(t, item)"] find
    have m: "(t, item) \<in> set (adPaths d)" "path_matches t p"
      "\<forall>y\<in>set (adPaths d). (case y of (u, i) \<Rightarrow> path_matches u p) \<longrightarrow> y = (t, item) \<or> \<not> longer_literal (fst y) t"
      by auto
    have "filter (\<lambda>(u, i). path_matches u p \<and> literal_length False t < literal_length False u) (adPaths d) = []"
      using m(3) by (auto simp: filter_empty_conv longer_literal_def)
    with ti m show ?thesis by simp
  qed
qed

text \<open>A template with a parameter and a character outside ASCII matches no path, because each byte of the character is
  turned into a character of its own.\<close>

definition e_acute :: string where
  "e_acute = [chr 195, chr 169]"

lemma template_outside_ascii:
  "\<not> path_matches (''/caf'' @ e_acute @ ''/{id}'') (''/caf'' @ e_acute @ ''/7'') \<and> path_matches ''/cafe/{id}'' ''/cafe/7''"
  by code_simp

section \<open>Drift\<close>

definition same_contract :: "event \<Rightarrow> event \<Rightarrow> bool" where
  "same_contract b c \<longleftrightarrow>
     evStatus b = evStatus c \<and>
     (header_first (evResponseHeaders b) ''Content-Type'' = [] \<or>
      normalize_content_type (header_first (evResponseHeaders b) ''Content-Type'') =
      normalize_content_type (header_first (evResponseHeaders c) ''Content-Type''))"

lemma pair_drift_none: "pair_drift q i b c = [] \<longleftrightarrow> same_contract b c"
  by (auto simp: pair_drift_def same_contract_def Let_def)

text \<open>No drift is reported exactly when the candidate answered every baseline event, each with the same status and,
  where the baseline has one, the same content type up to parameters and case.\<close>

theorem drift_exact:
  "drift_findings q bs cs = [] \<longleftrightarrow> length bs \<le> length cs \<and> list_all2 same_contract bs (take (length bs) cs)"
proof -
  have "concat (map (\<lambda>(i, b, c). pair_drift q i b c) (enumerate n (zip bs cs))) = [] \<longleftrightarrow>
      (\<forall>(b, c)\<in>set (zip bs cs). same_contract b c)" for n
  proof (induction "zip bs cs" arbitrary: bs cs n)
    case (Cons p ps)
    then obtain b bs' c cs' where bc: "bs = b # bs'" "cs = c # cs'" by (cases bs; cases cs) auto
    with Cons.hyps(1) [of bs' cs' "Suc n"] Cons.hyps(2) show ?case by (auto simp: pair_drift_none)
  qed auto
  moreover have "zip bs cs = zip bs (take (length bs) cs)"
    by (metis take_all length_zip min.cobounded1 order_refl take_zip)
  then have "length bs \<le> length cs \<Longrightarrow>
    (\<forall>(b, c)\<in>set (zip bs cs). same_contract b c) \<longleftrightarrow> list_all2 same_contract bs (take (length bs) cs)"
    by (simp add: list_all2_iff)
  ultimately show ?thesis by (auto simp: drift_findings_def not_less)
qed

end
