(* ===== verification/AsyncApi.thy ===== *)
theory AsyncApi
  imports Contract Message
begin

text \<open>
  \<open>pkg/asyncapi\<close> (\<open>asyncapi.go\<close>): loading an AsyncAPI document with the checks of \<open>validateContract\<close>, and the validation
  of captured messages against it: choice of the channel, resolution of message references, choice of the message
  by its payload, schema checks with a depth limit, headers. The texts of library errors are a parameter.
\<close>

section \<open>Documents\<close>

text \<open>\<open>additionalProperties\<close> is any YAML value; null stands for absent.\<close>

datatype aschema =
  ASchema (asRef: string) (asType: json) (asRequired: "string list") (asProperties: "(string \<times> aschema option) list")
    (asItems: "aschema option") (asEnum: "json list") (asPattern: string) (asAdditional: json)

record message_def =
  mdRef :: string
  mdName :: string
  mdTitle :: string
  mdContentType :: string
  mdHeaders :: "aschema option"
  mdPayload :: "aschema option"

record channel =
  chAddress :: string
  chMessages :: "(string \<times> message_def option) list"

record async_document =
  asyVersion :: string
  asyChannels :: "(string \<times> channel) list"
  asyMessages :: "(string \<times> message_def option) list"
  asySchemas :: "(string \<times> aschema option) list"

section \<open>Checking a document\<close>

datatype type_error = TypeNotText | TypeNotList | TypeUnsupported string | TypeDuplicated string

datatype resolve_error = DefinitionEmpty | ExternalReference string | CyclicReference string | MissingComponent string

datatype contract_error =
    Unresolved string resolve_error | NotJSONContent string | ExternalSchema string string | MissingSchema string string
  | BadType string type_error | BadPattern string | RequiredTwice string string | AdditionalSchema string

definition json_types :: "string list" where
  "json_types = [''object'', ''array'', ''string'', ''number'', ''integer'', ''boolean'', ''null'']"

definition type_names :: "json \<Rightarrow> (type_error, string list) result" where
  "type_names t =
     (case t of
        JNull \<Rightarrow> Inr []
      | JStr s \<Rightarrow> Inr [s]
      | JArr xs \<Rightarrow> map_err (\<lambda>x. case x of JStr s \<Rightarrow> Inr s | _ \<Rightarrow> Inl TypeNotText) xs
      | _ \<Rightarrow> Inl TypeNotList)"

definition check_type_name :: "string set \<Rightarrow> string \<Rightarrow> (type_error, string set) result" where
  "check_type_name seen n =
     and_then (fail_if (n \<notin> set json_types) (TypeUnsupported n)) (\<lambda>_.
     and_then (fail_if (n \<in> seen) (TypeDuplicated n)) (\<lambda>_. Inr (insert n seen)))"

definition schema_types :: "json \<Rightarrow> (type_error, string list) result" where
  "schema_types t = and_then (type_names t) (\<lambda>ns. and_then (fold_err check_type_name {} ns) (\<lambda>_. Inr ns))"

definition acomponent :: "(string \<times> 'a option) list \<Rightarrow> string \<Rightarrow> 'a option" where
  "acomponent C n = (case map_of C n of None \<Rightarrow> None | Some s \<Rightarrow> s)"

lemma acomponent_dom: "acomponent C n = Some s \<Longrightarrow> n \<in> fst ` set C"
  by (force simp: acomponent_def dest: map_of_SomeD split: option.splits)

text \<open>The checks on one schema, before its parts.\<close>

definition check_required :: "string \<Rightarrow> string list \<Rightarrow> (contract_error, string set) result" where
  "check_required path names =
     fold_err (\<lambda>seen n. if n \<in> seen then Inl (RequiredTwice path n) else Inr (insert n seen)) {} names"

definition check_reference :: "(string \<times> aschema option) list \<Rightarrow> string \<Rightarrow> string \<Rightarrow> (contract_error, unit) result" where
  "check_reference C path ref =
     (if ref = [] then Inr ()
      else if \<not> has_prefix ref schema_prefix then Inl (ExternalSchema path ref)
      else fail_if (acomponent C (trim_prefix ref schema_prefix) = None)
             (MissingSchema path (trim_prefix ref schema_prefix)))"

definition check_schema_here ::
  "go_env \<Rightarrow> (string \<times> aschema option) list \<Rightarrow> string \<Rightarrow> aschema \<Rightarrow> (contract_error, unit) result" where
  "check_schema_here E C path s =
     and_then (check_reference C path (asRef s)) (\<lambda>_.
     and_then (case schema_types (asType s) of Inl e \<Rightarrow> Inl (BadType path e) | Inr _ \<Rightarrow> Inr ()) (\<lambda>_.
     and_then (fail_if (asPattern s \<noteq> [] \<and> gCompile E (asPattern s) = None) (BadPattern path)) (\<lambda>_.
     and_then (check_required path (asRequired s)) (\<lambda>_.
     fail_if (case asAdditional s of JNull \<Rightarrow> False | JBool _ \<Rightarrow> False | _ \<Rightarrow> True) (AdditionalSchema path)))))"

text \<open>\<open>validateSchemaDefinition\<close>; decoded schemas are trees, so the set of visited pointers never stops it.\<close>

lemma aschema_size_property [termination_simp]:
  "p \<in> set props \<Longrightarrow> snd p = Some s \<Longrightarrow> size s < Suc (size_list (size_prod (\<lambda>x. 0) (size_option size)) props + k)"
proof -
  assume "p \<in> set props" "snd p = Some s"
  then have "size s \<le> size_list (size_prod (\<lambda>x. 0) (size_option size)) props"
    by (intro size_list_estimation' [of p]) (cases p; simp)+
  then show ?thesis by simp
qed

function check_definition ::
  "go_env \<Rightarrow> (string \<times> aschema option) list \<Rightarrow> string \<Rightarrow> aschema \<Rightarrow> (contract_error, unit) result" where
  "check_definition E C path (ASchema ref ty required props items enum pattern additional) =
     and_then (check_schema_here E C path (ASchema ref ty required props items enum pattern additional)) (\<lambda>_.
     and_then (check_all (\<lambda>p. case snd p of None \<Rightarrow> Inr ()
                 | Some s \<Rightarrow> check_definition E C (path @ ''.properties.'' @ fst p) s) props) (\<lambda>_.
     case items of None \<Rightarrow> Inr () | Some s \<Rightarrow> check_definition E C (path @ ''.items'') s))"
  by pat_completeness auto
termination
  by (relation "measure (\<lambda>(E, C, path, s). size s)") (auto intro: aschema_size_property)

declare check_definition.simps [simp del]

definition check_pointer ::
  "go_env \<Rightarrow> (string \<times> aschema option) list \<Rightarrow> string \<Rightarrow> aschema option \<Rightarrow> (contract_error, unit) result" where
  "check_pointer E C path s = (case s of None \<Rightarrow> Inr () | Some t \<Rightarrow> check_definition E C path t)"

section \<open>Message references\<close>

definition message_prefix :: string where
  "message_prefix = ''#/components/messages/''"

function resolve_reference ::
  "(string \<times> message_def option) list \<Rightarrow> string set \<Rightarrow> message_def option \<Rightarrow> (resolve_error, message_def) result" where
  "resolve_reference M resolving md =
     (case md of
        None \<Rightarrow> Inl DefinitionEmpty
      | Some m \<Rightarrow>
          if mdRef m = [] then Inr m
          else if \<not> has_prefix (mdRef m) message_prefix then Inl (ExternalReference (mdRef m))
          else if trim_prefix (mdRef m) message_prefix \<in> resolving
            then Inl (CyclicReference (trim_prefix (mdRef m) message_prefix))
          else case acomponent M (trim_prefix (mdRef m) message_prefix) of
              None \<Rightarrow> Inl (MissingComponent (trim_prefix (mdRef m) message_prefix))
            | Some t \<Rightarrow> resolve_reference M (insert (trim_prefix (mdRef m) message_prefix) resolving) (Some t))"
  by pat_completeness auto
termination
proof (relation "measure (\<lambda>(M, resolving, md). card (fst ` set M - resolving))")
  fix M :: "(string \<times> message_def option) list" and resolving md m t
  assume "trim_prefix (mdRef m) message_prefix \<notin> resolving" and "acomponent M (trim_prefix (mdRef m) message_prefix) = Some t"
  then have "trim_prefix (mdRef m) message_prefix \<in> fst ` set M - resolving" by (simp add: acomponent_dom)
  then have "card (fst ` set M - insert (trim_prefix (mdRef m) message_prefix) resolving) < card (fst ` set M - resolving)"
    by (metis Diff_insert card_Diff1_less finite_Diff finite_imageI List.finite_set)
  then show "((M, insert (trim_prefix (mdRef m) message_prefix) resolving, Some t), M, resolving, md)
      \<in> measure (\<lambda>(M, resolving, md). card (fst ` set M - resolving))"
    by simp
qed simp

declare resolve_reference.simps [simp del]

definition resolve_message :: "async_document \<Rightarrow> message_def option \<Rightarrow> (resolve_error, message_def) result" where
  "resolve_message d md = resolve_reference (asyMessages d) {} md"

definition is_json_content :: "string \<Rightarrow> bool" where
  "is_json_content v \<longleftrightarrow>
     trim_space v = [] \<or>
     (let m = to_lower (trim_space (hd (split_on (CHR '';'') v)))
      in m = ''application/json'' \<or> has_suffix m ''+json'')"

definition check_message ::
  "go_env \<Rightarrow> async_document \<Rightarrow> string \<times> message_def option \<Rightarrow> (contract_error, unit) result" where
  "check_message E d pm =
     (case resolve_message d (snd pm) of
        Inl e \<Rightarrow> Inl (Unresolved (fst pm) e)
      | Inr m \<Rightarrow>
          and_then (fail_if (\<not> is_json_content (mdContentType m)) (NotJSONContent (fst pm))) (\<lambda>_.
          and_then (check_pointer E (asySchemas d) (fst pm @ ''.headers'') (mdHeaders m)) (\<lambda>_.
            check_pointer E (asySchemas d) (fst pm @ ''.payload'') (mdPayload m))))"

text \<open>A message of a channel has its headers checked before its content type.\<close>

definition check_channel_message ::
  "go_env \<Rightarrow> async_document \<Rightarrow> string \<times> message_def option \<Rightarrow> (contract_error, unit) result" where
  "check_channel_message E d pm =
     (case resolve_message d (snd pm) of
        Inl e \<Rightarrow> Inl (Unresolved (fst pm) e)
      | Inr m \<Rightarrow>
          and_then (check_pointer E (asySchemas d) (fst pm @ ''.headers'') (mdHeaders m)) (\<lambda>_.
          and_then (fail_if (\<not> is_json_content (mdContentType m)) (NotJSONContent (fst pm))) (\<lambda>_.
            check_pointer E (asySchemas d) (fst pm @ ''.payload'') (mdPayload m))))"

definition validate_contract :: "go_env \<Rightarrow> async_document \<Rightarrow> (contract_error, unit) result" where
  "validate_contract E d =
     and_then (check_all (\<lambda>(c, ch). check_all (\<lambda>(n, m). check_channel_message E d (''channels.'' @ c @ ''.messages.'' @ n, m))
                 (chMessages ch)) (asyChannels d)) (\<lambda>_.
     and_then (check_all (\<lambda>(n, m). check_message E d (''components.messages.'' @ n, m)) (asyMessages d)) (\<lambda>_.
       check_all (\<lambda>(n, s). check_pointer E (asySchemas d) (''components.schemas.'' @ n) s) (asySchemas d)))"

datatype async_load_error = AsyncUnreadable | AsyncInvalid | AsyncVersion | NoChannels | ContractInvalid contract_error

definition load_async ::
  "go_env \<Rightarrow> string option \<Rightarrow> (string \<Rightarrow> async_document option) \<Rightarrow> (async_load_error, async_document) result" where
  "load_async E file parse =
     (case file of
        None \<Rightarrow> Inl AsyncUnreadable
      | Some data \<Rightarrow> (case parse data of
          None \<Rightarrow> Inl AsyncInvalid
        | Some d \<Rightarrow>
            and_then (fail_if (\<not> has_prefix (asyVersion d) ''3.'') AsyncVersion) (\<lambda>_.
            and_then (fail_if (asyChannels d = []) NoChannels) (\<lambda>_.
              case validate_contract E d of Inl e \<Rightarrow> Inl (ContractInvalid e) | Inr _ \<Rightarrow> Inr d))))"

section \<open>Validating a value\<close>

text \<open>\<open>math.Trunc(number) == number\<close> on the printed number: from 1e21 on it is an integer in exponent form, below 1e-6 a
  fraction in exponent form.\<close>

definition is_integral :: "string \<Rightarrow> bool" where
  "is_integral t \<longleftrightarrow> (if contains t ''e'' then contains t ''e+'' else CHR ''.'' \<notin> set t)"

definition fits_type :: "json \<Rightarrow> string \<Rightarrow> bool" where
  "fits_type v expected \<longleftrightarrow>
     (if expected = ''integer'' then (case v of JNum t \<Rightarrow> is_integral t | _ \<Rightarrow> False)
      else expected \<in> set json_types \<and> matches_type expected v)"

function validate_avalue ::
  "go_env \<Rightarrow> (string \<times> aschema option) list \<Rightarrow> nat \<Rightarrow> aschema \<Rightarrow> json \<Rightarrow> string \<Rightarrow> string list" where
  "validate_avalue E C depth (ASchema ref ty required props items enum pattern additional) v path =
     (if 256 < depth then [path @ '' exceeds the maximum schema recursion depth'']
      else if ref \<noteq> [] then
        (if \<not> has_prefix ref schema_prefix then [path @ '' uses unsupported external schema reference '' @ ref]
         else case acomponent C (trim_prefix ref schema_prefix) of
             None \<Rightarrow> [path @ '' references missing schema '' @ trim_prefix ref schema_prefix]
           | Some t \<Rightarrow> validate_avalue E C (Suc depth) t v path)
      else
        (let expected = (case schema_types ty of Inl _ \<Rightarrow> [] | Inr ns \<Rightarrow> ns)
         in if expected \<noteq> [] \<and> \<not> list_ex (fits_type v) expected
            then [path @ '' expected '' @ join '' or '' expected @ '' but received '' @ go_type v]
            else
              (if enum \<noteq> [] \<and> \<not> enum_contains enum v then [path @ '' is not one of the permitted enum values''] else []) @
              (if pattern = [] then []
               else case gCompile E pattern of
                   None \<Rightarrow> [path @ '' contract contains an invalid regex'']
                 | Some re \<Rightarrow>
                     if (case v of JStr s \<Rightarrow> re s | _ \<Rightarrow> False) then [] else [path @ '' does not match its pattern'']) @
              (case v of
                 JObj kvs \<Rightarrow>
                   map (\<lambda>r. path @ ''.'' @ r @ '' is required'') (filter (\<lambda>r. map_of kvs r = None) required) @
                   concat (map (\<lambda>kv. case acomponent props (fst kv) of
                       Some s \<Rightarrow> validate_avalue E C (Suc depth) s (snd kv) (path @ ''.'' @ fst kv)
                     | None \<Rightarrow> if additional = JBool False then [path @ ''.'' @ fst kv @ '' is not allowed''] else []) kvs)
               | JArr xs \<Rightarrow>
                   (case items of None \<Rightarrow> []
                    | Some s \<Rightarrow> concat (map (\<lambda>p. validate_avalue E C (Suc depth) s (snd p)
                                   (path @ ''['' @ nat_digits (fst p) @ '']'')) (enumerate 0 xs)))
               | _ \<Rightarrow> [])))"
  by pat_completeness auto
termination
  by (relation "measure (\<lambda>(E, C, depth, s, v, path). 257 - depth)") auto

declare validate_avalue.simps [simp del]

definition validate_pointer ::
  "go_env \<Rightarrow> async_document \<Rightarrow> aschema option \<Rightarrow> json \<Rightarrow> string \<Rightarrow> string list" where
  "validate_pointer E d s v path = (case s of None \<Rightarrow> [] | Some t \<Rightarrow> validate_avalue E (asySchemas d) 0 t v path)"

section \<open>Validating messages\<close>

definition find_channel :: "async_document \<Rightarrow> string \<Rightarrow> (string \<times> channel) option" where
  "find_channel d topic =
     List.find (\<lambda>(n, c). (if chAddress c = [] then n else chAddress c) = topic)
       (stable_sort (\<lambda>a b. fst a < fst b) (asyChannels d))"

datatype detail = ResolveDetail resolve_error | PayloadDetail msg_error | JSONDetail string | HeaderDetail msg_error

text \<open>\<open>messages\<close>: the definitions of a channel in the order of their names, each under its own name if it has one,
  beside the findings for references that do not resolve.\<close>

definition named_message ::
  "async_document \<Rightarrow> string \<times> message_def option \<Rightarrow> (resolve_error, string \<times> message_def) result" where
  "named_message d nm =
     and_then (resolve_message d (snd nm)) (\<lambda>m. Inr (if mdName m \<noteq> [] then mdName m else fst nm, m))"

definition channel_messages :: "async_document \<Rightarrow> channel \<Rightarrow> (string \<times> message_def) list \<times> resolve_error list" where
  "channel_messages d c =
     (let rs = map (named_message d) (stable_sort (\<lambda>a b. fst a < fst b) (chMessages c))
      in (map projr (filter is_ok rs), map projl (filter (\<lambda>r. \<not> is_ok r) rs)))"

text \<open>\<open>selectMessage\<close>: the first candidate whose payload schema accepts the value; the empty name stands for none.\<close>

fun select_from ::
  "go_env \<Rightarrow> async_document \<Rightarrow> string \<Rightarrow> (string \<times> message_def) list \<Rightarrow> json \<Rightarrow> string list \<Rightarrow> string \<times> string list" where
  "select_from E d wanted [] v seen =
     ([], if seen = [] \<and> wanted \<noteq> [] then [''captured schema '' @ wanted @ '' is not declared on the channel''] else seen)"
| "select_from E d wanted ((n, m) # rest) v seen =
     (if wanted \<noteq> [] \<and> n \<noteq> wanted then select_from E d wanted rest v seen
      else if validate_pointer E d (mdPayload m) v ''$'' = [] then (n, [])
      else select_from E d wanted rest v (seen @ [n @ '': '' @ join '', '' (validate_pointer E d (mdPayload m) v ''$'')]))"

definition header_object :: "binary_header list \<Rightarrow> json" where
  "header_object hs = JObj (foldl (\<lambda>m (k, v). AList.update k (JStr v) m) [] hs)"

definition check_headers ::
  "go_env \<Rightarrow> (detail \<Rightarrow> string) \<Rightarrow> async_document \<Rightarrow> message \<Rightarrow> string \<Rightarrow> string \<Rightarrow> (string \<times> message_def) list \<Rightarrow> finding list" where
  "check_headers E T d r location selected ms =
     (case List.find (\<lambda>(n, m). n = selected \<and> mdHeaders m \<noteq> None) ms of
        None \<Rightarrow> []
      | Some (_, m) \<Rightarrow>
          (case header_values r of
             Inl e \<Rightarrow> [contract_finding ''ASYNCAPI_INVALID_HEADER_ENCODING'' ''Message headers cannot be decoded''
                        (T (HeaderDetail e)) location]
           | Inr hs \<Rightarrow>
               map (\<lambda>x. contract_finding ''ASYNCAPI_HEADER_SCHEMA_VIOLATION''
                      ''Message headers violate the AsyncAPI schema'' x location)
                 (validate_pointer E d (mdHeaders m) (header_object hs) ''$headers'')))"

definition check_selected ::
  "go_env \<Rightarrow> (detail \<Rightarrow> string) \<Rightarrow> async_document \<Rightarrow> message \<Rightarrow> string \<Rightarrow> string \<Rightarrow> (string \<times> message_def) list \<Rightarrow>
   json \<Rightarrow> finding list" where
  "check_selected E T d r location cname ms v =
     (case select_from E d (msSchema r) ms v [] of
        (selected, violations) \<Rightarrow>
          if selected = [] then
            [contract_finding ''ASYNCAPI_SCHEMA_VIOLATION'' ''Message violates every channel schema''
               (''topic '' @ msTopic r @ '' ('' @ cname @ ''): '' @ join ''; '' violations) location]
          else
            (if msSchema r \<noteq> [] \<and> msSchema r \<noteq> selected
             then [contract_finding ''ASYNCAPI_MESSAGE_NAME_DRIFT'' ''Captured message schema name differs''
                     (''captured '' @ msSchema r @ '' but contract selected '' @ selected) location]
             else []) @
            check_headers E T d r location selected ms)"

definition validate_record ::
  "go_env \<Rightarrow> (detail \<Rightarrow> string) \<Rightarrow> async_document \<Rightarrow> string \<Rightarrow> message \<Rightarrow> finding list" where
  "validate_record E T d location r =
     (case find_channel d (msTopic r) of
        None \<Rightarrow> [contract_finding ''ASYNCAPI_UNDOCUMENTED_CHANNEL'' ''Message channel is not documented''
                  (''Kafka topic '' @ msTopic r @ '' is absent from the AsyncAPI contract'') location]
      | Some (cname, c) \<Rightarrow>
          (case channel_messages d c of
             (ms, errs) \<Rightarrow>
               map (\<lambda>e. contract_finding ''ASYNCAPI_INVALID_MESSAGE_REF'' ''Message reference cannot be resolved''
                      (T (ResolveDetail e)) location) errs @
               (if ms = [] then []
                else case msg_payload E r of
                    Inl e \<Rightarrow> [contract_finding ''ASYNCAPI_INVALID_PAYLOAD_ENCODING'' ''Message payload cannot be decoded''
                               (T (PayloadDetail e)) location]
                  | Inr payload \<Rightarrow>
                      (case gUnmarshal E payload of
                         None \<Rightarrow> [contract_finding ''ASYNCAPI_INVALID_JSON'' ''Message payload is not valid JSON''
                                   (T (JSONDetail payload)) location]
                       | Some v \<Rightarrow> check_selected E T d r location cname ms v))))"

definition validate_records ::
  "go_env \<Rightarrow> (detail \<Rightarrow> string) \<Rightarrow> async_document \<Rightarrow> message list \<Rightarrow> finding list" where
  "validate_records E T d rs =
     concat (map (\<lambda>(i, r). validate_record E T d (''messages.log#message-'' @ nat_digits (Suc i)) r) (enumerate 0 rs))"

section \<open>Resolution\<close>

text \<open>A chain of references of the given length, without regard to cycles.\<close>

inductive leads_to :: "(string \<times> message_def option) list \<Rightarrow> nat \<Rightarrow> message_def \<Rightarrow> message_def \<Rightarrow> bool" for M where
  here: "mdRef m = [] \<Longrightarrow> leads_to M 0 m m"
| there: "mdRef m \<noteq> [] \<Longrightarrow> has_prefix (mdRef m) message_prefix \<Longrightarrow>
    acomponent M (trim_prefix (mdRef m) message_prefix) = Some t \<Longrightarrow> leads_to M k t r \<Longrightarrow> leads_to M (Suc k) m r"

inductive_simps leads_to_simps: "leads_to M k m r"

lemma leads_to_unique: "leads_to M k m r \<Longrightarrow> leads_to M j m r' \<Longrightarrow> j = k"
proof (induction arbitrary: j r' rule: leads_to.induct)
  case (here m)
  then show ?case by (subst (asm) leads_to_simps) auto
next
  case (there m t k r)
  from there.prems there.hyps(1,3) obtain i where "j = Suc i" "leads_to M i t r'"
    by (subst (asm) leads_to_simps) auto
  with there.IH show ?case by simp
qed

lemma resolve_leads:
  "resolve_reference M resolving md = Inr r \<Longrightarrow> \<exists>m k. md = Some m \<and> leads_to M k m r"
proof (induction M resolving md rule: resolve_reference.induct)
  case (1 M resolving md)
  then obtain m where m: "md = Some m" by (auto simp: resolve_reference.simps [of M resolving md] split: option.splits)
  note res = "1.prems" [unfolded m resolve_reference.simps [of M resolving "Some m"]]
  show ?case
  proof (cases "mdRef m = []")
    case True
    with res have "r = m" by simp
    with m True show ?thesis by (auto intro: here)
  next
    case False
    with res obtain t where t: "has_prefix (mdRef m) message_prefix"
      "trim_prefix (mdRef m) message_prefix \<notin> resolving" "acomponent M (trim_prefix (mdRef m) message_prefix) = Some t"
      "resolve_reference M (insert (trim_prefix (mdRef m) message_prefix) resolving) (Some t) = Inr r"
      by (auto split: if_splits option.splits)
    from "1.IH" [OF m False _ t(2,3,4)] t(1) obtain k where "leads_to M k t r" by auto
    with m False t show ?thesis by (auto intro: there)
  qed
qed

lemma leads_resolves:
  assumes "leads_to M k m r"
    and "\<And>n. n \<in> resolving \<Longrightarrow> \<exists>x j. acomponent M n = Some x \<and> leads_to M j x r \<and> k \<le> j"
  shows "resolve_reference M resolving (Some m) = Inr r"
  using assms
proof (induction arbitrary: resolving rule: leads_to.induct)
  case (here m)
  then show ?case by (simp add: resolve_reference.simps [of M resolving])
next
  case (there m t k r)
  let ?n = "trim_prefix (mdRef m) message_prefix"
  have "?n \<notin> resolving"
  proof
    assume "?n \<in> resolving"
    with there.prems there.hyps(3) obtain j where "leads_to M j t r" "Suc k \<le> j" by fastforce
    with leads_to_unique [OF there.hyps(4)] show False by fastforce
  qed
  moreover have "resolve_reference M (insert ?n resolving) (Some t) = Inr r"
  proof (rule there.IH)
    fix n assume "n \<in> insert ?n resolving"
    then show "\<exists>x j. acomponent M n = Some x \<and> leads_to M j x r \<and> k \<le> j"
      using there.hyps(3,4) there.prems [of n] by (auto dest: Suc_leD)
  qed
  ultimately show ?case using there.hyps by (simp add: resolve_reference.simps [of M resolving "Some m"])
qed

text \<open>Resolving a message reference always ends, and gives exactly the message at the end of the chain of references:
  the check for cycles refuses a definition only when following its references would never end.\<close>

theorem resolve_message_exact:
  "resolve_message d (Some m) = Inr r \<longleftrightarrow> (\<exists>k. leads_to (asyMessages d) k m r)"
  unfolding resolve_message_def using resolve_leads leads_resolves [of "asyMessages d" _ m r "{}"] by blast

section \<open>A loaded contract\<close>

lemma channel_messages_resolve:
  assumes "\<forall>nm\<in>set (chMessages c). is_ok (resolve_message d (snd nm))"
  shows "snd (channel_messages d c) = []"
proof -
  have "is_ok (named_message d nm)" if "nm \<in> set (chMessages c)" for nm
    using assms that by (auto simp: named_message_def is_ok_def and_then_def split: sum.splits)
  then show ?thesis by (auto simp: channel_messages_def Let_def filter_empty_conv)
qed

lemma loaded_messages_resolve:
  assumes "load_async E file parse = Inr d" and "(n, c) \<in> set (asyChannels d)" and "nm \<in> set (chMessages c)"
  shows "is_ok (resolve_message d (snd nm))"
proof -
  from assms(1) have "validate_contract E d = Inr ()"
    by (auto simp: load_async_def split: option.splits sum.splits)
  then have "check_all (\<lambda>(c, ch). check_all (\<lambda>(n, m). check_channel_message E d (''channels.'' @ c @ ''.messages.'' @ n, m))
      (chMessages ch)) (asyChannels d) = Inr ()"
    by (simp add: validate_contract_def)
  with assms(2) have "check_all (\<lambda>(m, md). check_channel_message E d (''channels.'' @ n @ ''.messages.'' @ m, md))
      (chMessages c) = Inr ()"
    unfolding check_all_ok [where xs = "asyChannels d"] by (drule_tac bspec) auto
  with assms(3) have "check_channel_message E d (''channels.'' @ n @ ''.messages.'' @ fst nm, snd nm) = Inr ()"
    unfolding check_all_ok by (drule_tac bspec) (auto simp: case_prod_beta)
  then show ?thesis by (auto simp: check_channel_message_def split: sum.splits)
qed

lemma contract_finding_rule [simp]: "fdRuleID (contract_finding rule title message location) = rule"
  by (simp add: contract_finding_def)

lemma check_headers_rules:
  "x \<in> set (check_headers E T d r location selected ms) \<Longrightarrow> fdRuleID x \<noteq> ''ASYNCAPI_INVALID_MESSAGE_REF''"
  by (cases "header_values r") (auto simp: check_headers_def split: option.splits)

lemma check_selected_rules:
  "x \<in> set (check_selected E T d r location cname ms v) \<Longrightarrow> fdRuleID x \<noteq> ''ASYNCAPI_INVALID_MESSAGE_REF''"
  using check_headers_rules by (auto simp: check_selected_def case_prod_beta split: if_splits)

text \<open>A document that \<open>Load\<close> accepts never fails to resolve a message while records are validated against it: the
  finding for an unresolved reference cannot occur.\<close>

theorem loaded_contract_resolves:
  assumes "load_async E file parse = Inr d"
  shows "filter (\<lambda>x. fdRuleID x = ''ASYNCAPI_INVALID_MESSAGE_REF'') (validate_records E T d rs) = []"
proof -
  have "fdRuleID x \<noteq> ''ASYNCAPI_INVALID_MESSAGE_REF''" if x: "x \<in> set (validate_record E T d location r)" for x location r
  proof (cases "find_channel d (msTopic r)")
    case None
    with x show ?thesis by (simp add: validate_record_def)
  next
    case (Some nc)
    then obtain n c where nc: "find_channel d (msTopic r) = Some (n, c)" by (cases nc) auto
    then have "(n, c) \<in> set (asyChannels d)" 
      unfolding find_channel_def by (auto dest: find_mem)
    with loaded_messages_resolve [OF assms] have "snd (channel_messages d c) = []"
      by (intro channel_messages_resolve) blast
    then obtain ms where ms: "channel_messages d c = (ms, [])" by (cases "channel_messages d c") auto
    show ?thesis
    proof (cases "msg_payload E r")
      case (Inl e)
      with x nc ms show ?thesis by (auto simp: validate_record_def split: if_splits)
    next
      case (Inr payload)
      with x nc ms check_selected_rules show ?thesis
        by (cases "gUnmarshal E payload") (auto simp: validate_record_def split: if_splits)
    qed
  qed
  then show ?thesis by (auto simp: validate_records_def filter_empty_conv)
qed

definition order_channel :: channel where
  "order_channel = \<lparr>chAddress = ''orders'', chMessages = [(''placed'', Some \<lparr>mdRef = ''#/components/messages/Placed'',
     mdName = [], mdTitle = [], mdContentType = [], mdHeaders = None, mdPayload = None\<rparr>)]\<rparr>"

definition placed :: message_def where
  "placed = \<lparr>mdRef = [], mdName = ''Placed'', mdTitle = [], mdContentType = ''application/json'', mdHeaders = None,
     mdPayload = Some (ASchema [] (JStr ''object'') [''id''] [] None [] [] JNull)\<rparr>"

definition order_contract :: async_document where
  "order_contract = \<lparr>asyVersion = ''3.0.0'', asyChannels = [(''orders'', order_channel)],
     asyMessages = [(''Placed'', Some placed)], asySchemas = []\<rparr>"

lemma loaded_contract_resolves_witness:
  "filter (\<lambda>x. fdRuleID x = ''ASYNCAPI_INVALID_MESSAGE_REF'')
     (validate_records example_env (\<lambda>_. []) order_contract [(example_message ''a'')\<lparr>msTopic := ''orders''\<rparr>]) = []"
proof (rule loaded_contract_resolves)
  show "load_async example_env (Some ''doc'') (\<lambda>_. Some order_contract) = Inr order_contract" by code_simp
qed

text \<open>The message a record is held to is the first, in the order of the names, that the record's schema name allows and
  whose payload schema accepts the value.\<close>

lemma select_from_first:
  "fst (select_from E d wanted ms v seen) =
     (case List.find (\<lambda>(n, m). (wanted = [] \<or> n = wanted) \<and> validate_pointer E d (mdPayload m) v ''$'' = []) ms of
        None \<Rightarrow> [] | Some (n, m) \<Rightarrow> n)"
  by (induction E d wanted ms v seen rule: select_from.induct) auto

end
