(* ===== verification/GoNum.thy ===== *)
theory GoNum
  imports Complex_Main Prelude
begin

text \<open>
  Numbers of Go that are not mathematical integers: the wrap-around of a 64-bit \<open>int\<close> (and of
  \<open>time.Duration\<close>), and \<open>float64\<close> with its infinities and its not-a-number value, whose
  comparisons are all false. A finite float is a real number; \<open>rnd\<close>, an argument of the models
  that divide or multiply, is the rounding to the nearest float.
\<close>

definition wrap64 :: "int \<Rightarrow> int" where
  "wrap64 i = (i + 2 ^ 63) mod 2 ^ 64 - 2 ^ 63"

definition max_int64 :: int where "max_int64 = 2 ^ 63 - 1"

lemma wrap64_id [simp]: "- (2 ^ 63) \<le> i \<Longrightarrow> i < 2 ^ 63 \<Longrightarrow> wrap64 i = i"
  by (simp add: wrap64_def)

lemma wrap64_range: "- (2 ^ 63) \<le> wrap64 i" "wrap64 i < 2 ^ 63"
proof -
  have "(i + 2 ^ 63) mod 2 ^ 64 < 2 ^ 64" "0 \<le> (i + 2 ^ 63) mod 2 ^ 64" by simp_all
  then show "- (2 ^ 63) \<le> wrap64 i" "wrap64 i < 2 ^ 63" by (simp_all add: wrap64_def)
qed

lemma wrap64_wrap [simp]: "wrap64 (wrap64 i) = wrap64 i"
  by (rule wrap64_id) (rule wrap64_range)+

datatype f64 = Fin real | NotANumber | PosInf | NegInf

fun f_less :: "f64 \<Rightarrow> f64 \<Rightarrow> bool" where
  "f_less (Fin x) (Fin y) = (x < y)"
| "f_less NegInf (Fin y) = True"
| "f_less NegInf PosInf = True"
| "f_less (Fin x) PosInf = True"
| "f_less _ _ = False"

fun f_eq :: "f64 \<Rightarrow> f64 \<Rightarrow> bool" where
  "f_eq (Fin x) (Fin y) = (x = y)"
| "f_eq PosInf PosInf = True"
| "f_eq NegInf NegInf = True"
| "f_eq _ _ = False"

definition f_le :: "f64 \<Rightarrow> f64 \<Rightarrow> bool" where
  "f_le x y \<longleftrightarrow> f_less x y \<or> f_eq x y"

text \<open>Division by a positive constant.\<close>

fun f_div :: "(real \<Rightarrow> real) \<Rightarrow> f64 \<Rightarrow> real \<Rightarrow> f64" where
  "f_div rnd (Fin x) c = Fin (rnd (x / c))"
| "f_div rnd y c = y"

text \<open>The range check \<open>x < lo || x > hi\<close> lets not-a-number through.\<close>

definition f_outside :: "real \<Rightarrow> real \<Rightarrow> f64 \<Rightarrow> bool" where
  "f_outside lo hi x \<longleftrightarrow> f_less x (Fin lo) \<or> f_less (Fin hi) x"

definition f_within :: "real \<Rightarrow> real \<Rightarrow> f64 \<Rightarrow> bool" where
  "f_within lo hi x \<longleftrightarrow> (case x of Fin r \<Rightarrow> lo \<le> r \<and> r \<le> hi | _ \<Rightarrow> False)"

lemma f_outside_iff: "lo \<le> hi \<Longrightarrow> \<not> f_outside lo hi x \<longleftrightarrow> f_within lo hi x \<or> x = NotANumber"
  by (cases x) (auto simp: f_outside_def f_within_def)

end
