(* ===== verification/KafkaReplay.thy ===== *)
theory KafkaReplay
  imports KafkaSim AsyncApi GoNum
begin

text \<open>
  \<open>pkg/kafkasim\<close> (\<open>kafka.go\<close>), the broker client and the replay against it: the options a client is opened with, and
  \<open>Replay\<close> as a function of a broker that may refuse the connection, a record or the time it takes. \<open>replay_messages\<close> of
  \<open>KafkaSim\<close> is what it promises. The broker, the certificate files and the arithmetic on floats are arguments.
\<close>

section \<open>Options of the client\<close>

record kafka_auth =
  kaTLS :: bool
  kaCA :: string
  kaCert :: string
  kaKey :: string
  kaMechanism :: string
  kaUser :: string
  kaPassword :: string

datatype sasl = Plain | ScramSha256 | ScramSha512

text \<open>The certificates of an authority that are added to those of the system, and the pair of the client.\<close>

record 'c tls_setup =
  tsCA :: "string option"
  tsPair :: "'c option"

datatype 'c client_option = SeedBrokers "string list" | ClientID string | DialTLS "'c tls_setup" | Sasl sasl string string

datatype client_error =
    EmptyBroker | MechanismRequired | CredentialsRequired | CAUnreadable | CAEmpty | PairIncomplete | PairUnreadable
  | UnknownMechanism string

text \<open>\<open>has_certs\<close> is \<open>AppendCertsFromPEM\<close>, \<open>load_pair\<close> is \<open>tls.LoadX509KeyPair\<close>.\<close>

definition tls_options ::
  "(string \<Rightarrow> string option) \<Rightarrow> (string \<Rightarrow> bool) \<Rightarrow> (string \<Rightarrow> string \<Rightarrow> 'c option) \<Rightarrow> kafka_auth \<Rightarrow>
   (client_error, 'c tls_setup) result" where
  "tls_options read has_certs load_pair a =
     and_then (if kaCA a = [] then Inr None
               else (case read (kaCA a) of
                       None \<Rightarrow> Inl CAUnreadable | Some pem \<Rightarrow> if has_certs pem then Inr (Some pem) else Inl CAEmpty)) (\<lambda>ca.
     and_then (fail_if ((kaCert a = []) \<noteq> (kaKey a = [])) PairIncomplete) (\<lambda>_.
     and_then (if kaCert a = [] then Inr None
               else (case load_pair (kaCert a) (kaKey a) of None \<Rightarrow> Inl PairUnreadable | Some c \<Rightarrow> Inr (Some c))) (\<lambda>pair.
     Inr \<lparr>tsCA = ca, tsPair = pair\<rparr>)))"

definition sasl_options :: "kafka_auth \<Rightarrow> (client_error, 'c client_option list) result" where
  "sasl_options a =
     (let m = to_lower (kaMechanism a)
      in if m = [] then Inr []
         else if m = ''plain'' then Inr [Sasl Plain (kaUser a) (kaPassword a)]
         else if m = ''scram-sha-256'' then Inr [Sasl ScramSha256 (kaUser a) (kaPassword a)]
         else if m = ''scram-sha-512'' then Inr [Sasl ScramSha512 (kaUser a) (kaPassword a)]
         else Inl (UnknownMechanism (kaMechanism a)))"

definition wants_tls :: "kafka_auth \<Rightarrow> bool" where
  "wants_tls a \<longleftrightarrow> kaTLS a \<or> kaCA a \<noteq> [] \<or> kaCert a \<noteq> [] \<or> kaKey a \<noteq> []"

definition client_options ::
  "(string \<Rightarrow> string option) \<Rightarrow> (string \<Rightarrow> bool) \<Rightarrow> (string \<Rightarrow> string \<Rightarrow> 'c option) \<Rightarrow> string list \<Rightarrow> kafka_auth \<Rightarrow>
   (client_error, 'c client_option list) result" where
  "client_options read has_certs load_pair brokers a =
     (let m = to_lower (kaMechanism a)
      in and_then (fail_if (list_ex (\<lambda>b. trim_space b = []) brokers) EmptyBroker) (\<lambda>_.
         and_then (fail_if (m = [] \<and> (kaUser a \<noteq> [] \<or> kaPassword a \<noteq> [])) MechanismRequired) (\<lambda>_.
         and_then (fail_if (m \<noteq> [] \<and> (kaUser a = [] \<or> kaPassword a = [])) CredentialsRequired) (\<lambda>_.
         and_then (if wants_tls a then and_then (tls_options read has_certs load_pair a) (\<lambda>t. Inr [DialTLS t]) else Inr []) (\<lambda>tls.
         and_then (sasl_options a) (\<lambda>sasl.
         Inr ([SeedBrokers brokers, ClientID ''infernosim''] @ tls @ sasl)))))))"

section \<open>Replay against a broker\<close>

record replay_options =
  kpBrokers :: "string list"
  kpInput :: string
  kpAsync :: string
  kpScale :: f64
  kpFaults :: faults
  kpAuth :: kafka_auth
  kpPrefix :: string

text \<open>What the broker and the deadline do: whether the client connects, whether a wait ends before the deadline, whether a
  record is acknowledged.\<close>

record ('c, 'w) broker =
  bkConnect :: "'c client_option list \<Rightarrow> 'w \<Rightarrow> bool \<times> 'w"
  bkWait :: "int \<Rightarrow> 'w \<Rightarrow> bool \<times> 'w"
  bkSend :: "produced \<Rightarrow> 'w \<Rightarrow> bool \<times> 'w"

datatype replay_failure =
    InputRequired | BadTimeScale | ReplayRefused kafka_error | AsyncLoadFailed async_load_error | ContractViolated nat
  | ClientRefused client_error | NotConnected | Expired | NotAcknowledged string int

record replay_outcome =
  roLoaded :: nat
  roProduced :: nat
  roDropped :: int
  roDuplicated :: int
  roPoisoned :: nat
  roFindings :: "finding list"
  roFingerprint :: string

text \<open>\<open>Time.Sub\<close> of two times in nanoseconds: a duration that does not fit is the largest one.\<close>

definition time_sub :: "int \<Rightarrow> int \<Rightarrow> int" where
  "time_sub t u = max (- (2 ^ 63)) (min max_int64 (t - u))"

text \<open>The text that is hashed for a record; a record without headers has none in the log.\<close>

definition fingerprint_part :: "planned \<Rightarrow> produced \<Rightarrow> string" where
  "fingerprint_part p r =
     ''{\"Topic\":'' @ quote (prTopic r) @ '',\"Partition\":'' @ itoa (prPartition r) @ '',\"KeyB64\":'' @ quote (msKeyB64 (plRecord p)) @
     '',\"Headers\":'' @ (if msHeaders (plRecord p) = [] then ''null''
       else ''['' @ join '','' (map (\<lambda>h. ''{\"key\":'' @ quote (mhKey h) @ '',\"value_b64\":'' @ quote (mhValueB64 h) @ ''}'')
              (msHeaders (plRecord p))) @ '']'') @
     '',\"PayloadSHA256\":'' @ quote (msPayloadSHA256 (plRecord p)) @ '',\"DuplicateIndex\":'' @ nat_digits (plDuplicate p) @
     '',\"Poisoned\":'' @ (if plPoisoned p then ''true'' else ''false'') @ ''}''"

text \<open>The loop over the plan: how many records were acknowledged, what is hashed of them, and why it stopped. \<open>prev\<close> is the
  time of the record before, zero at first; \<open>scaled\<close> is \<open>time.Duration(float64(gap) * timeScale)\<close>.\<close>

fun send_planned ::
  "go_env \<Rightarrow> ('c, 'w) broker \<Rightarrow> (f64 \<Rightarrow> int \<Rightarrow> int) \<Rightarrow> replay_options \<Rightarrow> int \<Rightarrow> planned list \<Rightarrow> 'w \<Rightarrow>
   (nat \<times> string list \<times> replay_failure option) \<times> 'w" where
  "send_planned E B scaled opts prev [] w = ((0, [], None), w)"
| "send_planned E B scaled opts prev (p # ps) w =
     (let t = msTimestamp (plRecord p); gap = time_sub t prev
      in case (if prev \<noteq> 0 \<and> f_less (Fin 0) (kpScale opts) \<and> 0 < gap then bkWait B (scaled (kpScale opts) gap) w else (True, w)) of (in_time, w1) \<Rightarrow>
           if \<not> in_time then ((0, [], Some Expired), w1)
           else (case (if 0 < faDelay (kpFaults opts) then bkWait B (faDelay (kpFaults opts)) w1 else (True, w1)) of (in_time, w2) \<Rightarrow>
             if \<not> in_time then ((0, [], Some Expired), w2)
             else (case produce_record E (kpPrefix opts) p of
                 Inl e \<Rightarrow> ((0, [], Some (ReplayRefused e)), w2)
               | Inr r \<Rightarrow> (case bkSend B r w2 of (acknowledged, w3) \<Rightarrow>
                   if \<not> acknowledged then ((0, [], Some (NotAcknowledged (prTopic r) (prPartition r))), w3)
                   else (case send_planned E B scaled opts t ps w3 of ((n, parts, err), w4) \<Rightarrow>
                     ((Suc n, fingerprint_part p r # parts, err), w4))))))"

definition no_outcome :: replay_outcome where
  "no_outcome = \<lparr>roLoaded = 0, roProduced = 0, roDropped = 0, roDuplicated = 0, roPoisoned = 0, roFindings = [], roFingerprint = []\<rparr>"

text \<open>Everything before the connection: the outcome so far, and the plan or why there is none.\<close>

definition replay_plan ::
  "go_env \<Rightarrow> (detail \<Rightarrow> string) \<Rightarrow> (string \<Rightarrow> string option) \<Rightarrow> (string \<Rightarrow> async_document option) \<Rightarrow> message option list \<Rightarrow>
   replay_options \<Rightarrow> replay_outcome \<times> (replay_failure, planned list) result" where
  "replay_plan E T read parse decoded opts =
     (if kpBrokers opts = [] \<or> kpInput opts = [] then (no_outcome, Inl InputRequired)
      else if (case kpScale opts of Fin x \<Rightarrow> x < 0 | _ \<Rightarrow> True) then (no_outcome, Inl BadTimeScale)
      else (case load_messages E decoded of
          Inl e \<Rightarrow> (no_outcome, Inl (ReplayRefused (LoadFailed e)))
        | Inr ms \<Rightarrow>
            (let out = no_outcome\<lparr>roLoaded := length ms\<rparr>
             in case (if kpAsync opts = [] then Inr [] else (case load_async E (read (kpAsync opts)) parse of
                        Inl e \<Rightarrow> Inl e | Inr d \<Rightarrow> Inr (validate_records E T d ms))) of
                  Inl e \<Rightarrow> (out, Inl (AsyncLoadFailed e))
                | Inr fs \<Rightarrow>
                    (let out = out\<lparr>roFindings := fs\<rparr>
                     in if fs \<noteq> [] then (out, Inl (ContractViolated (length fs)))
                        else (case plan E ms (kpFaults opts) of
                            Inl e \<Rightarrow> (out, Inl (ReplayRefused e))
                          | Inr ps \<Rightarrow> (case check_all (\<lambda>p. let t = kpPrefix opts @ msTopic (plRecord p)
                                                         in fail_if (\<not> validate_topic t) (InvalidTopic t)) ps of
                              Inl e \<Rightarrow> (out, Inl (ReplayRefused e))
                            | Inr _ \<Rightarrow>
                                (out\<lparr>roDropped := int (length ms) - int (unique_planned ps),
                                     roDuplicated := int (length ps) - int (unique_planned ps),
                                     roPoisoned := length (filter plPoisoned ps)\<rparr>, Inr ps)))))))"

definition kafka_replay ::
  "go_env \<Rightarrow> (detail \<Rightarrow> string) \<Rightarrow> (string \<Rightarrow> string option) \<Rightarrow> (string \<Rightarrow> bool) \<Rightarrow> (string \<Rightarrow> string \<Rightarrow> 'c option) \<Rightarrow>
   (string \<Rightarrow> async_document option) \<Rightarrow> (f64 \<Rightarrow> int \<Rightarrow> int) \<Rightarrow> ('c, 'w) broker \<Rightarrow> message option list \<Rightarrow> replay_options \<Rightarrow> 'w \<Rightarrow>
   (replay_outcome \<times> replay_failure option) \<times> 'w" where
  "kafka_replay E T read has_certs load_pair parse scaled B decoded opts w =
     (case replay_plan E T read parse decoded opts of (out, planned) \<Rightarrow>
        case planned of
          Inl e \<Rightarrow> ((out, Some e), w)
        | Inr ps \<Rightarrow> (case client_options read has_certs load_pair (kpBrokers opts) (kpAuth opts) of
            Inl e \<Rightarrow> ((out, Some (ClientRefused e)), w)
          | Inr copts \<Rightarrow> (case bkConnect B copts w of (reached, w1) \<Rightarrow>
              if \<not> reached then ((out, Some NotConnected), w1)
              else (case send_planned E B scaled opts 0 ps w1 of ((n, parts, err), w2) \<Rightarrow>
                ((out\<lparr>roProduced := n, roFingerprint := (if err = None then sha256_hex E (join [chr 10] parts) else [])\<rparr>, err), w2)))))"


section \<open>Capture from a broker\<close>

text \<open>What \<open>PollFetches\<close> gives: the deadline or a signal, an error, or messages, each with the identifier that is drawn for it.\<close>

datatype poll = Deadline | FetchFailed | Fetched "(string \<times> fetched) list"

datatype capture_failure =
    CaptureRefused kafka_error | CaptureClientRefused client_error | CaptureNotConnected | CaptureLogRefused msg_error
  | TooFew nat | FetchRefused

datatype capture_end = Completed | Stopped capture_failure

record capture_state =
  csCaptured :: nat
  csTopics :: "string \<Rightarrow> nat"
  csLog :: msg_logger

fun capture_batch ::
  "go_env \<Rightarrow> capture_options \<Rightarrow> string \<Rightarrow> capture_state \<Rightarrow> (string \<times> fetched) list \<Rightarrow> capture_state \<times> capture_end option" where
  "capture_batch E opts dir s [] = (s, None)"
| "capture_batch E opts dir s ((ident, f) # fs) =
     (case capture_one E opts dir ident (csLog s) f of
        Inl e \<Rightarrow> (s, Some (Stopped (CaptureRefused e)))
      | Inr l \<Rightarrow>
          (let s = \<lparr>csCaptured = Suc (csCaptured s), csTopics = bump (ftTopic f) (csTopics s), csLog = l\<rparr>
           in if 0 < coMaxMessages opts \<and> coMaxMessages opts \<le> int (csCaptured s) then (s, Some Completed)
              else capture_batch E opts dir s fs))"

text \<open>The loop of \<open>Capture\<close> over the polls so far; None while it waits for the next one.\<close>

fun capture_polls ::
  "go_env \<Rightarrow> capture_options \<Rightarrow> string \<Rightarrow> capture_state \<Rightarrow> poll list \<Rightarrow> capture_state \<times> capture_end option" where
  "capture_polls E opts dir s [] = (s, None)"
| "capture_polls E opts dir s (Deadline # ps) =
     (s, Some (if 0 < coMaxMessages opts \<and> int (csCaptured s) < coMaxMessages opts then Stopped (TooFew (csCaptured s)) else Completed))"
| "capture_polls E opts dir s (FetchFailed # ps) = (s, Some (Stopped FetchRefused))"
| "capture_polls E opts dir s (Fetched fs # ps) =
     (case capture_batch E opts dir s fs of (s, None) \<Rightarrow> capture_polls E opts dir s ps | r \<Rightarrow> r)"

text \<open>\<open>Capture\<close>; \<open>decoded\<close> is the log that is there already.\<close>

definition kafka_capture ::
  "go_env \<Rightarrow> (string \<Rightarrow> string option) \<Rightarrow> (string \<Rightarrow> bool) \<Rightarrow> (string \<Rightarrow> string \<Rightarrow> 'c option) \<Rightarrow> ('c client_option list \<Rightarrow> bool) \<Rightarrow>
   capture_options \<Rightarrow> kafka_auth \<Rightarrow> message option list \<Rightarrow> poll list \<Rightarrow> (capture_failure, capture_state \<times> capture_end option) result" where
  "kafka_capture E read has_certs load_pair connects opts auth decoded polls =
     (case capture_checks opts of
        Inl e \<Rightarrow> Inl (CaptureRefused e)
      | Inr dir \<Rightarrow> (case client_options read has_certs load_pair (coBrokers opts) auth of
          Inl e \<Rightarrow> Inl (CaptureClientRefused e)
        | Inr copts \<Rightarrow>
            if \<not> connects copts then Inl CaptureNotConnected
            else (case new_msg_logger E decoded of
                Inl e \<Rightarrow> Inl (CaptureLogRefused e)
              | Inr l \<Rightarrow> Inr (capture_polls E opts dir \<lparr>csCaptured = 0, csTopics = (\<lambda>_. 0), csLog = l\<rparr> polls))))"

section \<open>What the broker receives\<close>

text \<open>A broker that keeps what it is sent, acknowledged or not.\<close>

definition recording :: "('c, 'w) broker \<Rightarrow> ('c, 'w \<times> produced list) broker" where
  "recording B =
     \<lparr>bkConnect = (\<lambda>copts (w, sent). case bkConnect B copts w of (ok, w1) \<Rightarrow> (ok, (w1, sent))),
      bkWait = (\<lambda>d (w, sent). case bkWait B d w of (ok, w1) \<Rightarrow> (ok, (w1, sent))),
      bkSend = (\<lambda>r (w, sent). case bkSend B r w of (ok, w1) \<Rightarrow> (ok, (w1, sent @ [r])))\<rparr>"

lemma produce_valid:
  assumes "validate_message E m = Inr ()"
  shows "is_ok (produce_record E pre \<lparr>plRecord = m, plOriginal = i, plDuplicate = d, plPoisoned = b\<rparr>)"
  using assms by (auto simp: produce_record_def validate_message_def header_map_def is_ok_def split: sum.splits)

lemma produce_poisoned:
  assumes "validate_message E m = Inr ()"
  shows "is_ok (produce_record E pre \<lparr>plRecord = poison E m, plOriginal = i, plDuplicate = d, plPoisoned = b\<rparr>)"
proof -
  have "msg_payload E (poison E m) = Inr ''{''" by (simp add: msg_payload_def poison_def decode_b64_def del: b64_encode.simps)
  moreover have "msg_key (poison E m) = msg_key m" "header_values (poison E m) = header_values m"
    by (simp_all add: msg_key_def header_values_def poison_def)
  ultimately show ?thesis using assms
    by (auto simp: produce_record_def validate_message_def header_map_def is_ok_def split: sum.splits)
qed

lemma planned_producible:
  assumes "load_messages E decoded = Inr ms" and "plan E ms f = Inr ps" and "p \<in> set ps"
  shows "is_ok (produce_record E pre p)"
proof -
  have valid: "validate_message E m = Inr ()" if "m \<in> set ms" for m
    using load_messages_sound [OF assms(1)] that by blast
  from assms(2) have "ps = plan_from E f (index_by_id ms) 1 (reorder (faReorderWindow f) ms)"
    by (auto simp: plan_def split: if_splits)
  with assms(3) plan_from_entries obtain m where
    m: "m \<in> set (reorder (faReorderWindow f) ms)" "plRecord p = (if plPoisoned p then poison E m else m)" by blast
  then have v: "validate_message E m = Inr ()" using valid unfolding reorder_set by blast
  obtain r i d b where p: "p = \<lparr>plRecord = r, plOriginal = i, plDuplicate = d, plPoisoned = b\<rparr>" by (cases p)
  with m(2) produce_valid [OF v] produce_poisoned [OF v] show ?thesis by (cases b) auto
qed

lemma recorded_wait:
  obtains in_time w1 where "(if c then bkWait (recording B) d (w, sent) else (True, (w, sent))) = (in_time, (w1, sent))"
  by (cases c; cases "bkWait B d w") (auto simp: recording_def)

lemma recorded_send:
  obtains ok w1 where "bkSend (recording B) r (w, sent) = (ok, (w1, sent @ [r]))"
  by (cases "bkSend B r w") (auto simp: recording_def)

lemma send_planned_sent:
  assumes "map_err (produce_record E (kpPrefix opts)) ps = Inr out"
    and "send_planned E (recording B) scaled opts prev ps (w, sent) = ((n, parts, err), (w', sent'))"
  shows "\<exists>k. sent' = sent @ take k out \<and> n \<le> k \<and> k \<le> min (Suc n) (length out) \<and> (err = None \<longrightarrow> n = length out)"
  using assms
proof (induction ps arbitrary: out prev w sent n parts err)
  case (Cons p ps)
  obtain r rest where r: "produce_record E (kpPrefix opts) p = Inr r" and rest: "map_err (produce_record E (kpPrefix opts)) ps = Inr rest"
    and out: "out = r # rest" using Cons.prems(1) by auto
  let ?t = "msTimestamp (plRecord p)"
  obtain ok1 w1 where w1: "(if prev \<noteq> 0 \<and> f_less (Fin 0) (kpScale opts) \<and> 0 < time_sub ?t prev
      then bkWait (recording B) (scaled (kpScale opts) (time_sub ?t prev)) (w, sent) else (True, (w, sent))) = (ok1, (w1, sent))"
    by (rule recorded_wait)
  obtain ok2 w2 where w2: "(if 0 < faDelay (kpFaults opts) then bkWait (recording B) (faDelay (kpFaults opts)) (w1, sent)
      else (True, (w1, sent))) = (ok2, (w2, sent))" by (rule recorded_wait)
  obtain ok3 w3 where w3: "bkSend (recording B) r (w2, sent) = (ok3, (w3, sent @ [r]))" by (rule recorded_send)
  note run = Cons.prems(2) [unfolded send_planned.simps Let_def w1]
  show ?case
  proof (cases "ok1 \<and> ok2 \<and> ok3")
    case False
    then consider "\<not> ok1" | "ok1" "\<not> ok2" | "ok1" "ok2" "\<not> ok3" by blast
    then show ?thesis
    proof cases
      case 1
      with run show ?thesis by (intro exI [of _ 0]) auto
    next
      case 2
      with run w2 show ?thesis by (intro exI [of _ 0]) auto
    next
      case 3
      with run w2 w3 r out show ?thesis by (intro exI [of _ 1]) auto
    qed
  next
    case True
    obtain n1 parts1 where onward: "send_planned E (recording B) scaled opts ?t ps (w3, sent @ [r]) = ((n1, parts1, err), (w', sent'))"
      and n: "n = Suc n1" using run w2 w3 r True by (auto split: prod.split_asm)
    from Cons.IH [OF rest onward] obtain k where "sent' = (sent @ [r]) @ take k rest" "n1 \<le> k" "k \<le> min (Suc n1) (length rest)"
      "err = None \<longrightarrow> n1 = length rest" by blast
    with n out show ?thesis by (intro exI [of _ "Suc k"]) auto
  qed
qed auto

definition contract_met ::
  "go_env \<Rightarrow> (detail \<Rightarrow> string) \<Rightarrow> (string \<Rightarrow> string option) \<Rightarrow> (string \<Rightarrow> async_document option) \<Rightarrow> message option list \<Rightarrow>
   replay_options \<Rightarrow> bool" where
  "contract_met E T read parse decoded opts \<longleftrightarrow>
     kpAsync opts = [] \<or>
     (case load_async E (read (kpAsync opts)) parse of
        Inl e \<Rightarrow> False
      | Inr d \<Rightarrow> (case load_messages E decoded of Inl e \<Rightarrow> False | Inr ms \<Rightarrow> validate_records E T d ms = []))"

text \<open>The counts of an outcome are those of the replay it stands for.\<close>

definition same_counts :: "replay_outcome \<Rightarrow> replay_result \<Rightarrow> bool" where
  "same_counts out r \<longleftrightarrow> roLoaded out = rrLoaded r \<and> roDropped out = rrDropped r \<and> roDuplicated out = rrDuplicated r \<and>
     roPoisoned out = rrPoisoned r \<and> roFindings out = []"

lemma replay_plan_ok:
  assumes "replay_plan E T read parse decoded opts = (out, Inr ps)"
  shows "contract_met E T read parse decoded opts \<and> roProduced out = 0 \<and>
    (\<exists>r. replay_messages E decoded (kpPrefix opts) (kpFaults opts) = Inr r \<and> same_counts out r \<and>
       map_err (produce_record E (kpPrefix opts)) ps = Inr (rrProduced r))"
proof -
  obtain ms where ms: "load_messages E decoded = Inr ms" and pl: "plan E ms (kpFaults opts) = Inr ps"
    and topics: "check_all (\<lambda>p. fail_if (\<not> validate_topic (kpPrefix opts @ msTopic (plRecord p)))
      (InvalidTopic (kpPrefix opts @ msTopic (plRecord p)))) ps = Inr ()"
    and met: "contract_met E T read parse decoded opts"
    and out: "out = no_outcome\<lparr>roLoaded := length ms, roDropped := int (length ms) - int (unique_planned ps),
      roDuplicated := int (length ps) - int (unique_planned ps), roPoisoned := length (filter plPoisoned ps)\<rparr>"
    using assms unfolding replay_plan_def Let_def contract_met_def
    by (auto simp: no_outcome_def split: if_split_asm sum.split_asm f64.split_asm)
  have "\<forall>p\<in>set ps. is_ok (produce_record E (kpPrefix opts) p)" using planned_producible [OF ms pl] by blast
  then have "\<exists>rs. map_err (produce_record E (kpPrefix opts)) ps = Inr rs"
    by (induction ps) (auto simp: is_ok_def split: sum.split_asm)
  then obtain rs where rs: "map_err (produce_record E (kpPrefix opts)) ps = Inr rs" by blast
  with ms pl topics met out show ?thesis
    by (simp add: replay_messages_def Let_def no_outcome_def same_counts_def)
qed

lemma replay_plan_nothing: "replay_plan E T read parse decoded opts = (out, planned) \<Longrightarrow> roProduced out = 0"
  unfolding replay_plan_def Let_def
  by (auto simp: no_outcome_def split: if_split_asm sum.split_asm f64.split_asm)

lemma kafka_replay_sent:
  assumes "kafka_replay E T read has_certs load_pair parse scaled (recording B) decoded opts (w, []) = ((out, err), (w', sent))"
  shows "if sent = [] \<and> err \<noteq> None then roProduced out = 0
     else contract_met E T read parse decoded opts \<and>
       (case replay_messages E decoded (kpPrefix opts) (kpFaults opts) of
          Inl e \<Rightarrow> False
        | Inr r \<Rightarrow> sent = take (length sent) (rrProduced r) \<and> same_counts out r \<and>
            length sent \<in> {roProduced out, Suc (roProduced out)} \<and> (err = None \<longrightarrow> roProduced out = length (rrProduced r)))"
proof -
  obtain out0 planned where pl: "replay_plan E T read parse decoded opts = (out0, planned)" by fastforce
  have zero: "roProduced out0 = 0" by (rule replay_plan_nothing [OF pl])
  show ?thesis
  proof (cases planned)
    case (Inl e)
    with assms pl zero show ?thesis by (auto simp: kafka_replay_def)
  next
    case (Inr ps)
    show ?thesis
    proof (cases "client_options read has_certs load_pair (kpBrokers opts) (kpAuth opts)")
      case (Inl e)
      with assms pl zero Inr show ?thesis by (auto simp: kafka_replay_def)
    next
      case copts: (Inr copts)
      obtain ok w1 where con: "bkConnect (recording B) copts (w, []) = (ok, (w1, []))"
        by (cases "bkConnect B copts w") (auto simp: recording_def)
      from replay_plan_ok [OF pl [unfolded Inr]] obtain r where met: "contract_met E T read parse decoded opts"
        and r: "replay_messages E decoded (kpPrefix opts) (kpFaults opts) = Inr r" "same_counts out0 r"
        and rs: "map_err (produce_record E (kpPrefix opts)) ps = Inr (rrProduced r)" by blast
      show ?thesis
      proof (cases ok)
        case False
        with assms pl zero Inr copts con show ?thesis by (auto simp: kafka_replay_def)
      next
        case True
        then obtain n parts where send: "send_planned E (recording B) scaled opts 0 ps (w1, []) = ((n, parts, err), (w', sent))"
          and out: "roProduced out = n" "same_counts out r"
          using assms pl Inr copts con r(2) by (auto simp: kafka_replay_def same_counts_def split: prod.split_asm)
        from send_planned_sent [OF rs send] obtain k where "sent = take k (rrProduced r)" "n \<le> k"
          "k \<le> min (Suc n) (length (rrProduced r))" "err = None \<longrightarrow> n = length (rrProduced r)" by auto
        with met r out show ?thesis by auto
      qed
    qed
  qed
qed


definition plain_options :: replay_options where
  "plain_options = \<lparr>kpBrokers = [''b:9092''], kpInput = ''messages.log'', kpAsync = [], kpScale = Fin 0, kpFaults = no_faults,
     kpAuth = \<lparr>kaTLS = False, kaCA = [], kaCert = [], kaKey = [], kaMechanism = [], kaUser = [], kaPassword = []\<rparr>, kpPrefix = ''x.''\<rparr>"

text \<open>A broker that acknowledges a number of records and then no more.\<close>

definition failing_broker :: "(unit, nat) broker" where
  "failing_broker = \<lparr>bkConnect = (\<lambda>_ n. (True, n)), bkWait = (\<lambda>_ n. (True, n)), bkSend = (\<lambda>_ n. (0 < n, n - 1))\<rparr>"

definition two_records :: "message option list" where
  "two_records = [Some (example_message ''a''), Some (example_message ''b'')]"


text \<open>A broker that is reached, acknowledges every record and is in time gets all of them.\<close>

lemma send_planned_all:
  assumes "\<And>d w. fst (bkWait B d w)" and "\<And>r w. fst (bkSend B r w)" and "list_all (\<lambda>p. is_ok (produce_record E (kpPrefix opts) p)) ps"
  shows "fst (snd (fst (send_planned E B scaled opts prev ps w))) = map (\<lambda>p. fingerprint_part p (case produce_record E (kpPrefix opts) p of Inr r \<Rightarrow> r)) ps \<and>
    snd (snd (fst (send_planned E B scaled opts prev ps w))) = None"
  using assms(3)
proof (induction ps arbitrary: prev w)
  case (Cons p ps)
  then obtain r where r: "produce_record E (kpPrefix opts) p = Inr r" by (auto simp: is_ok_def split: sum.split_asm)
  with Cons show ?case by (simp add: Let_def case_prod_beta assms(1,2))
qed simp

section \<open>What a client is opened with\<close>

definition is_sasl :: "'c client_option \<Rightarrow> bool" where
  "is_sasl x \<longleftrightarrow> (case x of Sasl m u p \<Rightarrow> True | _ \<Rightarrow> False)"

definition is_tls :: "'c client_option \<Rightarrow> bool" where
  "is_tls x \<longleftrightarrow> (case x of DialTLS t \<Rightarrow> True | _ \<Rightarrow> False)"

text \<open>A client authenticates when a mechanism is named, with a user and a password that are not empty; it uses TLS when the flag
  or one of the three files asks for it; without a mechanism no credentials were given.\<close>

theorem client_opened_as_asked:
  "case client_options read has_certs load_pair brokers a of
     Inl e \<Rightarrow> True
   | Inr copts \<Rightarrow>
       list_ex is_tls copts = wants_tls a \<and>
       (if kaMechanism a = [] then \<not> list_ex is_sasl copts \<and> kaUser a = [] \<and> kaPassword a = []
        else (\<exists>m. filter is_sasl copts = [Sasl m (kaUser a) (kaPassword a)]) \<and> kaUser a \<noteq> [] \<and> kaPassword a \<noteq> [])"
proof (cases "client_options read has_certs load_pair brokers a")
  case (Inr copts)
  have low: "to_lower (kaMechanism a) = [] \<longleftrightarrow> kaMechanism a = []" by (simp add: to_lower_def)
  obtain tls sasl where tls: "(if wants_tls a then and_then (tls_options read has_certs load_pair a) (\<lambda>t. Inr [DialTLS t]) else Inr []) = Inr tls"
    and sasl: "sasl_options a = Inr sasl" and copts: "copts = [SeedBrokers brokers, ClientID ''infernosim''] @ tls @ sasl"
    and given: "\<not> (kaMechanism a = [] \<and> (kaUser a \<noteq> [] \<or> kaPassword a \<noteq> []))"
      "\<not> (kaMechanism a \<noteq> [] \<and> (kaUser a = [] \<or> kaPassword a = []))"
    using Inr low unfolding client_options_def Let_def by auto
  have "list_ex is_tls tls = wants_tls a" "list_ex is_sasl tls = False" "filter is_sasl tls = []"
    using tls by (auto simp: is_tls_def is_sasl_def split: if_split_asm)
  moreover have "list_ex is_tls sasl = False"
    using sasl by (auto simp: sasl_options_def Let_def is_tls_def split: if_split_asm)
  moreover have "if kaMechanism a = [] then sasl = [] else (\<exists>m. filter is_sasl sasl = [Sasl m (kaUser a) (kaPassword a)])"
    using sasl low by (auto simp: sasl_options_def Let_def is_sasl_def split: if_split_asm)
  ultimately show ?thesis using Inr copts given by (auto simp: is_tls_def is_sasl_def split: if_split_asm)
qed simp

text \<open>The two are independent: with the plain mechanism and without TLS the password crosses the network as it is.\<close>

lemma password_in_the_clear:
  assumes "user \<noteq> []" and "pass \<noteq> []" and "list_all (\<lambda>b. trim_space b \<noteq> []) brokers"
  shows "client_options read has_certs load_pair brokers
      \<lparr>kaTLS = False, kaCA = [], kaCert = [], kaKey = [], kaMechanism = ''PLAIN'', kaUser = user, kaPassword = pass\<rparr> =
    Inr [SeedBrokers brokers, ClientID ''infernosim'', Sasl Plain user pass]"
proof -
  have "to_lower ''PLAIN'' = ''plain''" by code_simp
  moreover have "\<not> list_ex (\<lambda>b. trim_space b = []) brokers" using assms(3) by (simp add: list_ex_iff list_all_iff)
  ultimately show ?thesis using assms(1,2) by (simp add: client_options_def sasl_options_def wants_tls_def Let_def)
qed


section \<open>What a capture has stored\<close>

definition stored_as :: "go_env \<Rightarrow> capture_options \<Rightarrow> fetched \<Rightarrow> message \<Rightarrow> bool" where
  "stored_as E opts f m \<longleftrightarrow>
     (case apply_message E (coPrivacy opts) (ftKey f) (ftHeaders f) (ftValue f) of
        None \<Rightarrow> False
      | Some (key, hs, payload) \<Rightarrow>
          msg_key m = Inr key \<and> msg_payload E m = Inr payload \<and> header_values m = Inr hs \<and> msRedacted m = (coPrivacy opts \<noteq> None))"

definition captured_well :: "go_env \<Rightarrow> capture_options \<Rightarrow> message list \<Rightarrow> fetched list \<Rightarrow> capture_state \<Rightarrow> bool" where
  "captured_well E opts old fs s \<longleftrightarrow>
     (let taken = take (csCaptured s) fs
      in length taken = csCaptured s \<and> take (length old) (mlRecords (csLog s)) = old \<and>
         list_all2 (stored_as E opts) taken (drop (length old) (mlRecords (csLog s))) \<and>
         csTopics s = (\<lambda>t. length (filter (\<lambda>f. ftTopic f = t) taken)))"

lemma capture_one_stored_as:
  assumes "capture_one E opts dir ident l f = Inr l'"
  obtains m where "mlRecords l' = mlRecords l @ [m]" "stored_as E opts f m"
  using capture_one_stores [OF assms] that by (auto simp: stored_as_def)

lemma captured_one_more:
  assumes "captured_well E opts old (fs @ f # rest) s" and "csCaptured s = length fs" and "capture_one E opts dir ident (csLog s) f = Inr l"
  shows "captured_well E opts old (fs @ f # rest)
    \<lparr>csCaptured = Suc (csCaptured s), csTopics = bump (ftTopic f) (csTopics s), csLog = l\<rparr>"
proof -
  obtain m where m: "mlRecords l = mlRecords (csLog s) @ [m]" "stored_as E opts f m" by (rule capture_one_stored_as [OF assms(3)])
  have old: "take (length old) (mlRecords (csLog s)) = old" using assms(1) by (simp add: captured_well_def Let_def)
  then have "length old \<le> length (mlRecords (csLog s))" by (metis length_take min.absorb_iff2 min.commute)
  with m old assms(1,2) show ?thesis
    by (auto simp: captured_well_def Let_def bump_def intro!: ext list_all2_appendI)
qed


lemma capture_batch_well:
  assumes "captured_well E opts old (fs @ map snd xs @ rest) s" and "csCaptured s = length fs"
    and "capture_batch E opts dir s xs = (s', e)"
  shows "captured_well E opts old (fs @ map snd xs @ rest) s' \<and> (e = None \<longrightarrow> csCaptured s' = length fs + length xs)"
  using assms
proof (induction xs arbitrary: s fs)
  case (Cons x xs)
  obtain ident f where x: "x = (ident, f)" by fastforce
  show ?case
  proof (cases "capture_one E opts dir ident (csLog s) f")
    case (Inl err)
    with Cons.prems x show ?thesis by auto
  next
    case (Inr l)
    let ?s = "\<lparr>csCaptured = Suc (csCaptured s), csTopics = bump (ftTopic f) (csTopics s), csLog = l\<rparr>"
    have well: "captured_well E opts old ((fs @ [f]) @ map snd xs @ rest) ?s"
      using captured_one_more [of E opts old fs f "map snd xs @ rest" s dir ident l] Cons.prems x Inr by simp
    show ?thesis
    proof (cases "0 < coMaxMessages opts \<and> coMaxMessages opts \<le> int (Suc (csCaptured s))")
      case True
      with Cons.prems(3) x Inr have "s' = ?s" "e = Some Completed" by (auto simp: Let_def)
      with well x show ?thesis by simp
    next
      case False
      with Cons.prems(3) x Inr have "capture_batch E opts dir ?s xs = (s', e)" by (auto simp: Let_def)
      from Cons.IH [OF well _ this] Cons.prems(2) x show ?thesis by simp
    qed
  qed
qed simp

lemma capture_batch_max:
  assumes "0 < coMaxMessages opts" and "int (csCaptured s) < coMaxMessages opts" and "capture_batch E opts dir s xs = (s', e)"
  shows "int (csCaptured s') \<le> coMaxMessages opts \<and> (e = Some Completed \<longleftrightarrow> int (csCaptured s') = coMaxMessages opts)"
  using assms(2,3)
proof (induction xs arbitrary: s)
  case (Cons x xs)
  obtain ident f where x: "x = (ident, f)" by fastforce
  show ?case
  proof (cases "capture_one E opts dir ident (csLog s) f")
    case (Inr l)
    show ?thesis
    proof (cases "coMaxMessages opts \<le> int (Suc (csCaptured s))")
      case True
      with Cons.prems x Inr assms(1) show ?thesis by (auto simp: Let_def)
    next
      case False
      then show ?thesis using Cons.IH [of "\<lparr>csCaptured = Suc (csCaptured s), csTopics = bump (ftTopic f) (csTopics s), csLog = l\<rparr>"]
          Cons.prems x Inr by (simp add: Let_def)
    qed
  qed (use Cons.prems x in auto)
qed auto

fun fetched_of :: "poll list \<Rightarrow> fetched list" where
  "fetched_of [] = []"
| "fetched_of (Fetched fs # ps) = map snd fs @ fetched_of ps"
| "fetched_of (_ # ps) = fetched_of ps"

lemma capture_polls_well:
  assumes "captured_well E opts old (fs @ fetched_of ps) s" and "csCaptured s = length fs" and "capture_polls E opts dir s ps = (s', e)"
  shows "captured_well E opts old (fs @ fetched_of ps) s'"
  using assms
proof (induction ps arbitrary: s fs)
  case (Cons p ps)
  show ?case
  proof (cases p)
    case (Fetched xs)
    obtain s1 e1 where b: "capture_batch E opts dir s xs = (s1, e1)" by fastforce
    from capture_batch_well [OF _ Cons.prems(2) b, of old "fetched_of ps"] Cons.prems(1) Fetched
    have w: "captured_well E opts old (fs @ map snd xs @ fetched_of ps) s1" "e1 = None \<longrightarrow> csCaptured s1 = length fs + length xs" by simp_all
    show ?thesis
    proof (cases e1)
      case None
      with Cons.prems(3) Fetched b have "capture_polls E opts dir s1 ps = (s', e)" by simp
      from Cons.IH [OF _ _ this, of "fs @ map snd xs"] w None Fetched show ?thesis by simp
    next
      case (Some x)
      with Cons.prems(3) Fetched b w show ?thesis by simp
    qed
  qed (use Cons.prems in auto)
qed simp

lemma capture_polls_max:
  assumes "0 < coMaxMessages opts" and "int (csCaptured s) < coMaxMessages opts" and "capture_polls E opts dir s ps = (s', e)"
  shows "int (csCaptured s') \<le> coMaxMessages opts \<and> (e = Some Completed \<longleftrightarrow> int (csCaptured s') = coMaxMessages opts)"
  using assms(2,3)
proof (induction ps arbitrary: s)
  case (Cons p ps)
  show ?case
  proof (cases p)
    case (Fetched xs)
    obtain s1 e1 where b: "capture_batch E opts dir s xs = (s1, e1)" by fastforce
    from capture_batch_max [OF assms(1) Cons.prems(1) b] Cons.IH [of s1] Cons.prems(2) Fetched b show ?thesis
      by (cases e1) auto
  qed (use Cons.prems assms(1) in auto)
qed auto


end
