(* ===== verification/ReplayDriver.thy ===== *)
theory ReplayDriver
  imports GoEnv GoNum
begin

text \<open>
  \<open>pkg/replaydriver\<close>: loading an incident (\<open>LoadInboundEvents\<close>), the values responses produce and
  requests consume (\<open>dependency.go\<close>), the rewriting of requests from the runtime state (\<open>state.go\<close>), the
  replay loop (\<open>replay.go\<close>), the comparison of a replay with the capture (\<open>diff.go\<close>) and the two
  analyses (\<open>inspect.go\<close>, \<open>verify.go\<close>). The clock, the sleeps and the service under test are a world whose
  state is passed along; the \<open>float64\<close> scaling of a gap is a function argument. Timestamps count nanoseconds.
\<close>

section \<open>Loading an incident\<close>

definition with_response :: "event \<Rightarrow> event \<Rightarrow> event" where
  "with_response e r =
     e\<lparr>evStatus := evStatus r, evDuration := evTimestamp r - evTimestamp e, evResponseCaptured := True,
       evResponseHeaders := evHeaders r, evResponseTrailers := evResponseTrailers r,
       evResponseBodyB64 := evBodyB64 r, evResponseBodySha256 := evBodySha256 r,
       evResponseBodyTruncated := evBodyTruncated r, evResponseBodyRedacted := evBodyRedacted r\<rparr>"

definition pair_response :: "(string \<times> event) list \<Rightarrow> event \<Rightarrow> event" where
  "pair_response responses e = (case map_of responses (evTraceID e) of None \<Rightarrow> e | Some r \<Rightarrow> with_response e r)"

definition inbound_requests :: "event list \<Rightarrow> event list" where
  "inbound_requests es = filter (\<lambda>e. evType e = ''InboundRequest'') es"

text \<open>The response map: the last response with a trace identifier wins.\<close>

definition inbound_responses :: "event list \<Rightarrow> (string \<times> event) list" where
  "inbound_responses es =
     foldl (\<lambda>m e. AList.update (evTraceID e) e m) []
       (filter (\<lambda>e. evType e \<noteq> ''InboundRequest'' \<and> evType e = ''InboundResponse'' \<and> evTraceID e \<noteq> []) es)"

definition load_inbound :: "event list \<Rightarrow> event list" where
  "load_inbound es =
     stable_sort event_less (map (pair_response (inbound_responses es)) (inbound_requests es))"

section \<open>Captured responses\<close>

definition captured_headers :: "event \<Rightarrow> header" where
  "captured_headers e = (if evResponseCaptured e then evResponseHeaders e else evHeaders e)"

text \<open>The flag tells whether the body decoded; beside False stand the bytes before the error.\<close>

definition captured_body :: "go_env \<Rightarrow> event \<Rightarrow> string \<times> bool" where
  "captured_body E e =
     (let enc = (if evResponseCaptured e then evResponseBodyB64 e else evBodyB64 e)
      in if enc = [] then ([], False)
         else case b64_decode enc of None \<Rightarrow> (gB64Rest E enc, False) | Some b \<Rightarrow> (b, True))"

definition captured_hash :: "event \<Rightarrow> string" where
  "captured_hash e = (if evResponseCaptured e then evResponseBodySha256 e else evBodySha256 e)"

section \<open>Produced and consumed values\<close>

datatype value_kind = AuthToken | Cookie | SessionID | ResourceID

record produced_value =
  pvName :: string
  pvKind :: value_kind
  pvValue :: string
  pvLocator :: string

record consumed_value =
  cvName :: string
  cvKind :: value_kind
  cvValue :: string
  cvLocator :: string

definition token_keys :: "string list" where
  "token_keys = [''token'', ''access_token'', ''id_token'', ''refresh_token'', ''jwt'', ''auth_token'', ''bearer'']"

definition is_token_key :: "string \<Rightarrow> bool" where
  "is_token_key k \<longleftrightarrow> to_lower k \<in> set token_keys"

definition member_values :: "go_env \<Rightarrow> string \<times> json \<Rightarrow> produced_value list" where
  "member_values E m =
     (if is_token_key (fst m)
      then [\<lparr>pvName = fst m, pvKind = AuthToken, pvValue = gFormat E (snd m), pvLocator = fst m\<rparr>] else []) @
     (if fst m = ''id'' \<or> fst m = ''order_id''
      then [\<lparr>pvName = fst m, pvKind = ResourceID, pvValue = gFormat E (snd m), pvLocator = fst m\<rparr>] else [])"

definition extract_values :: "go_env \<Rightarrow> header \<Rightarrow> string \<Rightarrow> produced_value list" where
  "extract_values E h body =
     map (\<lambda>c. \<lparr>pvName = fst c, pvKind = Cookie, pvValue = snd c, pvLocator = ''Set-Cookie''\<rparr>) (gCookies E h) @
     (if contains (hget h ''Content-Type'') ''application/json''
      then (case gUnmarshal E body of Some (JObj kvs) \<Rightarrow> concat (map (member_values E) kvs) | _ \<Rightarrow> [])
      else [])"

definition bearer_value :: "event \<Rightarrow> string option" where
  "bearer_value e =
     (case hvalues (evHeaders e) ''Authorization'' of
        [] \<Rightarrow> None
      | v # _ \<Rightarrow> if has_prefix v ''Bearer '' then Some (trim_prefix v ''Bearer '') else None)"

definition cookie_values :: "event \<Rightarrow> consumed_value list" where
  "cookie_values e =
     (case hvalues (evHeaders e) ''Cookie'' of
        [] \<Rightarrow> []
      | line # _ \<Rightarrow>
          concat (map (\<lambda>c. case cut (CHR ''='') (trim_space c) of
              None \<Rightarrow> []
            | Some (n, v) \<Rightarrow> [\<lparr>cvName = n, cvKind = Cookie, cvValue = v, cvLocator = ''Cookie''\<rparr>])
            (split_on (CHR '';'') line)))"

definition identify_consumers :: "event \<Rightarrow> consumed_value list" where
  "identify_consumers e =
     (case bearer_value e of
        None \<Rightarrow> []
      | Some t \<Rightarrow> [\<lparr>cvName = ''Authorization'', cvKind = AuthToken, cvValue = t, cvLocator = ''Authorization''\<rparr>]) @
     cookie_values e"

section \<open>Runtime state and rewriting\<close>

text \<open>The state maps captured values to live ones; \<open>substitute\<close> ranges over the map, whose order Go does not
  fix. The index of consumers is keyed by locator.\<close>

type_synonym runtime_state = "(string \<times> string) list"

type_synonym consumer_index = "(string \<times> consumed_value list) list"

definition put_value :: "string \<Rightarrow> string \<Rightarrow> runtime_state \<Rightarrow> runtime_state" where
  "put_value old new s = AList.update old new s"

definition substitute :: "runtime_state \<Rightarrow> string \<Rightarrow> string" where
  "substitute s input = foldl (\<lambda>out (old, new). if old = [] then out else replace_all old new out) input s"

definition consumer_index :: "event list \<Rightarrow> consumer_index" where
  "consumer_index es =
     foldl (\<lambda>m c. AList.update (cvLocator c) (dflt [] (map_of m (cvLocator c)) @ [c]) m) []
       (concat (map identify_consumers es))"

definition apply_adapters :: "runtime_state option list \<Rightarrow> runtime_state \<Rightarrow> runtime_state \<times> nat" where
  "apply_adapters loaded s =
     foldl (\<lambda>(s, errs) a. case a of
         None \<Rightarrow> (s, Suc errs)
       | Some vals \<Rightarrow> (foldl (\<lambda>s (old, new). put_value old new s) s vals, errs)) (s, 0) loaded"

record sent_request =
  sqMethod :: string
  sqURL :: gourl
  sqHeader :: header
  sqBody :: "string option"

definition rewrite :: "runtime_state \<Rightarrow> sent_request \<Rightarrow> sent_request" where
  "rewrite s rq =
     rq\<lparr>sqHeader := map (\<lambda>(k, vs). (k, map (substitute s) vs)) (sqHeader rq),
        sqURL := (sqURL rq)\<lparr>uPath := substitute s (uPath (sqURL rq)),
                           uRawQuery := substitute s (uRawQuery (sqURL rq))\<rparr>\<rparr>"

definition prepare_body :: "runtime_state \<Rightarrow> event \<Rightarrow> string option" where
  "prepare_body s e =
     (if evBodyB64 e = [] then None else map_option (substitute s) (b64_decode (evBodyB64 e)))"

definition pairs_with :: "produced_value \<Rightarrow> produced_value \<Rightarrow> bool" where
  "pairs_with old new \<longleftrightarrow>
     pvKind old = pvKind new \<and> (pvName old = pvName new \<or> pvLocator old = pvLocator new) \<and>
     pvValue old \<noteq> [] \<and> pvValue new \<noteq> [] \<and> pvValue old \<noteq> pvValue new"

definition update_state ::
  "go_env \<Rightarrow> consumer_index \<Rightarrow> event \<Rightarrow> header \<Rightarrow> string \<Rightarrow> runtime_state \<Rightarrow> runtime_state" where
  "update_state E index captured h body s =
     (let live = extract_values E h body;
          old = extract_values E (captured_headers captured) (fst (captured_body E captured));
          s1 = foldl (\<lambda>s (o', n). if pairs_with o' n then put_value (pvValue o') (pvValue n) s else s) s
                 (concat (map (\<lambda>o'. map (Pair o') live) old))
      in if old \<noteq> [] then s1
         else foldl (\<lambda>s (n, c). if cvKind c = pvKind n \<and> cvValue c \<noteq> pvValue n
                                then put_value (cvValue c) (pvValue n) s else s) s1
                (concat (map (\<lambda>n. map (Pair n) (concat (map snd index))) live)))"

section \<open>The replay loop\<close>

text \<open>\<open>LoadInboundEvents\<close> has sorted the events. The outcome of \<open>client.Do\<close>: an error, with its Go type, or a reply
  whose body may fail to be read; beside it the request headers as the client's cookie jar left them.\<close>

datatype answer = Unanswered string | Replied int header "string option"

record 'w world =
  woNow :: "'w \<Rightarrow> int \<times> 'w"
  woSleep :: "int \<Rightarrow> 'w \<Rightarrow> 'w"
  woDo :: "sent_request \<Rightarrow> int \<Rightarrow> 'w \<Rightarrow> (answer \<times> header) \<times> 'w"

record replay_config =
  rcTimeScale :: f64
  rcDensity :: f64
  rcMinGap :: int
  rcMaxWallClock :: int
  rcMaxIdleTime :: int
  rcMaxEvents :: int
  rcSafeMode :: bool
  rcSafeModeAllow :: "string list"
  rcStateAdapters :: "runtime_state option list"
  rcChaosDelay :: int
  rcChaosRequest :: int

datatype replay_error =
    BadTimeScale | BadDensity | NoRequests | BadEventURL | BodyOmitted nat | BadTargetBase | BadRequest
  | ReplyUnreadable | ReplyTooLarge

datatype ending = Completed | StalledIdle | ExpandedPreserving | ExpandedAwaiting

record replay_report =
  roFingerprint :: string
  roCompleted :: nat
  roTotal :: nat
  roProgressIndex :: nat
  roExpectedDuration :: int
  roSignatures :: "string list"
  roErrors :: nat
  roSkipped :: nat
  roEnding :: ending
  roReplayed :: "event list"

text \<open>The variables the loop changes, and those it only reads.\<close>

record replay_state =
  rsState :: runtime_state
  rsPrev :: int
  rsNextAt :: int
  rsProgress :: int
  rsProgressIndex :: nat
  rsSignatures :: "string list"
  rsReplayed :: "event list"
  rsErrors :: nat
  rsSkipped :: nat

record 'w replay_context =
  rxEnv :: go_env
  rxWorld :: "'w world"
  rxConfig :: replay_config
  rxScale :: "f64 \<Rightarrow> f64 \<Rightarrow> int \<Rightarrow> int"
  rxBase :: string
  rxIndex :: consumer_index
  rxDeadline :: "int option"
  rxExpected :: int
  rxTotal :: nat

datatype exit = Aborted replay_error | Ended replay_report

definition is_side_effect :: "string \<Rightarrow> bool" where
  "is_side_effect m \<longleftrightarrow> to_upper m \<in> {''POST'', ''PUT'', ''PATCH'', ''DELETE''}"

definition safe_mode_allowed :: "string \<Rightarrow> string list \<Rightarrow> bool" where
  "safe_mode_allowed path allow \<longleftrightarrow> (\<exists>a\<in>set allow. has_prefix path a)"

definition should_skip_header :: "string \<Rightarrow> bool" where
  "should_skip_header name \<longleftrightarrow> canonical_key name \<in>
     {''Connection'', ''Keep-Alive'', ''Proxy-Authenticate'', ''Proxy-Authorization'', ''Proxy-Connection'', ''Te'',
      ''Trailer'', ''Transfer-Encoding'', ''Upgrade'', ''Content-Length''}"

text \<open>One gap of the schedule; \<open>scale\<close> is \<open>time.Duration(float64(gap) * timeScale / density)\<close>.\<close>

definition scaled_gap :: "(f64 \<Rightarrow> f64 \<Rightarrow> int \<Rightarrow> int) \<Rightarrow> f64 \<Rightarrow> f64 \<Rightarrow> int \<Rightarrow> int \<Rightarrow> int" where
  "scaled_gap scale ts density minGap raw =
     (let gap = scale ts density (if raw < 0 then 0 else raw) in if gap < minGap then minGap else gap)"

primrec gaps_from :: "(int \<Rightarrow> int) \<Rightarrow> int \<Rightarrow> event list \<Rightarrow> int" where
  "gaps_from gap prev [] = 0"
| "gaps_from gap prev (e # es) = gap (evTimestamp e - prev) + gaps_from gap (evTimestamp e) es"

definition expected_duration :: "(int \<Rightarrow> int) \<Rightarrow> event list \<Rightarrow> int" where
  "expected_duration gap es = (case es of [] \<Rightarrow> 0 | e # _ \<Rightarrow> gaps_from gap (evTimestamp e) es)"

text \<open>\<open>http.NewRequest\<close>: the empty method means GET, a method must be a token, and the host loses an empty
  port.\<close>

definition remove_empty_port :: "string \<Rightarrow> string" where
  "remove_empty_port h =
     (case last_index_byte h (CHR '':'') of
        None \<Rightarrow> h
      | Some i \<Rightarrow> (case last_index_byte h (CHR '']'') of
            Some j \<Rightarrow> if j < i then trim_suffix h '':'' else h
          | None \<Rightarrow> trim_suffix h '':''))"

definition new_request :: "go_env \<Rightarrow> string \<Rightarrow> string \<Rightarrow> string option \<Rightarrow> sent_request option" where
  "new_request E m url body =
     (let m' = (if m = [] then ''GET'' else m)
      in if \<not> (\<forall>c\<in>set m'. is_token_char c) then None
         else case gUrlParse E url of
           None \<Rightarrow> None
         | Some u \<Rightarrow> Some \<lparr>sqMethod = m', sqURL = u\<lparr>uHost := remove_empty_port (uHost u)\<rparr>, sqHeader = [], sqBody = body\<rparr>)"

definition replay_headers :: "header \<Rightarrow> header" where
  "replay_headers h =
     foldl (\<lambda>acc (k, vs). if should_skip_header k then acc
              else foldl (\<lambda>acc v. if v = ''[REDACTED]'' then acc else hadd acc k v) acc vs) [] h"

definition prepare_request ::
  "go_env \<Rightarrow> replay_config \<Rightarrow> string \<Rightarrow> runtime_state \<Rightarrow> nat \<Rightarrow> event \<Rightarrow> (replay_error, sent_request \<times> gourl) result" where
  "prepare_request E cfg base s i e =
     (case gUrlParse E (evURL e) of
        None \<Rightarrow> Inl BadEventURL
      | Some parsed \<Rightarrow>
          (let body = prepare_body s e
           in if body = None \<and> evBodyRedacted e \<and> 0 < evBodySize e \<and> \<not> rcSafeMode cfg then Inl (BodyOmitted (Suc i))
              else case gUrlParse E base of
                None \<Rightarrow> Inl BadTargetBase
              | Some target \<Rightarrow>
                  if uScheme target = [] \<or> uHost target = [] then Inl BadTargetBase
                  else (case new_request E (evMethod e)
                               (gUrlString E (target\<lparr>uPath := uPath parsed, uRawPath := uRawPath parsed,
                                                     uRawQuery := uRawQuery parsed\<rparr>)) body of
                          None \<Rightarrow> Inl BadRequest
                        | Some rq \<Rightarrow> Inr (rewrite s (rq\<lparr>sqHeader := replay_headers (evHeaders e)\<rparr>), parsed))))"

definition blocked :: "replay_config \<Rightarrow> sent_request \<Rightarrow> bool" where
  "blocked cfg rq \<longleftrightarrow>
     rcSafeMode cfg \<and> is_side_effect (sqMethod rq) \<and> \<not> safe_mode_allowed (uPath (sqURL rq)) (rcSafeModeAllow cfg)"

definition request_timeout :: "replay_config \<Rightarrow> int" where
  "request_timeout cfg =
     (if 0 < rcMaxIdleTime cfg \<and> rcMaxIdleTime cfg < 15000000000 then rcMaxIdleTime cfg else 15000000000)"

definition max_reply :: nat where
  "max_reply = 16777216"

text \<open>The checks on the clock at the head of an iteration: \<open>time.Since(lastProgress)\<close> is read only under an idle
  limit, and the clock only under a deadline.\<close>

definition idle_over :: "'w replay_context \<Rightarrow> replay_state \<Rightarrow> 'w \<Rightarrow> bool \<times> 'w" where
  "idle_over x s w =
     (if 0 < rcMaxIdleTime (rxConfig x)
      then (case woNow (rxWorld x) w of (t, w') \<Rightarrow> (rcMaxIdleTime (rxConfig x) < t - rsProgress s, w'))
      else (False, w))"

definition past_deadline :: "'w replay_context \<Rightarrow> 'w \<Rightarrow> bool \<times> 'w" where
  "past_deadline x w =
     (case rxDeadline x of None \<Rightarrow> (False, w)
      | Some d \<Rightarrow> (case woNow (rxWorld x) w of (t, w') \<Rightarrow> (d < t, w')))"

definition gap_of :: "'w replay_context \<Rightarrow> int \<Rightarrow> int" where
  "gap_of x raw =
     scaled_gap (rxScale x) (rcTimeScale (rxConfig x)) (rcDensity (rxConfig x)) (rcMinGap (rxConfig x)) raw"

text \<open>Waiting for the time of the event: the schedule advances by the scaled gap, whatever the clock says.\<close>

definition next_at :: "'w replay_context \<Rightarrow> replay_state \<Rightarrow> event \<Rightarrow> int" where
  "next_at x s e = rsNextAt s + gap_of x (evTimestamp e - rsPrev s)"

definition wait_until :: "'w world \<Rightarrow> int \<Rightarrow> 'w \<Rightarrow> 'w" where
  "wait_until W due w = (case woNow W w of (t, w') \<Rightarrow> if 0 < due - t then woSleep W (due - t) w' else w')"

definition chaos_delay :: "'w replay_context \<Rightarrow> nat \<Rightarrow> 'w \<Rightarrow> 'w" where
  "chaos_delay x i w =
     (let cfg = rxConfig x
      in if 0 < rcChaosDelay cfg \<and> (rcChaosRequest cfg = 0 \<or> rcChaosRequest cfg = int (Suc i))
         then woSleep (rxWorld x) (rcChaosDelay cfg) w else w)"

text \<open>A result returned before the last event: its counters are those so far, and neither the fingerprint, nor the
  replayed events, nor the number of skipped requests is filled in.\<close>

definition stopped :: "'w replay_context \<Rightarrow> replay_state \<Rightarrow> nat \<Rightarrow> ending \<Rightarrow> exit" where
  "stopped x s completed how =
     Ended \<lparr>roFingerprint = replicate 32 (chr 0), roCompleted = completed, roTotal = rxTotal x,
            roProgressIndex = rsProgressIndex s, roExpectedDuration = rxExpected x,
            roSignatures = rsSignatures s, roErrors = rsErrors s, roSkipped = 0, roEnding = how, roReplayed = []\<rparr>"

definition progress :: "'w replay_context \<Rightarrow> nat \<Rightarrow> replay_state \<Rightarrow> 'w \<Rightarrow> replay_state \<times> 'w" where
  "progress x i s w =
     (case woNow (rxWorld x) w of (t, w') \<Rightarrow> (s\<lparr>rsProgress := t, rsProgressIndex := Suc i\<rparr>, w'))"

text \<open>After an answer, or the lack of one, has been recorded.\<close>

definition after_answer :: "'w replay_context \<Rightarrow> nat \<Rightarrow> replay_state \<Rightarrow> 'w \<Rightarrow> (exit, replay_state) result \<times> 'w" where
  "after_answer x i s w =
     (case progress x i s w of (s', w1) \<Rightarrow>
      (case past_deadline x w1 of (late, w2) \<Rightarrow>
         (if late then Inl (stopped x s' (Suc i) ExpandedAwaiting) else Inr s', w2)))"

definition error_signature :: "go_env \<Rightarrow> event \<Rightarrow> gourl \<Rightarrow> string \<Rightarrow> string" where
  "error_signature E e parsed ty = evMethod e @ '' '' @ gRequestURI E parsed @ '' ERR:'' @ ty"

definition reply_signature :: "go_env \<Rightarrow> event \<Rightarrow> gourl \<Rightarrow> int \<Rightarrow> header \<Rightarrow> string \<Rightarrow> string" where
  "reply_signature E e parsed status h body =
     evMethod e @ '' '' @ gRequestURI E parsed @ '' '' @ itoa status @ '' body='' @ hex_encode (gSha256 E body) @
     '' content-type='' @ gQuote E (hget h ''Content-Type'') @ '' location='' @ gQuote E (hget h ''Location'')"

definition replayed_event ::
  "go_env \<Rightarrow> event \<Rightarrow> sent_request \<Rightarrow> header \<Rightarrow> int \<Rightarrow> int \<Rightarrow> header \<Rightarrow> string \<Rightarrow> event" where
  "replayed_event E e rq sent took status h body =
     zero_event\<lparr>evMethod := sqMethod rq, evURL := gUrlString E (sqURL rq), evStatus := status, evHeaders := sent,
       evBodySize := int (length (dflt [] (sqBody rq))), evDuration := took, evTimestamp := evTimestamp e,
       evResponseCaptured := True, evResponseHeaders := h,
       evResponseBodySha256 := hex_encode (gSha256 E body), evResponseBodyB64 := b64_encode body,
       evBodyB64 := (case sqBody rq of None \<Rightarrow> [] | Some b \<Rightarrow> b64_encode b),
       evBodySha256 := (case sqBody rq of None \<Rightarrow> [] | Some b \<Rightarrow> hex_encode (gSha256 E b))\<rparr>"

definition record_reply ::
  "'w replay_context \<Rightarrow> event \<Rightarrow> gourl \<Rightarrow> sent_request \<Rightarrow> header \<Rightarrow> int \<Rightarrow> int \<Rightarrow> header \<Rightarrow> string \<Rightarrow>
   replay_state \<Rightarrow> replay_state" where
  "record_reply x e parsed rq sent took status h body s =
     s\<lparr>rsReplayed := rsReplayed s @ [replayed_event (rxEnv x) e rq sent took status h body],
       rsState := update_state (rxEnv x) (rxIndex x) e h body (rsState s),
       rsSignatures := rsSignatures s @ [reply_signature (rxEnv x) e parsed status h body]\<rparr>"

definition exchange ::
  "'w replay_context \<Rightarrow> nat \<Rightarrow> event \<Rightarrow> int \<Rightarrow> gourl \<Rightarrow> sent_request \<Rightarrow> replay_state \<Rightarrow> 'w \<Rightarrow>
   (exit, replay_state) result \<times> 'w" where
  "exchange x i e t0 parsed rq s w =
     (case woDo (rxWorld x) rq (request_timeout (rxConfig x)) w of ((ans, sent), w1) \<Rightarrow>
      (case ans of
         Unanswered ty \<Rightarrow>
           after_answer x i (s\<lparr>rsErrors := Suc (rsErrors s),
             rsSignatures := rsSignatures s @ [error_signature (rxEnv x) e parsed ty]\<rparr>) w1
       | Replied status h None \<Rightarrow> (Inl (Aborted ReplyUnreadable), w1)
       | Replied status h (Some body) \<Rightarrow>
           if max_reply < length body then (Inl (Aborted ReplyTooLarge), w1)
           else (case woNow (rxWorld x) w1 of (t, w2) \<Rightarrow>
                   after_answer x i (record_reply x e parsed rq sent (t - t0) status h body s) w2)))"

text \<open>One iteration of the loop of \<open>ReplayEvents\<close>.\<close>

definition visit ::
  "'w replay_context \<Rightarrow> nat \<times> event \<Rightarrow> replay_state \<Rightarrow> 'w \<Rightarrow> (exit, replay_state) result \<times> 'w" where
  "visit x ie s w =
     (case ie of (i, e) \<Rightarrow>
      (case woNow (rxWorld x) w of (t0, w1) \<Rightarrow>
      (case idle_over x s w1 of (idle, w2) \<Rightarrow>
         if idle then (Inl (stopped x s i StalledIdle), w2)
         else
      (let s1 = s\<lparr>rsNextAt := next_at x s e\<rparr>; w3 = wait_until (rxWorld x) (rsNextAt s1) w2
       in case past_deadline x w3 of (late, w4) \<Rightarrow>
         if late then (Inl (stopped x s1 i ExpandedPreserving), w4)
         else
      (let s2 = s1\<lparr>rsPrev := evTimestamp e\<rparr>; w5 = chaos_delay x i w4
       in case prepare_request (rxEnv x) (rxConfig x) (rxBase x) (rsState s2) i e of
            Inl err \<Rightarrow> (Inl (Aborted err), w5)
          | Inr (rq, parsed) \<Rightarrow>
              if blocked (rxConfig x) rq
              then (case progress x i (s2\<lparr>rsSkipped := Suc (rsSkipped s2)\<rparr>) w5 of (s3, w6) \<Rightarrow> (Inr s3, w6))
              else exchange x i e t0 parsed rq s2 w5)))))"

primrec replay_loop ::
  "'w replay_context \<Rightarrow> (nat \<times> event) list \<Rightarrow> replay_state \<Rightarrow> 'w \<Rightarrow> (exit, replay_state) result \<times> 'w" where
  "replay_loop x [] s w = (Inr s, w)"
| "replay_loop x (ie # ies) s w =
     (case visit x ie s w of (r, w') \<Rightarrow>
        (case r of Inl ex \<Rightarrow> (Inl ex, w') | Inr s' \<Rightarrow> replay_loop x ies s' w'))"

definition completed :: "'w replay_context \<Rightarrow> replay_state \<Rightarrow> replay_report" where
  "completed x s =
     \<lparr>roFingerprint = gSha256 (rxEnv x) (concat (rsSignatures s)), roCompleted = rxTotal x - rsSkipped s,
      roTotal = rxTotal x, roProgressIndex = rsProgressIndex s, roExpectedDuration = rxExpected x,
      roSignatures = rsSignatures s, roErrors = rsErrors s, roSkipped = rsSkipped s, roEnding = Completed,
      roReplayed = rsReplayed s\<rparr>"

definition limit_events :: "replay_config \<Rightarrow> event list \<Rightarrow> event list" where
  "limit_events cfg es =
     (if 0 < rcMaxEvents cfg \<and> rcMaxEvents cfg < int (length es) then take (nat (rcMaxEvents cfg)) es else es)"

text \<open>The state before the first event; the clock is read for the start and again for the schedule.\<close>

definition start_replay ::
  "go_env \<Rightarrow> 'w world \<Rightarrow> (f64 \<Rightarrow> f64 \<Rightarrow> int \<Rightarrow> int) \<Rightarrow> replay_config \<Rightarrow> string \<Rightarrow> event list \<Rightarrow> 'w \<Rightarrow>
   ('w replay_context \<times> replay_state) \<times> 'w" where
  "start_replay E W scale cfg base es w =
     (case woNow W w of (start, w1) \<Rightarrow>
      (case woNow W w1 of (t, w2) \<Rightarrow>
         ((\<lparr>rxEnv = E, rxWorld = W, rxConfig = cfg, rxScale = scale, rxBase = base, rxIndex = consumer_index es,
            rxDeadline = (if 0 < rcMaxWallClock cfg then Some (start + rcMaxWallClock cfg) else None),
            rxExpected = expected_duration (scaled_gap scale (rcTimeScale cfg) (rcDensity cfg) (rcMinGap cfg)) es,
            rxTotal = length es\<rparr>,
           \<lparr>rsState = fst (apply_adapters (rcStateAdapters cfg) []), rsPrev = evTimestamp (hd es), rsNextAt = t,
            rsProgress = start, rsProgressIndex = 0, rsSignatures = [], rsReplayed = [], rsErrors = 0,
            rsSkipped = 0\<rparr>), w2)))"

text \<open>\<open>ReplayEvents\<close>. A time scale or density that is not a number passes the checks.\<close>

definition replay_events ::
  "go_env \<Rightarrow> 'w world \<Rightarrow> (f64 \<Rightarrow> f64 \<Rightarrow> int \<Rightarrow> int) \<Rightarrow> replay_config \<Rightarrow> string \<Rightarrow> event list \<Rightarrow> 'w \<Rightarrow>
   (replay_error, replay_report) result \<times> 'w" where
  "replay_events E W scale cfg base all_events w =
     (let es = limit_events cfg all_events
      in if f_le (rcTimeScale cfg) (Fin 0) then (Inl BadTimeScale, w)
         else if f_le (rcDensity cfg) (Fin 0) then (Inl BadDensity, w)
         else if es = [] then (Inl NoRequests, w)
         else (case start_replay E W scale cfg base es w of ((x, s), w1) \<Rightarrow>
              (case replay_loop x (enumerate 0 es) s w1 of (r, w2) \<Rightarrow>
                 ((case r of Inl (Aborted err) \<Rightarrow> Inl err | Inl (Ended rep) \<Rightarrow> Inr rep | Inr t \<Rightarrow> Inr (completed x t)),
                  w2))))"

section \<open>Comparing a replay with the capture\<close>

text \<open>The texts of a difference are left out; the values they show are kept.\<close>

record event_diff =
  edIndex :: int
  edStatus :: "(int \<times> int) option"
  edLatency :: "(int \<times> int \<times> int) option"
  edHeaders :: "(string \<times> string list \<times> string list) list"
  edBody :: "(string \<times> string) option"

definition is_volatile_header :: "string \<Rightarrow> bool" where
  "is_volatile_header n \<longleftrightarrow> canonical_key n \<in> {''Date'', ''Server'', ''Set-Cookie'', ''Content-Length''}"

definition status_diff :: "event \<Rightarrow> event \<Rightarrow> (int \<times> int) option" where
  "status_diff c r = (if evStatus c \<noteq> evStatus r then Some (evStatus c, evStatus r) else None)"

text \<open>\<open>slow delta recorded\<close> is the comparison \<open>float64(delta) > 0.2*float64(recorded)\<close>.\<close>

definition latency_diff :: "(int \<Rightarrow> int \<Rightarrow> bool) \<Rightarrow> event \<Rightarrow> event \<Rightarrow> (int \<times> int \<times> int) option" where
  "latency_diff slow c r =
     (let delta = \<bar>evDuration r - evDuration c\<bar>
      in if 50000000 < delta \<and> slow delta (evDuration c) then Some (evDuration c, evDuration r, delta) else None)"

definition header_diff :: "header \<Rightarrow> header \<Rightarrow> (string \<times> string list \<times> string list) list" where
  "header_diff ch rh =
     concat (map (\<lambda>h. case (hvalues ch h, hvalues rh h) of
           ([], _) \<Rightarrow> []
         | (c # cs, []) \<Rightarrow> [(h, c # cs, [])]
         | (c # cs, r # rs) \<Rightarrow> if c = r then [] else [(h, c # cs, r # rs)])
       (stable_sort (<) (filter (\<lambda>h. \<not> is_volatile_header h) (map fst ch))))"

definition body_diff :: "event \<Rightarrow> event \<Rightarrow> (string \<times> string) option" where
  "body_diff c r =
     (let expected = captured_hash c;
          actual = (if evResponseBodySha256 r = [] then evBodySha256 r else evResponseBodySha256 r)
      in if expected \<noteq> [] \<and> actual \<noteq> [] \<and> expected \<noteq> actual then Some (expected, actual) else None)"

text \<open>\<open>CompareEvents\<close>; \<open>noHeaders\<close> tells whether the replayed event's response headers are nil.\<close>

definition compare_events :: "(int \<Rightarrow> int \<Rightarrow> bool) \<Rightarrow> bool \<Rightarrow> event \<Rightarrow> event \<Rightarrow> int \<Rightarrow> event_diff option" where
  "compare_events slow noHeaders c r index =
     (let d = \<lparr>edIndex = index, edStatus = status_diff c r, edLatency = latency_diff slow c r,
               edHeaders = header_diff (captured_headers c) (if noHeaders then evHeaders r else evResponseHeaders r),
               edBody = body_diff c r\<rparr>
      in if edStatus d = None \<and> edLatency d = None \<and> edHeaders d = [] \<and> edBody d = None then None else Some d)"

section \<open>Inspecting and verifying an incident\<close>

definition produced_by :: "go_env \<Rightarrow> event \<Rightarrow> produced_value list" where
  "produced_by E e =
     (case captured_body E e of (b, ok) \<Rightarrow> if ok then extract_values E (captured_headers e) b else [])"

record timeline_entry =
  tlIndex :: nat
  tlMethod :: string
  tlURL :: string
  tlStatus :: int
  tlDuration :: int
  tlTimestamp :: int
  tlProduces :: "produced_value list"
  tlConsumes :: "consumed_value list"

record inspect_result =
  inRequests :: nat
  inChains :: nat
  inTokens :: nat
  inSessions :: nat
  inResourceIDs :: nat
  inTimeline :: "timeline_entry list"

definition display_url :: "go_env \<Rightarrow> string \<Rightarrow> string" where
  "display_url E u =
     (case gUrlParse E u of
        None \<Rightarrow> u
      | Some p \<Rightarrow> uPath p @ (if uRawQuery p = [] then [] else ''?'' @ uRawQuery p))"

definition timeline_entry_of :: "go_env \<Rightarrow> nat \<Rightarrow> event \<Rightarrow> timeline_entry" where
  "timeline_entry_of E i e =
     \<lparr>tlIndex = Suc i, tlMethod = evMethod e, tlURL = display_url E (evURL e), tlStatus = evStatus e,
      tlDuration = evDuration e, tlTimestamp = evTimestamp e, tlProduces = produced_by E e,
      tlConsumes = identify_consumers e\<rparr>"

text \<open>\<open>InspectIncident\<close> on the loaded events. \<open>known\<close> holds the values produced so far.\<close>

primrec count_chains :: "go_env \<Rightarrow> string set \<Rightarrow> event list \<Rightarrow> nat" where
  "count_chains E known [] = 0"
| "count_chains E known (e # es) =
     (if \<exists>c\<in>set (identify_consumers e). cvValue c \<in> known then 1 else 0) +
     count_chains E (known \<union> pvValue ` set (produced_by E e)) es"

definition values_of_kind :: "go_env \<Rightarrow> value_kind set \<Rightarrow> event list \<Rightarrow> string set" where
  "values_of_kind E ks es = pvValue ` {p \<in> set (concat (map (produced_by E) es)). pvKind p \<in> ks}"

definition inspect_incident :: "go_env \<Rightarrow> event list \<Rightarrow> inspect_result" where
  "inspect_incident E es =
     \<lparr>inRequests = length es, inChains = count_chains E {} es,
      inTokens = card (values_of_kind E {AuthToken} es),
      inSessions = card (values_of_kind E {Cookie, SessionID} es),
      inResourceIDs = card (values_of_kind E {ResourceID} es),
      inTimeline = map (\<lambda>(i, e). timeline_entry_of E i e) (enumerate 0 es)\<rparr>"

text \<open>The expiry of a JSON web token, in seconds. \<open>base64.URLEncoding\<close> writes \<open>-\<close> and \<open>_\<close> for \<open>+\<close> and \<open>/\<close>;
  the raw encoding has no padding.\<close>

definition url_decode :: "string \<Rightarrow> string option" where
  "url_decode s =
     (if CHR ''+'' \<in> set s \<or> CHR ''/'' \<in> set s then None
      else b64_decode (map (\<lambda>c. if c = CHR ''-'' then CHR ''+'' else if c = CHR ''_'' then CHR ''/'' else c) s))"

definition pad_base64 :: "string \<Rightarrow> string" where
  "pad_base64 s = s @ (if length s mod 4 = 2 then ''=='' else if length s mod 4 = 3 then ''='' else [])"

definition raw_url_decode :: "string \<Rightarrow> string option" where
  "raw_url_decode s =
     (let t = filter (\<lambda>c. c \<noteq> chr 10 \<and> c \<noteq> chr 13) s
      in if CHR ''='' \<in> set t then None else url_decode (pad_base64 t))"

definition jwt_expiry :: "go_env \<Rightarrow> string \<Rightarrow> int option" where
  "jwt_expiry E tok =
     (case split_on (CHR ''.'') tok of
        [_, payload, _] \<Rightarrow>
          (case (case url_decode (pad_base64 payload) of Some d \<Rightarrow> Some d | None \<Rightarrow> raw_url_decode payload) of
             None \<Rightarrow> None
           | Some d \<Rightarrow>
               (case gUnmarshal E d of
                  Some (JObj kvs) \<Rightarrow> (case map_of kvs ''exp'' of Some (JNum t) \<Rightarrow> Some (gNumInt E t) | _ \<Rightarrow> None)
                | _ \<Rightarrow> None))
      | _ \<Rightarrow> None)"

definition short_path :: "string \<Rightarrow> string" where
  "short_path u =
     (let v = (case index_sub u ''?'' of None \<Rightarrow> u | Some i \<Rightarrow> take i u)
      in case index_sub v ''//'' of
           None \<Rightarrow> v
         | Some i \<Rightarrow> (let r = drop (i + 2) v in case index_sub r ''/'' of None \<Rightarrow> r | Some j \<Rightarrow> drop j r))"

datatype issue_kind = SideEffect | MissingDep string | ExpiredToken int

record verify_issue =
  viIndex :: nat
  viKind :: issue_kind
  viMethod :: string
  viPath :: string

record verify_result =
  vrScore :: int
  vrUnsafe :: nat
  vrMissing :: nat
  vrExpired :: nat
  vrIssues :: "verify_issue list"

definition expired_at :: "go_env \<Rightarrow> event \<Rightarrow> int option" where
  "expired_at E e =
     (case bearer_value e of
        None \<Rightarrow> None
      | Some t \<Rightarrow> (case jwt_expiry E t of
            None \<Rightarrow> None
          | Some x \<Rightarrow> if x * 1000000000 < evTimestamp e then Some x else None))"

definition event_issues :: "go_env \<Rightarrow> (value_kind \<times> string) set \<Rightarrow> nat \<Rightarrow> event \<Rightarrow> verify_issue list" where
  "event_issues E known i e =
     (let mk = (\<lambda>k. \<lparr>viIndex = Suc i, viKind = k, viMethod = evMethod e, viPath = short_path (evURL e)\<rparr>)
      in (if is_side_effect (evMethod e) then [mk SideEffect] else []) @
         map (\<lambda>c. mk (MissingDep (cvName c)))
           (filter (\<lambda>c. (cvKind c, cvValue c) \<notin> known) (identify_consumers e)) @
         (case expired_at E e of None \<Rightarrow> [] | Some x \<Rightarrow> [mk (ExpiredToken x)]))"

definition produced_keys :: "go_env \<Rightarrow> event \<Rightarrow> (value_kind \<times> string) set" where
  "produced_keys E e = (\<lambda>p. (pvKind p, pvValue p)) ` set (produced_by E e)"

primrec issues_from :: "go_env \<Rightarrow> (value_kind \<times> string) set \<Rightarrow> nat \<Rightarrow> event list \<Rightarrow> verify_issue list" where
  "issues_from E known i [] = []"
| "issues_from E known i (e # es) =
     event_issues E known i e @ issues_from E (known \<union> produced_keys E e) (Suc i) es"

text \<open>\<open>VerifyIncident\<close> on the loaded events.\<close>

definition verify_incident :: "go_env \<Rightarrow> event list \<Rightarrow> verify_result" where
  "verify_incident E es =
     (let issues = issues_from E {} 0 es;
          u = length (filter (\<lambda>v. viKind v = SideEffect) issues);
          m = length (filter (\<lambda>v. case viKind v of MissingDep _ \<Rightarrow> True | _ \<Rightarrow> False) issues);
          x = length (filter (\<lambda>v. case viKind v of ExpiredToken _ \<Rightarrow> True | _ \<Rightarrow> False) issues);
          score = 100 - (int u * 10 + int m * 15 + int x * 20)
      in \<lparr>vrScore = (if score < 0 then 0 else score), vrUnsafe = u, vrMissing = m, vrExpired = x, vrIssues = issues\<rparr>)"

section \<open>The loop: cases of an iteration\<close>

definition scheduled :: "'w replay_context \<Rightarrow> event \<Rightarrow> replay_state \<Rightarrow> replay_state" where
  "scheduled x e s = s\<lparr>rsNextAt := next_at x s e, rsPrev := evTimestamp e\<rparr>"

definition moved_to :: "nat \<Rightarrow> int \<Rightarrow> replay_state \<Rightarrow> replay_state" where
  "moved_to i t s = s\<lparr>rsProgress := t, rsProgressIndex := Suc i\<rparr>"

definition recorded :: "'w replay_context \<Rightarrow> event \<Rightarrow> gourl \<Rightarrow> sent_request \<Rightarrow> replay_state \<Rightarrow> replay_state \<Rightarrow> bool" where
  "recorded x e parsed rq s s' \<longleftrightarrow>
     (\<exists>ty. s' = s\<lparr>rsErrors := Suc (rsErrors s), rsSignatures := rsSignatures s @ [error_signature (rxEnv x) e parsed ty]\<rparr>) \<or>
     (\<exists>sent took status h body. s' = record_reply x e parsed rq sent took status h body s)"

lemma after_answer_cases:
  obtains t w' where "after_answer x i s w = (Inr (moved_to i t s), w')"
  | t w' where "after_answer x i s w = (Inl (stopped x (moved_to i t s) (Suc i) ExpandedAwaiting), w')"
proof -
  obtain t w1 where n: "woNow (rxWorld x) w = (t, w1)" by fastforce
  obtain late w2 where l: "past_deadline x w1 = (late, w2)" by fastforce
  show ?thesis
    using that n l by (cases late) (auto simp: after_answer_def progress_def moved_to_def)
qed

lemma exchange_cases:
  obtains err w' where "exchange x i e t0 parsed rq s w = (Inl (Aborted err), w')"
  | s' t w' where "recorded x e parsed rq s s'" "exchange x i e t0 parsed rq s w = (Inr (moved_to i t s'), w')"
  | s' t w' where "recorded x e parsed rq s s'"
      "exchange x i e t0 parsed rq s w = (Inl (stopped x (moved_to i t s') (Suc i) ExpandedAwaiting), w')"
proof -
  obtain ans sent w1 where d: "woDo (rxWorld x) rq (request_timeout (rxConfig x)) w = ((ans, sent), w1)"
    by (metis prod.exhaust)
  consider (fail) ty where "ans = Unanswered ty" | (bad) status h where "ans = Replied status h None"
    | (ok) status h body where "ans = Replied status h (Some body)"
    by (metis answer.exhaust option.exhaust)
  then show ?thesis
  proof cases
    case fail
    let ?s = "s\<lparr>rsErrors := Suc (rsErrors s), rsSignatures := rsSignatures s @ [error_signature (rxEnv x) e parsed ty]\<rparr>"
    have r: "recorded x e parsed rq s ?s" by (auto simp: recorded_def)
    show ?thesis
      using that(2,3) [OF r] d fail
      by (rule_tac after_answer_cases [of x i ?s w1]) (auto simp: exchange_def)
  next
    case bad
    with d that(1) show ?thesis by (auto simp: exchange_def)
  next
    case ok
    show ?thesis
    proof (cases "max_reply < length body")
      case True
      with d ok that(1) show ?thesis by (auto simp: exchange_def)
    next
      case False
      obtain t w2 where n: "woNow (rxWorld x) w1 = (t, w2)" by fastforce
      let ?s = "record_reply x e parsed rq sent (t - t0) status h body s"
      have r: "recorded x e parsed rq s ?s" unfolding recorded_def by blast
      show ?thesis
        using that(2,3) [OF r] d ok False n
        by (rule_tac after_answer_cases [of x i ?s w2]) (auto simp: exchange_def)
    qed
  qed
qed

text \<open>Every outcome of one iteration.\<close>

lemma visit_cases:
  obtains (stopped) s' how w' where "visit x (i, e) s w = (Inl (stopped x s' i how), w')"
      "rsSignatures s' = rsSignatures s" "rsProgressIndex s' = rsProgressIndex s" "rsErrors s' = rsErrors s"
  | (aborted) err w' where "visit x (i, e) s w = (Inl (Aborted err), w')"
  | (skipped) rq parsed t w' where
      "prepare_request (rxEnv x) (rxConfig x) (rxBase x) (rsState s) i e = Inr (rq, parsed)"
      "blocked (rxConfig x) rq"
      "visit x (i, e) s w = (Inr (moved_to i t ((scheduled x e s)\<lparr>rsSkipped := Suc (rsSkipped s)\<rparr>)), w')"
  | (answered) rq parsed s' t w' where
      "prepare_request (rxEnv x) (rxConfig x) (rxBase x) (rsState s) i e = Inr (rq, parsed)"
      "\<not> blocked (rxConfig x) rq" "recorded x e parsed rq (scheduled x e s) s'"
      "visit x (i, e) s w = (Inr (moved_to i t s'), w')"
  | (overdue) rq parsed s' t w' where
      "prepare_request (rxEnv x) (rxConfig x) (rxBase x) (rsState s) i e = Inr (rq, parsed)"
      "\<not> blocked (rxConfig x) rq" "recorded x e parsed rq (scheduled x e s) s'"
      "visit x (i, e) s w = (Inl (stopped x (moved_to i t s') (Suc i) ExpandedAwaiting), w')"
proof -
  obtain t0 w1 where n: "woNow (rxWorld x) w = (t0, w1)" by fastforce
  obtain idle w2 where i: "idle_over x s w1 = (idle, w2)" by fastforce
  let ?w3 = "wait_until (rxWorld x) (next_at x s e) w2"
  obtain late w4 where l: "past_deadline x ?w3 = (late, w4)" by fastforce
  let ?w5 = "chaos_delay x i w4" and ?s = "scheduled x e s"
  consider (idle) idle | (late) "\<not> idle" late | (go) "\<not> idle" "\<not> late" by blast
  then show ?thesis
  proof cases
    case idle
    with n i show ?thesis using that(1) by (auto simp: visit_def)
  next
    case late
    with n i l show ?thesis using that(1) [of "s\<lparr>rsNextAt := next_at x s e\<rparr>"] by (simp add: visit_def)
  next
    case go
    have v: "visit x (i, e) s w =
      (case prepare_request (rxEnv x) (rxConfig x) (rxBase x) (rsState s) i e of
         Inl err \<Rightarrow> (Inl (Aborted err), ?w5)
       | Inr (rq, parsed) \<Rightarrow>
           if blocked (rxConfig x) rq
           then (case progress x i (?s\<lparr>rsSkipped := Suc (rsSkipped s)\<rparr>) ?w5 of (s3, w6) \<Rightarrow> (Inr s3, w6))
           else exchange x i e t0 parsed rq ?s ?w5)"
      using n i l go by (simp add: visit_def scheduled_def Let_def split: sum.split prod.split)
    show ?thesis
    proof (cases "prepare_request (rxEnv x) (rxConfig x) (rxBase x) (rsState s) i e")
      case (Inl err)
      with v that(2) show ?thesis by simp
    next
      case (Inr rp)
      then obtain rq parsed where p: "prepare_request (rxEnv x) (rxConfig x) (rxBase x) (rsState s) i e = Inr (rq, parsed)"
        by (metis prod.exhaust)
      show ?thesis
      proof (cases "blocked (rxConfig x) rq")
        case True
        obtain t w6 where "woNow (rxWorld x) ?w5 = (t, w6)" by fastforce
        with True v p that(3) [OF p True] show ?thesis by (simp add: progress_def moved_to_def)
      next
        case False
        with v p have "visit x (i, e) s w = exchange x i e t0 parsed rq ?s ?w5" by simp
        then show ?thesis
          using that(2) that(4,5) [OF p False]
          by (rule_tac exchange_cases [of x i e t0 parsed rq ?s ?w5]) auto
      qed
    qed
  qed
qed

section \<open>Accounts\<close>

definition accounted :: "nat \<Rightarrow> replay_state \<Rightarrow> bool" where
  "accounted i s \<longleftrightarrow> length (rsSignatures s) + rsSkipped s = i \<and>
     length (rsSignatures s) = rsErrors s + length (rsReplayed s) \<and> rsProgressIndex s = i"

lemma recorded_counts:
  assumes "recorded x e parsed rq s s'"
  shows "length (rsSignatures s') = Suc (length (rsSignatures s))"
    "rsErrors s' + length (rsReplayed s') = Suc (rsErrors s + length (rsReplayed s))"
    "rsErrors s' \<le> Suc (rsErrors s)" "rsSkipped s' = rsSkipped s" "rsNextAt s' = rsNextAt s" "rsPrev s' = rsPrev s"
  using assms by (auto simp: recorded_def record_reply_def)

lemma scheduled_fields [simp]:
  "rsSignatures (scheduled x e s) = rsSignatures s" "rsErrors (scheduled x e s) = rsErrors s"
  "rsReplayed (scheduled x e s) = rsReplayed s" "rsSkipped (scheduled x e s) = rsSkipped s"
  "rsProgressIndex (scheduled x e s) = rsProgressIndex s" "rsState (scheduled x e s) = rsState s"
  "rsNextAt (scheduled x e s) = next_at x s e" "rsPrev (scheduled x e s) = evTimestamp e"
  by (simp_all add: scheduled_def)

lemma moved_to_fields [simp]:
  "rsSignatures (moved_to i t s) = rsSignatures s" "rsErrors (moved_to i t s) = rsErrors s"
  "rsReplayed (moved_to i t s) = rsReplayed s" "rsSkipped (moved_to i t s) = rsSkipped s"
  "rsProgressIndex (moved_to i t s) = Suc i" "rsState (moved_to i t s) = rsState s"
  "rsNextAt (moved_to i t s) = rsNextAt s" "rsPrev (moved_to i t s) = rsPrev s"
  by (simp_all add: moved_to_def)

lemma visit_accounted:
  assumes "visit x (i, e) s w = (Inr s', w')" and "accounted i s"
  shows "accounted (Suc i) s'"
  using assms(2)
  by (cases rule: visit_cases [of x i e s w])
     (use assms(1) recorded_counts in \<open>fastforce simp: accounted_def stopped_def\<close>)+

text \<open>What a result returned early reports.\<close>

definition stopped_report :: "'w replay_context \<Rightarrow> replay_report \<Rightarrow> bool" where
  "stopped_report x r \<longleftrightarrow> roTotal r = rxTotal x \<and> roEnding r \<noteq> Completed \<and> roSkipped r = 0 \<and> roReplayed r = [] \<and>
     roProgressIndex r = roCompleted r \<and> roErrors r \<le> length (roSignatures r) \<and>
     length (roSignatures r) \<le> roCompleted r \<and> roCompleted r \<le> rxTotal x"

lemma visit_stopped:
  assumes "visit x (i, e) s w = (Inl (Ended r), w')" and "accounted i s" and "i < rxTotal x"
  shows "stopped_report x r"
proof (cases rule: visit_cases [of x i e s w])
  case (overdue rq parsed s' t w'')
  from recorded_counts [OF overdue(3)] overdue(4) assms show ?thesis
    by (auto simp: stopped_report_def stopped_def accounted_def)
next
  case (stopped s' how w'')
  have "how \<noteq> Completed"
    using stopped(1) by (auto simp: visit_def stopped_def exchange_def after_answer_def Let_def
        split: prod.splits if_splits sum.splits answer.splits option.splits)
  with stopped assms show ?thesis by (auto simp: stopped_report_def stopped_def accounted_def)
qed (use assms in \<open>auto simp: stopped_def\<close>)

lemma replay_loop_accounts:
  assumes "replay_loop x (enumerate i es) s w = (r, w')" and "accounted i s" and "i + length es = rxTotal x"
  shows "case r of Inr t \<Rightarrow> accounted (rxTotal x) t | Inl (Ended rep) \<Rightarrow> stopped_report x rep | Inl (Aborted _) \<Rightarrow> True"
  using assms
proof (induction es arbitrary: i s w)
  case (Cons e es)
  obtain v w1 where v: "visit x (i, e) s w = (v, w1)" by fastforce
  show ?case
  proof (cases v)
    case (Inl ex)
    with v Cons.prems(1) have r: "r = Inl ex" by simp
    show ?thesis
    proof (cases ex)
      case (Ended rep)
      with v Inl visit_stopped [of x i e s w rep w1] Cons.prems r show ?thesis by simp
    qed (simp add: r)
  next
    case (Inr s')
    with v Cons.prems visit_accounted [of x i e s w s' w1] show ?thesis
      by (intro Cons.IH [of "Suc i" s' w1]) auto
  qed
qed auto

lemma replay_events_cases:
  assumes "replay_events E W scale cfg base all w = (Inr rep, w')" and "limit_events cfg all = es"
  obtains x s w1 r where "es \<noteq> []" "start_replay E W scale cfg base es w = ((x, s), w1)"
    "replay_loop x (enumerate 0 es) s w1 = (r, w')"
    "(\<exists>t. r = Inr t \<and> rep = completed x t) \<or> r = Inl (Ended rep)"
proof -
  obtain x s w1 where st: "start_replay E W scale cfg base es w = ((x, s), w1)" by (metis prod.exhaust)
  obtain r w2 where l: "replay_loop x (enumerate 0 es) s w1 = (r, w2)" by fastforce
  from assms st l have "es \<noteq> []" "w2 = w'" "(\<exists>t. r = Inr t \<and> rep = completed x t) \<or> r = Inl (Ended rep)"
    by (auto simp: replay_events_def Let_def split: if_splits sum.splits exit.splits)
  with st l that show ?thesis by blast
qed

lemma start_replay_fields:
  assumes "start_replay E W scale cfg base es w = ((x, s), w1)"
  shows "rxTotal x = length es" "rxEnv x = E" "rxWorld x = W" "rxConfig x = cfg" "rxBase x = base"
    "rxIndex x = consumer_index es" "accounted 0 s" "rsPrev s = evTimestamp (hd es)"
    "rxExpected x = expected_duration (gap_of x) es" "rsState s = fst (apply_adapters (rcStateAdapters cfg) [])"
    "rxDeadline x = None \<longleftrightarrow> rcMaxWallClock cfg \<le> 0" "rsReplayed s = []" "rsErrors s = 0" "rsSkipped s = 0"
  using assms by (auto simp: start_replay_def accounted_def gap_of_def [abs_def] split: prod.splits if_splits)

text \<open>C7. The counters of a replay add up. When it runs to its end, every event was skipped, failed or answered,
  with one signature for each event that was not skipped; when it stops early, the reported progress is the number
  of events completed, the errors are among the signatures, and what was skipped is not told apart.\<close>

theorem replay_accounts:
  assumes "replay_events E W scale cfg base es w = (Inr r, w')"
  shows "roTotal r = length (limit_events cfg es) \<and>
    (if roEnding r = Completed
     then roCompleted r + roSkipped r = roTotal r \<and> roProgressIndex r = roTotal r \<and>
       length (roSignatures r) = roCompleted r \<and> roErrors r + length (roReplayed r) = roCompleted r
     else roSkipped r = 0 \<and> roReplayed r = [] \<and> roProgressIndex r = roCompleted r \<and>
       roErrors r \<le> length (roSignatures r) \<and> length (roSignatures r) \<le> roCompleted r \<and> roCompleted r \<le> roTotal r)"
proof -
  obtain x s w1 q where x: "start_replay E W scale cfg base (limit_events cfg es) w = ((x, s), w1)"
    "replay_loop x (enumerate 0 (limit_events cfg es)) s w1 = (q, w')"
    "(\<exists>t. q = Inr t \<and> r = completed x t) \<or> q = Inl (Ended r)"
    by (rule replay_events_cases [OF assms refl])
  note f = start_replay_fields [OF x(1)]
  from replay_loop_accounts [OF x(2) f(7)] f(1) x(3) show ?thesis
    by (auto simp: completed_def accounted_def stopped_report_def)
qed

section \<open>The schedule\<close>

lemma visit_schedule:
  assumes "visit x (i, e) s w = (Inr s', w')"
  shows "rsNextAt s' = next_at x s e \<and> rsPrev s' = evTimestamp e"
  by (cases rule: visit_cases [of x i e s w]) (use assms in \<open>auto simp: stopped_def dest: recorded_counts(5,6)\<close>)

lemma replay_loop_schedule:
  assumes "replay_loop x (enumerate i es) s w = (Inr t, w')"
  shows "rsNextAt t = rsNextAt s + gaps_from (gap_of x) (rsPrev s) es"
  using assms
proof (induction es arbitrary: i s w)
  case (Cons e es)
  then obtain s' w1 where v: "visit x (i, e) s w = (Inr s', w1)" "replay_loop x (enumerate (Suc i) es) s' w1 = (Inr t, w')"
    by (auto split: prod.splits sum.splits)
  from Cons.IH [OF v(2)] visit_schedule [OF v(1)] show ?case by (simp add: next_at_def)
qed simp

lemma gaps_from_least: "m * int (length es) \<le> gaps_from (scaled_gap scale ts d m) prev es"
  by (induction es arbitrary: prev) (auto simp: scaled_gap_def Let_def algebra_simps intro: add_mono)

text \<open>C8. The expected duration a replay reports is the one it keeps to: when the loop runs to its end, the last
  request was due exactly that long after the start of the schedule, and no less than the minimum gap per event.\<close>

theorem replay_schedule:
  assumes "start_replay E W scale cfg base es w = ((x, s), w1)" and "es \<noteq> []"
    and "replay_loop x (enumerate 0 es) s w1 = (Inr t, w2)"
  shows "rsNextAt t - rsNextAt s = rxExpected x \<and> rcMinGap cfg * int (length es) \<le> rxExpected x"
proof -
  note f = start_replay_fields [OF assms(1)]
  have e: "rxExpected x = gaps_from (gap_of x) (rsPrev s) es"
    using f(8,9) assms(2) by (cases es) (simp_all add: expected_duration_def)
  have "gap_of x = scaled_gap (rxScale x) (rcTimeScale cfg) (rcDensity cfg) (rcMinGap cfg)"
    using f(4) by (simp add: gap_of_def [abs_def])
  with gaps_from_least have "rcMinGap cfg * int (length es) \<le> gaps_from (gap_of x) (rsPrev s) es" by simp
  with replay_loop_schedule [OF assms(3)] e show ?thesis by simp
qed

section \<open>Safe mode\<close>

text \<open>What holds of the world through a replay: the clock and the sleeps keep it, and so does every request that
  the configuration lets through.\<close>

lemma visit_world:
  fixes x :: "'w replay_context"
  assumes now: "\<And>w. P w \<Longrightarrow> P (snd (woNow (rxWorld x) w))" and sleep: "\<And>d w. P w \<Longrightarrow> P (woSleep (rxWorld x) d w)"
    and sent: "\<And>rq t w. P w \<Longrightarrow> \<not> blocked (rxConfig x) rq \<Longrightarrow> P (snd (woDo (rxWorld x) rq t w))" and "P w"
  shows "P (snd (visit x (i, e) s w))"
proof -
  have now': "P u \<Longrightarrow> woNow (rxWorld x) u = (t, u') \<Longrightarrow> P u'" for u u' t using now [of u] by simp
  have sent': "P u \<Longrightarrow> \<not> blocked (rxConfig x) rq \<Longrightarrow> woDo (rxWorld x) rq d u = (a, u') \<Longrightarrow> P u'" for u u' rq d a
    using sent [of u rq d] by simp
  have idle: "P u \<Longrightarrow> P (snd (idle_over x s u))" for u by (auto simp: idle_over_def dest: now' split: prod.splits)
  have past: "P u \<Longrightarrow> P (snd (past_deadline x u))" for u
    by (auto simp: past_deadline_def dest: now' split: prod.splits option.splits)
  have wait: "P u \<Longrightarrow> P (wait_until (rxWorld x) d u)" for u d
    by (auto simp: wait_until_def dest: now' intro: sleep split: prod.splits)
  have chaos: "P u \<Longrightarrow> P (chaos_delay x i u)" for u by (simp add: chaos_delay_def Let_def sleep)
  have after: "P u \<Longrightarrow> P (snd (after_answer x i s' u))" for u s'
  proof -
    assume u: "P u"
    obtain t u1 where n: "woNow (rxWorld x) u = (t, u1)" by fastforce
    with past now' u have "P (snd (past_deadline x u1))" by blast
    with n show ?thesis by (auto simp: after_answer_def progress_def split: prod.splits)
  qed
  have exch: "P (snd (exchange x i e t0 parsed rq s' u))" if "P u" "\<not> blocked (rxConfig x) rq" for u t0 parsed rq s'
  proof -
    obtain ans h u1 where d: "woDo (rxWorld x) rq (request_timeout (rxConfig x)) u = ((ans, h), u1)"
      by (metis prod.exhaust)
    with that sent' have u1: "P u1" by blast
    show ?thesis
      using d u1 by (auto simp: exchange_def dest: now' intro: after split: answer.splits option.splits prod.splits)
  qed
  obtain t0 w1 where n: "woNow (rxWorld x) w = (t0, w1)" by fastforce
  with now' \<open>P w\<close> have w1: "P w1" by blast
  obtain b w2 where i: "idle_over x s w1 = (b, w2)" by fastforce
  with idle [OF w1] have w3: "P (wait_until (rxWorld x) (next_at x s e) w2)" by (simp add: wait)
  obtain late w4 where l: "past_deadline x (wait_until (rxWorld x) (next_at x s e) w2) = (late, w4)" by fastforce
  with past [OF w3] have w4: "P w4" by simp
  show ?thesis
    using n i l w4 idle [OF w1] chaos [OF w4] exch
    by (auto simp: visit_def Let_def progress_def dest: now' split: sum.split prod.split)
qed

lemma replay_loop_world:
  fixes x :: "'w replay_context"
  assumes now: "\<And>w. P w \<Longrightarrow> P (snd (woNow (rxWorld x) w))" and sleep: "\<And>d w. P w \<Longrightarrow> P (woSleep (rxWorld x) d w)"
    and sent: "\<And>rq t w. P w \<Longrightarrow> \<not> blocked (rxConfig x) rq \<Longrightarrow> P (snd (woDo (rxWorld x) rq t w))" and "P w"
  shows "P (snd (replay_loop x ies s w))"
  using assms(4)
proof (induction ies arbitrary: s w)
  case (Cons ie ies)
  obtain r w' where v: "visit x ie s w = (r, w')" by fastforce
  obtain i e where ie: "ie = (i, e)" by fastforce
  have "P (snd (visit x (i, e) s w))" by (rule visit_world [OF now sleep sent Cons.prems])
  with v ie have "P w'" by simp
  with v Cons.IH show ?case by (auto split: sum.split)
qed simp

lemma safe_replay_world:
  fixes W :: "'w world"
  assumes "rcSafeMode cfg" and now: "\<And>w. P w \<Longrightarrow> P (snd (woNow W w))" and sleep: "\<And>d w. P w \<Longrightarrow> P (woSleep W d w)"
    and allowed: "\<And>rq t w. P w \<Longrightarrow>
      \<not> is_side_effect (sqMethod rq) \<or> safe_mode_allowed (uPath (sqURL rq)) (rcSafeModeAllow cfg) \<Longrightarrow>
      P (snd (woDo W rq t w))"
    and "P w"
  shows "P (snd (replay_events E W scale cfg base es w))"
proof -
  define ls where "ls = limit_events cfg es"
  obtain x s w1 where st: "start_replay E W scale cfg base ls w = ((x, s), w1)" by (metis prod.exhaust)
  note f = start_replay_fields [OF st]
  have "P (snd (woNow W (snd (woNow W w))))" using now \<open>P w\<close> by blast
  with st have w1: "P w1" by (auto simp: start_replay_def split: prod.splits)
  have "P (snd (replay_loop x (enumerate 0 ls) s w1))"
    by (rule replay_loop_world [where P = P])
       (use f(3,4) now sleep allowed w1 assms(1) in \<open>auto simp: blocked_def\<close>)
  with st \<open>P w\<close> show ?thesis
    by (simp add: replay_events_def Let_def ls_def [symmetric] case_prod_beta split: sum.split)
qed

text \<open>C6. Safe mode protects the service: whatever holds of the service and the clock before a safe-mode replay and is
  kept by reads and by the writes under an allowed prefix holds after it, however the replay ends. No other
  request of the capture is sent.\<close>

theorem safe_mode_protects:
  fixes W :: "'w world"
  assumes "rcSafeMode cfg" and now: "\<And>w. P w \<Longrightarrow> P (snd (woNow W w))" and sleep: "\<And>d w. P w \<Longrightarrow> P (woSleep W d w)"
    and allowed: "\<And>rq t w. P w \<Longrightarrow>
      \<not> is_side_effect (sqMethod rq) \<or> safe_mode_allowed (uPath (sqURL rq)) (rcSafeModeAllow cfg) \<Longrightarrow>
      P (snd (woDo W rq t w))"
    and "P w"
  shows "P (snd (replay_events E W scale cfg base es w))"
  using assms by (rule safe_replay_world)

section \<open>Loading\<close>

lemma responses_map:
  "map_of (foldl (\<lambda>m e. AList.update (evTraceID e) e m) m rs) t =
     (case List.find (\<lambda>e. evTraceID e = t) (rev rs) of None \<Rightarrow> map_of m t | Some e \<Rightarrow> Some e)"
proof (induction rs rule: rev_induct)
  case (snoc r rs)
  then show ?case by (auto simp: update_conv')
qed simp

text \<open>The last response of a trace in the log.\<close>

definition last_response :: "event list \<Rightarrow> string \<Rightarrow> event option" where
  "last_response es t =
     (if t = [] then None else List.find (\<lambda>e. evType e = ''InboundResponse'' \<and> evTraceID e = t) (rev es))"

lemma find_filter: "List.find P (filter Q xs) = List.find (\<lambda>x. Q x \<and> P x) xs"
  by (induction xs) auto

lemma inbound_responses_last: "map_of (inbound_responses es) t = last_response es t"
proof -
  have "map_of (inbound_responses es) t =
      List.find (\<lambda>e. (evType e \<noteq> ''InboundRequest'' \<and> evType e = ''InboundResponse'' \<and> evTraceID e \<noteq> []) \<and> evTraceID e = t) (rev es)"
    by (simp add: inbound_responses_def responses_map rev_filter find_filter split: option.split)
  also have "\<dots> = last_response es t"
    by (cases "t = []") (auto simp: last_response_def find_None_iff intro!: arg_cong [where f = "\<lambda>P. List.find P (rev es)"])
  finally show ?thesis .
qed

lemma pair_response_last:
  "pair_response (inbound_responses es) = (\<lambda>e. case last_response es (evTraceID e) of None \<Rightarrow> e | Some r \<Rightarrow> with_response e r)"
  by (simp add: fun_eq_iff pair_response_def inbound_responses_last)

text \<open>C9. Loading an incident keeps every inbound request once, ordered by time and then by sequence number; a
  request is paired with the last response of its trace, whatever lies between them, and one without a trace
  identifier is paired with none.\<close>

theorem load_inbound_sound:
  "sorted (map (\<lambda>e. (evTimestamp e, evSequence e)) (load_inbound es)) \<and>
   mset (load_inbound es) =
     image_mset (\<lambda>e. case last_response es (evTraceID e) of None \<Rightarrow> e | Some r \<Rightarrow> with_response e r)
       (mset (filter (\<lambda>e. evType e = ''InboundRequest'') es))"
  using event_order.sort_keys_sorted by (simp add: load_inbound_def inbound_requests_def pair_response_last)

section \<open>Replaying against a faithful service\<close>

text \<open>A captured response that can be compared: its body decodes to \<open>b\<close> and the hash, if there is one, is its hash.
  It is steady when no two of the values it produces would be taken for an old and a new one.\<close>

definition comparable :: "go_env \<Rightarrow> event \<Rightarrow> string \<Rightarrow> bool" where
  "comparable E e b \<longleftrightarrow> evResponseCaptured e \<and> b64_decode (evResponseBodyB64 e) = Some b \<and> length b \<le> max_reply \<and>
     evResponseBodySha256 e \<in> {[], hex_encode (gSha256 E b)}"

definition steady :: "produced_value list \<Rightarrow> bool" where
  "steady ps \<longleftrightarrow> (\<forall>p\<in>set ps. \<forall>q\<in>set ps. \<not> pairs_with p q)"

text \<open>A service that answers every captured request as it was captured, whatever its own state.\<close>

definition answers_as_captured ::
  "go_env \<Rightarrow> 'w world \<Rightarrow> replay_config \<Rightarrow> string \<Rightarrow> nat \<Rightarrow> event \<Rightarrow> string \<Rightarrow> bool" where
  "answers_as_captured E W cfg base i e b \<longleftrightarrow>
     (\<exists>rq parsed. prepare_request E cfg base [] i e = Inr (rq, parsed) \<and> \<not> blocked cfg rq \<and>
        (\<forall>w. \<exists>sent w'. woDo W rq (request_timeout cfg) w =
           ((Replied (evStatus e) (evResponseHeaders e) (Some b), sent), w')))"

definition no_difference :: "event \<Rightarrow> event \<Rightarrow> bool" where
  "no_difference c r \<longleftrightarrow> (\<forall>k. compare_events (\<lambda>_ _. False) False c r k = None)"

lemma header_diff_same [simp]: "header_diff h h = []"
  by (auto simp: header_diff_def split: list.split)

lemma fold_pairs_idle:
  "\<forall>(p, q)\<in>set ps. \<not> pairs_with p q \<Longrightarrow>
   foldl (\<lambda>s (o', n). if pairs_with o' n then put_value (pvValue o') (pvValue n) s else s) s ps = s"
  by (induction ps arbitrary: s) auto

lemma captured_body_of: "comparable E e b \<Longrightarrow> fst (captured_body E e) = b"
  by (cases "evResponseBodyB64 e = []") (auto simp: comparable_def captured_body_def b64_decode_def)

lemma update_state_steady:
  assumes "comparable E e b" and "steady (extract_values E (evResponseHeaders e) b)"
  shows "update_state E index e (evResponseHeaders e) b s = s"
proof -
  let ?ps = "extract_values E (evResponseHeaders e) b"
  have h: "captured_headers e = evResponseHeaders e" using assms(1) by (simp add: comparable_def captured_headers_def)
  have idle: "foldl (\<lambda>s (o', n). if pairs_with o' n then put_value (pvValue o') (pvValue n) s else s) s
      (concat (map (\<lambda>o'. map (Pair o') ?ps) ?ps)) = s"
    by (rule fold_pairs_idle) (use assms(2) in \<open>auto simp: steady_def\<close>)
  show ?thesis
    unfolding update_state_def Let_def h captured_body_of [OF assms(1)] idle by simp
qed

lemma replayed_no_difference:
  assumes "comparable E e b"
  shows "no_difference e (replayed_event E e rq sent took (evStatus e) (evResponseHeaders e) b)"
  using assms
  by (auto simp: no_difference_def compare_events_def status_diff_def latency_diff_def body_diff_def replayed_event_def
      comparable_def captured_headers_def captured_hash_def Let_def)

lemma visit_faithful:
  assumes a: "answers_as_captured (rxEnv x) (rxWorld x) (rxConfig x) (rxBase x) i e b"
    and c: "comparable (rxEnv x) e b" and st: "steady (extract_values (rxEnv x) (evResponseHeaders e) b)"
    and idle: "rcMaxIdleTime (rxConfig x) \<le> 0" and dl: "rxDeadline x = None" and s: "rsState s = []"
  shows "\<exists>s' w' r. visit x (i, e) s w = (Inr s', w') \<and> rsState s' = [] \<and> rsErrors s' = rsErrors s \<and>
    rsSkipped s' = rsSkipped s \<and> rsReplayed s' = rsReplayed s @ [r] \<and> no_difference e r"
proof -
  from a obtain rq parsed where p: "prepare_request (rxEnv x) (rxConfig x) (rxBase x) [] i e = Inr (rq, parsed)"
    "\<not> blocked (rxConfig x) rq"
    and d: "\<And>w. \<exists>sent w'. woDo (rxWorld x) rq (request_timeout (rxConfig x)) w =
       ((Replied (evStatus e) (evResponseHeaders e) (Some b), sent), w')"
    by (auto simp: answers_as_captured_def)
  obtain t0 w1 where n: "woNow (rxWorld x) w = (t0, w1)" by fastforce
  let ?w5 = "chaos_delay x i (wait_until (rxWorld x) (next_at x s e) w1)"
  from d [of ?w5] obtain sent w6 where d6: "woDo (rxWorld x) rq (request_timeout (rxConfig x)) ?w5 =
       ((Replied (evStatus e) (evResponseHeaders e) (Some b), sent), w6)" by blast
  obtain t w7 where n7: "woNow (rxWorld x) w6 = (t, w7)" by fastforce
  obtain t8 w8 where n8: "woNow (rxWorld x) w7 = (t8, w8)" by fastforce
  have small: "\<not> max_reply < length b" using c by (simp add: comparable_def)
  let ?s = "record_reply x e parsed rq sent (t - t0) (evStatus e) (evResponseHeaders e) b (scheduled x e s)"
  have "visit x (i, e) s w = (Inr (moved_to i t8 ?s), w8)"
    using n idle dl p d6 n7 n8 small s
    by (simp add: visit_def idle_over_def past_deadline_def exchange_def after_answer_def progress_def moved_to_def
        scheduled_def Let_def)
  then show ?thesis
    using update_state_steady [OF c st] replayed_no_difference [OF c] s
    by (auto simp: record_reply_def)
qed

lemma replay_loop_faithful:
  assumes "\<forall>k<length es. \<exists>b. answers_as_captured (rxEnv x) (rxWorld x) (rxConfig x) (rxBase x) (i + k) (es ! k) b \<and>
      comparable (rxEnv x) (es ! k) b \<and> steady (extract_values (rxEnv x) (evResponseHeaders (es ! k)) b)"
    and "rcMaxIdleTime (rxConfig x) \<le> 0" and "rxDeadline x = None" and "rsState s = []"
  shows "\<exists>t w'. replay_loop x (enumerate i es) s w = (Inr t, w') \<and> rsErrors t = rsErrors s \<and> rsSkipped t = rsSkipped s \<and>
    (\<exists>rs. rsReplayed t = rsReplayed s @ rs \<and> list_all2 no_difference es rs)"
  using assms(1,4)
proof (induction es arbitrary: i s w)
  case (Cons e es)
  obtain b where b: "answers_as_captured (rxEnv x) (rxWorld x) (rxConfig x) (rxBase x) i e b" "comparable (rxEnv x) e b"
    "steady (extract_values (rxEnv x) (evResponseHeaders e) b)"
    using Cons.prems(1) [rule_format, of 0] by auto
  obtain s' w' r where v: "visit x (i, e) s w = (Inr s', w')" "rsState s' = []" "rsErrors s' = rsErrors s"
    "rsSkipped s' = rsSkipped s" "rsReplayed s' = rsReplayed s @ [r]" "no_difference e r"
    using visit_faithful [OF b assms(2,3) Cons.prems(2)] by metis
  have later: "\<forall>k<length es. \<exists>b. answers_as_captured (rxEnv x) (rxWorld x) (rxConfig x) (rxBase x) (Suc i + k) (es ! k) b \<and>
      comparable (rxEnv x) (es ! k) b \<and> steady (extract_values (rxEnv x) (evResponseHeaders (es ! k)) b)"
    using Cons.prems(1) by (metis Suc_less_eq add_Suc_right add_Suc length_Cons nth_Cons_Suc)
  from Cons.IH [OF later v(2), of w'] v show ?case by fastforce
qed simp


section \<open>Examples\<close>

definition plain_config :: replay_config where
  "plain_config = \<lparr>rcTimeScale = Fin 1, rcDensity = Fin 1, rcMinGap = 0, rcMaxWallClock = 0, rcMaxIdleTime = 0,
     rcMaxEvents = 0, rcSafeMode = False, rcSafeModeAllow = [], rcStateAdapters = [], rcChaosDelay = 0,
     rcChaosRequest = 0\<rparr>"

definition same_gap :: "f64 \<Rightarrow> f64 \<Rightarrow> int \<Rightarrow> int" where
  "same_gap ts d gap = gap"

text \<open>A service that keeps the requests it is sent and answers each by its path.\<close>

definition example_world :: "(string \<Rightarrow> answer) \<Rightarrow> (int \<times> sent_request list) world" where
  "example_world reply =
     \<lparr>woNow = (\<lambda>w. (fst w, w)), woSleep = (\<lambda>d w. (fst w + d, snd w)),
      woDo = (\<lambda>rq _ w. ((reply (uPath (sqURL rq)), sqHeader rq), (fst w + 1, snd w @ [rq])))\<rparr>"

definition captured_get :: "int \<Rightarrow> string \<Rightarrow> header \<Rightarrow> header \<Rightarrow> string \<Rightarrow> event" where
  "captured_get t url h rh body =
     zero_event\<lparr>evType := ''InboundRequest'', evTimestamp := t, evMethod := ''GET'', evURL := url, evHeaders := h,
       evStatus := 200, evResponseCaptured := True, evResponseHeaders := rh, evResponseBodyB64 := b64_encode body\<rparr>"

definition two_cookies :: header where
  "two_cookies = [(''Set-Cookie'', [''tenant=7'', ''page=3''])]"

definition cookie_session :: "event list" where
  "cookie_session =
     [captured_get 0 ''http://svc/login'' [] two_cookies ''ok'',
      captured_get 5 ''http://svc/items/3'' [(''Cookie'', [''tenant=7; page=3''])] [] ''ok'']"

definition faithful_answer :: "string \<Rightarrow> answer" where
  "faithful_answer path =
     (if path = ''/login'' then Replied 200 two_cookies (Some ''ok'')
      else if path = ''/items/3'' then Replied 200 [] (Some ''ok'') else Replied 404 [] (Some []))"

definition cookie_replay :: "(replay_error, replay_report) result \<times> (int \<times> sent_request list)" where
  "cookie_replay =
     replay_events example_env (example_world faithful_answer) same_gap plain_config ''http://svc'' cookie_session (0, [])"

lemma example_answers:
  assumes "prepare_request example_env cfg base [] i e = Inr (rq, parsed)" and "\<not> blocked cfg rq"
    and "reply (uPath (sqURL rq)) = Replied (evStatus e) (evResponseHeaders e) (Some b)"
  shows "answers_as_captured example_env (example_world reply) cfg base i e b"
  using assms by (auto simp: answers_as_captured_def example_world_def)

text \<open>The request prepared for an event from the empty state, and its answer.\<close>

definition prepared :: "nat \<Rightarrow> event \<Rightarrow> sent_request \<times> gourl" where
  "prepared i e = (case prepare_request example_env plain_config ''http://svc'' [] i e of
     Inr p \<Rightarrow> p | Inl _ \<Rightarrow> (\<lparr>sqMethod = [], sqURL = \<lparr>uScheme = [], uHost = [], uPath = [], uRawPath = [], uRawQuery = []\<rparr>,
                            sqHeader = [], sqBody = None\<rparr>,
                           \<lparr>uScheme = [], uHost = [], uPath = [], uRawPath = [], uRawQuery = []\<rparr>))"

definition example_faithful :: "nat \<Rightarrow> event \<Rightarrow> bool" where
  "example_faithful i e \<longleftrightarrow>
     is_ok (prepare_request example_env plain_config ''http://svc'' [] i e) \<and> \<not> blocked plain_config (fst (prepared i e)) \<and>
     faithful_answer (uPath (sqURL (fst (prepared i e)))) = Replied (evStatus e) (evResponseHeaders e) (Some ''ok'')"

lemma example_faithful_answers:
  assumes "example_faithful i e"
  shows "answers_as_captured example_env (example_world faithful_answer) plain_config ''http://svc'' i e ''ok''"
proof -
  from assms obtain p where "prepare_request example_env plain_config ''http://svc'' [] i e = Inr p"
    by (auto simp: example_faithful_def is_ok_def split: sum.splits)
  with assms show ?thesis
    by (intro example_answers [of _ _ _ _ "fst p" "snd p"]) (simp_all add: example_faithful_def prepared_def)
qed

definition cookie_paths :: "string list" where
  "cookie_paths = map (\<lambda>rq. uPath (sqURL rq)) (snd (snd cookie_replay))"

text \<open>Two cookies in one response are taken for an old and a new value of each other, although the service
  answers exactly as it was captured: the values 7 and 3 are then exchanged in every later request, so the
  capture of /items/3 is replayed as a request for /items/7, which the service does not know, and the difference is
  blamed on the service.\<close>

theorem cookies_cross:
  "answers_as_captured example_env (example_world faithful_answer) plain_config ''http://svc'' 0 (cookie_session ! 0) ''ok'' \<and>
   answers_as_captured example_env (example_world faithful_answer) plain_config ''http://svc'' 1 (cookie_session ! 1) ''ok'' \<and>
   cookie_paths = [''/login'', ''/items/7''] \<and>
   (\<exists>r. fst cookie_replay = Inr r \<and> map evStatus (roReplayed r) = [200, 404])"
proof -
  have "example_faithful 0 (cookie_session ! 0)" "example_faithful 1 (cookie_session ! 1)" by code_simp+
  note a = this [THEN example_faithful_answers]
  have p: "cookie_paths = [''/login'', ''/items/7'']" by code_simp
  have "(case fst cookie_replay of Inr r \<Rightarrow> map evStatus (roReplayed r) | Inl _ \<Rightarrow> []) = [200, 404]" by code_simp
  then have "\<exists>r. fst cookie_replay = Inr r \<and> map evStatus (roReplayed r) = [200, 404]" by (auto split: sum.splits)
  with a p show ?thesis by blast
qed

text \<open>A session without cookies, for the other properties.\<close>

definition one_get :: "event list" where
  "one_get = [captured_get 0 ''http://svc/items/3'' [] [] ''ok'']"


theorem replay_accounts_witness:
  "\<exists>r w'. cookie_replay = (Inr r, w') \<and> roCompleted r + roSkipped r = roTotal r \<and> roTotal r = 2"
proof -
  have "is_ok (fst cookie_replay)" by code_simp
  then obtain r where "fst cookie_replay = Inr r" by (auto simp: is_ok_def split: sum.splits)
  then obtain w' where r: "cookie_replay = (Inr r, w')" by (metis prod.collapse)
  have e: "(case fst cookie_replay of Inr r \<Rightarrow> roEnding r = Completed | Inl _ \<Rightarrow> False)" by code_simp
  have l: "length (limit_events plain_config cookie_session) = 2" by code_simp
  have "roEnding r = Completed" using e unfolding r by simp
  with replay_accounts [OF r [unfolded cookie_replay_def]] l
  have "roCompleted r + roSkipped r = roTotal r \<and> roTotal r = 2" by simp
  with r show ?thesis by blast
qed

theorem replay_schedule_witness:
  "\<exists>x s t w1 w2. start_replay example_env (example_world faithful_answer) same_gap plain_config ''http://svc'' cookie_session
       (0, []) = ((x, s), w1) \<and>
     replay_loop x (enumerate 0 cookie_session) s w1 = (Inr t, w2) \<and> rsNextAt t - rsNextAt s = rxExpected x"
proof -
  obtain x s w1 where st: "start_replay example_env (example_world faithful_answer) same_gap plain_config ''http://svc''
      cookie_session (0, []) = ((x, s), w1)" by (metis prod.exhaust)
  have "case start_replay example_env (example_world faithful_answer) same_gap plain_config ''http://svc''
      cookie_session (0, []) of ((x, s), w1) \<Rightarrow> is_ok (fst (replay_loop x (enumerate 0 cookie_session) s w1))"
    by code_simp
  with st obtain t w2 where l: "replay_loop x (enumerate 0 cookie_session) s w1 = (Inr t, w2)"
    by (cases "replay_loop x (enumerate 0 cookie_session) s w1") (auto simp: is_ok_def split: sum.splits)
  with replay_schedule [OF st _ l] st show ?thesis by (auto simp: cookie_session_def)
qed

text \<open>A captured write that safe mode keeps from the service: no request without effect is counted.\<close>

theorem safe_mode_protects_witness:
  "filter (\<lambda>rq. is_side_effect (sqMethod rq))
     (snd (snd (replay_events example_env (example_world faithful_answer) same_gap (plain_config\<lparr>rcSafeMode := True\<rparr>)
       ''http://svc'' [(hd one_get)\<lparr>evMethod := ''DELETE''\<rparr>] (0, [])))) = []"
  by (rule safe_mode_protects [where P = "\<lambda>w. filter (\<lambda>rq. is_side_effect (sqMethod rq)) (snd w) = []"])
     (auto simp: example_world_def plain_config_def safe_mode_allowed_def filter_empty_conv)

section \<open>What the analyses count\<close>

definition issue_free :: "go_env \<Rightarrow> (value_kind \<times> string) set \<Rightarrow> event \<Rightarrow> bool" where
  "issue_free E known e \<longleftrightarrow> \<not> is_side_effect (evMethod e) \<and> expired_at E e = None \<and>
     (\<forall>c\<in>set (identify_consumers e). (cvKind c, cvValue c) \<in> known)"

lemma event_issues_empty [simp]: "event_issues E known i e = [] \<longleftrightarrow> issue_free E known e"
  by (auto simp: event_issues_def issue_free_def Let_def filter_empty_conv split: option.splits)

definition produced_until :: "go_env \<Rightarrow> event list \<Rightarrow> nat \<Rightarrow> (value_kind \<times> string) set" where
  "produced_until E es i = (\<Union>j<i. produced_keys E (es ! j))"

lemma issues_from_empty:
  "issues_from E known i es = [] \<longleftrightarrow> (\<forall>k<length es. issue_free E (known \<union> produced_until E es k) (es ! k))"
proof (induction es arbitrary: known i)
  case (Cons e es)
  have u: "produced_until E (e # es) (Suc k) = produced_keys E e \<union> produced_until E es k" for k
    by (force simp: produced_until_def lessThan_Suc_eq_insert_0)
  show ?case
    by (auto simp: Cons.IH u Un_assoc produced_until_def [of _ _ 0] less_Suc_eq_0_disj all_conj_distrib
        simp flip: Un_assoc)
qed simp

lemma count_kinds:
  "length (filter (\<lambda>v. viKind v = SideEffect) vs) +
   (length (filter (\<lambda>v. case viKind v of MissingDep _ \<Rightarrow> True | _ \<Rightarrow> False) vs) +
    length (filter (\<lambda>v. case viKind v of ExpiredToken _ \<Rightarrow> True | _ \<Rightarrow> False) vs)) = length vs"
  by (induction vs) (auto split: issue_kind.split)

text \<open>The readiness score is 100 exactly for the incidents that the checks call safe: no request is a write, no
  bearer token had expired when it was used, and every token or cookie a request sends was produced, as a value
  of the same kind, by the response to an earlier request. The score lies between 0 and 100, and every issue is
  counted in one of the three totals.\<close>

theorem verify_ready:
  "(vrScore (verify_incident E es) = 100 \<longleftrightarrow>
      (\<forall>k<length es. issue_free E (produced_until E es k) (es ! k))) \<and>
   0 \<le> vrScore (verify_incident E es) \<and> vrScore (verify_incident E es) \<le> 100 \<and>
   vrUnsafe (verify_incident E es) + vrMissing (verify_incident E es) + vrExpired (verify_incident E es) =
     length (vrIssues (verify_incident E es))"
proof -
  define vs where "vs = issues_from E {} 0 es"
  define u where "u = length (filter (\<lambda>v. viKind v = SideEffect) vs)"
  define m where "m = length (filter (\<lambda>v. case viKind v of MissingDep _ \<Rightarrow> True | _ \<Rightarrow> False) vs)"
  define x where "x = length (filter (\<lambda>v. case viKind v of ExpiredToken _ \<Rightarrow> True | _ \<Rightarrow> False) vs)"
  have n: "u + m + x = length vs" using count_kinds [of vs] by (simp add: u_def m_def x_def)
  have r: "verify_incident E es = \<lparr>vrScore = (if 100 - (int u * 10 + int m * 15 + int x * 20) < 0 then 0
      else 100 - (int u * 10 + int m * 15 + int x * 20)), vrUnsafe = u, vrMissing = m, vrExpired = x, vrIssues = vs\<rparr>"
    by (simp add: verify_incident_def Let_def vs_def u_def m_def x_def)
  have "vrScore (verify_incident E es) = 100 \<longleftrightarrow> u + m + x = 0" unfolding r by simp linarith
  moreover have "vs = [] \<longleftrightarrow> (\<forall>k<length es. issue_free E (produced_until E es k) (es ! k))"
    by (simp add: vs_def issues_from_empty)
  ultimately show ?thesis using n unfolding r by simp
qed

theorem verify_ready_witness: "vrScore (verify_incident example_env one_get) = 100"
proof -
  have "issue_free example_env (produced_until example_env one_get 0) (one_get ! 0)"
    by (simp add: one_get_def captured_get_def issue_free_def is_side_effect_def upper_def byte_def chr_def expired_at_def bearer_value_def
        identify_consumers_def cookie_values_def zero_event_def hvalues_def to_upper_def)
  then have "\<forall>k<length one_get. issue_free example_env (produced_until example_env one_get k) (one_get ! k)"
    by (simp add: one_get_def)
  with verify_ready [of example_env one_get] show ?thesis by blast
qed

lemma count_chains_exact:
  "count_chains E known es =
     card {k. k < length es \<and> (\<exists>c\<in>set (identify_consumers (es ! k)).
        cvValue c \<in> known \<union> snd ` produced_until E es k)}"
proof (induction es arbitrary: known)
  case (Cons e es)
  have u: "produced_until E (e # es) (Suc k) = produced_keys E e \<union> produced_until E es k" for k
    by (force simp: produced_until_def lessThan_Suc_eq_insert_0)
  have k: "snd ` produced_keys E e = pvValue ` set (produced_by E e)"
    by (force simp: produced_keys_def)
  let ?P = "\<lambda>k. \<exists>c\<in>set (identify_consumers ((e # es) ! k)). cvValue c \<in> known \<union> snd ` produced_until E (e # es) k"
  let ?Q = "\<lambda>k. \<exists>c\<in>set (identify_consumers (es ! k)).
       cvValue c \<in> (known \<union> pvValue ` set (produced_by E e)) \<union> snd ` produced_until E es k"
  have q: "?P (Suc k) = ?Q k" for k by (auto simp: u image_Un k)
  have split: "{k. k < length (e # es) \<and> ?P k} = {k. k = 0 \<and> ?P 0} \<union> Suc ` {k. k < length es \<and> ?Q k}"
    (is "?A = ?B \<union> ?C")
  proof (intro set_eqI)
    fix n show "n \<in> ?A \<longleftrightarrow> n \<in> ?B \<union> ?C" using q by (cases n) auto
  qed
  have "card ?A = card ?B + card ?C" unfolding split by (rule card_Un_disjoint) auto
  also have "card ?C = card {k. k < length es \<and> ?Q k}" by (simp add: card_image)
  also have "card ?B = (if \<exists>c\<in>set (identify_consumers e). cvValue c \<in> known then 1 else 0)"
    by (auto simp: produced_until_def)
  finally show ?case using Cons.IH [of "known \<union> pvValue ` set (produced_by E e)"] by simp
qed (simp add: produced_until_def)

text \<open>An inspected request counts as a link of a dependency chain exactly when it sends a value that the response
  to an earlier request produced, and the timeline has one entry for each request, in order.\<close>

theorem inspect_chains_exact:
  "inChains (inspect_incident E es) =
     card {k. k < length es \<and> (\<exists>c\<in>set (identify_consumers (es ! k)). \<exists>j<k. \<exists>p\<in>set (produced_by E (es ! j)).
        pvValue p = cvValue c)} \<and>
   map tlIndex (inTimeline (inspect_incident E es)) = [1..<Suc (length es)] \<and>
   map tlMethod (inTimeline (inspect_incident E es)) = map evMethod es"
proof -
  have v: "v \<in> snd ` produced_until E es k \<longleftrightarrow> (\<exists>j<k. \<exists>p\<in>set (produced_by E (es ! j)). pvValue p = v)" for v k
    by (force simp: produced_until_def produced_keys_def)
  have c: "inChains (inspect_incident E es) =
     card {k. k < length es \<and> (\<exists>c\<in>set (identify_consumers (es ! k)). \<exists>j<k. \<exists>p\<in>set (produced_by E (es ! j)).
        pvValue p = cvValue c)}"
    by (simp add: inspect_incident_def count_chains_exact v)
  have i: "map (\<lambda>ie. Suc (fst ie)) (enumerate n es) = [Suc n..<Suc (n + length es)]" for n
    by (simp add: enumerate_eq_zip map_zip_map [symmetric] map_Suc_upt flip: map_map [unfolded comp_def])
  have m: "map (\<lambda>ie. evMethod (snd ie)) (enumerate n es) = map evMethod es" for n
    by (induction es arbitrary: n) auto
  have "map tlIndex (inTimeline (inspect_incident E es)) = map (\<lambda>ie. Suc (fst ie)) (enumerate 0 es)"
    "map tlMethod (inTimeline (inspect_incident E es)) = map (\<lambda>ie. evMethod (snd ie)) (enumerate 0 es)"
    by (auto simp: inspect_incident_def timeline_entry_of_def)
  with c i [of 0] m [of 0] show ?thesis by simp
qed

end
