(* ===== verification/Replay.thy ===== *)
theory Replay
  imports ReplayDriver
begin

text \<open>
  \<open>pkg/replay\<close> (\<open>replay.go\<close>): the older replayer that walks a captured log in time order, sends its outbound calls to
  a target and only prints the rest. The log file is its bytes; \<open>bufio.Scanner\<close> cuts it into lines and gives up at a
  line that does not fit its buffer of 64 KiB. The JSON decoder of a line, the TCP dial and the HTTP clients are
  parameters; a client is told whether it is the HTTP/2 one, and answers a status or nothing.
\<close>

section \<open>Loading\<close>

text \<open>\<open>bufio.ScanLines\<close> on a buffer of at most 65536 bytes: the line break must fit too, and a carriage return before
  it is dropped. \<open>NewReplayer\<close> never asks for the scanner's error.\<close>

definition scan_buffer :: nat where
  "scan_buffer = 65536"

definition file_lines :: "string \<Rightarrow> string list" where
  "file_lines data =
     (let ls = split_on (chr 10) data in if List.last ls = [] then butlast ls else ls)"

definition scanned_lines :: "string list \<Rightarrow> string list" where
  "scanned_lines ls = map (\<lambda>l. trim_suffix l [chr 13]) (takeWhile (\<lambda>l. length l < scan_buffer) ls)"

datatype load_error = LogNotOpened | EventUnparsable | LogEmpty

record replayer =
  rrEvents :: "event list"
  rrStrict :: bool
  rrAllowWrites :: bool
  rrTarget :: "gourl option"

definition new_replayer ::
  "(string \<Rightarrow> event option) \<Rightarrow> bool \<Rightarrow> bool \<Rightarrow> string option \<Rightarrow> (load_error, replayer) result" where
  "new_replayer dec strict writes file =
     (case file of
        None \<Rightarrow> Inl LogNotOpened
      | Some data \<Rightarrow>
          and_then (map_err (\<lambda>l. case dec l of None \<Rightarrow> Inl EventUnparsable | Some e \<Rightarrow> Inr e)
                     (scanned_lines (file_lines data))) (\<lambda>es.
          and_then (fail_if (es = []) LogEmpty) (\<lambda>_.
            Inr \<lparr>rrEvents = stable_sort event_less es, rrStrict = strict, rrAllowWrites = writes, rrTarget = None\<rparr>)))"

section \<open>Preflight\<close>

datatype preflight_error = TargetNotAbsolute | TargetUnreachable

text \<open>The address is dialled before the target is stored.\<close>

definition dial_address :: "gourl \<Rightarrow> string \<Rightarrow> string" where
  "dial_address u base =
     (if contains (uHost u) '':'' then uHost u
      else uHost u @ (if has_prefix base ''https'' then '':443'' else '':80''))"

definition preflight ::
  "go_env \<Rightarrow> (string \<Rightarrow> bool) \<Rightarrow> string \<Rightarrow> replayer \<Rightarrow> (preflight_error, replayer) result" where
  "preflight E dial base r =
     (case gUrlParse E base of
        None \<Rightarrow> Inl TargetNotAbsolute
      | Some u \<Rightarrow>
          if uScheme u = [] \<or> uHost u = [] then Inl TargetNotAbsolute
          else if \<not> dial (dial_address u base) then Inl TargetUnreachable
          else Inr (r\<lparr>rrTarget := Some u\<rparr>))"

section \<open>Replay\<close>

datatype stop_reason =
    MovedBackwards | WriteBlocked | BodyNotBase64 | BodyHashDiffers | TargetNotSet | CapturedURLInvalid
  | RequestNotBuilt | RequestFailed | StatusDiffers | DialFailed | TypeUnknown

datatype replay_failure = Divergence nat stop_reason | CoverageMismatch nat nat

type_synonym 'w client = "bool \<Rightarrow> sent_request \<Rightarrow> 'w \<Rightarrow> int option \<times> 'w"

definition is_write :: "string \<Rightarrow> bool" where
  "is_write m \<longleftrightarrow> to_upper m \<in> {''POST'', ''PUT'', ''PATCH'', ''DELETE''}"

definition captured_payload :: "go_env \<Rightarrow> event \<Rightarrow> (stop_reason, string option) result" where
  "captured_payload E e =
     (if evBodyB64 e = [] then Inr None
      else case b64_decode (evBodyB64 e) of
        None \<Rightarrow> Inl BodyNotBase64
      | Some b \<Rightarrow>
          if evBodySha256 e \<noteq> [] \<and> hex_encode (gSha256 E b) \<noteq> evBodySha256 e then Inl BodyHashDiffers
          else Inr (Some b))"

definition outbound_headers :: "event \<Rightarrow> header" where
  "outbound_headers e =
     foldl (\<lambda>acc (k, vs).
         if equal_fold k ''Authorization'' \<or> equal_fold k ''Cookie'' then acc
         else foldl (\<lambda>acc v. if v = ''[REDACTED]'' then acc else hadd acc k v) acc vs)
       [] (evHeaders e)"

text \<open>Everything \<open>executeOutboundCall\<close> does before it sends.\<close>

definition outbound_request :: "go_env \<Rightarrow> replayer \<Rightarrow> event \<Rightarrow> (stop_reason, sent_request) result" where
  "outbound_request E r e =
     and_then (fail_if (\<not> rrAllowWrites r \<and> is_write (evMethod e)) WriteBlocked) (\<lambda>_.
     and_then (captured_payload E e) (\<lambda>body.
       case rrTarget r of
         None \<Rightarrow> Inl TargetNotSet
       | Some target \<Rightarrow>
           (case gUrlParse E (evURL e) of
              None \<Rightarrow> Inl CapturedURLInvalid
            | Some u \<Rightarrow>
                (case new_request E (evMethod e)
                        (gUrlString E (target\<lparr>uPath := uPath u, uRawPath := uRawPath u, uRawQuery := uRawQuery u\<rparr>)) body of
                   None \<Rightarrow> Inl RequestNotBuilt
                 | Some rq \<Rightarrow>
                     Inr (rq\<lparr>sqHeader :=
                       (if evGrpcServiceMethod e = [] then outbound_headers e
                        else hset (outbound_headers e) ''Content-Type'' ''application/grpc'')\<rparr>)))))"

definition judge_status :: "replayer \<Rightarrow> event \<Rightarrow> int option \<Rightarrow> (stop_reason, unit) result" where
  "judge_status r e answered =
     (case answered of
        None \<Rightarrow>
          if evGrpcServiceMethod e = [] then Inl RequestFailed
          else fail_if (rrStrict r \<and> 0 < evStatus e) DialFailed
      | Some status \<Rightarrow> fail_if (rrStrict r \<and> 0 < evStatus e \<and> evStatus e \<noteq> status) StatusDiffers)"

definition execute_outbound ::
  "go_env \<Rightarrow> 'w client \<Rightarrow> replayer \<Rightarrow> event \<Rightarrow> 'w \<Rightarrow> (stop_reason, unit) result \<times> 'w" where
  "execute_outbound E C r e w =
     (case outbound_request E r e of
        Inl err \<Rightarrow> (Inl err, w)
      | Inr rq \<Rightarrow> (case C (evGrpcServiceMethod e \<noteq> []) rq w of (answered, w') \<Rightarrow> (judge_status r e answered, w')))"

text \<open>\<open>applyEvent\<close> prints; it only fails on an unknown type under \<open>Strict\<close>.\<close>

definition apply_event :: "replayer \<Rightarrow> event \<Rightarrow> (stop_reason, unit) result" where
  "apply_event r e =
     fail_if (rrStrict r \<and>
       evType e \<notin> {''InboundRequest'', ''InboundResponse'', ''OutboundCall'', ''Timeout'', ''Retry''}) TypeUnknown"

definition is_sent :: "event \<Rightarrow> bool" where
  "is_sent e \<longleftrightarrow> evType e = ''OutboundCall'' \<and> evMethod e \<noteq> ''CONNECT''"

text \<open>The loop, with the index, the last timestamp (0 for none) and the two counters.\<close>

fun replay_from ::
  "go_env \<Rightarrow> 'w client \<Rightarrow> replayer \<Rightarrow> nat \<Rightarrow> int \<Rightarrow> nat \<Rightarrow> nat \<Rightarrow> event list \<Rightarrow> 'w \<Rightarrow>
   (replay_failure, unit) result \<times> 'w" where
  "replay_from E C r i lasttime wanted seen [] w =
     (fail_if (0 < wanted \<and> seen = 0) (CoverageMismatch wanted seen), w)"
| "replay_from E C r i lasttime wanted seen (e # es) w =
     (if lasttime \<noteq> 0 \<and> evTimestamp e < lasttime then (Inl (Divergence i MovedBackwards), w)
      else if is_sent e then
        (case execute_outbound E C r e w of
           (Inl err, w') \<Rightarrow> (Inl (Divergence i err), w')
         | (Inr _, w') \<Rightarrow> replay_from E C r (Suc i) (evTimestamp e) (Suc wanted) (Suc seen) es w')
      else
        (case apply_event r e of
           Inl err \<Rightarrow> (Inl (Divergence i err), w)
         | Inr _ \<Rightarrow> replay_from E C r (Suc i) (evTimestamp e) wanted seen es w))"

definition replay :: "go_env \<Rightarrow> 'w client \<Rightarrow> replayer \<Rightarrow> 'w \<Rightarrow> (replay_failure, unit) result \<times> 'w" where
  "replay E C r w = replay_from E C r 0 0 0 0 (rrEvents r) w"

section \<open>Correctness\<close>

text \<open>The verdict on one event when the answers of the target depend on the request alone.\<close>

definition event_check ::
  "go_env \<Rightarrow> (bool \<Rightarrow> sent_request \<Rightarrow> int option) \<Rightarrow> replayer \<Rightarrow> event \<Rightarrow> (stop_reason, unit) result" where
  "event_check E reply r e =
     (if is_sent e then and_then (outbound_request E r e) (\<lambda>rq. judge_status r e (reply (evGrpcServiceMethod e \<noteq> []) rq))
      else apply_event r e)"

definition steady :: "(bool \<Rightarrow> sent_request \<Rightarrow> int option) \<Rightarrow> unit client" where
  "steady reply h rq w = (reply h rq, w)"

lemma execute_steady:
  "is_sent e \<Longrightarrow> execute_outbound E (steady reply) r e () = (event_check E reply r e, ())"
  by (cases "outbound_request E r e") (auto simp: execute_outbound_def event_check_def steady_def)

definition first_failure ::
  "(event \<Rightarrow> (stop_reason, unit) result) \<Rightarrow> nat \<Rightarrow> event list \<Rightarrow> (replay_failure, unit) result" where
  "first_failure f i es =
     (case List.find (\<lambda>(j, e). \<not> is_ok (f e)) (enumerate i es) of
        None \<Rightarrow> Inr () | Some (j, e) \<Rightarrow> Inl (Divergence j (projl (f e))))"

lemma first_failure_simps [simp]:
  "first_failure f i [] = Inr ()"
  "f e = Inl err \<Longrightarrow> first_failure f i (e # es) = Inl (Divergence i err)"
  "f e = Inr u \<Longrightarrow> first_failure f i (e # es) = first_failure f (Suc i) es"
  by (simp_all add: first_failure_def)

lemma replay_from_steady:
  assumes "sorted (map evTimestamp es)" and "\<And>e. e \<in> set es \<Longrightarrow> lasttime \<noteq> 0 \<Longrightarrow> lasttime \<le> evTimestamp e"
  shows "replay_from E (steady reply) r i lasttime n n es () = (first_failure (event_check E reply r) i es, ())"
  using assms
proof (induction es arbitrary: i lasttime n)
  case (Cons e es)
  then have "\<not> (lasttime \<noteq> 0 \<and> evTimestamp e < lasttime)" by force
  then have ord: "(lasttime \<noteq> 0 \<and> evTimestamp e < lasttime) = False" by blast
  from Cons.prems have rest: "sorted (map evTimestamp es)"
    "\<And>x. x \<in> set es \<Longrightarrow> evTimestamp e \<noteq> 0 \<Longrightarrow> evTimestamp e \<le> evTimestamp x" by auto
  show ?case
  proof (cases "is_sent e")
    case True
    with Cons.IH [OF rest] show ?thesis
      by (cases "event_check E reply r e") (simp_all add: execute_steady ord del: de_Morgan_conj)
  next
    case False
    with Cons.IH [OF rest] show ?thesis
      by (cases "apply_event r e") (simp_all add: event_check_def ord del: de_Morgan_conj)
  qed
qed (auto simp: fail_if_def)

lemma new_replayer_sorted:
  assumes "new_replayer dec strict writes file = Inr r"
  shows "sorted (map evTimestamp (rrEvents r))"
proof -
  from assms obtain es where "rrEvents r = stable_sort event_less es"
    by (auto simp: new_replayer_def split: option.splits)
  then have "sorted (map (\<lambda>e. (evTimestamp e, evSequence e)) (rrEvents r))" by (simp add: event_order.sort_keys_sorted)
  then have "sorted_wrt (\<lambda>a b. (evTimestamp a, evSequence a) \<le> (evTimestamp b, evSequence b)) (rrEvents r)"
    by (simp add: sorted_wrt_map)
  then show ?thesis unfolding sorted_wrt_map by (rule sorted_wrt_mono_rel [rotated]) auto
qed

lemma preflight_events: "preflight E dial base r = Inr r' \<Longrightarrow> rrEvents r' = rrEvents r"
  by (auto simp: preflight_def split: option.splits if_splits)

text \<open>Against a target whose answers depend on the request alone, the replay of a loaded log stops at the first
  event, in time order, whose own check fails, and succeeds when there is none. The checks for timestamps that move
  backwards and for outbound calls that were not observed never fire.\<close>

theorem replay_verdict_exact:
  assumes "new_replayer dec strict writes file = Inr r" and "preflight E dial base r = Inr r'"
  shows "fst (replay E (steady reply) r' ()) = first_failure (event_check E reply r') 0 (rrEvents r') \<and>
    sorted (map evTimestamp (rrEvents r'))"
proof -
  have "sorted (map evTimestamp (rrEvents r'))"
    using new_replayer_sorted [OF assms(1)] preflight_events [OF assms(2)] by simp
  with replay_from_steady show ?thesis by (simp add: replay_def)
qed

lemma new_request_method: "new_request E m url body = Some rq \<Longrightarrow> sqMethod rq = (if m = [] then ''GET'' else m)"
  by (auto simp: new_request_def Let_def split: if_splits option.splits)

lemma outbound_request_method:
  assumes "outbound_request E r e = Inr rq" and "\<not> rrAllowWrites r"
  shows "\<not> is_write (sqMethod rq)"
proof -
  from assms obtain body target where e: "\<not> is_write (evMethod e)" and "rrTarget r = Some target"
    and "(case gUrlParse E (evURL e) of None \<Rightarrow> Inl CapturedURLInvalid
       | Some u \<Rightarrow> (case new_request E (evMethod e)
           (gUrlString E (target\<lparr>uPath := uPath u, uRawPath := uRawPath u, uRawQuery := uRawQuery u\<rparr>)) body of
             None \<Rightarrow> Inl RequestNotBuilt
           | Some q \<Rightarrow> Inr (q\<lparr>sqHeader := (if evGrpcServiceMethod e = [] then outbound_headers e
               else hset (outbound_headers e) ''Content-Type'' ''application/grpc'')\<rparr>))) = Inr rq"
    by (cases "rrTarget r") (auto simp: outbound_request_def)
  then obtain url q where q: "new_request E (evMethod e) url body = Some q" "sqMethod rq = sqMethod q"
    by (auto split: option.splits)
  with new_request_method [OF q(1)] e show ?thesis by (auto simp: is_write_def to_upper_def upper_def byte_def)
qed

lemma replay_from_world:
  assumes "\<And>h rq w. \<not> is_write (sqMethod rq) \<Longrightarrow> P w \<Longrightarrow> P (snd (C h rq w))" and "\<not> rrAllowWrites r"
  shows "P w \<Longrightarrow> P (snd (replay_from E C r i t a b es w))"
proof (induction es arbitrary: i t a b w)
  case (Cons e es)
  have "P (snd (execute_outbound E C r e w))"
  proof (cases "outbound_request E r e")
    case (Inr rq)
    with assms(1) [OF outbound_request_method [OF Inr assms(2)] Cons.prems] show ?thesis
      by (simp add: execute_outbound_def case_prod_beta)
  qed (simp add: execute_outbound_def Cons.prems)
  with Cons show ?case by (auto split: sum.splits prod.splits)
qed simp

text \<open>Without the opt-in for writes, whatever the log and the clients do, a replay keeps every property of the world
  that requests other than POST, PUT, PATCH and DELETE keep: no write is ever sent.\<close>

theorem writes_never_sent:
  assumes "\<And>h rq w. \<not> is_write (sqMethod rq) \<Longrightarrow> P w \<Longrightarrow> P (snd (C h rq w))"
    and "\<not> rrAllowWrites r" and "P w"
  shows "P (snd (replay E C r w))"
  unfolding replay_def by (rule replay_from_world) (use assms in auto)

text \<open>A line of 64 KiB or more ends the log: it and every event behind it are dropped and the load still succeeds
  with the events before it, because the scanner's error is not read.\<close>

theorem long_line_truncates:
  assumes "file_lines data = before @ long # behind" and "scan_buffer \<le> length long"
    and "file_lines short = before"
  shows "new_replayer dec strict writes (Some data) = new_replayer dec strict writes (Some short)"
proof -
  have "takeWhile (\<lambda>l. length l < scan_buffer) (before @ long # behind) = takeWhile (\<lambda>l. length l < scan_buffer) before"
    using assms(2) by (induction before) auto
  with assms show ?thesis by (simp add: new_replayer_def scanned_lines_def)
qed

section \<open>Examples\<close>

definition captured_call :: "string \<Rightarrow> event" where
  "captured_call line =
     zero_event\<lparr>evType := ''OutboundCall'', evTimestamp := int (length line), evMethod := line, evURL := ''http://dep/x'',
       evStatus := 200\<rparr>"

definition example_target :: gourl where
  "example_target = \<lparr>uScheme = ''http'', uHost = ''t'', uPath = [], uRawPath = [], uRawQuery = []\<rparr>"

definition example_replayer :: replayer where
  "example_replayer = \<lparr>rrEvents = [captured_call ''GET'', captured_call ''POST''], rrStrict = True, rrAllowWrites = False,
     rrTarget = None\<rparr>"

definition example_lines :: string where
  "example_lines = ''POST'' @ chr 10 # ''GET''"

lemma replay_verdict_exact_witness:
  "fst (replay example_env (steady (\<lambda>_ _. Some 200)) (example_replayer\<lparr>rrTarget := Some example_target\<rparr>) ()) =
     Inl (Divergence 1 WriteBlocked)"
proof -
  have "new_replayer (\<lambda>l. Some (captured_call l)) True False (Some example_lines) = Inr example_replayer"
    and "preflight example_env (\<lambda>a. a = ''t:80'') ''http://t'' example_replayer =
      Inr (example_replayer\<lparr>rrTarget := Some example_target\<rparr>)"
    by code_simp+
  from replay_verdict_exact [OF this, of "\<lambda>_ _. Some 200"]
  have "fst (replay example_env (steady (\<lambda>_ _. Some 200)) (example_replayer\<lparr>rrTarget := Some example_target\<rparr>) ()) =
    first_failure (event_check example_env (\<lambda>_ _. Some 200) (example_replayer\<lparr>rrTarget := Some example_target\<rparr>)) 0
      (rrEvents (example_replayer\<lparr>rrTarget := Some example_target\<rparr>))" by blast
  also have "\<dots> = Inl (Divergence 1 WriteBlocked)" by code_simp
  finally show ?thesis .
qed

definition recording_client :: "sent_request list client" where
  "recording_client h rq w = (Some 200, w @ [rq])"

lemma writes_never_sent_witness:
  "filter (\<lambda>rq. is_write (sqMethod rq))
     (snd (replay example_env recording_client (example_replayer\<lparr>rrTarget := Some example_target\<rparr>) [])) = []"
  by (rule writes_never_sent [where P = "\<lambda>w. filter (\<lambda>rq. is_write (sqMethod rq)) w = []"])
    (simp_all add: recording_client_def example_replayer_def)

lemma long_line_truncates_witness:
  "new_replayer (\<lambda>l. Some (captured_call l)) True False
     (Some (''GET'' @ chr 10 # replicate 65536 (CHR ''x'') @ chr 10 # ''POST'')) =
   new_replayer (\<lambda>l. Some (captured_call l)) True False (Some ''GET'')"
proof (rule long_line_truncates)
  have plain: "chr 10 \<notin> set ''GET''" "chr 10 \<notin> set ''POST''" "chr 10 \<noteq> CHR ''x''" by code_simp+
  then have "chr 10 \<notin> set (replicate 65536 (CHR ''x''))" by simp
  from split_on_append [OF plain(1)] split_on_append [OF this] split_on_plain [OF plain(2)]
  have "split_on (chr 10) (''GET'' @ chr 10 # replicate 65536 (CHR ''x'') @ chr 10 # ''POST'') =
    [''GET'', replicate 65536 (CHR ''x''), ''POST'']" by metis
  then show "file_lines (''GET'' @ chr 10 # replicate 65536 (CHR ''x'') @ chr 10 # ''POST'') =
    [''GET''] @ replicate 65536 (CHR ''x'') # [''POST'']" by (simp add: file_lines_def)
  show "scan_buffer \<le> length (replicate 65536 (CHR ''x''))" by (simp add: scan_buffer_def)
  show "file_lines ''GET'' = [''GET'']" by code_simp
qed

end
