(* ===== verification/GrpcSim.thy ===== *)
theory GrpcSim
  imports GoEnv "HOL-Library.Word"
begin

text \<open>
  \<open>pkg/grpcsim\<close> (\<open>registry.go\<close>): loading Protobuf schemas in dependency order, the index of methods and messages, the
  gRPC frame format, semantic decoding and encoding, and example responses. The Protobuf library (parsing of
  schemas, the codec of a message, the conflict check of its file registry) is a parameter; a descriptor is what
  the code reads of one.
\<close>

unbundle bit_operations_syntax

section \<open>Frames\<close>

text \<open>\<open>binary.BigEndian\<close> on 32-bit words.\<close>

definition put_uint32 :: "32 word \<Rightarrow> string" where
  "put_uint32 w = map (\<lambda>k. chr (unat (take_bit 8 (drop_bit k w)))) [24, 16, 8, 0]"

definition get_uint32 :: "string \<Rightarrow> 32 word" where
  "get_uint32 b =
     push_bit 24 (word_of_nat (byte (b ! 0))) OR push_bit 16 (word_of_nat (byte (b ! 1))) OR
     push_bit 8 (word_of_nat (byte (b ! 2))) OR word_of_nat (byte (b ! 3))"

definition max_frame_bytes :: nat where "max_frame_bytes = 16777216"

definition max_stream_frames :: nat where "max_stream_frames = 1024"

datatype grpc_error =
    UnknownMethod string | StreamTooLong | HeaderTruncated | CompressedFrame | MessageTooLarge | PayloadTruncated
  | NoFrames | DecodeFrameFailed nat | RenderFrameFailed nat | NormalizeFrameFailed nat | NoDescriptors
  | UnknownMessage string | EncodeFrameFailed nat | MarshalFrameFailed nat

definition frame_length :: "string \<Rightarrow> nat" where
  "frame_length data = unat (get_uint32 (take 4 (drop 1 data)))"

function split_from :: "nat \<Rightarrow> string \<Rightarrow> (grpc_error, string list) result" where
  "split_from n data =
     (if data = [] then Inr []
      else if max_stream_frames \<le> n then Inl StreamTooLong
      else if length data < 5 then Inl HeaderTruncated
      else if byte (hd data) \<noteq> 0 then Inl CompressedFrame
      else if max_frame_bytes < frame_length data then Inl MessageTooLarge
      else if length data - 5 < frame_length data then Inl PayloadTruncated
      else and_then (split_from (Suc n) (drop (5 + frame_length data) data))
             (\<lambda>fs. Inr (take (frame_length data) (drop 5 data) # fs)))"
  by pat_completeness auto
termination by (relation "measure (\<lambda>(n, data). length data)") auto

declare split_from.simps [simp del]

definition split_frames :: "string \<Rightarrow> (grpc_error, string list) result" where
  "split_frames data = and_then (split_from 0 data) (\<lambda>fs. if fs = [] then Inl NoFrames else Inr fs)"

text \<open>The frame \<open>encodeDocuments\<close> builds: a zero byte, the length as \<open>uint32\<close>, which wraps, and the payload.\<close>

definition frame :: "string \<Rightarrow> string" where
  "frame payload = chr 0 # put_uint32 (word_of_nat (length payload)) @ payload"

section \<open>Descriptors and loading\<close>

datatype field_kind =
  KBool | KEnum "string list" | KNumber | KNumber64 | KBytes | KMessage string | KText

datatype field_label = Single | Repeated | MapTo field_kind

text \<open>A field; \<open>pdOneof\<close> is the number of the first field of its oneof, if it is in one.\<close>

record pfield =
  pdJSONName :: string
  pdNumber :: nat
  pdKind :: field_kind
  pdLabel :: field_label
  pdOneof :: "nat option"

datatype pmessage = PMessage string "pfield list" "pmessage list"

record grpc_method =
  gmName :: string
  gmInput :: string
  gmOutput :: string
  gmClientStreaming :: bool
  gmServerStreaming :: bool

type_synonym pservice = "string \<times> grpc_method list"

text \<open>A file with its imports; an import the library could not resolve has no descriptor.\<close>

datatype pfile = PFile string "pfile option list" "pmessage list" "pservice list"

primrec file_path :: "pfile \<Rightarrow> string" where "file_path (PFile p is ms ss) = p"

primrec file_messages :: "pfile \<Rightarrow> pmessage list" where "file_messages (PFile p is ms ss) = ms"

primrec file_services :: "pfile \<Rightarrow> pservice list" where "file_services (PFile p is ms ss) = ss"

text \<open>\<open>registerFileRecursive\<close>: imports first, each path at most once. \<open>clash\<close> is the library's conflict check.\<close>

fun register_file ::
  "(pfile list \<Rightarrow> pfile \<Rightarrow> bool) \<Rightarrow> pfile \<Rightarrow> string set \<times> pfile list \<Rightarrow> (string, string set \<times> pfile list) result" where
  "register_file clash (PFile path imports ms ss) st =
     (if path \<in> fst st then Inr st
      else and_then (fold_err (\<lambda>s i. case i of None \<Rightarrow> Inr s | Some f \<Rightarrow> register_file clash f s)
                       (insert path (fst st), snd st) imports) (\<lambda>s.
        if path \<in> file_path ` set (snd s) then Inr s
        else if clash (snd s) (PFile path imports ms ss) then Inl path
        else Inr (fst s, snd s @ [PFile path imports ms ss])))"

text \<open>\<open>mergeFiles\<close> starts each file with a fresh set of visited paths; compiled files share one.\<close>

definition merge_files ::
  "(pfile list \<Rightarrow> pfile \<Rightarrow> bool) \<Rightarrow> pfile list \<Rightarrow> pfile list \<Rightarrow> (string, pfile list) result" where
  "merge_files clash files loaded =
     fold_err (\<lambda>fs f. and_then (register_file clash f ({}, fs)) (\<lambda>s. Inr (snd s))) files loaded"

datatype load_failure =
  SetUnreadable string | SetConflict string string | ProtosInvalid | ProtoConflict string | NoMethods

record registry =
  rgMethods :: "(string \<times> grpc_method) list"
  rgMessages :: "(string \<times> pfield list) list"

fun index_messages :: "(string \<times> pfield list) list \<Rightarrow> pmessage list \<Rightarrow> (string \<times> pfield list) list" where
  "index_messages idx [] = idx"
| "index_messages idx (PMessage n fs nested # rest) =
     index_messages (index_messages (AList.update n fs idx) nested) rest"

definition index_file :: "registry \<Rightarrow> pfile \<Rightarrow> registry" where
  "index_file r f =
     \<lparr>rgMethods = foldl (\<lambda>idx (service, methods).
          foldl (\<lambda>idx m. AList.update (''/'' @ service @ ''/'' @ gmName m) m idx) idx methods) (rgMethods r) (file_services f),
      rgMessages = index_messages (rgMessages r) (file_messages f)\<rparr>"

text \<open>\<open>Load\<close>: \<open>read_set\<close> reads, decodes and links a descriptor set, \<open>compile\<close> compiles the source files.\<close>

definition load_registry ::
  "(pfile list \<Rightarrow> pfile \<Rightarrow> bool) \<Rightarrow> (string \<Rightarrow> pfile list option) \<Rightarrow> (grpc_config \<Rightarrow> pfile list option) \<Rightarrow>
   grpc_config \<Rightarrow> (load_failure, pfile list \<times> registry) result" where
  "load_registry clash read_set compile cfg =
     and_then (fold_err (\<lambda>fs path. case read_set path of
          None \<Rightarrow> Inl (SetUnreadable path)
        | Some loaded \<Rightarrow> (case merge_files clash fs loaded of Inl f \<Rightarrow> Inl (SetConflict path f) | Inr fs' \<Rightarrow> Inr fs'))
        [] (gcDescriptorSets cfg)) (\<lambda>fs.
     and_then (if gcProtoFiles cfg = [] then Inr fs
        else case compile cfg of
          None \<Rightarrow> Inl ProtosInvalid
        | Some compiled \<Rightarrow>
            (case fold_err (\<lambda>s f. register_file clash f s) ({}, fs) compiled of
               Inl f \<Rightarrow> Inl (ProtoConflict f) | Inr s \<Rightarrow> Inr (snd s))) (\<lambda>files.
     let r = foldl index_file \<lparr>rgMethods = [], rgMessages = []\<rparr> files
     in if rgMethods r = [] then Inl NoMethods else Inr (files, r)))"

section \<open>Semantic codec\<close>

text \<open>The library's codec of one message type: bytes to a message and back, a message to its JSON text, a document
  to a message.\<close>

record 'm proto_codec =
  pcUnmarshal :: "string \<Rightarrow> string \<Rightarrow> 'm option"
  pcRender :: "'m \<Rightarrow> string option"
  pcParse :: "string \<Rightarrow> string \<Rightarrow> 'm option"
  pcMarshal :: "'m \<Rightarrow> string option"

definition decode_frame :: "go_env \<Rightarrow> 'm proto_codec \<Rightarrow> string \<Rightarrow> nat \<times> string \<Rightarrow> (grpc_error, json) result" where
  "decode_frame E C message ip =
     (case pcUnmarshal C message (snd ip) of
        None \<Rightarrow> Inl (DecodeFrameFailed (fst ip))
      | Some m \<Rightarrow> (case pcRender C m of
          None \<Rightarrow> Inl (RenderFrameFailed (fst ip))
        | Some t \<Rightarrow> (case gUnmarshal E t of None \<Rightarrow> Inl (NormalizeFrameFailed (fst ip)) | Some v \<Rightarrow> Inr v)))"

definition one_or_all :: "json list \<Rightarrow> json" where
  "one_or_all vs = (case vs of [v] \<Rightarrow> v | _ \<Rightarrow> JArr vs)"

definition decode_framed :: "go_env \<Rightarrow> 'm proto_codec \<Rightarrow> string \<Rightarrow> string \<Rightarrow> (grpc_error, json) result" where
  "decode_framed E C message framed =
     and_then (split_frames framed) (\<lambda>fs.
     and_then (map_err (decode_frame E C message) (enumerate 0 fs)) (\<lambda>vs. Inr (one_or_all vs)))"

definition find_method :: "registry \<Rightarrow> string \<Rightarrow> (grpc_error, grpc_method) result" where
  "find_method r path = (case map_of (rgMethods r) path of None \<Rightarrow> Inl (UnknownMethod path) | Some m \<Rightarrow> Inr m)"

definition decode_request :: "go_env \<Rightarrow> 'm proto_codec \<Rightarrow> registry \<Rightarrow> string \<Rightarrow> string \<Rightarrow> (grpc_error, json) result" where
  "decode_request E C r path framed = and_then (find_method r path) (\<lambda>m. decode_framed E C (gmInput m) framed)"

definition decode_response :: "go_env \<Rightarrow> 'm proto_codec \<Rightarrow> registry \<Rightarrow> string \<Rightarrow> string \<Rightarrow> (grpc_error, json) result" where
  "decode_response E C r path framed = and_then (find_method r path) (\<lambda>m. decode_framed E C (gmOutput m) framed)"

definition encode_document :: "'m proto_codec \<Rightarrow> string \<Rightarrow> nat \<times> string \<Rightarrow> (grpc_error, string) result" where
  "encode_document C message ip =
     (case pcParse C message (snd ip) of
        None \<Rightarrow> Inl (EncodeFrameFailed (fst ip))
      | Some m \<Rightarrow> (case pcMarshal C m of None \<Rightarrow> Inl (MarshalFrameFailed (fst ip)) | Some b \<Rightarrow> Inr (frame b)))"

definition encode_documents :: "'m proto_codec \<Rightarrow> string \<Rightarrow> string list \<Rightarrow> (grpc_error, string list) result" where
  "encode_documents C message docs =
     map_err (encode_document C message) (enumerate 0 (if docs = [] then [''{}''] else docs))"

definition encode_response ::
  "'m proto_codec \<Rightarrow> registry \<Rightarrow> string \<Rightarrow> string list \<Rightarrow> (grpc_error, string list) result" where
  "encode_response C r path docs = and_then (find_method r path) (\<lambda>m. encode_documents C (gmOutput m) docs)"

definition encode_message ::
  "'m proto_codec \<Rightarrow> registry option \<Rightarrow> string \<Rightarrow> string list \<Rightarrow> (grpc_error, string list) result" where
  "encode_message C r name docs =
     (case r of
        None \<Rightarrow> Inl NoDescriptors
      | Some g \<Rightarrow>
          if map_of (rgMessages g) (trim_prefix name ''.'') = None then Inl (UnknownMessage name)
          else encode_documents C (trim_prefix name ''.'') docs)"

text \<open>\<open>Methods\<close> lists the index in the order of the paths.\<close>

definition methods_of :: "registry \<Rightarrow> (string \<times> grpc_method) list" where
  "methods_of r = stable_sort (\<lambda>a b. fst a < fst b) (rgMethods r)"

section \<open>Example responses\<close>

text \<open>A field of a oneof other than its first is left out. A message that is being resolved already gives an empty
  object; that is what ends the recursion.\<close>

definition in_example :: "pfield \<Rightarrow> bool" where
  "in_example f \<longleftrightarrow> (case pdOneof f of None \<Rightarrow> True | Some n \<Rightarrow> n = pdNumber f)"

definition wrap_label :: "(field_kind \<Rightarrow> json) \<Rightarrow> pfield \<Rightarrow> json" where
  "wrap_label ex f =
     (case pdLabel f of
        Single \<Rightarrow> ex (pdKind f) | Repeated \<Rightarrow> JArr [ex (pdKind f)] | MapTo k \<Rightarrow> JObj [(''key'', ex k)])"

definition example_scalar :: "(string \<Rightarrow> json) \<Rightarrow> field_kind \<Rightarrow> json" where
  "example_scalar sub k =
     (case k of
        KBool \<Rightarrow> JBool True
      | KEnum vs \<Rightarrow> JStr (case vs of [] \<Rightarrow> [] | v # _ \<Rightarrow> v)
      | KNumber \<Rightarrow> JNum ''1'' | KNumber64 \<Rightarrow> JStr ''1'' | KBytes \<Rightarrow> JStr []
      | KMessage m \<Rightarrow> sub m | KText \<Rightarrow> JStr ''example'')"

function example_message :: "(string \<times> pfield list) list \<Rightarrow> string set \<Rightarrow> string \<Rightarrow> json" where
  "example_message S resolving m =
     (if m \<in> resolving then JObj []
      else case map_of S m of
        None \<Rightarrow> JObj []
      | Some fs \<Rightarrow>
          JObj (foldl (\<lambda>out f. AList.update (pdJSONName f)
              (wrap_label (example_scalar (\<lambda>n. example_message S (insert m resolving) n)) f) out)
            [] (filter in_example fs)))"
  by pat_completeness auto
termination
proof (relation "measure (\<lambda>(S, resolving, m). card (fst ` set S - resolving))")
  fix S :: "(string \<times> pfield list) list" and resolving m fs n
  assume "m \<notin> resolving" and "map_of S m = Some fs"
  then have "m \<in> fst ` set S - resolving" by (force dest: map_of_SomeD)
  moreover have "fst ` set S - insert m resolving = (fst ` set S - resolving) - {m}" by blast
  ultimately have "card (fst ` set S - insert m resolving) < card (fst ` set S - resolving)"
    by (metis card_Diff1_less finite_Diff finite_imageI List.finite_set)
  then show "((S, insert m resolving, n), S, resolving, m) \<in> measure (\<lambda>(S, resolving, m). card (fst ` set S - resolving))"
    by simp
qed simp

declare example_message.simps [simp del]

definition response_example :: "registry \<Rightarrow> string \<Rightarrow> (grpc_error, string) result" where
  "response_example r path =
     and_then (find_method r path) (\<lambda>m. Inr (marshal (example_message (rgMessages r) {} (gmOutput m))))"

section \<open>The frame format\<close>

lemma length_put_uint32 [simp]: "length (put_uint32 w) = 4"
  by (simp add: put_uint32_def)

lemma word_of_byte: "(word_of_nat (byte (chr (unat (take_bit 8 (x :: 32 word))))) :: 32 word) = take_bit 8 x"
proof -
  have "unat (take_bit 8 x) < 2 ^ 8" by (simp only: unsigned_take_bit_eq take_bit_nat_less_exp)
  then show ?thesis by simp
qed

lemma get_put_uint32 [simp]: "get_uint32 (put_uint32 w) = w"
proof (rule bit_word_eqI)
  fix n assume n: "n < LENGTH(32)"
  have "get_uint32 (put_uint32 w) =
    push_bit 24 (take_bit 8 (drop_bit 24 w)) OR push_bit 16 (take_bit 8 (drop_bit 16 w)) OR
    push_bit 8 (take_bit 8 (drop_bit 8 w)) OR take_bit 8 (drop_bit 0 w)"
    by (simp only: get_uint32_def put_uint32_def list.map nth_Cons_0 nth_Cons_numeral nth_Cons_Suc One_nat_def
        numeral_2_eq_2 numeral_3_eq_3 word_of_byte)
  moreover have "n < 8 \<or> 8 \<le> n \<and> n < 16 \<or> 16 \<le> n \<and> n < 24 \<or> 24 \<le> n" by linarith
  ultimately show "bit (get_uint32 (put_uint32 w)) n = bit w n" using n by (auto simp: bit_simps)
qed

lemma unat_byte: "unat (word_of_nat (byte c) :: 32 word) = byte c"
proof -
  have "byte c < 2 ^ 32" by (rule less_le_trans [OF byte_less]) simp
  then show ?thesis by (simp add: unsigned_of_nat take_bit_nat_eq_self)
qed

lemma byte_bit: "bit (word_of_nat (byte c) :: 32 word) n \<Longrightarrow> n < 8"
proof (rule ccontr)
  assume "bit (word_of_nat (byte c) :: 32 word) n"
  then have b: "bit (unat (word_of_nat (byte c) :: 32 word)) n" by (simp only: bit_unsigned_iff) simp
  assume "\<not> n < 8"
  then have "(256 :: nat) \<le> 2 ^ n" using power_increasing [of 8 n "2 :: nat"] by simp
  with byte_less [of c] have "byte c < 2 ^ n" by (rule less_le_trans)
  with b show False by (simp add: unat_byte bit_iff_odd)
qed

lemma put_get_uint32:
  assumes "length b = 4"
  shows "put_uint32 (get_uint32 b) = b"
proof -
  from assms obtain c0 c1 c2 c3 where b: "b = [c0, c1, c2, c3]"
    by (auto simp: length_Suc_conv eval_nat_numeral)
  have get: "get_uint32 b = push_bit 24 (word_of_nat (byte c0)) OR push_bit 16 (word_of_nat (byte c1)) OR
    push_bit 8 (word_of_nat (byte c2)) OR word_of_nat (byte c3)"
    by (simp add: b get_uint32_def)
  have "take_bit 8 (drop_bit 24 (get_uint32 b)) = word_of_nat (byte c0)"
    "take_bit 8 (drop_bit 16 (get_uint32 b)) = word_of_nat (byte c1)"
    "take_bit 8 (drop_bit 8 (get_uint32 b)) = word_of_nat (byte c2)"
    "take_bit 8 (drop_bit 0 (get_uint32 b)) = word_of_nat (byte c3)"
    unfolding get by (rule bit_word_eqI; auto simp only: bit_take_bit_iff bit_drop_bit_eq bit_or_iff bit_push_bit_iff
        o_def dest: byte_bit; auto dest: byte_bit)+
  then show ?thesis by (simp add: put_uint32_def unat_byte b)
qed

lemma length_frame [simp]: "length (frame p) = 5 + length p"
  by (simp add: frame_def)

lemma frame_parts:
  assumes "length p \<le> max_frame_bytes"
  shows "frame p @ rest \<noteq> []" "hd (frame p @ rest) = chr 0" "frame_length (frame p @ rest) = length p"
    "drop (5 + length p) (frame p @ rest) = rest" "take (length p) (drop 5 (frame p @ rest)) = p"
proof -
  have "length p < 2 ^ 32" using assms by (simp add: max_frame_bytes_def)
  then have "unat (word_of_nat (length p) :: 32 word) = length p" by (simp add: unsigned_of_nat take_bit_nat_eq_self)
  then show "frame_length (frame p @ rest) = length p" by (simp add: frame_def frame_length_def)
  have "drop (length (frame p)) (frame p @ rest) = rest" by simp
  then show "drop (5 + length p) (frame p @ rest) = rest" by (simp only: length_frame)
qed (simp_all add: frame_def)

lemma split_frame:
  assumes "length p \<le> max_frame_bytes" and "n < max_stream_frames"
  shows "split_from n (frame p @ rest) = and_then (split_from (Suc n) rest) (\<lambda>fs. Inr (p # fs))"
  unfolding split_from.simps [of n "frame p @ rest"] frame_parts [OF assms(1)] using assms frame_parts(1) [OF assms(1), of rest]
  by (simp del: append_is_Nil_conv)

lemma split_from_sound:
  "split_from n data = Inr fs \<Longrightarrow>
     data = concat (map frame fs) \<and> list_all (\<lambda>p. length p \<le> max_frame_bytes) fs \<and> (fs \<noteq> [] \<longrightarrow> n + length fs \<le> max_stream_frames)"
proof (induction n data arbitrary: fs rule: split_from.induct)
  case (1 n data)
  show ?case
  proof (cases "data = []")
    case True
    with "1.prems" have "fs = []" by (subst (asm) split_from.simps) simp
    with True show ?thesis by simp
  next
    case False
    define len where "len = frame_length data"
    from "1.prems" False obtain gs where ok: "n < max_stream_frames" "5 \<le> length data" "byte (hd data) = 0"
      "len \<le> max_frame_bytes" "len \<le> length data - 5" and gs: "split_from (Suc n) (drop (5 + len) data) = Inr gs"
      and fs: "fs = take len (drop 5 data) # gs"
      by (subst (asm) split_from.simps) (auto simp: len_def not_le not_less split: if_splits)
    have IH: "drop (5 + len) data = concat (map frame gs) \<and> list_all (\<lambda>p. length p \<le> max_frame_bytes) gs \<and>
        (gs \<noteq> [] \<longrightarrow> Suc n + length gs \<le> max_stream_frames)"
      using "1.IH" [OF False] ok gs by (simp add: len_def)
    have d: "data = take 1 data @ take 4 (drop 1 data) @ take len (drop 5 data) @ drop (5 + len) data"
    proof -
      have "drop 4 (drop 1 data) = drop 5 data" "drop len (drop 5 data) = drop (5 + len) data" by (simp_all add: add.commute)
      then show ?thesis by (metis append_take_drop_id)
    qed
    have "take 1 data = [chr 0]"
      using False ok(3) by (cases data) (simp, metis chr_byte list.sel(1) take_Suc_Cons take0 One_nat_def)
    moreover have "take 4 (drop 1 data) = put_uint32 (word_of_nat (length (take len (drop 5 data))))"
    proof -
      have "length (take 4 (drop 1 data)) = 4" using ok(2) by simp
      from put_get_uint32 [OF this] have "put_uint32 (get_uint32 (take 4 (drop 1 data))) = take 4 (drop 1 data)" .
      moreover have "length (take len (drop 5 data)) = len" using ok by simp
      ultimately show ?thesis by (simp add: len_def frame_length_def)
    qed
    ultimately have "data = frame (take len (drop 5 data)) @ drop (5 + len) data" using d by (simp add: frame_def)
    with IH ok fs show ?thesis by auto
  qed
qed

lemma split_from_complete:
  "list_all (\<lambda>p. length p \<le> max_frame_bytes) fs \<Longrightarrow> n + length fs \<le> max_stream_frames \<Longrightarrow>
     split_from n (concat (map frame fs)) = Inr fs"
proof (induction fs arbitrary: n)
  case Nil
  then show ?case by (simp add: split_from.simps)
next
  case (Cons p fs)
  then show ?case by (simp add: split_frame)
qed

text \<open>C24. Splitting is exactly the inverse of framing: a byte string splits into the given messages when, and only when,
  it is the concatenation of their frames, there are between 1 and 1024 of them and none is above 16 MiB. The
  32-bit length prefix loses nothing within these limits.\<close>

theorem split_frames_exact:
  "split_frames data = Inr fs \<longleftrightarrow>
     fs \<noteq> [] \<and> length fs \<le> max_stream_frames \<and> list_all (\<lambda>p. length p \<le> max_frame_bytes) fs \<and>
     data = concat (map frame fs)"
proof
  assume "split_frames data = Inr fs"
  then have "split_from 0 data = Inr fs" "fs \<noteq> []" by (auto simp: split_frames_def split: if_splits)
  with split_from_sound [of 0 data fs] show "fs \<noteq> [] \<and> length fs \<le> max_stream_frames \<and>
     list_all (\<lambda>p. length p \<le> max_frame_bytes) fs \<and> data = concat (map frame fs)" by simp
next
  assume "fs \<noteq> [] \<and> length fs \<le> max_stream_frames \<and>
     list_all (\<lambda>p. length p \<le> max_frame_bytes) fs \<and> data = concat (map frame fs)"
  with split_from_complete [of fs 0] show "split_frames data = Inr fs" by (simp add: split_frames_def)
qed

section \<open>Registration\<close>

primrec file_imports :: "pfile \<Rightarrow> pfile list" where
  "file_imports (PFile p is ms ss) = map the (filter (\<lambda>i. i \<noteq> None) is)"

definition linked :: "string set \<Rightarrow> pfile \<Rightarrow> bool" where
  "linked V g \<longleftrightarrow> file_path ` set (file_imports g) \<subseteq> V"

text \<open>What one walk may change: the visited paths and the files grow, a path is visited only if its file is registered
  in the end, and a new file has its imports visited.\<close>

definition walk :: "string set \<times> pfile list \<Rightarrow> string set \<times> pfile list \<Rightarrow> bool" where
  "walk st s \<longleftrightarrow>
     fst st \<subseteq> fst s \<and> set (snd st) \<subseteq> set (snd s) \<and>
     (distinct (map file_path (snd st)) \<longrightarrow> distinct (map file_path (snd s))) \<and>
     fst s \<subseteq> fst st \<union> file_path ` set (snd s) \<and>
     (\<forall>g\<in>set (snd s) - set (snd st). linked (fst s) g)"

lemma walk_refl: "walk s s"
  by (simp add: walk_def)

lemma walk_trans:
  assumes ab: "walk a b" and bc: "walk b c"
  shows "walk a c"
proof -
  from ab have 1: "fst a \<subseteq> fst b" "set (snd a) \<subseteq> set (snd b)" "fst b \<subseteq> fst a \<union> file_path ` set (snd b)"
    "\<And>g. g \<in> set (snd b) - set (snd a) \<Longrightarrow> linked (fst b) g"
    by (simp_all add: walk_def)
  from bc have 2: "fst b \<subseteq> fst c" "set (snd b) \<subseteq> set (snd c)" "fst c \<subseteq> fst b \<union> file_path ` set (snd c)"
    "\<And>g. g \<in> set (snd c) - set (snd b) \<Longrightarrow> linked (fst c) g"
    by (simp_all add: walk_def)
  have "file_path ` set (snd b) \<subseteq> file_path ` set (snd c)" using 2(2) by (rule image_mono)
  with 1(3) 2(3) have "fst c \<subseteq> fst a \<union> file_path ` set (snd c)" by blast
  moreover have "linked (fst c) g" if "g \<in> set (snd c) - set (snd a)" for g
  proof (cases "g \<in> set (snd b)")
    case True
    with 1(4) that have "linked (fst b) g" by blast
    with 2(1) show ?thesis by (auto simp: linked_def)
  qed (use 2(4) that in blast)
  moreover have "distinct (map file_path (snd a)) \<longrightarrow> distinct (map file_path (snd c))"
    using ab bc by (simp add: walk_def)
  ultimately show ?thesis using 1(1,2) 2(1,2) unfolding walk_def by (intro conjI ballI) (blast, blast, assumption, assumption, blast)
qed

lemma register_file_walk:
  "register_file clash f st = Inr s \<Longrightarrow> walk st s \<and> file_path f \<in> fst s"
proof (induction clash f st arbitrary: s rule: register_file.induct)
  case (1 clash path deps ms ss st)
  show ?case
  proof (cases "path \<in> fst st")
    case True
    with "1.prems" show ?thesis by (simp add: walk_refl)
  next
    case False
    let ?step = "\<lambda>s i. case i of None \<Rightarrow> Inr s | Some f \<Rightarrow> register_file clash f s"
    let ?file = "PFile path deps ms ss"
    from "1.prems" False obtain m where m: "fold_err ?step (insert path (fst st), snd st) deps = Inr m"
      and s: "s = (if path \<in> file_path ` set (snd m) then m else (fst m, snd m @ [?file]))"
      by (auto split: if_splits)
    have fold: "walk u v \<and> file_path ` set (map the (filter (\<lambda>i. i \<noteq> None) is)) \<subseteq> fst v"
      if "fold_err ?step u is = Inr v" "set is \<subseteq> set deps" for u v "is"
      using that
    proof (induction "is" arbitrary: u)
      case (Cons i "is")
      then obtain w where w: "?step u i = Inr w" "fold_err ?step w is = Inr v" by auto
      from Cons.IH [OF w(2)] Cons.prems(2)
      have rest: "walk w v" "file_path ` set (map the (filter (\<lambda>i. i \<noteq> None) is)) \<subseteq> fst v" by auto
      have head: "walk u w \<and> (\<forall>f. i = Some f \<longrightarrow> file_path f \<in> fst w)"
      proof (cases i)
        case (Some f)
        with w(1) have "register_file clash f u = Inr w" by simp
        from "1.IH" [OF False _ Some this] Cons.prems(2) show ?thesis using Some by auto
      qed (use w(1) walk_refl in auto)
      have "walk u v" using head rest(1) by (blast intro: walk_trans)
      moreover have "fst w \<subseteq> fst v" using rest(1) by (simp add: walk_def)
      ultimately show ?case using head rest(2) by (cases i) auto
    qed (simp add: walk_refl)
    from fold [OF m] have w: "walk (insert path (fst st), snd st) m" "linked (fst m) ?file"
      by (auto simp: linked_def)
    then have v: "path \<in> fst m" "fst st \<subseteq> fst m" "set (snd st) \<subseteq> set (snd m)"
      "distinct (map file_path (snd st)) \<longrightarrow> distinct (map file_path (snd m))"
      "fst m \<subseteq> insert path (fst st) \<union> file_path ` set (snd m)"
      "\<And>g. g \<in> set (snd m) - set (snd st) \<Longrightarrow> linked (fst m) g"
      by (simp_all add: walk_def)
    show ?thesis
    proof (cases "path \<in> file_path ` set (snd m)")
      case True
      with s have "s = m" by simp
      with True v show ?thesis unfolding walk_def by (intro conjI ballI) (assumption | simp | blast)+
    next
      case new: False
      with s have s': "fst s = fst m" "snd s = snd m @ [?file]" by simp_all
      have "distinct (map file_path (snd st)) \<longrightarrow> distinct (map file_path (snd s))"
        using v(4) new by (simp add: s')
      moreover have "fst s \<subseteq> fst st \<union> file_path ` set (snd s)" using v(5) by (auto simp: s')
      moreover have "linked (fst s) g" if "g \<in> set (snd s) - set (snd st)" for g
        using that v(6) [of g] w(2) by (auto simp: s')
      ultimately show ?thesis using v(1-3) by (simp add: walk_def s' subset_insertI2)
    qed
  qed
qed

text \<open>Registering a schema file puts it and everything it imports into the registry before it, once per path:
  the paths stay distinct, the file itself is registered, and every file that was added has all its resolved imports
  registered too.\<close>

theorem registered_with_imports:
  assumes "register_file clash f ({}, files) = Inr s" and "distinct (map file_path files)"
  shows "distinct (map file_path (snd s)) \<and> set files \<subseteq> set (snd s) \<and> file_path f \<in> file_path ` set (snd s) \<and>
    (\<Union>g\<in>set (snd s) - set files. file_path ` set (file_imports g)) \<subseteq> file_path ` set (snd s)"
proof -
  from register_file_walk [OF assms(1)] have w: "walk ({}, files) s" "file_path f \<in> fst s" by auto
  then have "fst s \<subseteq> file_path ` set (snd s)" by (simp add: walk_def)
  with w assms(2) show ?thesis unfolding walk_def linked_def by (simp add: UN_subset_iff) blast
qed

definition common_file :: pfile where
  "common_file = PFile ''common.proto'' [] [PMessage ''Money'' [] []] []"

definition shop_file :: pfile where
  "shop_file = PFile ''shop.proto'' [Some common_file, None]
     [PMessage ''Order''
       [\<lparr>pdJSONName = ''parent'', pdNumber = 1, pdKind = KMessage ''Order'', pdLabel = Single, pdOneof = None\<rparr>,
        \<lparr>pdJSONName = ''lines'', pdNumber = 2, pdKind = KText, pdLabel = Repeated, pdOneof = None\<rparr>] []]
     [(''Shop'', [\<lparr>gmName = ''Get'', gmInput = ''Order'', gmOutput = ''Order'', gmClientStreaming = False,
                  gmServerStreaming = False\<rparr>])]"

lemma registered_with_imports_witness:
  "\<exists>s. register_file (\<lambda>_ _. False) shop_file ({}, []) = Inr s \<and> distinct (map file_path (snd s))"
proof -
  have run: "register_file (\<lambda>_ _. False) shop_file ({}, []) =
    Inr ({''shop.proto'', ''common.proto''}, [common_file, shop_file])"
    by (simp add: shop_file_def common_file_def insert_commute)
  from registered_with_imports [OF run] show ?thesis unfolding run by simp
qed

section \<open>Examples are finite\<close>

primrec json_depth :: "json \<Rightarrow> nat" where
  "json_depth JNull = 0"
| "json_depth (JBool b) = 0"
| "json_depth (JNum t) = 0"
| "json_depth (JStr s) = 0"
| "json_depth (JArr xs) = Suc (Max (insert 0 (set (map json_depth xs))))"
| "json_depth (JObj kvs) = Suc (Max (insert 0 (set (map (\<lambda>(k, d). d) (map (map_prod id json_depth) kvs)))))"

lemma json_depth_obj: "json_depth (JObj kvs) \<le> Suc n \<longleftrightarrow> (\<forall>v\<in>snd ` set kvs. json_depth v \<le> n)"
  by (auto simp: image_image case_prod_beta)

lemma update_values: "snd ` set (AList.update k v m) \<subseteq> insert v (snd ` set m)"
  by (induction m) auto

lemma fold_update_values:
  "snd ` set (foldl (\<lambda>out f. AList.update (nm f) (vl f) out) m fs) \<subseteq> snd ` set m \<union> vl ` set fs"
proof (induction fs arbitrary: m)
  case (Cons f fs)
  have "snd ` set (foldl (\<lambda>out f. AList.update (nm f) (vl f) out) (AList.update (nm f) (vl f) m) fs)
    \<subseteq> snd ` set (AList.update (nm f) (vl f) m) \<union> vl ` set fs" by (rule Cons)
  also have "\<dots> \<subseteq> insert (vl f) (snd ` set m) \<union> vl ` set fs"
    by (rule Un_mono [OF update_values subset_refl])
  finally show ?case by auto
qed simp

lemma wrap_label_depth:
  assumes "\<And>n. json_depth (sub n) \<le> d"
  shows "json_depth (wrap_label (example_scalar sub) f) \<le> Suc d"
proof -
  have "json_depth (example_scalar sub k) \<le> d" for k using assms by (cases k) (auto simp: example_scalar_def)
  then show ?thesis by (auto simp: wrap_label_def le_SucI split: field_label.splits)
qed

text \<open>Building an example response always ends, also for messages that contain themselves: the nesting of the
  result is at most twice the number of message types, plus one.\<close>

theorem example_message_bounded:
  "json_depth (example_message S {} m) \<le> Suc (2 * card (fst ` set S))"
proof -
  have "json_depth (example_message S res n) \<le> Suc (2 * card (fst ` set S - res))" for res n
  proof (induction S res n rule: example_message.induct)
    case (1 S res n)
    show ?case
    proof (cases "n \<in> res \<or> map_of S n = None")
      case True
      then show ?thesis by (auto simp: example_message.simps [of S res n])
    next
      case False
      then obtain fs where fs: "n \<notin> res" "map_of S n = Some fs" by auto
      then have mem: "n \<in> fst ` set S - res" by (force dest: map_of_SomeD)
      have "fst ` set S - insert n res = (fst ` set S - res) - {n}" by blast
      with mem have card: "Suc (card (fst ` set S - insert n res)) = card (fst ` set S - res)"
        by (metis card_Suc_Diff1 finite_Diff finite_imageI List.finite_set)
      let ?v = "wrap_label (example_scalar (example_message S (insert n res)))"
      have v: "json_depth (?v f) \<le> Suc (Suc (2 * card (fst ` set S - insert n res)))" 
        if "f \<in> set (filter in_example fs)" for f
        by (rule wrap_label_depth) (use "1.IH" [OF fs that] in blast)
      have "example_message S res n = JObj (foldl (\<lambda>out f. AList.update (pdJSONName f) (?v f) out) [] (filter in_example fs))"
        using fs by (subst example_message.simps) simp
      moreover have "\<forall>x\<in>snd ` set (foldl (\<lambda>out f. AList.update (pdJSONName f) (?v f) out) [] (filter in_example fs)).
          json_depth x \<le> 2 * card (fst ` set S - res)"
        using fold_update_values [of pdJSONName ?v "[]" "filter in_example fs"] v card by force
      ultimately show ?thesis by (simp only: json_depth_obj)
    qed
  qed
  from this [of "{}" m] show ?thesis by simp
qed

end
