(* ===== verification/SimTemplate.thy ===== *)
theory SimTemplate
  imports GoEnv
begin

text \<open>
  \<open>pkg/simtemplate\<close> (\<open>template.go\<close>): the deterministic templates of scenario responses. The template
  language is \<open>text/template\<close>, a parameter; the functions the templates may call are modelled: path
  lookup, defaults, and the values derived from a fingerprint of the request (\<open>uuid\<close>, \<open>token\<close>, \<open>now\<close>).
\<close>

section \<open>Configuration\<close>

record template_config =
  tcSeed :: string
  tcMaxOutputBytes :: int

record template_engine =
  teSeed :: string
  teMaxOutput :: int

definition new_templates :: "template_config \<Rightarrow> template_engine option" where
  "new_templates cfg =
     (if tcMaxOutputBytes cfg < 0 then None
      else Some \<lparr>teSeed = (if tcSeed cfg = [] then ''infernosim'' else tcSeed cfg),
                 teMaxOutput = (if tcMaxOutputBytes cfg = 0 then 1048576 else tcMaxOutputBytes cfg)\<rparr>)"

section \<open>The functions of a template\<close>

definition string_fields :: "template_engine \<Rightarrow> template_data \<Rightarrow> string list" where
  "string_fields e d =
     [teSeed e, tdMethod d, tdURL d, tdPath d, values_encode (tdQuery d), tdBody d]"

definition fingerprint_input :: "string list \<Rightarrow> string" where
  "fingerprint_input vs = concat (map (\<lambda>v. nat_digits (length v) @ '':'' @ v) vs)"

definition request_fingerprint :: "go_env \<Rightarrow> template_engine \<Rightarrow> template_data \<Rightarrow> string" where
  "request_fingerprint E e d = hex_encode (gSha256 E (fingerprint_input (string_fields e d)))"

definition with_byte :: "nat \<Rightarrow> (nat \<Rightarrow> nat) \<Rightarrow> string \<Rightarrow> string" where
  "with_byte i f s = s[i := chr (f (byte (s ! i)))]"

definition template_uuid :: "go_env \<Rightarrow> string \<Rightarrow> string \<Rightarrow> string" where
  "template_uuid E fp label =
     (let sum = gSha256 E (fp @ [chr 0] @ ''uuid'' @ [chr 0] @ label);
          raw = with_byte 8 (\<lambda>n. n mod 64 + 128) (with_byte 6 (\<lambda>n. n mod 16 + 64) (take 16 sum));
          h = hex_encode raw
      in take 8 h @ ''-'' @ take 4 (drop 8 h) @ ''-'' @ take 4 (drop 12 h) @ ''-'' @
         take 4 (drop 16 h) @ ''-'' @ take 12 (drop 20 h))"

definition template_token :: "go_env \<Rightarrow> string \<Rightarrow> string \<Rightarrow> string" where
  "template_token E fp label =
     hex_encode (take 16 (gSha256 E (fp @ [chr 0] @ ''token'' @ [chr 0] @ label)))"

text \<open>\<open>binary.BigEndian.Uint64\<close> of the first eight bytes, and the second it selects.\<close>

definition big_endian :: "string \<Rightarrow> nat" where
  "big_endian s = foldl (\<lambda>n c. n * 256 + byte c) 0 s"

definition deterministic_time :: "string \<Rightarrow> int" where
  "deterministic_time fp =
     1704067200 + int (big_endian (dflt [] (hex_decode (take 16 fp))) mod 315360000)"

text \<open>\<open>lookup\<close>: a path whose leading \<open>$\<close> may be left out. A value that is not found is null.\<close>

function lookup_loop :: "json \<Rightarrow> string \<Rightarrow> json option" where
  "lookup_loop cur [] = Some cur"
| "lookup_loop cur (c # r) =
     (if c = CHR ''.'' then
        (case cur of
           JObj kvs \<Rightarrow>
             (case map_of kvs (takeWhile plain_key_char r) of
                None \<Rightarrow> None
              | Some v \<Rightarrow> lookup_loop v (dropWhile plain_key_char r))
         | _ \<Rightarrow> None)
      else if c = CHR ''['' then
        (case index_byte r (CHR '']'') of
           None \<Rightarrow> None
         | Some e \<Rightarrow>
             (case (atoi (take e r), cur) of
                (Some i, JArr xs) \<Rightarrow>
                  if i < 0 \<or> int (length xs) \<le> i then None
                  else lookup_loop (xs ! nat i) (drop (e + 1) r)
              | _ \<Rightarrow> None))
      else None)"
  by pat_completeness auto

termination
  by (relation "measure (\<lambda>(_, r). length r)") (auto simp: le_imp_less_Suc length_dropWhile_le)

definition template_lookup :: "json \<Rightarrow> string \<Rightarrow> json" where
  "template_lookup root path =
     (if path = [] \<or> path = ''$'' then root
      else dflt JNull (lookup_loop root (if has_prefix path ''$'' then drop 1 path else ''.'' @ path)))"

fun default_value :: "json \<Rightarrow> json \<Rightarrow> json" where
  "default_value fallback JNull = fallback"
| "default_value fallback (JStr []) = fallback"
| "default_value fallback (JArr []) = fallback"
| "default_value fallback (JObj []) = fallback"
| "default_value fallback v = v"

definition template_functions :: "go_env \<Rightarrow> template_engine \<Rightarrow> template_data \<Rightarrow> template_funcs" where
  "template_functions E e d =
     (let fp = request_fingerprint E e d
      in \<lparr>tfJsonPath = template_lookup (tdJSON d), tfProto = template_lookup (tdProtobuf d),
          tfHeader = hget (tdHeaders d), tfQuery = qget (tdQuery d),
          tfUuid = template_uuid E fp, tfToken = template_token E fp,
          tfNowUnix = deterministic_time fp, tfToJSON = marshal, tfDefault = default_value\<rparr>)"

section \<open>Rendering\<close>

datatype render_error = TooLong | ParseFailed | ExecFailed | OutputTooLong | ForbiddenNewline

definition render :: "go_env \<Rightarrow> template_engine \<Rightarrow> string \<Rightarrow> template_data \<Rightarrow> (render_error, string) result" where
  "render E e t d =
     (if t = [] then Inr []
      else if 262144 < length t then Inl TooLong
      else if \<not> gTemplateOk E t then Inl ParseFailed
      else case gTemplateExec E t (template_functions E e d) d of
        None \<Rightarrow> Inl ExecFailed
      | Some out \<Rightarrow> if teMaxOutput e < int (length out) then Inl OutputTooLong else Inr out)"

definition render_entry ::
  "go_env \<Rightarrow> template_engine \<Rightarrow> template_data \<Rightarrow> string \<Rightarrow> header \<Rightarrow> string \<Rightarrow> (render_error, header) result" where
  "render_entry E e d name out t =
     and_then (render E e t d) (\<lambda>v.
       if \<exists>c\<in>set v. byte c = 13 \<or> byte c = 10 then Inl ForbiddenNewline else Inr (hadd out name v))"

definition render_header ::
  "go_env \<Rightarrow> template_engine \<Rightarrow> header \<Rightarrow> template_data \<Rightarrow> (render_error, header) result" where
  "render_header E e h d =
     fold_err (\<lambda>out (name, ts). fold_err (render_entry E e d name) out ts) [] h"

section \<open>The fingerprint\<close>

lemma nat_digits_inject [simp]: "nat_digits m = nat_digits n \<longleftrightarrow> m = n"
  by (metis digits_val_nat_digits option.inject)

lemma colon_not_digit: "CHR '':'' \<notin> set (nat_digits n)"
  using nat_digits_all_digits [of "CHR '':''" n] by (auto simp: is_digit_def byte_def)

lemma fingerprint_input_inject:
  "length vs = length ws \<Longrightarrow> fingerprint_input vs = fingerprint_input ws \<longleftrightarrow> vs = ws"
proof (induction vs arbitrary: ws)
  case (Cons v vs)
  then obtain w ws' where ws: "ws = w # ws'" "length vs = length ws'" by (cases ws) auto
  have split: "cut (CHR '':'') (fingerprint_input (x # xs)) = Some (nat_digits (length x), x @ fingerprint_input xs)" for x xs
    by (simp add: fingerprint_input_def cut_Some colon_not_digit)
  show ?case
  proof
    assume "fingerprint_input (v # vs) = fingerprint_input ws"
    then have "length v = length w \<and> v @ fingerprint_input vs = w @ fingerprint_input ws'"
      using split [of v vs] split [of w ws'] ws(1) by simp
    with Cons.IH [OF ws(2)] ws(1) show "v # vs = ws" by (auto simp: append_eq_append_conv)
  qed simp
qed (simp add: fingerprint_input_def)

definition example_data :: template_data where
  "example_data = \<lparr>tdMethod = ''GET'', tdURL = ''http://h/p'', tdPath = ''/p'', tdHeaders = [], tdQuery = [],
     tdJSON = JNull, tdProtobuf = JNull, tdBody = ''b''\<rparr>"

definition example_templates :: template_engine where
  "example_templates = \<lparr>teSeed = ''s'', teMaxOutput = 1048576\<rparr>"

text \<open>Unless the hash collides on the two inputs, two requests get the same fingerprint exactly
  when the seed, the method, the URL, the path, the encoded query and the body are the same: the
  length prefixes keep the fields apart, so no two different requests are merged before hashing.
  Headers are not part of it.\<close>

theorem fingerprint_identifies_request:
  assumes collision_free: "gSha256 E (fingerprint_input (string_fields e d)) = gSha256 E (fingerprint_input (string_fields e' d'))
      \<Longrightarrow> fingerprint_input (string_fields e d) = fingerprint_input (string_fields e' d')"
  shows "request_fingerprint E e d = request_fingerprint E e' d' \<longleftrightarrow>
    teSeed e = teSeed e' \<and> tdMethod d = tdMethod d' \<and> tdURL d = tdURL d' \<and> tdPath d = tdPath d' \<and>
    values_encode (tdQuery d) = values_encode (tdQuery d') \<and> tdBody d = tdBody d'"
proof -
  have "request_fingerprint E e d = request_fingerprint E e' d' \<longleftrightarrow>
      fingerprint_input (string_fields e d) = fingerprint_input (string_fields e' d')"
    using collision_free by (auto simp: request_fingerprint_def hex_encode_inject)
  also have "\<dots> \<longleftrightarrow> string_fields e d = string_fields e' d'"
    by (rule fingerprint_input_inject) (simp add: string_fields_def)
  finally show ?thesis by (simp add: string_fields_def)
qed

lemma fingerprint_identifies_request_witness:
  "request_fingerprint example_env example_templates example_data \<noteq>
   request_fingerprint example_env example_templates (example_data\<lparr>tdMethod := ''PUT''\<rparr>)"
proof -
  have "gSha256 example_env (fingerprint_input (string_fields example_templates example_data)) \<noteq>
      gSha256 example_env (fingerprint_input (string_fields example_templates (example_data\<lparr>tdMethod := ''PUT''\<rparr>)))"
    by code_simp
  then show ?thesis
    using fingerprint_identifies_request [of example_env example_templates example_data
        example_templates "example_data\<lparr>tdMethod := ''PUT''\<rparr>"]
    by (simp add: example_data_def)
qed

section \<open>Derived values\<close>

lemma length_uuid_hex [simp]:
  "length (hex_encode (with_byte i f (with_byte j g s))) = 2 * length s"
  by (simp add: with_byte_def)

lemma hex_encode_nth:
  "i < length s \<Longrightarrow> hex_encode s ! (2 * i) = hex_char (byte (s ! i) div 16)"
proof (induction s arbitrary: i)
  case (Cons c s)
  then show ?case by (cases i) (auto simp: hex_encode_def)
qed simp

text \<open>With a hash of 32 bytes a template's \<open>uuid\<close> has the form of a version 4 UUID: 36
  characters, dashes at positions 8, 13, 18 and 23, the version digit 4 and a variant digit 8, 9, a
  or b.\<close>

theorem template_uuid_form:
  assumes digest: "\<And>s. length (gSha256 E s) = 32"
  shows "length (template_uuid E fp label) = 36 \<and>
    (\<forall>i\<in>{8, 13, 18, 23}. template_uuid E fp label ! i = CHR ''-'') \<and>
    template_uuid E fp label ! 14 = CHR ''4'' \<and>
    template_uuid E fp label ! 19 \<in> {CHR ''8'', CHR ''9'', CHR ''a'', CHR ''b''}"
proof -
  define raw where "raw = with_byte 8 (\<lambda>n. n mod 64 + 128) (with_byte 6 (\<lambda>n. n mod 16 + 64)
      (take 16 (gSha256 E (fp @ [chr 0] @ ''uuid'' @ [chr 0] @ label))))"
  define h where "h = hex_encode raw"
  have len: "length raw = 16" "length h = 32" using digest by (simp_all add: raw_def h_def with_byte_def)
  have u: "template_uuid E fp label = take 8 h @ ''-'' @ take 4 (drop 8 h) @ ''-'' @ take 4 (drop 12 h) @ ''-'' @
      take 4 (drop 16 h) @ ''-'' @ take 12 (drop 20 h)"
    by (simp add: template_uuid_def Let_def raw_def h_def)
  have "h ! 12 = hex_char (byte (raw ! 6) div 16)" "h ! 16 = hex_char (byte (raw ! 8) div 16)"
    using hex_encode_nth [of 6 raw] hex_encode_nth [of 8 raw] len by (simp_all add: h_def)
  moreover have "byte (raw ! 6) div 16 = 4"
    using digest by (simp add: raw_def with_byte_def)
  moreover have "byte (raw ! 8) div 16 \<in> set [8..<12]"
  proof -
    have "\<exists>n. byte (raw ! 8) = n mod 64 + 128" using digest by (auto simp: raw_def with_byte_def)
    then show ?thesis by auto
  qed
  moreover have "hex_char 4 = CHR ''4''" "\<forall>n\<in>set [8..<12]. hex_char n \<in> {CHR ''8'', CHR ''9'', CHR ''a'', CHR ''b''}"
    by code_simp+
  ultimately have "h ! 12 = CHR ''4''" "h ! 16 \<in> {CHR ''8'', CHR ''9'', CHR ''a'', CHR ''b''}" by metis+
  then show ?thesis unfolding u by (simp add: len nth_append)
qed

lemma template_uuid_form_witness:
  "length (template_uuid example_env ''f'' ''l'') = 36 \<and>
    (\<forall>i\<in>{8, 13, 18, 23}. template_uuid example_env ''f'' ''l'' ! i = CHR ''-'') \<and>
    template_uuid example_env ''f'' ''l'' ! 14 = CHR ''4'' \<and>
    template_uuid example_env ''f'' ''l'' ! 19 \<in> {CHR ''8'', CHR ''9'', CHR ''a'', CHR ''b''}"
  by (rule template_uuid_form) (simp add: example_env_def)

section \<open>Rendered headers\<close>

definition safe_value :: "template_engine \<Rightarrow> string \<Rightarrow> bool" where
  "safe_value e v \<longleftrightarrow> (\<forall>c\<in>set v. byte c \<noteq> 13 \<and> byte c \<noteq> 10) \<and> (v = [] \<or> int (length v) \<le> teMaxOutput e)"

lemma render_bounded: "render E e t d = Inr v \<Longrightarrow> v = [] \<or> int (length v) \<le> teMaxOutput e"
  by (auto simp: render_def split: if_splits option.splits)

lemma hvalues_hadd: "hvalues (hadd h k v) n = (if n = canonical_key k then hvalues h n @ [v] else hvalues h n)"
  by (simp add: hadd_def hvalues_def update_conv')

definition plain_value :: "string \<Rightarrow> bool" where
  "plain_value v \<longleftrightarrow> (\<forall>c\<in>set v. byte c \<noteq> 13 \<and> byte c \<noteq> 10)"

lemma render_entry_ok:
  "render_entry E e d name out t = Inr out' \<longleftrightarrow>
     (\<exists>v. render E e t d = Inr v \<and> plain_value v \<and> out' = hadd out name v)"
  by (auto simp: render_entry_def plain_value_def split: if_splits)

lemma render_entries_ok:
  "fold_err (render_entry E e d name) out ts = Inr out' \<Longrightarrow>
   (\<forall>t\<in>set ts. \<exists>v. render E e t d = Inr v \<and> plain_value v) \<and>
   (v \<in> set (hvalues out' n) \<longleftrightarrow> v \<in> set (hvalues out n) \<or> (\<exists>t\<in>set ts. canonical_key name = n \<and> render E e t d = Inr v))"
proof (induction ts arbitrary: out)
  case (Cons t ts)
  then obtain w where w: "render E e t d = Inr w" "plain_value w"
    "fold_err (render_entry E e d name) (hadd out name w) ts = Inr out'"
    by (auto simp: render_entry_ok)
  have "v \<in> set (hvalues (hadd out name w) n) \<longleftrightarrow> v \<in> set (hvalues out n) \<or> canonical_key name = n \<and> w = v"
    by (auto simp: hvalues_hadd)
  with Cons.IH [OF w(3)] w(1,2) show ?case by auto
qed simp

lemma render_header_ok:
  assumes "fold_err (\<lambda>out (name, ts). fold_err (render_entry E e d name) out ts) out h = Inr out'"
  shows "(\<forall>(name, ts)\<in>set h. \<forall>t\<in>set ts. \<exists>v. render E e t d = Inr v \<and> plain_value v) \<and>
    (v \<in> set (hvalues out' n) \<longleftrightarrow> v \<in> set (hvalues out n) \<or>
       (\<exists>(name, ts)\<in>set h. \<exists>t\<in>set ts. canonical_key name = n \<and> render E e t d = Inr v))"
  using assms
proof (induction h arbitrary: out)
  case (Cons nt h)
  obtain name ts where nt: "nt = (name, ts)" by (cases nt)
  with Cons.prems obtain mid where mid: "fold_err (render_entry E e d name) out ts = Inr mid"
    "fold_err (\<lambda>out (name, ts). fold_err (render_entry E e d name) out ts) mid h = Inr out'" by auto
  from Cons.IH [OF mid(2)] render_entries_ok [OF mid(1), of v n] show ?case unfolding nt by auto
qed simp

text \<open>The values of a rendered header are exactly the configured ones rendered, under their
  canonical names; none holds a line break, so a template cannot split the response, and each is
  empty or within the output limit.\<close>

theorem render_header_exact:
  assumes "render_header E e h d = Inr out"
  shows "(v \<in> set (hvalues out n) \<longleftrightarrow>
      (\<exists>(name, ts)\<in>set h. \<exists>t\<in>set ts. canonical_key name = n \<and> render E e t d = Inr v)) \<and>
    (v \<in> set (hvalues out n) \<longrightarrow> safe_value e v)"
proof -
  note ok = render_header_ok [OF assms [unfolded render_header_def], of v n]
  have none: "v \<notin> set (hvalues [] n)" by (simp add: hvalues_def)
  with ok have iff: "v \<in> set (hvalues out n) \<longleftrightarrow>
      (\<exists>(name, ts)\<in>set h. \<exists>t\<in>set ts. canonical_key name = n \<and> render E e t d = Inr v)" by simp
  moreover have "safe_value e v" if "v \<in> set (hvalues out n)"
  proof -
    from that iff obtain name ts t where t: "(name, ts) \<in> set h" "t \<in> set ts" "render E e t d = Inr v" by blast
    with ok obtain w where "render E e t d = Inr w" "plain_value w" by blast
    with t(3) render_bounded show ?thesis by (auto simp: safe_value_def plain_value_def)
  qed
  ultimately show ?thesis by blast
qed

lemma render_header_exact_witness:
  "\<exists>out. render_header example_env example_templates [(''x-a'', [''v'', ''w''])] example_data = Inr out \<and>
     (''w'' \<in> set (hvalues out ''X-A'') \<longleftrightarrow> (\<exists>(name, ts)\<in>set [(''x-a'', [''v'', ''w''])]. \<exists>t\<in>set ts.
        canonical_key name = ''X-A'' \<and> render example_env example_templates t example_data = Inr ''w''))"
proof -
  have "is_ok (render_header example_env example_templates [(''x-a'', [''v'', ''w''])] example_data)"
    by code_simp
  then obtain out where "render_header example_env example_templates [(''x-a'', [''v'', ''w''])] example_data = Inr out"
    by (auto simp: is_ok_def split: sum.splits)
  with render_header_exact [OF this] show ?thesis by blast
qed

lemma deterministic_time_range: "1704067200 \<le> deterministic_time fp \<and> deterministic_time fp < 1704067200 + 315360000"
  by (simp add: deterministic_time_def)

end
