(* ===== verification/Generator.thy ===== *)
theory Generator
  imports Contract GrpcSim Scenario SimTemplate
begin

text \<open>
  \<open>pkg/generator\<close> (\<open>generator.go\<close>): replay configurations generated from an OpenAPI document or from Protobuf schemas:
  one scenario whose steps answer the documented operations with example responses. The YAML text is outside; a
  configuration is the record that is marshalled.
\<close>

record generated_config =
  gnMatching :: match_config
  gnTemplates :: template_config
  gnScenarios :: "scenario_config list"

definition blank_response :: response where
  "blank_response = \<lparr>rpStatus = 0, rpHeaders = [], rpTrailers = [], rpGRPCStatus = [], rpBody = [], rpBodyB64 = [],
     rpBodyTemplate = [], rpProtobufType = [], rpProtobufJSON = [], rpProtobufStream = [], rpStreamMessageDelay = []\<rparr>"

section \<open>Texts\<close>

text \<open>\<open>regexp.QuoteMeta\<close>.\<close>

definition quote_meta :: "string \<Rightarrow> string" where
  "quote_meta s = concat (map (\<lambda>c. if byte c \<in> byte ` set ''.+*?()|[]{}^$'' \<or> byte c = 92 then [chr 92, c] else [c]) s)"

text \<open>\<open>openAPIPathRegex\<close>: a brace that is not closed is taken as it is.\<close>

function template_regex :: "string \<Rightarrow> string" where
  "template_regex [] = []"
| "template_regex (c # s) =
     (if c = CHR ''{'' then
        (case cut (CHR ''}'') s of
           Some (_, rest) \<Rightarrow> ''[^/]+'' @ template_regex rest
         | None \<Rightarrow> quote_meta (byte_as_char c) @ template_regex s)
      else quote_meta (byte_as_char c) @ template_regex s)"
  by pat_completeness auto
termination
  by (relation "measure length") (auto simp: cut_Some)

definition openapi_path_regex :: "string \<Rightarrow> string" where
  "openapi_path_regex p = ''^'' @ template_regex p @ ''$''"

definition name_char :: "char \<Rightarrow> bool" where
  "name_char c \<longleftrightarrow> 97 \<le> byte c \<and> byte c \<le> 122 \<or> 65 \<le> byte c \<and> byte c \<le> 90 \<or> is_digit c \<or> c \<in> set ''._-''"

text \<open>Each run of other characters becomes one dash.\<close>

fun dash_runs :: "bool \<Rightarrow> string \<Rightarrow> string" where
  "dash_runs inrun [] = []"
| "dash_runs inrun (c # s) =
     (if name_char c then c # dash_runs False s else (if inrun then [] else ''-'') @ dash_runs True s)"

definition sanitize_name :: "string \<Rightarrow> string" where
  "sanitize_name v =
     (let w = dash_runs False (trim_set (\<lambda>c. c = CHR ''/'') v) in if w = [] then ''root'' else w)"

section \<open>Examples from schemas\<close>

function schema_example ::
  "(string \<times> schema option) list \<Rightarrow> string set \<Rightarrow> schema \<Rightarrow> json" where
  "schema_example C resolving (Schema ref ty required props items enum nullable) =
     (if ref \<noteq> [] then
        (if \<not> has_prefix ref schema_prefix \<or> trim_prefix ref schema_prefix \<in> resolving then JObj []
         else case component C (trim_prefix ref schema_prefix) of
             None \<Rightarrow> JObj []
           | Some t \<Rightarrow> schema_example C (insert (trim_prefix ref schema_prefix) resolving) t)
      else if enum \<noteq> [] then hd enum
      else if schema_type ty = ''object'' then
        JObj (map (\<lambda>p. (fst p, case snd p of None \<Rightarrow> JObj [] | Some s \<Rightarrow> schema_example C resolving s))
               (stable_sort (\<lambda>a b. fst a < fst b) props))
      else if schema_type ty = ''array'' then
        JArr [case items of None \<Rightarrow> JObj [] | Some s \<Rightarrow> schema_example C resolving s]
      else if schema_type ty = ''integer'' \<or> schema_type ty = ''number'' then JNum ''1''
      else if schema_type ty = ''boolean'' then JBool True
      else if schema_type ty = ''null'' then JNull
      else JStr ''example'')"
  by pat_completeness auto
termination
proof (relation "inv_image (less_than <*lex*> less_than)
    (\<lambda>(C, resolving, s). (card (fst ` set C - resolving), size s))")
  fix C :: "(string \<times> schema option) list" and resolving ref ty required props items enum nullable t
  assume "\<not> (\<not> has_prefix ref schema_prefix \<or> trim_prefix ref schema_prefix \<in> resolving)"
    and "component C (trim_prefix ref schema_prefix) = Some t"
  then have "trim_prefix ref schema_prefix \<in> fst ` set C - resolving" by (simp add: component_dom)
  then have "card (fst ` set C - insert (trim_prefix ref schema_prefix) resolving) < card (fst ` set C - resolving)"
    by (metis Diff_insert card_Diff1_less finite_Diff finite_imageI List.finite_set)
  then show "((C, insert (trim_prefix ref schema_prefix) resolving, t), C, resolving,
      Schema ref ty required props items enum nullable)
    \<in> inv_image (less_than <*lex*> less_than) (\<lambda>(C, resolving, s). (card (fst ` set C - resolving), size s))"
    by simp
qed (auto dest: schema_size_property)

declare schema_example.simps [simp del]

definition pointer_example :: "(string \<times> schema option) list \<Rightarrow> schema option \<Rightarrow> json" where
  "pointer_example C s = (case s of None \<Rightarrow> JObj [] | Some t \<Rightarrow> schema_example C {} t)"

section \<open>OpenAPI\<close>

text \<open>\<open>preferredResponse\<close>: the smallest status from 200 to 299; a key such as \<open>+200\<close> counts, but the lookup by the
  printed status then finds nothing and gives the empty response.\<close>

definition success_statuses :: "(string \<times> api_response) list \<Rightarrow> int list" where
  "success_statuses rs =
     sort (concat (map (\<lambda>(k, r). case atoi k of Some n \<Rightarrow> (if 200 \<le> n \<and> n < 300 then [n] else []) | None \<Rightarrow> []) rs))"

definition preferred_response :: "(string \<times> api_response) list \<Rightarrow> (int \<times> api_response) option" where
  "preferred_response rs =
     (case success_statuses rs of
        n # _ \<Rightarrow> Some (n, dflt \<lparr>arHeaders = [], arContent = []\<rparr> (map_of rs (itoa n)))
      | [] \<Rightarrow> (case List.find (\<lambda>(k, r). equal_fold k ''2XX'') rs of
          Some (_, r) \<Rightarrow> Some (200, r)
        | None \<Rightarrow> (case map_of rs ''default'' of Some r \<Rightarrow> Some (200, r) | None \<Rightarrow> None)))"

definition preferred_media :: "media \<Rightarrow> (schema option \<times> string) option" where
  "preferred_media content =
     (case map_of content ''application/json'' of
        Some s \<Rightarrow> Some (s, ''application/json'')
      | None \<Rightarrow> (case stable_sort (\<lambda>a b. fst a < fst b) content of [] \<Rightarrow> None | (n, s) # _ \<Rightarrow> Some (s, n)))"

definition named_operations :: "path_item \<Rightarrow> (string \<times> operation) list" where
  "named_operations item =
     concat (map (\<lambda>m. case item m of None \<Rightarrow> [] | Some x \<Rightarrow> [(m, x)]) documented_methods)"

definition generated_step ::
  "(string \<times> schema option) list \<Rightarrow> string \<Rightarrow> string \<times> operation \<Rightarrow> scenario_step list" where
  "generated_step C template mo =
     (case preferred_response (opResponses (snd mo)) of
        None \<Rightarrow> []
      | Some (status, r) \<Rightarrow>
          (let name = (if opID (snd mo) = [] then to_lower (fst mo) @ ''-'' @ sanitize_name template else opID (snd mo));
               media = preferred_media (arContent r)
           in [\<lparr>stName = name, stState = ''ready'',
                stMatch = empty_rule\<lparr>rlName := name, rlMethods := [fst mo], rlPathRegex := openapi_path_regex template\<rparr>,
                stNextState = [],
                stResponse = blank_response\<lparr>rpStatus := status,
                  rpHeaders := (case media of None \<Rightarrow> [] | Some (_, n) \<Rightarrow> [(''Content-Type'', [n])]),
                  rpBody := (case media of None \<Rightarrow> [] | Some (s, _) \<Rightarrow> marshal (pointer_example C s))\<rparr>\<rparr>]))"

definition openapi_steps :: "api_document \<Rightarrow> scenario_step list" where
  "openapi_steps d =
     concat (map (\<lambda>(t, item). concat (map (generated_step (adSchemas d) t) (named_operations item)))
       (stable_sort (\<lambda>a b. fst a < fst b) (adPaths d)))"

datatype generate_error = ContractNotLoaded load_problem | NoOperations | RegistryNotLoaded load_failure | ExampleFailed grpc_error

definition from_openapi :: "string option \<Rightarrow> (string \<Rightarrow> api_document option) \<Rightarrow> (generate_error, generated_config) result" where
  "from_openapi file parse =
     (case load_contract file parse of
        Inl e \<Rightarrow> Inl (ContractNotLoaded e)
      | Inr d \<Rightarrow>
          if openapi_steps d = [] then Inl NoOperations
          else Inr \<lparr>gnMatching = no_matching,
                    gnTemplates = \<lparr>tcSeed = ''infernosim-generated'', tcMaxOutputBytes = 0\<rparr>,
                    gnScenarios = [\<lparr>scName = ''openapi-generated'', scInitialState = ''ready'', scSteps = openapi_steps d\<rparr>]\<rparr>)"

section \<open>Protobuf\<close>

definition method_step :: "registry \<Rightarrow> string \<times> grpc_method \<Rightarrow> (grpc_error, scenario_step) result" where
  "method_step r pm =
     and_then (response_example r (fst pm)) (\<lambda>example.
       Inr \<lparr>stName = sanitize_name (trim_prefix (fst pm) ''/''), stState = ''ready'',
            stMatch = empty_rule\<lparr>rlMethods := [''POST''], rlPathRegex := ''^'' @ quote_meta (fst pm) @ ''$'',
                                 rlGRPCMethod := fst pm\<rparr>,
            stNextState = [],
            stResponse = blank_response\<lparr>rpStatus := 200, rpHeaders := [(''Content-Type'', [''application/grpc''])],
              rpGRPCStatus := ''OK'', rpProtobufType := gmOutput (snd pm), rpProtobufJSON := example\<rparr>\<rparr>)"

definition from_protobuf ::
  "(pfile list \<Rightarrow> pfile \<Rightarrow> bool) \<Rightarrow> (string \<Rightarrow> pfile list option) \<Rightarrow> (grpc_config \<Rightarrow> pfile list option) \<Rightarrow> grpc_config \<Rightarrow>
   (generate_error, generated_config) result" where
  "from_protobuf clash read_set compile cfg =
     (case load_registry clash read_set compile cfg of
        Inl e \<Rightarrow> Inl (RegistryNotLoaded e)
      | Inr (files, r) \<Rightarrow>
          (case map_err (method_step r) (methods_of r) of
             Inl e \<Rightarrow> Inl (ExampleFailed e)
           | Inr steps \<Rightarrow>
               Inr \<lparr>gnMatching = no_matching\<lparr>mcGRPC := cfg\<rparr>,
                    gnTemplates = \<lparr>tcSeed = ''infernosim-generated'', tcMaxOutputBytes = 0\<rparr>,
                    gnScenarios = [\<lparr>scName = ''protobuf-generated'', scInitialState = ''ready'', scSteps = steps\<rparr>]\<rparr>))"

section \<open>Examples conform\<close>

text \<open>Schemas for which an example can exist: references are local, the first permitted value has the type and no parts,
  required members are documented.\<close>

definition scalar :: "json \<Rightarrow> bool" where
  "scalar v \<longleftrightarrow> (case v of JObj _ \<Rightarrow> False | JArr _ \<Rightarrow> False | _ \<Rightarrow> True)"

primrec exemplary :: "schema \<Rightarrow> bool" where
  "exemplary (Schema ref ty required props items enum nullable) =
     (if ref \<noteq> [] then has_prefix ref schema_prefix
      else if enum \<noteq> [] then (schema_type ty = [] \<or> matches_type (schema_type ty) (hd enum)) \<and> scalar (hd enum)
      else set required \<subseteq> fst ` set props \<and> distinct (map fst props) \<and>
        (\<forall>p\<in>set (map (map_prod id (map_option exemplary)) props). snd p \<noteq> Some False) \<and>
        map_option exemplary items \<noteq> Some False)"

definition documented :: "(string \<times> schema option) list \<Rightarrow> schema \<Rightarrow> bool" where
  "documented C s \<longleftrightarrow> exemplary s \<and> (\<forall>n\<in>schema_refs s. component C n \<noteq> None)"

definition all_documented :: "(string \<times> schema option) list \<Rightarrow> bool" where
  "all_documented C \<longleftrightarrow> (\<forall>n t. component C n = Some t \<longrightarrow> documented C t)"

lemma exemplary_parts:
  "exemplary (Schema [] ty required props items [] nullable) \<Longrightarrow> (n, Some s) \<in> set props \<Longrightarrow> exemplary s"
  "exemplary (Schema [] ty required props (Some s) [] nullable) \<Longrightarrow> exemplary s"
  by force+

lemma documented_parts:
  "documented C (Schema [] ty required props items [] nullable) \<Longrightarrow> (n, Some s) \<in> set props \<Longrightarrow> documented C s"
  "documented C (Schema [] ty required props (Some s) [] nullable) \<Longrightarrow> documented C s"
proof -
  assume "documented C (Schema [] ty required props items [] nullable)" "(n, Some s) \<in> set props"
  with exemplary_parts(1) schema_refs_parts(1) show "documented C s" unfolding documented_def by (metis subsetD)
next
  assume "documented C (Schema [] ty required props (Some s) [] nullable)"
  with exemplary_parts(2) schema_refs_parts(2) show "documented C s" unfolding documented_def by (metis subsetD)
qed

lemma map_of_example:
  "distinct (map fst ps) \<Longrightarrow> (n, x) \<in> set ps \<Longrightarrow> map_of (map (\<lambda>p. (fst p, g (snd p))) ps) n = Some (g x)"
  by (induction ps) (auto simp: rev_image_eqI)

lemma example_object:
  assumes "(n, Some s) \<in> set props" and "distinct (map fst props)"
    and "map_of (map (\<lambda>p. (fst p, g (snd p))) (stable_sort lt props)) n = Some c"
  shows "c = g (Some s)"
proof -
  have "mset (map fst (stable_sort lt props)) = mset (map fst props)" by simp
  with assms(2) have "distinct (map fst (stable_sort lt props))" by (metis mset_eq_imp_distinct_iff)
  with map_of_example [of "stable_sort lt props" n "Some s" g] assms(1,3) show ?thesis by simp
qed

lemma one_int64: "is_int64 ''1''"
  by code_simp

lemma example_conforms:
  assumes "documented C s" and "\<forall>r\<in>resolving. \<forall>m\<in>schema_refs s. rk m < rk r"
    and "ranked C rk" and "all_documented C"
  shows "conforms C s (schema_example C resolving s)"
  using assms
proof (induction C resolving s rule: schema_example.induct)
  case (1 C resolving ref ty required props items enum nullable)
  show ?case
  proof (cases "ref = []")
    case False
    let ?n = "trim_prefix ref schema_prefix"
    have fresh: "?n \<notin> resolving" using "1.prems"(2) False by auto
    from "1.prems"(1) False obtain t where t: "has_prefix ref schema_prefix" "component C ?n = Some t"
      by (auto simp: documented_def)
    have low: "m \<in> schema_refs t \<Longrightarrow> rk m < rk ?n" for m using "1.prems"(3) t by (auto simp: ranked_def)
    have "\<forall>r\<in>insert ?n resolving. \<forall>m\<in>schema_refs t. rk m < rk r"
      using "1.prems"(2) False low by (fastforce intro: less_trans)
    moreover have "documented C t" using "1.prems"(4) t(2) by (simp add: all_documented_def)
    ultimately have "conforms C t (schema_example C (insert ?n resolving) t)"
      using "1.IH"(1) [OF False _ t(2)] t(1) fresh "1.prems"(3,4) by simp
    with False t fresh show ?thesis by (auto simp: schema_example.simps [of C resolving] intro: conf_ref)
  next
    case ref: True
    let ?s = "Schema [] ty required props items enum nullable"
    show ?thesis
    proof (cases "enum = []")
      case False
      with "1.prems"(1) ref have e: "schema_type ty = [] \<or> matches_type (schema_type ty) (hd enum)" "scalar (hd enum)"
        by (auto simp: documented_def)
      have "enum_contains enum (hd enum)" using False by (auto simp: enum_contains_def)
      with e False ref show ?thesis
        by (auto simp: schema_example.simps [of C resolving] scalar_def intro!: conf_plain)
    next
      case enum: True
      note doc = "1.prems"(1) [unfolded ref enum]
      have refs: "\<forall>r\<in>resolving. \<forall>m\<in>schema_refs s. rk m < rk r"
        if "(n, Some s) \<in> set props \<or> items = Some s" for n s
        using that "1.prems"(2) schema_refs_parts(1) [of n s props ty required items enum nullable]
          schema_refs_parts(2) [of s ty required props enum nullable] ref by blast
      consider "schema_type ty = ''object''" | "schema_type ty = ''array''"
        | "schema_type ty \<noteq> ''object''" "schema_type ty \<noteq> ''array''" by blast
      then show ?thesis
      proof cases
        case 1
        let ?g = "\<lambda>s. case s of None \<Rightarrow> JObj [] | Some s \<Rightarrow> schema_example C resolving s"
        let ?kvs = "map (\<lambda>p. (fst p, ?g (snd p))) (stable_sort (\<lambda>a b. fst a < fst b) props)"
        have v: "schema_example C resolving ?s = JObj ?kvs"
          using 1 enum by (simp add: schema_example.simps [of C resolving])
        have ex: "set required \<subseteq> fst ` set props" "distinct (map fst props)" using doc by (auto simp: documented_def)
        have keys: "fst ` set ?kvs = fst ` set props" by force
        show ?thesis unfolding ref v
        proof (rule conf_plain)
          fix kvs r assume "JObj ?kvs = JObj kvs" "r \<in> set required"
          with ex(1) keys show "map_of kvs r \<noteq> None" by (auto simp: map_of_eq_None_iff)
        next
          fix kvs n s c assume h: "JObj ?kvs = JObj kvs" "(n, Some s) \<in> set props" "map_of kvs n = Some c"
          then have "c = schema_example C resolving s" using example_object [OF h(2) ex(2), of ?g] by auto
          moreover have "conforms C s (schema_example C resolving s)"
            using "1.IH"(2) [of "(n, Some s)" s] 1 h(2) ref enum documented_parts(1) [OF doc h(2)] refs "1.prems"(3,4) by auto
          ultimately show "conforms C s c" by simp
        qed (use 1 enum in \<open>auto simp: matches_type_def\<close>)
      next
        case 2
        have v: "schema_example C resolving ?s = JArr [case items of None \<Rightarrow> JObj [] | Some s \<Rightarrow> schema_example C resolving s]"
          using 2 enum by (simp add: schema_example.simps [of C resolving])
        show ?thesis unfolding ref v
        proof (rule conf_plain)
          fix xs s x assume h: "JArr [case items of None \<Rightarrow> JObj [] | Some s \<Rightarrow> schema_example C resolving s] = JArr xs"
            "items = Some s" "x \<in> set xs"
          moreover have "documented C s" using doc h(2) documented_parts(2) by blast
          ultimately show "conforms C s x"
            using "1.IH"(3) [of s] 2 ref enum refs [of _ s] "1.prems"(3,4) by auto
        qed (use 2 enum in \<open>auto simp: matches_type_def\<close>)
      next
        case 3
        then show ?thesis unfolding ref using enum
          by (auto simp: schema_example.simps [of C resolving] matches_type_def one_int64
              intro!: conf_plain split: if_splits)
      qed
    qed
  qed
qed



section \<open>Generated configurations load\<close>

text \<open>What the standard library has to do for a generated step: compile its path expression, and accept the name of
  its media type, which no braces open, as a template.\<close>

definition step_supported :: "go_env \<Rightarrow> scenario_step \<Rightarrow> bool" where
  "step_supported E st \<longleftrightarrow>
     gCompile E (rlPathRegex (stMatch st)) \<noteq> None \<and> list_all (\<lambda>(n, vs). list_all (validate_template E) vs) (rpHeaders (stResponse st))"

lemma preferred_status:
  assumes "preferred_response rs = Some (n, r)"
  shows "200 \<le> n \<and> n < 300"
proof (cases "success_statuses rs")
  case Nil
  with assms show ?thesis by (auto simp: preferred_response_def split: option.splits)
next
  case (Cons m ms)
  then have "m \<in> set (success_statuses rs)" by simp
  then have "200 \<le> m \<and> m < 300" by (auto simp: success_statuses_def split: option.splits if_splits)
  with assms Cons show ?thesis by (simp add: preferred_response_def)
qed

lemma generated_step_shape:
  assumes "st \<in> set (generated_step C t mo)"
  shows "stState st = ''ready''" "stNextState st = []" "200 \<le> rpStatus (stResponse st)" "rpStatus (stResponse st) < 300"
    "\<exists>name m p. stMatch st = empty_rule\<lparr>rlName := name, rlMethods := [m], rlPathRegex := p\<rparr> \<and> p \<noteq> []"
    "\<exists>s hs b. stResponse st = blank_response\<lparr>rpStatus := s, rpHeaders := hs, rpBody := b\<rparr>"
proof -
  obtain n r where pr: "preferred_response (opResponses (snd mo)) = Some (n, r)"
    using assms by (cases "preferred_response (opResponses (snd mo))") (auto simp: generated_step_def)
  note st = assms [unfolded generated_step_def pr Let_def, simplified]
  from st show "stState st = ''ready''" "stNextState st = []" by simp_all
  from st preferred_status [OF pr] show "200 \<le> rpStatus (stResponse st)" "rpStatus (stResponse st) < 300"
    by simp_all
  have "stMatch st = empty_rule\<lparr>rlName := stName st, rlMethods := [fst mo], rlPathRegex := openapi_path_regex t\<rparr>"
    using st by simp
  then show "\<exists>name m p. stMatch st = empty_rule\<lparr>rlName := name, rlMethods := [m], rlPathRegex := p\<rparr> \<and> p \<noteq> []"
    by (metis append_Cons list.distinct(1) openapi_path_regex_def)
  have "stResponse st = blank_response\<lparr>rpStatus := rpStatus (stResponse st), rpHeaders := rpHeaders (stResponse st),
      rpBody := rpBody (stResponse st)\<rparr>"
    using st by simp
  then show "\<exists>s hs b. stResponse st = blank_response\<lparr>rpStatus := s, rpHeaders := hs, rpBody := b\<rparr>" by blast
qed

lemma generated_step_valid:
  assumes "st \<in> set (generated_step C t mo)" and "step_supported E st"
  shows "is_ok (validate_step E no_matching None name (j, st))"
proof -
  obtain nm m p where rule: "stMatch st = empty_rule\<lparr>rlName := nm, rlMethods := [m], rlPathRegex := p\<rparr>" "p \<noteq> []"
    using generated_step_shape(5) [OF assms(1)] by blast
  obtain s hs b where resp: "stResponse st = blank_response\<lparr>rpStatus := s, rpHeaders := hs, rpBody := b\<rparr>"
    using generated_step_shape(6) [OF assms(1)] by blast
  obtain re where re: "gCompile E p = Some re" using assms(2) rule by (auto simp: step_supported_def)
  have rule_ok: "is_ok (compile_rule_matcher E (stMatch st) no_matching None)"
    using rule re by (simp add: compile_rule_matcher_def new_matcher_def load_grpc_def no_matching_def grpc_config_empty_def
        compile_rule_def compile_opt_def compile_map_def empty_rule_def)
  have "validate_response_templates E (stResponse st)"
    using assms(2) resp by (auto simp: step_supported_def validate_response_templates_def validate_template_def
        blank_response_def list_all_iff)
  moreover have "response_forms (stResponse st) \<le> 1" using resp by (simp add: response_forms_def blank_response_def)
  moreover have "rpBodyB64 (stResponse st) = []" "rpStreamMessageDelay (stResponse st) = []"
    using resp by (simp_all add: blank_response_def)
  ultimately show ?thesis
    using generated_step_shape(1-4) [OF assms(1)] rule_ok
    by (auto simp: validate_step_def delay_ok_def fail_if_def is_ok_def split: sum.splits)
qed

lemma map_err_ok: "is_ok (map_err f xs) \<longleftrightarrow> (\<forall>x\<in>set xs. is_ok (f x))"
  by (induction xs) (auto simp: is_ok_def and_then_def split: sum.splits)


definition shop_document :: api_document where
  "shop_document = \<lparr>adOpenAPI = ''3.0.1'',
     adPaths = [(''/orders/{id}'', [''GET'' \<mapsto> \<lparr>opID = [], opRequestBody = None,
        opResponses = [(''200'', \<lparr>arHeaders = [], arContent = [(''application/json'', Some (ref_schema ''Order''))]\<rparr>)]\<rparr>])],
     adSchemas = order_schemas\<rparr>"


end
