(* ===== verification/GoPath.thy ===== *)
theory GoPath
  imports GoNet
begin

text \<open>
  What the code uses of \<open>path/filepath\<close> on Unix: \<open>Clean\<close>, \<open>Join\<close>, \<open>IsAbs\<close>, \<open>Base\<close>, \<open>Dir\<close>, \<open>Abs\<close>, \<open>Rel\<close>. A path is its bytes.
  The lemmas say what a cleaned path looks like and how joining and cleaning combine.
\<close>

definition slash :: char where "slash = CHR ''/''"

definition is_abs :: "string \<Rightarrow> bool" where
  "is_abs p \<longleftrightarrow> has_prefix p ''/''"

text \<open>\<open>Clean\<close> on the parts between slashes, with the parts kept so far in reverse.\<close>

fun clean_parts :: "bool \<Rightarrow> string list \<Rightarrow> string list \<Rightarrow> string list" where
  "clean_parts rooted st [] = rev st"
| "clean_parts rooted st (p # ps) =
     (if p = [] \<or> p = ''.'' then clean_parts rooted st ps
      else if p = ''..'' then
        (case st of
           q # st' \<Rightarrow> if q = ''..'' then clean_parts rooted (p # st) ps else clean_parts rooted st' ps
         | [] \<Rightarrow> clean_parts rooted (if rooted then [] else [p]) ps)
      else clean_parts rooted (p # st) ps)"

definition parts_of :: "string \<Rightarrow> string list" where
  "parts_of p = clean_parts (is_abs p) [] (split_on slash p)"

definition path_clean :: "string \<Rightarrow> string" where
  "path_clean p =
     (if is_abs p then ''/'' @ join ''/'' (parts_of p)
      else if parts_of p = [] then ''.'' else join ''/'' (parts_of p))"

definition path_join :: "string list \<Rightarrow> string" where
  "path_join ps = (let qs = filter (\<lambda>p. p \<noteq> []) ps in if qs = [] then [] else path_clean (join ''/'' qs))"

definition path_base :: "string \<Rightarrow> string" where
  "path_base p =
     (if p = [] then ''.''
      else (let qs = filter (\<lambda>q. q \<noteq> []) (split_on slash p) in if qs = [] then ''/'' else List.last qs))"

text \<open>\<open>Dir\<close>: all but the last element, cleaned.\<close>

definition path_dir :: "string \<Rightarrow> string" where
  "path_dir p =
     path_clean (rev (dropWhile (\<lambda>c. c \<noteq> slash) (rev p)))"

section \<open>Cleaned parts\<close>

definition plain_part :: "string \<Rightarrow> bool" where
  "plain_part p \<longleftrightarrow> p \<noteq> [] \<and> p \<noteq> ''.'' \<and> p \<noteq> ''..'' \<and> slash \<notin> set p"

lemma clean_parts_append:
  "clean_parts r st (xs @ ys) = clean_parts r (rev (clean_parts r st xs)) ys"
  by (induction r st xs rule: clean_parts.induct) (auto split: list.splits)

lemma clean_parts_plain: "list_all plain_part ps \<Longrightarrow> clean_parts r st ps = rev st @ ps"
  by (induction ps arbitrary: st) (auto simp: plain_part_def)

text \<open>The result is a number of double dots, none if the path is rooted, and plain parts.\<close>

lemma clean_parts_shape:
  "list_all (\<lambda>p. slash \<notin> set p) ps \<Longrightarrow> st = rev (replicate n ''..'' @ qs) \<Longrightarrow> list_all plain_part qs \<Longrightarrow> (r \<longrightarrow> n = 0) \<Longrightarrow>
   \<exists>m rs. clean_parts r st ps = replicate m ''..'' @ rs \<and> list_all plain_part rs \<and> (r \<longrightarrow> m = 0)"
proof (induction ps arbitrary: st n qs)
  case (Cons p ps)
  show ?case
  proof (cases "p = [] \<or> p = ''.''")
    case True
    with Cons show ?thesis by simp
  next
    case keep: False
    show ?thesis
    proof (cases "p = ''..''")
      case True
      show ?thesis
      proof (cases qs rule: rev_cases)
        case Nil
        have "clean_parts r st (p # ps) = clean_parts r (rev (replicate (if r then 0 else Suc n) ''..'' @ [])) ps"
          using True keep Nil Cons.prems by (cases n) (auto simp: replicate_append_same)
        with Cons.IH [OF _ refl, of "[]" "if r then 0 else Suc n"] Cons.prems show ?thesis by simp
      next
        case (snoc qs' q)
        with Cons.prems have "plain_part q" "list_all plain_part qs'" by simp_all
        moreover from this have "clean_parts r st (p # ps) = clean_parts r (rev (replicate n ''..'' @ qs')) ps"
          using True keep snoc Cons.prems by (auto simp: plain_part_def)
        ultimately show ?thesis using Cons.IH [OF _ refl, of qs' n] Cons.prems by simp
      qed
    next
      case False
      with keep Cons.prems have "plain_part p" by (simp add: plain_part_def)
      moreover have "clean_parts r st (p # ps) = clean_parts r (rev (replicate n ''..'' @ (qs @ [p]))) ps"
        using False keep Cons.prems by simp
      ultimately show ?thesis using Cons.IH [OF _ refl, of "qs @ [p]" n] Cons.prems by simp
    qed
  qed
qed auto

lemma split_on_pieces: "list_all (\<lambda>p. c \<notin> set p) (split_on c s)"
  by (induction s) (auto split: list.splits)

lemma parts_of_shape:
  obtains m rs where "parts_of p = replicate m ''..'' @ rs" "list_all plain_part rs" "is_abs p \<Longrightarrow> m = 0"
  using clean_parts_shape [where ps = "split_on slash p" and st = "[]" and n = 0 and qs = "[]" and r = "is_abs p"]
    split_on_pieces by (auto simp: parts_of_def)

lemma split_on_appended: "split_on c (a @ c # b) = split_on c a @ split_on c b"
  by (induction a) (auto split: list.splits)

lemma split_on_joined: "list_all plain_part ps \<Longrightarrow> ps \<noteq> [] \<Longrightarrow> split_on slash (join ''/'' ps) = ps"
  using split_on_join [of ps slash] by (auto simp: plain_part_def list_all_iff slash_def)

lemma join_plain_first:
  "list_all plain_part ps \<Longrightarrow> ps \<noteq> [] \<Longrightarrow> \<not> is_abs (join ''/'' ps) \<and> join ''/'' ps \<noteq> []"
  by (cases "(''/'', ps)" rule: join.cases) (auto simp: plain_part_def is_abs_def has_prefix_def slash_def neq_Nil_conv)

text \<open>Joining plain parts to a directory appends them to its cleaned form.\<close>

lemma join_plain:
  assumes "list_all plain_part ps" and "ps \<noteq> []" and "dir \<noteq> []"
  shows "parts_of (dir @ ''/'' @ join ''/'' ps) = parts_of dir @ ps"
    and "is_abs (dir @ ''/'' @ join ''/'' ps) = is_abs dir"
proof -
  show abs: "is_abs (dir @ ''/'' @ join ''/'' ps) = is_abs dir" using assms(3) by (cases dir) (auto simp: is_abs_def has_prefix_def)
  have "split_on slash (dir @ ''/'' @ join ''/'' ps) = split_on slash dir @ ps"
    using split_on_appended [of slash dir] split_on_joined [OF assms(1,2)] by (simp add: slash_def)
  then show "parts_of (dir @ ''/'' @ join ''/'' ps) = parts_of dir @ ps"
    using assms(1) unfolding parts_of_def abs by (simp add: clean_parts_append clean_parts_plain)
qed

lemma join_append: "xs \<noteq> [] \<Longrightarrow> ys \<noteq> [] \<Longrightarrow> join s (xs @ ys) = join s xs @ s @ join s ys"
proof (induction xs rule: list_nonempty_induct)
  case (single x)
  then show ?case by (cases ys) auto
next
  case (cons x xs)
  then show ?case by (cases xs) auto
qed

lemma join_Cons: "xs \<noteq> [] \<Longrightarrow> join s (x # xs) = x @ s @ join s xs"
  by (cases xs) auto

text \<open>A cleaned path that is neither absolute nor leaves its directory is made of plain parts.\<close>

lemma clean_inside:
  assumes "\<not> is_abs (path_clean p)" and "path_clean p \<noteq> ''.''" and "path_clean p \<noteq> ''..''"
    and "\<not> has_prefix (path_clean p) ''../''"
  obtains ps where "path_clean p = join ''/'' ps" "list_all plain_part ps" "ps \<noteq> []"
proof -
  obtain m rs where parts: "parts_of p = replicate m ''..'' @ rs" "list_all plain_part rs" by (rule parts_of_shape)
  have rel: "\<not> is_abs p" using assms(1) by (auto simp: path_clean_def is_abs_def has_prefix_def split: if_splits)
  with assms(2) have ne: "parts_of p \<noteq> []" and clean: "path_clean p = join ''/'' (parts_of p)"
    by (auto simp: path_clean_def split: if_splits)
  have "m = 0"
  proof (rule ccontr)
    assume "m \<noteq> 0"
    then obtain k where "m = Suc k" by (cases m) auto
    with parts clean have c: "path_clean p = join ''/'' (''..'' # replicate k ''..'' @ rs)" by simp
    show False
    proof (cases "replicate k ''..'' @ rs = []")
      case True
      with c assms(3) show False by (simp only: join.simps)
    next
      case False
      with c have "has_prefix (path_clean p) ''../''" by (simp add: join_Cons has_prefix_def)
      with assms(4) show False by blast
    qed
  qed
  with that [of rs] parts ne clean show ?thesis by simp
qed

lemma clean_plain:
  assumes "list_all plain_part ps" and "ps \<noteq> []"
  shows "path_clean (join ''/'' ps) = join ''/'' ps"
  using assms join_plain_first [OF assms] split_on_joined [OF assms]
  by (simp add: path_clean_def parts_of_def clean_parts_plain)

lemma join_inside:
  assumes "list_all plain_part ps" and "ps \<noteq> []" and "path_clean dir \<noteq> ''.''" and "path_clean dir \<noteq> ''/''"
  shows "path_join [dir, join ''/'' ps] = path_clean dir @ ''/'' @ join ''/'' ps"
proof -
  have "dir \<noteq> []" using assms(3) by (auto simp: path_clean_def parts_of_def is_abs_def has_prefix_def)
  with assms join_plain [OF assms(1,2), of dir] join_plain_first [OF assms(1,2)] show ?thesis
    by (auto simp: path_join_def Let_def path_clean_def join_append)
qed

lemma join_dot: "join ''/'' (a # l) = ''.'' \<Longrightarrow> a = ''.''"
  by (cases l) (auto simp: append_eq_Cons_conv)

text \<open>Nothing is inside the directory \<open>.\<close> by its own name: joining drops the dot.\<close>

lemma join_dot_outside:
  assumes "path_clean dir = ''.''" and "list_all plain_part ps" and "ps \<noteq> []"
  shows "\<not> has_prefix (path_join [dir, join ''/'' ps]) ''./''"
proof -
  have dot: "\<not> is_abs dir \<and> parts_of dir = []"
  proof -
    have "\<not> is_abs dir" using assms(1) by (auto simp: path_clean_def)
    moreover obtain m rs where "parts_of dir = replicate m ''..'' @ rs" "list_all plain_part rs" by (rule parts_of_shape)
    ultimately show ?thesis using assms(1)
      by (cases m; cases rs) (auto simp: path_clean_def plain_part_def split: if_splits dest!: join_dot)
  qed
  have "path_join [dir, join ''/'' ps] = join ''/'' ps"
  proof (cases "dir = []")
    case True
    then show ?thesis using join_plain_first [OF assms(2,3)] clean_plain [OF assms(2,3)] by (simp add: path_join_def)
  next
    case False
    with dot assms(2,3) join_plain [OF assms(2,3) False] join_plain_first [OF assms(2,3)] show ?thesis
      by (simp add: path_join_def Let_def path_clean_def)
  qed
  moreover obtain x xs where ps: "ps = x # xs" using assms(3) by (cases ps) auto
  moreover have "plain_part x" using assms(2) ps by simp
  ultimately show ?thesis
    by (cases xs; cases x; cases "tl x")
      (auto simp: plain_part_def has_prefix_def slash_def join_Cons)
qed


section \<open>Cleaning twice, and the directory of a file\<close>

lemma clean_parts_dots:
  "st = replicate k ''..'' \<Longrightarrow> clean_parts False st (replicate m ''..'' @ rs) = clean_parts False (replicate (k + m) ''..'') rs"
proof (induction m arbitrary: st k)
  case (Suc m)
  have "clean_parts False st (replicate (Suc m) ''..'' @ rs) = clean_parts False (replicate (Suc k) ''..'') (replicate m ''..'' @ rs)"
    using Suc.prems by (cases k) auto
  with Suc.IH [OF refl, of "Suc k"] show ?case by simp
qed simp

lemma clean_parts_fixed:
  assumes "list_all plain_part rs" and "r \<Longrightarrow> m = 0"
  shows "clean_parts r [] (replicate m ''..'' @ rs) = replicate m ''..'' @ rs"
  using assms clean_parts_dots [of "[]" 0 m rs] by (cases r) (simp_all add: clean_parts_plain)

lemma split_on_pieces_joined: "ps \<noteq> [] \<Longrightarrow> list_all (\<lambda>p. slash \<notin> set p) ps \<Longrightarrow> split_on slash (join ''/'' ps) = ps"
  using split_on_join [of ps slash] by (auto simp: list_all_iff slash_def)

lemma dots_no_slash: "list_all plain_part rs \<Longrightarrow> list_all (\<lambda>p. slash \<notin> set p) (replicate m ''..'' @ rs)"
proof (induction m)
  case 0
  then show ?case by (simp add: list_all_iff plain_part_def)
qed (simp add: slash_def)

lemma clean_clean: "path_clean (path_clean d) = path_clean d"
proof -
  obtain m rs where parts: "parts_of d = replicate m ''..'' @ rs" "list_all plain_part rs" "is_abs d \<Longrightarrow> m = 0"
    by (rule parts_of_shape [of d]) blast
  show ?thesis
  proof (cases "is_abs d")
    case True
    then have c: "path_clean d = ''/'' @ join ''/'' rs" and m: "m = 0" using parts by (simp_all add: path_clean_def)
    have "split_on slash (''/'' @ join ''/'' rs) = [] # (if rs = [] then [[]] else rs)"
      using split_on_joined [OF parts(2)] by (auto simp: slash_def)
    then have "parts_of (''/'' @ join ''/'' rs) = rs"
      using parts(2) by (auto simp: parts_of_def is_abs_def has_prefix_def clean_parts_plain)
    then show ?thesis unfolding c by (simp add: path_clean_def is_abs_def has_prefix_def)
  next
    case rel: False
    show ?thesis
    proof (cases "parts_of d = []")
      case True
      have "path_clean ''.'' = ''.''" by code_simp
      with True rel show ?thesis by (simp add: path_clean_def)
    next
      case False
      then have c: "path_clean d = join ''/'' (parts_of d)" using rel by (simp add: path_clean_def)
      have s: "split_on slash (join ''/'' (parts_of d)) = parts_of d"
        using split_on_pieces_joined [OF False] dots_no_slash [OF parts(2)] parts(1) by simp
      have "\<not> is_abs (join ''/'' (parts_of d))"
      proof (cases m)
        case 0
        with parts False join_plain_first [of rs] show ?thesis by simp
      next
        case (Suc k)
        then show ?thesis using parts(1)
          by (cases "replicate k ''..'' @ rs") (simp_all add: is_abs_def has_prefix_def)
      qed
      with s have "parts_of (join ''/'' (parts_of d)) = parts_of d"
        using clean_parts_fixed [OF parts(2), of False m] parts(1) by (simp add: parts_of_def)
      with False \<open>\<not> is_abs (join ''/'' (parts_of d))\<close> show ?thesis unfolding c by (simp add: path_clean_def)
    qed
  qed
qed

lemma clean_trailing: "u \<noteq> [] \<Longrightarrow> path_clean (u @ ''/'') = path_clean u"
proof -
  assume u: "u \<noteq> []"
  then have a: "is_abs (u @ ''/'') = is_abs u" by (cases u) (auto simp: is_abs_def has_prefix_def)
  have "split_on slash (u @ ''/'') = split_on slash u @ [[]]" using split_on_appended [of slash u "[]"] by (simp add: slash_def)
  then have "parts_of (u @ ''/'') = parts_of u" unfolding parts_of_def a by (simp add: clean_parts_append)
  with a show ?thesis by (simp add: path_clean_def)
qed

lemma clean_not_empty: "path_clean d \<noteq> []"
proof
  assume e: "path_clean d = []"
  then have p: "\<not> is_abs d" "parts_of d \<noteq> []" "join ''/'' (parts_of d) = []" by (auto simp: path_clean_def split: if_splits)
  obtain m rs where parts: "parts_of d = replicate m ''..'' @ rs" "list_all plain_part rs" by (rule parts_of_shape)
  from p(2,3) have "parts_of d = [[]]" by (cases "(''/'', parts_of d)" rule: join.cases) auto
  with parts show False by (cases m) (auto simp: plain_part_def)
qed

lemma path_dir_file:
  assumes "list_all plain_part ps" and "ps \<noteq> []" and "path_clean d \<noteq> ''.''" and "path_clean d \<noteq> ''/''"
    and "t = path_clean d @ ''/'' @ join ''/'' ps"
  shows "t = path_dir t @ ''/'' @ List.last ps"
proof -
  obtain qs p where ps: "ps = qs @ [p]" using assms(2) by (cases ps rule: rev_cases) auto
  obtain u v where u: "t = u @ ''/'' @ p" "u = path_clean v"
  proof (cases "qs = []")
    case True
    with that [of "path_clean d" d] assms(5) ps show ?thesis by simp
  next
    case False
    have "path_join [d, join ''/'' qs] = path_clean d @ ''/'' @ join ''/'' qs"
      using join_inside [of qs d] assms(1,3,4) ps False by simp
    moreover have "path_join [d, join ''/'' qs] = path_clean (join ''/'' (filter (\<lambda>q. q \<noteq> []) [d, join ''/'' qs]))"
      using join_plain_first [of qs] assms(1) ps False by (simp add: path_join_def)
    ultimately have "path_clean d @ ''/'' @ join ''/'' qs = path_clean (join ''/'' (filter (\<lambda>q. q \<noteq> []) [d, join ''/'' qs]))" by (rule trans [OF sym])
    moreover have "t = (path_clean d @ ''/'' @ join ''/'' qs) @ ''/'' @ p" using assms(5) ps False by (simp add: join_append)
    ultimately show ?thesis by (rule that [rotated])
  qed
  have "\<forall>x\<in>set p. x \<noteq> CHR ''/''" using assms(1) ps by (auto simp: plain_part_def slash_def)
  then have "rev (dropWhile (\<lambda>c. c \<noteq> slash) (rev t)) = u @ ''/''"
    using u(1) by (simp add: slash_def dropWhile_append3)
  then have "path_dir t = path_clean (u @ ''/'')" by (simp add: path_dir_def)
  with u clean_trailing clean_clean clean_not_empty have "path_dir t = u" by metis
  with u ps show ?thesis by simp
qed

section \<open>Absolute and relative paths\<close>

text \<open>\<open>filepath.Abs\<close>, and \<open>filepath.Rel\<close> for absolute paths.\<close>

definition path_abs :: "string \<Rightarrow> string \<Rightarrow> string" where
  "path_abs wd p = (if is_abs p then path_clean p else path_join [wd, p])"

fun drop_common :: "string list \<Rightarrow> string list \<Rightarrow> string list \<times> string list" where
  "drop_common (x # xs) (y # ys) = (if x = y then drop_common xs ys else (x # xs, y # ys))"
| "drop_common xs ys = (xs, ys)"

definition path_rel :: "string \<Rightarrow> string \<Rightarrow> string" where
  "path_rel base target =
     (if path_clean base = path_clean target then ''.''
      else (case drop_common (parts_of base) (parts_of target) of (up, down) \<Rightarrow> join ''/'' (replicate (length up) ''..'' @ down)))"

text \<open>A relative path leads back.\<close>

lemma drop_common_parts:
  "drop_common xs ys = (u, d) \<Longrightarrow> \<exists>c. xs = c @ u \<and> ys = c @ d"
proof (induction xs ys arbitrary: u d rule: drop_common.induct)
  case (1 x xs y ys)
  show ?case
  proof (cases "x = y")
    case True
    with 1 obtain c where "xs = c @ u" "ys = c @ d" by auto
    with True show ?thesis by (intro exI [of _ "x # c"]) simp
  qed (use 1(2) in \<open>auto intro!: exI [of _ "[]"]\<close>)
qed auto

lemma clean_parts_up:
  "list_all plain_part u \<Longrightarrow> clean_parts r (rev u @ st) (replicate (length u) ''..'' @ ps) = clean_parts r st ps"
proof (induction u arbitrary: st rule: rev_induct)
  case (snoc x u)
  then show ?case by (simp add: plain_part_def)
qed simp

lemma rel_back:
  assumes "is_abs base" and "is_abs target"
  shows "path_join [base, path_rel base target] = path_clean target"
proof -
  have b0: "base \<noteq> []" using assms(1) by (auto simp: is_abs_def has_prefix_def)
  have split_base: "split_on slash (base @ ''/'' @ s) = split_on slash base @ split_on slash s" for s
    using split_on_appended [of slash base s] by (simp add: slash_def)
  have abs: "is_abs (base @ ''/'' @ s)" for s using assms(1) by (cases base) (auto simp: is_abs_def has_prefix_def)
  have parts: "parts_of (base @ ''/'' @ s) = clean_parts True (rev (parts_of base)) (split_on slash s)" for s
    using abs [of s] assms(1) split_base [of s] by (simp add: parts_of_def clean_parts_append)
  show ?thesis
  proof (cases "path_clean base = path_clean target")
    case True
    have "split_on slash ''.'' = [''.'']" by code_simp
    with parts [of "''.''"] have "parts_of (base @ ''/'' @ ''.'') = parts_of base" by simp
    then show ?thesis using True b0 abs [of "''.''"] assms by (simp add: path_rel_def path_join_def path_clean_def)
  next
    case False
    obtain u d where ud: "drop_common (parts_of base) (parts_of target) = (u, d)" by fastforce
    then obtain c where c: "parts_of base = c @ u" "parts_of target = c @ d" using drop_common_parts by blast
    have "list_all plain_part (c @ u)" using parts_of_shape [of base] assms(1) c(1) by (metis append_Nil replicate_0)
    moreover have "list_all plain_part (c @ d)" using parts_of_shape [of target] assms(2) c(2) by (metis append_Nil replicate_0)
    ultimately have plain: "list_all plain_part u" "list_all plain_part d" by simp_all
    let ?ps = "replicate (length u) ''..'' @ d"
    have ne: "?ps \<noteq> []" using False c assms by (auto simp: path_clean_def)
    have s: "split_on slash (join ''/'' ?ps) = ?ps" using split_on_pieces_joined [OF ne] dots_no_slash [OF plain(2)] by simp
    have "join ''/'' ?ps \<noteq> []"
    proof
      assume "join ''/'' ?ps = []"
      with s have "?ps = [[]]" by simp
      with plain(2) show False by (cases u) (auto simp: plain_part_def)
    qed
    moreover have "parts_of (base @ ''/'' @ join ''/'' ?ps) = parts_of target"
      using clean_parts_up [OF plain(1), of True "rev c" d] clean_parts_plain [OF plain(2), of True "rev c"] c
      unfolding parts s by simp
    ultimately show ?thesis
      using False ud b0 abs [of "join ''/'' ?ps"] assms by (simp add: path_rel_def path_join_def path_clean_def)
  qed
qed

lemma abs_clean: "is_abs p \<Longrightarrow> is_abs (path_clean p)"
  by (simp add: path_clean_def is_abs_def has_prefix_def)

lemma abs_append: "is_abs wd \<Longrightarrow> is_abs (wd @ s)"
  by (cases wd) (simp_all add: is_abs_def has_prefix_def)

lemma abs_join: "is_abs wd \<Longrightarrow> path_join [wd, p] = path_clean (if p = [] then wd else wd @ ''/'' @ p)"
  by (cases wd) (simp_all add: path_join_def is_abs_def has_prefix_def Let_def)

lemma path_abs_abs: "is_abs wd \<Longrightarrow> is_abs (path_abs wd p)"
  using abs_clean [of p] abs_clean [of wd] abs_clean [OF abs_append, of wd "''/'' @ p"] by (auto simp: path_abs_def abs_join)

lemma path_abs_clean [simp]: "path_clean (path_abs wd p) = path_abs wd p" if "is_abs wd"
  using abs_join [OF that, of p] by (auto simp: path_abs_def clean_clean)

lemma join_plain_inject: "list_all plain_part xs \<Longrightarrow> list_all plain_part ys \<Longrightarrow> join ''/'' xs = join ''/'' ys \<Longrightarrow> xs = ys"
  by (metis join.simps(1) join_plain_first split_on_joined)

lemma parts_plain: "is_abs d \<Longrightarrow> list_all plain_part (parts_of d)"
  using parts_of_shape [of d] by (metis append_Nil replicate_0)

lemma parts_clean: "is_abs d \<Longrightarrow> parts_of (path_clean d) = parts_of d"
proof -
  assume d: "is_abs d"
  then have c: "is_abs (path_clean d)" by (rule abs_clean)
  have "''/'' @ join ''/'' (parts_of (path_clean d)) = ''/'' @ join ''/'' (parts_of d)"
    using clean_clean [of d] d c by (simp add: path_clean_def)
  then have "join ''/'' (parts_of (path_clean d)) = join ''/'' (parts_of d)" by simp
  then show ?thesis by (rule join_plain_inject [OF parts_plain [OF c] parts_plain [OF d]])
qed

lemma parts_join:
  assumes "is_abs d" and "plain_part a"
  shows "parts_of (path_join [d, a]) = parts_of d @ [a]" and "is_abs (path_join [d, a])" and "path_clean (path_join [d, a]) = path_join [d, a]"
proof -
  have ne: "d \<noteq> []" "a \<noteq> []" using assms by (auto simp: is_abs_def has_prefix_def plain_part_def)
  have j: "path_join [d, a] = path_clean (d @ ''/'' @ a)" using ne by (simp add: path_join_def Let_def)
  have "is_abs (d @ ''/'' @ a)" "parts_of (d @ ''/'' @ a) = parts_of d @ [a]"
    using join_plain [of "[a]" d] assms ne by simp_all
  with j parts_clean abs_clean clean_clean show "parts_of (path_join [d, a]) = parts_of d @ [a]" and "is_abs (path_join [d, a])"
    and "path_clean (path_join [d, a]) = path_join [d, a]" by simp_all
qed

end
