(* ===== verification/BundleV2.thy ===== *)
theory BundleV2
  imports GoEnv GoPath
begin

text \<open>
  \<open>pkg/bundlev2\<close> (\<open>bundle.go\<close>): sealing an incident directory into an encrypted bundle and opening it again. AES-GCM, the
  JSON codec of the envelope, gzip and tar, and the random source are parameters; PBKDF2 is written out over HMAC.
  A directory is the list of its entries in the order \<open>WalkDir\<close> visits them. Extraction is modelled into the empty
  or new directory the code insists on, with every file it writes, also those written before an error.
\<close>

section \<open>Limits and envelope\<close>

definition kdf_iterations :: nat where "kdf_iterations = 600000"

definition max_bundle_size :: int where "max_bundle_size = 1073741824"

definition max_archived_file :: int where "max_archived_file = 268435456"

definition associated_data :: string where "associated_data = ''infernosim.bundle:v2''"

record envelope =
  vlFormat :: string
  vlVersion :: int
  vlKdfName :: string
  vlKdfIterations :: int
  vlKdfSalt :: string
  vlCipherName :: string
  vlNonce :: string
  vlCiphertext :: string

record bundle_lib =
  blSeal :: "string \<Rightarrow> string \<Rightarrow> string \<Rightarrow> string \<Rightarrow> string"
  blOpen :: "string \<Rightarrow> string \<Rightarrow> string \<Rightarrow> string \<Rightarrow> string option"
  blNonceSize :: nat
  blEncode :: "envelope \<Rightarrow> string"
  blDecode :: "string \<Rightarrow> envelope option"

section \<open>Key derivation\<close>

definition xor_bytes :: "string \<Rightarrow> string \<Rightarrow> string" where
  "xor_bytes a b = map (\<lambda>(x, y). char_of (Bit_Operations.xor (byte x) (byte y))) (zip a b)"

fun kdf_rounds :: "(string \<Rightarrow> string \<Rightarrow> string) \<Rightarrow> string \<Rightarrow> nat \<Rightarrow> string \<Rightarrow> string \<Rightarrow> string" where
  "kdf_rounds mac password 0 u t = t"
| "kdf_rounds mac password (Suc n) u t = kdf_rounds mac password n (mac password u) (xor_bytes t (mac password u))"

definition block_number :: "nat \<Rightarrow> string" where
  "block_number i = map (\<lambda>k. chr (i div 2 ^ k mod 256)) [24, 16, 8, 0]"

definition pbkdf2 :: "(string \<Rightarrow> string \<Rightarrow> string) \<Rightarrow> string \<Rightarrow> string \<Rightarrow> nat \<Rightarrow> nat \<Rightarrow> string" where
  "pbkdf2 mac password salt iterations keylen =
     take keylen (concat (map (\<lambda>i. let u = mac password (salt @ block_number i) in kdf_rounds mac password (iterations - 1) u u)
       [1..<Suc ((keylen + 31) div 32)]))"

section \<open>Archiving\<close>

datatype entry_kind = SymbolicLink | Directory | RegularFile | OtherFile

record walk_entry =
  weRelative :: string
  weKind :: entry_kind
  weData :: string

datatype bundle_error =
    ShortPassphrase | SourceMissing | SourceNotDirectory | UnsafeSource string | LinkRefused string | KindRefused string
  | FileTooLarge string | ArchiveTooLarge | NoRandomness | OutputExists
  | PassphraseMissing | BundleMissing | BundleTooLarge | EnvelopeInvalid | VersionUnsupported | KdfRefused | CipherUnsupported
  | NonceInvalid | AuthenticationFailed
  | DestinationNotDirectory | DestinationNotEmpty | ArchiveUnreadable | EntryUnsupported string | SizeUnsafe string
  | TotalTooLarge | PathUnsafe string | PathEscapes string | DirectoryBlocked string | FileExists string | CopyShort string

definition archive_entry :: "(string \<times> string) list \<Rightarrow> walk_entry \<Rightarrow> (bundle_error, (string \<times> string) list) result" where
  "archive_entry acc e =
     (if has_prefix (weRelative e) ''..'' \<or> is_abs (weRelative e) then Inl (UnsafeSource (weRelative e))
      else if weKind e = SymbolicLink then Inl (LinkRefused (weRelative e))
      else if weKind e = Directory then Inr acc
      else if weKind e \<noteq> RegularFile then Inl (KindRefused (weRelative e))
      else if max_archived_file < int (length (weData e)) then Inl (FileTooLarge (weRelative e))
      else Inr (acc @ [(weRelative e, weData e)]))"

definition archive_directory ::
  "((string \<times> string) list \<Rightarrow> string) \<Rightarrow> walk_entry list \<Rightarrow> (bundle_error, string) result" where
  "archive_directory pack es =
     and_then (fold_err archive_entry [] es) (\<lambda>files.
     and_then (fail_if (max_bundle_size < int (length (pack files))) ArchiveTooLarge) (\<lambda>_. Inr (pack files)))"

datatype source = NoSource | SourceFile | SourceDirectory "walk_entry list"

text \<open>\<open>SealDirectory\<close>: the bytes of the bundle; \<open>salt\<close> and \<open>nonce\<close> are what the random source gives, \<open>existing\<close> whether
  the output exists when the bundle is complete.\<close>

definition seal_directory ::
  "go_env \<Rightarrow> bundle_lib \<Rightarrow> ((string \<times> string) list \<Rightarrow> string) \<Rightarrow> string option \<Rightarrow> string option \<Rightarrow> bool \<Rightarrow>
   source \<Rightarrow> string \<Rightarrow> (bundle_error, string) result" where
  "seal_directory E L pack salt nonce existing src passphrase =
     and_then (fail_if (length passphrase < 12) ShortPassphrase) (\<lambda>_.
     case src of
       NoSource \<Rightarrow> Inl SourceMissing
     | SourceFile \<Rightarrow> Inl SourceNotDirectory
     | SourceDirectory es \<Rightarrow>
         and_then (archive_directory pack es) (\<lambda>plain.
         case (salt, nonce) of
           (Some s, Some n) \<Rightarrow>
             and_then (fail_if existing OutputExists) (\<lambda>_.
             Inr (blEncode L
               \<lparr>vlFormat = ''infernosim.bundle'', vlVersion = 2, vlKdfName = ''PBKDF2-HMAC-SHA256'',
                vlKdfIterations = int kdf_iterations, vlKdfSalt = s, vlCipherName = ''AES-256-GCM'', vlNonce = n,
                vlCiphertext = blSeal L (pbkdf2 (gHmacSha256 E) passphrase s kdf_iterations 32) n plain associated_data\<rparr>))
         | _ \<Rightarrow> Inl NoRandomness))"

section \<open>Extracting\<close>

record tar_entry =
  teName :: string
  teRegular :: bool
  teSize :: int
  teData :: string

text \<open>A directory cannot be made where a file is in the way; a target exists when it was written, or is the directory of
  something written.\<close>

definition blocked :: "(string \<times> string) list \<Rightarrow> string \<Rightarrow> bool" where
  "blocked w d \<longleftrightarrow> (\<exists>f\<in>set w. fst f = d \<or> has_prefix d (fst f @ ''/''))"

definition occupied :: "(string \<times> string) list \<Rightarrow> string \<Rightarrow> bool" where
  "occupied w t \<longleftrightarrow> (\<exists>f\<in>set w. fst f = t \<or> has_prefix (fst f) (t @ ''/''))"

definition unsafe_path :: "string \<Rightarrow> bool" where
  "unsafe_path c \<longleftrightarrow> c = ''.'' \<or> is_abs c \<or> has_prefix c ''../'' \<or> c = ''..''"

definition entry_target :: "string \<Rightarrow> int \<Rightarrow> tar_entry \<Rightarrow> (bundle_error, string) result" where
  "entry_target dest sofar e =
     and_then (fail_if (\<not> teRegular e) (EntryUnsupported (teName e))) (\<lambda>_.
     and_then (fail_if (teSize e < 0 \<or> max_archived_file < teSize e) (SizeUnsafe (teName e))) (\<lambda>_.
     and_then (fail_if (max_bundle_size < sofar + teSize e) TotalTooLarge) (\<lambda>_.
     and_then (fail_if (unsafe_path (path_clean (teName e))) (PathUnsafe (teName e))) (\<lambda>_.
     and_then (fail_if (\<not> has_prefix (path_join [dest, path_clean (teName e)]) (path_clean dest @ ''/''))
        (PathEscapes (teName e))) (\<lambda>_.
     Inr (path_join [dest, path_clean (teName e)]))))))"

fun extract_from ::
  "string \<Rightarrow> tar_entry option list \<Rightarrow> int \<Rightarrow> (string \<times> string) list \<Rightarrow> bundle_error option \<times> (string \<times> string) list" where
  "extract_from dest [] sofar w = (None, w)"
| "extract_from dest (None # rest) sofar w = (Some ArchiveUnreadable, w)"
| "extract_from dest (Some e # rest) sofar w =
     (case entry_target dest sofar e of
        Inl err \<Rightarrow> (Some err, w)
      | Inr t \<Rightarrow>
          if blocked w (path_dir t) then (Some (DirectoryBlocked t), w)
          else if occupied w t then (Some (FileExists t), w)
          else if int (length (teData e)) < teSize e then (Some (CopyShort t), w @ [(t, teData e)])
          else extract_from dest rest (sofar + teSize e) (w @ [(t, take (nat (teSize e)) (teData e))]))"

datatype destination = NewDestination | DestinationFile | DestinationDirectory bool

text \<open>\<open>extractArchive\<close>; \<open>unpack\<close> reads gzip and tar, None standing for a damaged gzip header.\<close>

definition extract_archive ::
  "(string \<Rightarrow> tar_entry option list option) \<Rightarrow> destination \<Rightarrow> string \<Rightarrow> string \<Rightarrow>
   bundle_error option \<times> (string \<times> string) list" where
  "extract_archive unpack state dest archive =
     (case state of
        DestinationFile \<Rightarrow> (Some DestinationNotDirectory, [])
      | DestinationDirectory True \<Rightarrow> (Some DestinationNotEmpty, [])
      | _ \<Rightarrow> (case unpack archive of
          None \<Rightarrow> (Some ArchiveUnreadable, [])
        | Some es \<Rightarrow> extract_from dest es 0 []))"

definition check_envelope :: "bundle_lib \<Rightarrow> envelope \<Rightarrow> (bundle_error, unit) result" where
  "check_envelope L v =
     and_then (fail_if (vlFormat v \<noteq> ''infernosim.bundle'' \<or> vlVersion v \<noteq> 2) VersionUnsupported) (\<lambda>_.
     and_then (fail_if (vlKdfName v \<noteq> ''PBKDF2-HMAC-SHA256'' \<or> vlKdfIterations v < 100000 \<or> 2000000 < vlKdfIterations v \<or>
        length (vlKdfSalt v) \<noteq> 16) KdfRefused) (\<lambda>_.
     and_then (fail_if (vlCipherName v \<noteq> ''AES-256-GCM'') CipherUnsupported) (\<lambda>_.
     fail_if (length (vlNonce v) \<noteq> blNonceSize L) NonceInvalid)))"

definition decrypt_bundle :: "go_env \<Rightarrow> bundle_lib \<Rightarrow> string option \<Rightarrow> string \<Rightarrow> (bundle_error, string) result" where
  "decrypt_bundle E L file passphrase =
     and_then (fail_if (passphrase = []) PassphraseMissing) (\<lambda>_.
     case file of
       None \<Rightarrow> Inl BundleMissing
     | Some data \<Rightarrow>
         and_then (fail_if (max_bundle_size < int (length data)) BundleTooLarge) (\<lambda>_.
         case blDecode L data of
           None \<Rightarrow> Inl EnvelopeInvalid
         | Some v \<Rightarrow>
             and_then (check_envelope L v) (\<lambda>_.
             case blOpen L (pbkdf2 (gHmacSha256 E) passphrase (vlKdfSalt v) (nat (vlKdfIterations v)) 32) (vlNonce v)
                    (vlCiphertext v) associated_data of
               None \<Rightarrow> Inl AuthenticationFailed
             | Some plain \<Rightarrow> Inr plain)))"

definition open_to_directory ::
  "go_env \<Rightarrow> bundle_lib \<Rightarrow> (string \<Rightarrow> tar_entry option list option) \<Rightarrow> destination \<Rightarrow> string \<Rightarrow> string option \<Rightarrow> string \<Rightarrow>
   bundle_error option \<times> (string \<times> string) list" where
  "open_to_directory E L unpack state dest file passphrase =
     (case decrypt_bundle E L file passphrase of
        Inl err \<Rightarrow> (Some err, [])
      | Inr plain \<Rightarrow> extract_archive unpack state dest plain)"

section \<open>What extraction may write\<close>

text \<open>A file of the destination: its cleaned path, a slash, and plain parts.\<close>

definition inside :: "string \<Rightarrow> string \<Rightarrow> bool" where
  "inside dest t \<longleftrightarrow> (\<exists>ps. ps \<noteq> [] \<and> list_all plain_part ps \<and> t = path_clean dest @ ''/'' @ join ''/'' ps)"

lemma root_join: "list_all plain_part ps \<Longrightarrow> ps \<noteq> [] \<Longrightarrow> path_clean dest = ''/'' \<Longrightarrow>
  \<not> has_prefix (path_join [dest, join ''/'' ps]) ''//''"
proof -
  assume ps: "list_all plain_part ps" "ps \<noteq> []" and root: "path_clean dest = ''/''"
  have d: "dest \<noteq> []" using root by (auto simp: path_clean_def parts_of_def is_abs_def has_prefix_def)
  note first = join_plain_first [OF ps]
  have "is_abs dest \<and> parts_of dest = []"
  proof -
    obtain m rs where parts: "parts_of dest = replicate m ''..'' @ rs" "list_all plain_part rs" "is_abs dest \<Longrightarrow> m = 0"
      by (rule parts_of_shape) auto
    show ?thesis
    proof (cases "is_abs dest")
      case True
      then have "parts_of dest = rs" using parts by simp
      moreover have "join ''/'' (parts_of dest) = []" using True root by (simp add: path_clean_def)
      ultimately show ?thesis using True join_plain_first [OF parts(2)] by metis
    next
      case False
      with root have j: "join ''/'' (parts_of dest) = ''/''" "parts_of dest \<noteq> []" by (auto simp: path_clean_def split: if_splits)
      then have "split_on slash (join ''/'' (parts_of dest)) = [[], []]" by (simp add: slash_def)
      moreover have "slash \<notin> set x" if "x \<in> set (parts_of dest)" for x
      proof -
        from that have "x \<in> set (replicate m ''..'') \<or> x \<in> set rs" unfolding parts(1) by simp
        then have "x = ''..'' \<or> x \<in> set rs" by (meson in_set_replicate)
        moreover have "slash \<notin> set ''..''" by code_simp
        moreover have "x \<in> set rs \<Longrightarrow> plain_part x" using parts(2) by (simp add: list_all_iff)
        ultimately show ?thesis unfolding plain_part_def by blast
      qed
      then have "split_on slash (join [slash] (parts_of dest)) = parts_of dest" using split_on_join [OF j(2)] by blast
      ultimately have "parts_of dest = [[], []]" by (simp add: slash_def)
      with parts(1,2) show ?thesis by (cases m) (auto simp: plain_part_def)
    qed
  qed
  with d ps join_plain [OF ps d] have "path_join [dest, join ''/'' ps] = ''/'' @ join ''/'' ps"
    by (simp add: path_join_def Let_def path_clean_def)
  with first show ?thesis by (auto simp: is_abs_def has_prefix_def)
qed

lemma entry_target_inside:
  assumes "entry_target dest sofar e = Inr t"
  shows "inside dest t \<and> 0 \<le> teSize e \<and> sofar + teSize e \<le> max_bundle_size"
proof -
  from assms have safe: "\<not> unsafe_path (path_clean (teName e))" and t: "t = path_join [dest, path_clean (teName e)]"
    and pre: "has_prefix t (path_clean dest @ ''/'')" and size: "0 \<le> teSize e" "sofar + teSize e \<le> max_bundle_size"
    by (auto simp: entry_target_def)
  from safe obtain ps where ps: "path_clean (teName e) = join ''/'' ps" "list_all plain_part ps" "ps \<noteq> []"
    by (elim clean_inside [rotated -1]) (auto simp: unsafe_path_def)
  have "path_clean dest \<noteq> ''.''" using join_dot_outside [OF _ ps(2,3)] pre t ps(1) by auto
  moreover have "path_clean dest \<noteq> ''/''" using root_join [OF ps(2,3)] pre t ps(1) by auto
  ultimately have "t = path_clean dest @ ''/'' @ join ''/'' ps" using join_inside [OF ps(2,3)] t ps(1) by simp
  with ps size show ?thesis by (auto simp: inside_def)
qed

definition total_bytes :: "(string \<times> string) list \<Rightarrow> int" where
  "total_bytes w = sum_list (map (\<lambda>f. int (length (snd f))) w)"

lemma extract_from_contained:
  assumes "list_all (inside dest) (map fst w)" and "distinct (map fst w)" and "total_bytes w \<le> sofar" and "sofar \<le> max_bundle_size"
  shows "list_all (inside dest) (map fst (snd (extract_from dest es sofar w))) \<and>
    distinct (map fst (snd (extract_from dest es sofar w))) \<and> total_bytes (snd (extract_from dest es sofar w)) \<le> max_bundle_size"
  using assms
proof (induction dest es sofar w rule: extract_from.induct)
  case (3 dest e rest sofar w)
  show ?case
  proof (cases "entry_target dest sofar e")
    case (Inl err)
    with "3.prems" show ?thesis by simp
  next
    case (Inr t)
    note t = entry_target_inside [OF Inr]
    show ?thesis
    proof (cases "blocked w (path_dir t) \<or> occupied w t")
      case True
      with Inr "3.prems" show ?thesis by auto
    next
      case False
      then have new: "t \<notin> fst ` set w" by (auto simp: occupied_def)
      show ?thesis
      proof (cases "int (length (teData e)) < teSize e")
        case True
        with Inr False new t "3.prems" show ?thesis by (simp add: total_bytes_def)
      next
        case full: False
        let ?w = "w @ [(t, take (nat (teSize e)) (teData e))]"
        have "total_bytes ?w \<le> sofar + teSize e"
          using "3.prems"(3) t full by (simp add: total_bytes_def)
        with "3.IH" [OF Inr] False full new t "3.prems" Inr show ?thesis by simp
      qed
    qed
  qed
qed simp_all

text \<open>C29. Whatever the archive contains, extraction only writes inside the destination, each file once, and at most 1 GiB
  in all; this holds for what has been written when extraction stops with an error as well.\<close>

theorem extraction_contained:
  "list_all (inside dest) (map fst (snd (extract_archive unpack state dest archive))) \<and>
   distinct (map fst (snd (extract_archive unpack state dest archive))) \<and>
   total_bytes (snd (extract_archive unpack state dest archive)) \<le> max_bundle_size"
proof -
  have none: "total_bytes [] \<le> max_bundle_size" by (simp add: total_bytes_def max_bundle_size_def)
  have "list_all (inside dest) (map fst (snd (extract_from dest es 0 []))) \<and>
    distinct (map fst (snd (extract_from dest es 0 []))) \<and> total_bytes (snd (extract_from dest es 0 [])) \<le> max_bundle_size" for es
    by (rule extract_from_contained) (simp_all add: total_bytes_def max_bundle_size_def)
  with none show ?thesis by (auto simp: extract_archive_def split: destination.splits option.splits bool.splits)
qed

text \<open>Nothing can be extracted into the current directory given as a dot or an empty path: joining drops the dot, so
  the check for escaping paths refuses every entry.\<close>

theorem dot_destination_refused:
  assumes "path_clean dest = ''.''"
  shows "snd (extract_archive unpack state dest archive) = []"
proof -
  have "\<not> inside dest t \<or> \<not> entry_target dest sofar e = Inr t" for sofar e t
  proof (rule ccontr)
    assume "\<not> (\<not> inside dest t \<or> \<not> entry_target dest sofar e = Inr t)"
    then have e: "entry_target dest sofar e = Inr t" by blast
    then have safe: "\<not> unsafe_path (path_clean (teName e))" and t: "t = path_join [dest, path_clean (teName e)]"
      and pre: "has_prefix t ''./''" using assms by (auto simp: entry_target_def)
    from safe obtain ps where ps: "path_clean (teName e) = join ''/'' ps" "list_all plain_part ps" "ps \<noteq> []"
      by (elim clean_inside [rotated -1]) (auto simp: unsafe_path_def)
    with join_dot_outside [OF assms ps(2,3)] pre t show False by simp
  qed
  with entry_target_inside have none: "entry_target dest sofar e \<noteq> Inr t" for sofar e t by blast
  have "snd (extract_from dest es 0 []) = []" for es
  proof (cases es)
    case (Cons x xs)
    then show ?thesis using none by (cases x; cases "entry_target dest 0 (the x)") auto
  qed simp
  then show ?thesis by (auto simp: extract_archive_def split: destination.splits option.splits bool.splits)
qed

definition example_entry :: "string \<Rightarrow> string \<Rightarrow> tar_entry option" where
  "example_entry n d = Some \<lparr>teName = n, teRegular = True, teSize = int (length d), teData = d\<rparr>"

lemma dot_destination_refused_witness:
  "snd (extract_archive (\<lambda>_. Some [example_entry ''inbound.log'' ''x'']) NewDestination ''./'' []) = []"
  by (rule dot_destination_refused) code_simp

section \<open>Sealing and opening\<close>

definition regular_files :: "walk_entry list \<Rightarrow> (string \<times> string) list" where
  "regular_files es = map (\<lambda>e. (weRelative e, weData e)) (filter (\<lambda>e. weKind e = RegularFile) es)"

lemma archive_entries:
  "fold_err archive_entry acc es = Inr files \<Longrightarrow>
     files = acc @ regular_files es \<and> list_all (\<lambda>f. int (length (snd f)) \<le> max_archived_file) (regular_files es)"
proof (induction es arbitrary: acc)
  case (Cons e es)
  then obtain acc' where step: "archive_entry acc e = Inr acc'" and rest: "fold_err archive_entry acc' es = Inr files"
    by (auto split: sum.splits)
  from step have "weKind e = Directory \<and> acc' = acc \<or>
      weKind e = RegularFile \<and> acc' = acc @ [(weRelative e, weData e)] \<and> int (length (weData e)) \<le> max_archived_file"
    by (cases "weKind e") (auto simp: archive_entry_def not_less split: if_splits)
  with Cons.IH [OF rest] show ?case by (auto simp: regular_files_def)
qed (simp add: regular_files_def)

text \<open>The directories sealing accepts: cleaned relative paths, each once, and no file is a directory of another.\<close>

definition walk_ok :: "walk_entry list \<Rightarrow> bool" where
  "walk_ok es \<longleftrightarrow>
     distinct (map weRelative es) \<and>
     list_all (\<lambda>e. path_clean (weRelative e) = weRelative e \<and> \<not> unsafe_path (weRelative e)) es \<and>
     list_all (\<lambda>e. weKind e = RegularFile \<longrightarrow> list_all (\<lambda>f. \<not> has_prefix (weRelative f) (weRelative e @ ''/'')) es) es"

definition sealed_entry :: "string \<times> string \<Rightarrow> tar_entry" where
  "sealed_entry f = \<lparr>teName = fst f, teRegular = True, teSize = int (length (snd f)), teData = snd f\<rparr>"

lemma sealed_entry_simps [simp]:
  "teSize (sealed_entry f) = int (length (snd f))" "teData (sealed_entry f) = snd f"
  by (simp_all add: sealed_entry_def)

definition placed :: "string \<Rightarrow> string \<times> string \<Rightarrow> string \<times> string" where
  "placed dest f = (path_clean dest @ ''/'' @ fst f, snd f)"

lemma safe_path_parts:
  assumes "path_clean r = r" and "\<not> unsafe_path r"
  obtains ps where "r = join ''/'' ps" "list_all plain_part ps" "ps \<noteq> []"
  using assms clean_inside [of r] by (auto simp: unsafe_path_def)

lemma has_prefix_trans: "has_prefix a b \<Longrightarrow> has_prefix b c \<Longrightarrow> has_prefix a c"
  by (auto simp: has_prefix_append)

lemma has_prefix_append_same [simp]: "has_prefix (a @ s) (a @ p) = has_prefix s p"
  by (simp add: has_prefix_def)

text \<open>A new file is only in the way of, or blocked by, a file that is a directory of the other or the same.\<close>

lemma new_file_free:
  assumes "path_clean r = r" and "\<not> unsafe_path r" and "path_clean dest \<noteq> ''.''" and "path_clean dest \<noteq> ''/''"
    and "list_all (\<lambda>g. fst g \<noteq> r \<and> \<not> has_prefix r (fst g @ ''/'') \<and> \<not> has_prefix (fst g) (r @ ''/'')) done"
  shows "\<not> blocked (map (placed dest) done) (path_dir (path_clean dest @ ''/'' @ r)) \<and>
    \<not> occupied (map (placed dest) done) (path_clean dest @ ''/'' @ r)"
proof
  obtain ps where ps: "r = join ''/'' ps" "list_all plain_part ps" "ps \<noteq> []" using safe_path_parts [OF assms(1,2)] .
  let ?t = "path_clean dest @ ''/'' @ r"
  obtain b where b: "?t = path_dir ?t @ ''/'' @ b" using path_dir_file [OF ps(2,3) assms(3,4), of ?t] ps(1) by auto
  show "\<not> blocked (map (placed dest) done) (path_dir ?t)"
  proof
    assume "blocked (map (placed dest) done) (path_dir ?t)"
    then obtain g where g: "g \<in> set done" and "path_clean dest @ ''/'' @ fst g = path_dir ?t \<or>
        has_prefix (path_dir ?t) ((path_clean dest @ ''/'' @ fst g) @ ''/'')"
      by (auto simp: blocked_def placed_def)
    moreover have "has_prefix ?t (path_dir ?t @ ''/'')" by (subst b) (simp add: has_prefix_append)
    moreover have "has_prefix ?t (path_dir ?t)" by (subst b) (simp add: has_prefix_append)
    ultimately have "has_prefix ?t ((path_clean dest @ ''/'' @ fst g) @ ''/'')"
      using has_prefix_trans [of ?t "path_dir ?t"] by metis
    then have "has_prefix r (fst g @ ''/'')" using has_prefix_append_same [of "path_clean dest @ ''/''" r "fst g @ ''/''"] by simp
    with g assms(5) show False by (auto simp: list_all_iff)
  qed
  show "\<not> occupied (map (placed dest) done) ?t"
  proof
    assume "occupied (map (placed dest) done) ?t"
    then obtain g where g: "g \<in> set done" and "fst g = r \<or> has_prefix (path_clean dest @ ''/'' @ fst g) (?t @ ''/'')"
      by (auto simp: occupied_def placed_def)
    then have "fst g = r \<or> has_prefix (fst g) (r @ ''/'')"
      using has_prefix_append_same [of "path_clean dest @ ''/''" "fst g" "r @ ''/''"] by simp
    with g assms(5) show False by (auto simp: list_all_iff)
  qed
qed

lemma extract_sealed:
  assumes "path_clean dest \<noteq> ''.''" and "path_clean dest \<noteq> ''/''"
  shows "list_all (\<lambda>f. path_clean (fst f) = fst f \<and> \<not> unsafe_path (fst f) \<and> int (length (snd f)) \<le> max_archived_file) fs \<Longrightarrow>
    distinct (map fst (done @ fs)) \<Longrightarrow>
    list_all (\<lambda>f. list_all (\<lambda>g. \<not> has_prefix (fst g) (fst f @ ''/'')) (done @ fs)) (done @ fs) \<Longrightarrow>
    sofar + total_bytes fs \<le> max_bundle_size \<Longrightarrow>
    extract_from dest (map (Some \<circ> sealed_entry) fs) sofar (map (placed dest) done) = (None, map (placed dest) (done @ fs))"
proof (induction fs arbitrary: "done" sofar)
  case (Cons f fs)
  then have f: "path_clean (fst f) = fst f" "\<not> unsafe_path (fst f)" "int (length (snd f)) \<le> max_archived_file" by simp_all
  obtain ps where ps: "fst f = join ''/'' ps" "list_all plain_part ps" "ps \<noteq> []" using safe_path_parts [OF f(1,2)] .
  have tail: "0 \<le> total_bytes fs" unfolding total_bytes_def by (rule sum_list_nonneg) auto
  with Cons.prems(4) have "sofar + int (length (snd f)) \<le> max_bundle_size" by (simp add: total_bytes_def)
  moreover have t: "path_join [dest, fst f] = path_clean dest @ ''/'' @ fst f" using join_inside [OF ps(2,3) assms] ps(1) by simp
  moreover have "has_prefix (path_clean dest @ ''/'' @ fst f) (path_clean dest @ ''/'')"
    using has_prefix_append_same [of "path_clean dest @ ''/''" "fst f" "[]"] by (simp add: has_prefix_def)
  ultimately have target: "entry_target dest sofar (sealed_entry f) = Inr (path_clean dest @ ''/'' @ fst f)"
    using f by (simp add: entry_target_def sealed_entry_def)
  have "list_all (\<lambda>g. fst g \<noteq> fst f \<and> \<not> has_prefix (fst f) (fst g @ ''/'') \<and> \<not> has_prefix (fst g) (fst f @ ''/'')) done"
  proof -
    have "fst g \<noteq> fst f" if "g \<in> set done" for g using Cons.prems(2) that by (auto simp: image_iff)
    with Cons.prems(3) show ?thesis by (simp add: list_all_iff)
  qed
  note free = new_file_free [OF f(1,2) assms this]
  have "extract_from dest (map (Some \<circ> sealed_entry) (f # fs)) sofar (map (placed dest) done) =
    extract_from dest (map (Some \<circ> sealed_entry) fs) (sofar + int (length (snd f))) (map (placed dest) (done @ [f]))"
    using free by (simp add: target sealed_entry_simps placed_def)
  also have "\<dots> = (None, map (placed dest) ((done @ [f]) @ fs))"
    by (rule Cons.IH) (use Cons.prems in \<open>simp_all add: total_bytes_def add.assoc\<close>)
  finally show ?case by (simp only: append_assoc append.simps)
qed simp

text \<open>What the libraries document: opening undoes sealing with the same key, nonce and associated data, decoding undoes
  encoding on the envelopes sealing builds, and reading the archive gives back the files it was written from.\<close>

definition sealed_envelope :: "string \<Rightarrow> string \<Rightarrow> string \<Rightarrow> envelope" where
  "sealed_envelope s n c = \<lparr>vlFormat = ''infernosim.bundle'', vlVersion = 2, vlKdfName = ''PBKDF2-HMAC-SHA256'',
     vlKdfIterations = int kdf_iterations, vlKdfSalt = s, vlCipherName = ''AES-256-GCM'', vlNonce = n, vlCiphertext = c\<rparr>"

definition lib_ok :: "bundle_lib \<Rightarrow> bool" where
  "lib_ok L \<longleftrightarrow>
     (\<forall>k n p a. length n = blNonceSize L \<longrightarrow> blOpen L k n (blSeal L k n p a) a = Some p) \<and>
     (\<forall>s n c. length s = 16 \<longrightarrow> length n = blNonceSize L \<longrightarrow>
        blDecode L (blEncode L (sealed_envelope s n c)) = Some (sealed_envelope s n c))"


lemma seal_exact:
  assumes "seal_directory E L pack (Some salt) (Some nonce) existing (SourceDirectory es) passphrase = Inr data"
  shows "12 \<le> length passphrase \<and> list_all (\<lambda>f. int (length (snd f)) \<le> max_archived_file) (regular_files es) \<and>
    data = blEncode L (sealed_envelope salt nonce
      (blSeal L (pbkdf2 (gHmacSha256 E) passphrase salt kdf_iterations 32) nonce (pack (regular_files es)) associated_data))"
proof -
  from assms obtain files where files: "fold_err archive_entry [] es = Inr files"
    and rest: "12 \<le> length passphrase" "data = blEncode L (sealed_envelope salt nonce
      (blSeal L (pbkdf2 (gHmacSha256 E) passphrase salt kdf_iterations 32) nonce (pack files) associated_data))"
    by (auto simp: seal_directory_def archive_directory_def sealed_envelope_def not_less)
  from archive_entries [OF files] rest show ?thesis by simp
qed

lemma decrypt_sealed:
  assumes "lib_ok L" and "length salt = 16" and "length nonce = blNonceSize L" and "12 \<le> length passphrase"
    and "data = blEncode L (sealed_envelope salt nonce
      (blSeal L (pbkdf2 (gHmacSha256 E) passphrase salt kdf_iterations 32) nonce plain associated_data))"
    and "int (length data) \<le> max_bundle_size"
  shows "decrypt_bundle E L (Some data) passphrase = Inr plain"
proof -
  have "passphrase \<noteq> []" using assms(4) by auto
  with assms show ?thesis
    by (simp add: decrypt_bundle_def lib_ok_def check_envelope_def sealed_envelope_def kdf_iterations_def)
qed


definition plain_lib :: bundle_lib where
  "plain_lib = \<lparr>blSeal = (\<lambda>k n p a. p), blOpen = (\<lambda>k n c a. Some c), blNonceSize = 12,
     blEncode = (\<lambda>v. vlKdfSalt v @ vlNonce v @ vlCiphertext v),
     blDecode = (\<lambda>s. Some (sealed_envelope (take 16 s) (take 12 (drop 16 s)) (drop 28 s)))\<rparr>"

definition example_walk :: "walk_entry list" where
  "example_walk =
     [\<lparr>weRelative = ''inbound.log'', weKind = RegularFile, weData = ''call''\<rparr>,
      \<lparr>weRelative = ''messages'', weKind = Directory, weData = []\<rparr>,
      \<lparr>weRelative = ''messages/kafka.log'', weKind = RegularFile, weData = ''record''\<rparr>]"

text \<open>A stand-in for tar: the two files of the example with a length in front of each.\<close>

definition example_pack :: "(string \<times> string) list \<Rightarrow> string" where
  "example_pack fs = concat (map (\<lambda>f. fst f @ '':'' @ snd f @ '';'') fs)"

definition example_unpack :: "string \<Rightarrow> tar_entry option list option" where
  "example_unpack s = Some (map (\<lambda>p. case split_on (CHR '':'') p of [n, d] \<Rightarrow> Some (sealed_entry (n, d)) | _ \<Rightarrow> None)
     (butlast (split_on (CHR '';'') s)))"


end
