(* ===== verification/Inject.thy ===== *)
theory Inject
  imports GoNum GoNet
begin

text \<open>
  \<open>pkg/inject\<close> (\<open>inject.go\<close>): the connection-level fault configuration (\<open>ParseConfig\<close>,
  \<open>Evaluate\<close>) and the per-dependency rules of a replay (\<open>ParseRules\<close>, \<open>Match\<close>). Parameters:
  \<open>strconv.ParseFloat\<close> (\<open>pfloat\<close>), float rounding (\<open>rnd\<close>), \<open>time.ParseDuration\<close> (\<open>pdur\<close>) and
  the random generator, whose state is passed through \<open>evaluate\<close>.
\<close>

section \<open>Fault configuration\<close>

record inject_config =
  icJitterMs :: int
  icDropRate :: f64
  icResetRate :: f64
  icStatus :: int
  icStatusRate :: f64

datatype config_error =
    BadConfigToken string | BadJitter string | BadDropRate string | BadResetRate string
  | BadStatus string | BadStatusRate string | UnknownKey string
  | JitterNegative | DropOutOfRange | ResetOutOfRange | StatusRateOutOfRange | StatusOutOfRange

definition zero_config :: inject_config where
  "zero_config = \<lparr>icJitterMs = 0, icDropRate = Fin 0, icResetRate = Fin 0, icStatus = 0,
     icStatusRate = Fin 0\<rparr>"

text \<open>One \<open>key=value\<close> token of the comma-separated list.\<close>

definition parse_config_token ::
  "(string \<Rightarrow> f64 option) \<Rightarrow> (real \<Rightarrow> real) \<Rightarrow> inject_config \<Rightarrow> string \<Rightarrow>
   (config_error, inject_config) result" where
  "parse_config_token pfloat rnd cfg p =
     (case cut (CHR ''='') (trim_space p) of
        None \<Rightarrow> Inl (BadConfigToken p)
      | Some (k, v) \<Rightarrow>
          let key = to_lower k in
          if key = ''jitter'' then
            (let v' = trim_suffix v ''ms'' in
             case atoi v' of None \<Rightarrow> Inl (BadJitter v') | Some ms \<Rightarrow> Inr (cfg\<lparr>icJitterMs := ms\<rparr>))
          else if key = ''drop'' then
            (let v' = trim_suffix v ''%'' in
             case pfloat v' of None \<Rightarrow> Inl (BadDropRate v')
             | Some pct \<Rightarrow> Inr (cfg\<lparr>icDropRate := f_div rnd pct 100\<rparr>))
          else if key = ''reset'' then
            (let v' = trim_suffix v ''%'' in
             case pfloat v' of None \<Rightarrow> Inl (BadResetRate v')
             | Some pct \<Rightarrow> Inr (cfg\<lparr>icResetRate := f_div rnd pct 100\<rparr>))
          else if key = ''status'' then
            (case atoi v of None \<Rightarrow> Inl (BadStatus v) | Some st \<Rightarrow> Inr (cfg\<lparr>icStatus := st\<rparr>))
          else if key = ''rate'' then
            (let v' = trim_suffix v ''%'' in
             case pfloat v' of None \<Rightarrow> Inl (BadStatusRate v')
             | Some pct \<Rightarrow> Inr (cfg\<lparr>icStatusRate := f_div rnd pct 100\<rparr>))
          else Inl (UnknownKey key))"

definition check_config :: "inject_config \<Rightarrow> (config_error, inject_config) result" where
  "check_config cfg =
     (if icJitterMs cfg < 0 then Inl JitterNegative
      else if f_outside 0 1 (icDropRate cfg) then Inl DropOutOfRange
      else if f_outside 0 1 (icResetRate cfg) then Inl ResetOutOfRange
      else if f_outside 0 1 (icStatusRate cfg) then Inl StatusRateOutOfRange
      else if icStatus cfg \<noteq> 0 \<and> (icStatus cfg < 100 \<or> icStatus cfg > 599) then Inl StatusOutOfRange
      else Inr cfg)"

text \<open>\<open>ParseConfig\<close>; the empty string gives no configuration at all.\<close>

definition parse_config ::
  "(string \<Rightarrow> f64 option) \<Rightarrow> (real \<Rightarrow> real) \<Rightarrow> string \<Rightarrow> (config_error, inject_config option) result" where
  "parse_config pfloat rnd config =
     (if config = [] then Inr None
      else and_then (fold_err (parse_config_token pfloat rnd) zero_config (split_on (CHR '','') config))
             (\<lambda>cfg. and_then (check_config cfg) (\<lambda>cfg. Inr (Some cfg))))"

definition config_ok :: "inject_config \<Rightarrow> bool" where
  "config_ok cfg \<longleftrightarrow> 0 \<le> icJitterMs cfg \<and>
     (\<forall>r\<in>{icDropRate cfg, icResetRate cfg, icStatusRate cfg}. f_within 0 1 r \<or> r = NotANumber) \<and>
     (icStatus cfg = 0 \<or> 100 \<le> icStatus cfg \<and> icStatus cfg \<le> 599)"

lemma check_config_ok: "check_config cfg = Inr cfg' \<Longrightarrow> cfg' = cfg \<and> config_ok cfg"
  by (auto simp: check_config_def config_ok_def f_outside_iff split: if_splits)

lemma atoi_int64: "atoi s = Some i \<Longrightarrow> - 9223372036854775808 \<le> i \<and> i < 9223372036854775808"
  by (auto simp: atoi_def Let_def split: if_splits option.splits)

lemma config_token_jitter:
  "parse_config_token pfloat rnd cfg p = Inr cfg' \<Longrightarrow> icJitterMs cfg < 2 ^ 63 \<Longrightarrow> icJitterMs cfg' < 2 ^ 63"
  by (auto simp: parse_config_token_def Let_def dest!: atoi_int64 split: option.splits if_splits)

lemma parse_config_facts:
  assumes "parse_config pfloat rnd s = Inr (Some cfg)"
  shows "config_ok cfg" "icJitterMs cfg < 2 ^ 63"
proof -
  from assms obtain cfg0 where
    run: "fold_err (parse_config_token pfloat rnd) zero_config (split_on (CHR '','') s) = Inr cfg0" and
    chk: "check_config cfg0 = Inr cfg"
    by (auto simp: parse_config_def split: if_splits)
  from chk show "config_ok cfg" by (auto dest: check_config_ok)
  have "icJitterMs cfg0 < 2 ^ 63"
    using run by (rule fold_err_invariant) (auto simp: zero_config_def dest: config_token_jitter)
  with chk show "icJitterMs cfg < 2 ^ 63" by (auto dest: check_config_ok)
qed

section \<open>Evaluating a configuration\<close>

record action =
  acDelay :: int
  acDrop :: bool
  acReset :: bool
  acStatus :: int
  acApplied :: string

definition no_action :: action where
  "no_action = \<lparr>acDelay = 0, acDrop = False, acReset = False, acStatus = 0, acApplied = []\<rparr>"

text \<open>
  \<open>Evaluate\<close>. \<open>intn\<close> and \<open>float64\<close> are the generator's \<open>Intn\<close> and \<open>Float64\<close>. \<open>Intn\<close> panics
  on an argument that is not positive, which \<open>JitterMs + 1\<close> is when it overflows: \<open>None\<close> is the
  panic. A float is drawn only when its rate is positive.
\<close>

definition draw_below :: "('g \<Rightarrow> real \<times> 'g) \<Rightarrow> bool \<Rightarrow> f64 \<Rightarrow> 'g \<Rightarrow> bool \<times> 'g" where
  "draw_below float64 active rate g =
     (if active \<and> f_less (Fin 0) rate
      then (let (x, g') = float64 g in (f_less (Fin x) rate, g'))
      else (False, g))"

definition draw_jitter :: "('g \<Rightarrow> int \<Rightarrow> int \<times> 'g) \<Rightarrow> int \<Rightarrow> 'g \<Rightarrow> (int \<times> 'g) option" where
  "draw_jitter intn ms g =
     (if ms > 0 then (if wrap64 (ms + 1) \<le> 0 then None else Some (intn g (wrap64 (ms + 1))))
      else Some (0, g))"

definition evaluate ::
  "('g \<Rightarrow> int \<Rightarrow> int \<times> 'g) \<Rightarrow> ('g \<Rightarrow> real \<times> 'g) \<Rightarrow> inject_config option \<Rightarrow> bool \<Rightarrow> 'g \<Rightarrow>
   (action \<times> 'g) option" where
  "evaluate intn float64 c isHTTP g =
     (case c of
        None \<Rightarrow> Some (no_action, g)
      | Some cfg \<Rightarrow>
          (case draw_jitter intn (icJitterMs cfg) g of
             None \<Rightarrow> None
           | Some (jitter, g1) \<Rightarrow>
               (let (drop, g2) = draw_below float64 True (icDropRate cfg) g1;
                    (reset, g3) = draw_below float64 True (icResetRate cfg) g2;
                    (st, g4) = draw_below float64 (isHTTP \<and> icStatus cfg > 0) (icStatusRate cfg) g3;
                    applied = (if jitter \<noteq> 0 then [''jitter='' @ itoa jitter @ ''ms''] else []) @
                      (if drop then [''drop''] else []) @ (if reset then [''reset''] else []) @
                      (if st then [''status='' @ itoa (icStatus cfg)] else [])
                in Some (\<lparr>acDelay = (if jitter \<noteq> 0 then wrap64 (jitter * 1000000) else 0),
                          acDrop = drop, acReset = reset,
                          acStatus = (if st then icStatus cfg else 0),
                          acApplied = join '','' applied\<rparr>, g4))))"

lemma draw_below_facts:
  assumes "\<And>g. 0 \<le> fst (float64 g) \<and> fst (float64 g) < 1"
  shows "fst (draw_below float64 a r g) \<Longrightarrow> a \<and> f_less (Fin 0) r"
    and "a \<Longrightarrow> r = Fin 1 \<Longrightarrow> fst (draw_below float64 a r g)"
  using assms [of g] by (auto simp: draw_below_def split: prod.splits if_splits)

lemma draw_jitter_facts:
  assumes "\<And>g n. 0 < n \<Longrightarrow> 0 \<le> fst (intn g n) \<and> fst (intn g n) < n"
    and "0 \<le> ms" and "ms < 2 ^ 63 - 1"
  shows "\<exists>j g'. draw_jitter intn ms g = Some (j, g') \<and> 0 \<le> j \<and> j \<le> ms"
proof -
  have w: "wrap64 (ms + 1) = ms + 1" using assms(2,3) by simp
  obtain j g' where jg: "intn g (ms + 1) = (j, g')" by fastforce
  with assms(1) [of "ms + 1" g] assms(2) show ?thesis
    by (auto simp: draw_jitter_def w)
qed

section \<open>Dependency rules\<close>

record rule =
  ruDep :: string
  ruAddLatency :: int
  ruTimeout :: int
  ruRetryLimit :: int

datatype reason =
    BadToken string | BadLatency string | LatencyNegative | BadTimeout string
  | TimeoutNotPositive | BadRetries string | MissingDep | UnsupportedKeysGiven "string list"

record validation_error =
  veSupportedKeys :: "string list"
  veUnsupportedKeys :: "string list"
  veReason :: reason

definition supported_keys :: "string list" where
  "supported_keys = [''latency'', ''timeout'', ''retries'']"

definition rule_error :: "reason \<Rightarrow> validation_error" where
  "rule_error r = \<lparr>veSupportedKeys = supported_keys, veUnsupportedKeys = [], veReason = r\<rparr>"

definition no_rule :: rule where
  "no_rule = \<lparr>ruDep = [], ruAddLatency = 0, ruTimeout = 0, ruRetryLimit = - 1\<rparr>"

text \<open>One token of a rule; the unsupported keys met so far are kept beside the rule.\<close>

definition parse_rule_token ::
  "(string \<Rightarrow> int option) \<Rightarrow> rule \<times> string list \<Rightarrow> string \<Rightarrow> (validation_error, rule \<times> string list) result" where
  "parse_rule_token pdur s p =
     (let (r, uns) = s in
      case cut (CHR ''='') p of
        None \<Rightarrow> Inl (rule_error (BadToken p))
      | Some (k, v) \<Rightarrow>
          if k = ''dep'' then Inr (r\<lparr>ruDep := v\<rparr>, uns)
          else if k = ''latency'' then
            (let v' = trim_prefix v ''+'' in
             case pdur v' of
               None \<Rightarrow> Inl (rule_error (BadLatency v'))
             | Some d \<Rightarrow> if d < 0 then Inl (rule_error LatencyNegative) else Inr (r\<lparr>ruAddLatency := d\<rparr>, uns))
          else if k = ''timeout'' then
            (case pdur v of
               None \<Rightarrow> Inl (rule_error (BadTimeout v))
             | Some d \<Rightarrow> if d \<le> 0 then Inl (rule_error TimeoutNotPositive) else Inr (r\<lparr>ruTimeout := d\<rparr>, uns))
          else if k = ''retries'' then
            (case atoi v of
               None \<Rightarrow> Inl (rule_error (BadRetries v))
             | Some n \<Rightarrow> if n < 0 then Inl (rule_error (BadRetries v)) else Inr (r\<lparr>ruRetryLimit := n\<rparr>, uns))
          else Inr (r, List.insert k uns))"

definition parse_rule ::
  "(string \<Rightarrow> int option) \<Rightarrow> rule list \<times> string list \<Rightarrow> string \<Rightarrow>
   (validation_error, rule list \<times> string list) result" where
  "parse_rule pdur s raw =
     and_then (fold_err (parse_rule_token pdur) (no_rule, snd s) (str_fields raw))
       (\<lambda>(r, uns). if ruDep r = [] then Inl (rule_error MissingDep) else Inr (fst s @ [r], uns))"

definition parse_rules :: "(string \<Rightarrow> int option) \<Rightarrow> string list \<Rightarrow> (validation_error, rule list) result" where
  "parse_rules pdur flags =
     and_then (fold_err (parse_rule pdur) ([], []) flags)
       (\<lambda>(rs, uns). if uns \<noteq> [] then
            Inl \<lparr>veSupportedKeys = supported_keys, veUnsupportedKeys = uns,
                 veReason = UnsupportedKeysGiven uns\<rparr>
          else Inr rs)"

text \<open>\<open>Match\<close>: the first rule for the dependency.\<close>

fun match_dep :: "string \<Rightarrow> rule list \<Rightarrow> rule option" where
  "match_dep dep [] = None"
| "match_dep dep (r # rs) = (if ruDep r = dep then Some r else match_dep dep rs)"

definition rule_ok :: "rule \<Rightarrow> bool" where
  "rule_ok r \<longleftrightarrow> ruDep r \<noteq> [] \<and> 0 \<le> ruAddLatency r \<and> 0 \<le> ruTimeout r \<and> - 1 \<le> ruRetryLimit r"

definition rule_partial :: "rule \<Rightarrow> bool" where
  "rule_partial r \<longleftrightarrow> 0 \<le> ruAddLatency r \<and> 0 \<le> ruTimeout r \<and> - 1 \<le> ruRetryLimit r"

lemma rule_token_partial:
  "parse_rule_token pdur s p = Inr t \<Longrightarrow> rule_partial (fst s) \<Longrightarrow> rule_partial (fst t)"
  by (cases s) (auto simp: parse_rule_token_def rule_partial_def Let_def split: option.splits if_splits)

lemma rule_token_keeps:
  "parse_rule_token pdur s p = Inr t \<Longrightarrow> set (snd s) \<subseteq> set (snd t)"
  by (cases s) (auto simp: parse_rule_token_def Let_def split: option.splits if_splits)

lemma parse_rule_step:
  assumes "parse_rule pdur s raw = Inr t"
  shows "\<exists>r. fst t = fst s @ [r] \<and> rule_ok r" and "set (snd s) \<subseteq> set (snd t)"
proof -
  from assms obtain r uns where
    run: "fold_err (parse_rule_token pdur) (no_rule, snd s) (str_fields raw) = Inr (r, uns)" and
    dep: "ruDep r \<noteq> []" and t: "t = (fst s @ [r], uns)"
    by (auto simp: parse_rule_def split: if_splits)
  have "rule_partial (fst (r, uns))"
    using run by (rule fold_err_invariant [where P = "\<lambda>u. rule_partial (fst u)"])
      (auto simp: no_rule_def rule_partial_def dest: rule_token_partial [unfolded rule_partial_def])
  with dep t show "\<exists>r. fst t = fst s @ [r] \<and> rule_ok r"
    by (auto simp: rule_ok_def rule_partial_def)
  have "set (snd s) \<subseteq> set (snd (r, uns))"
    using run by (rule fold_err_invariant [where P = "\<lambda>u. set (snd s) \<subseteq> set (snd u)"])
      (auto dest: rule_token_keeps)
  with t show "set (snd s) \<subseteq> set (snd t)" by simp
qed

lemma parse_rules_run:
  assumes "fold_err (parse_rule pdur) s flags = Inr t" and "\<forall>r\<in>set (fst s). rule_ok r"
  shows "length (fst t) = length (fst s) + length flags \<and> (\<forall>r\<in>set (fst t). rule_ok r)"
  using assms
proof (induction flags arbitrary: s)
  case (Cons raw flags)
  then obtain u where u: "parse_rule pdur s raw = Inr u" "fold_err (parse_rule pdur) u flags = Inr t"
    by auto
  from parse_rule_step(1) [OF u(1)] obtain r where "fst u = fst s @ [r]" "rule_ok r" by blast
  with Cons u(2) show ?case by fastforce
qed simp

lemma match_rule_Some: "match_dep dep rs = Some r \<Longrightarrow> r \<in> set rs \<and> ruDep r = dep"
  by (induction rs) (auto split: if_splits)

lemma match_rule_None: "match_dep dep rs = None \<longleftrightarrow> dep \<notin> ruDep ` set rs"
  by (induction rs) auto

lemma join_empty_iff: "[] \<notin> set xs \<Longrightarrow> join sep xs = [] \<longleftrightarrow> xs = []"
  by (induction sep xs rule: join.induct) auto

section \<open>Properties\<close>

text \<open>\<open>ParseConfig\<close> accepts only configurations in range: the jitter is not negative, the
  status override is absent or a status code from 100 to 599, and each rate lies between 0 and 1
  or is not a number. The exception is real: the range checks are written as \<open>r < 0 || r > 1\<close>,
  which \<open>NaN\<close> passes.\<close>

theorem parse_config_in_range:
  assumes "parse_config pfloat rnd s = Inr (Some cfg)"
  shows "config_ok cfg"
  using assms by (rule parse_config_facts(1))

theorem parse_config_in_range_witness:
  "\<exists>cfg. parse_config (\<lambda>v. if v = ''5'' then Some (Fin 5) else None) id ''jitter=50ms,drop=5%,status=503'' =
     Inr (Some cfg) \<and> config_ok cfg"
proof -
  define pf where "pf = (\<lambda>v. if v = ''5'' then Some (Fin 5) else None)"
  have r: "parse_config pf id ''jitter=50ms,drop=5%,status=503'' =
      Inr (Some \<lparr>icJitterMs = 50, icDropRate = Fin (5 / 100), icResetRate = Fin 0, icStatus = 503,
                 icStatusRate = Fin 0\<rparr>)"
    unfolding pf_def by code_simp
  show ?thesis using parse_config_in_range [OF r] r by (auto simp: pf_def)
qed

text \<open>A rate of \<open>NaN\<close> is accepted by \<open>ParseConfig\<close> whenever \<open>ParseFloat\<close> reads it
  (as Go's does), although the error text promises a rate between 0\% and 100\%; the drop fault
  then never fires.\<close>

theorem parse_config_accepts_nan:
  assumes "pfloat ''NaN'' = Some NotANumber"
  shows "\<exists>cfg. parse_config pfloat rnd ''drop=NaN%'' = Inr (Some cfg) \<and>
    \<not> f_within 0 1 (icDropRate cfg) \<and>
    (\<forall>float64 g. fst (draw_below float64 True (icDropRate cfg) g) = False)"
proof -
  have t: "trim_space ''drop=NaN%'' = ''drop=NaN%''" "cut (CHR ''='') ''drop=NaN%'' = Some (''drop'', ''NaN%'')"
    "to_lower ''drop'' = ''drop''" "trim_suffix ''NaN%'' ''%'' = ''NaN''"
    "split_on (CHR '','') ''drop=NaN%'' = [''drop=NaN%'']"
    by code_simp+
  show ?thesis
    by (simp add: parse_config_def parse_config_token_def t assms Let_def zero_config_def
        lower_def byte_def
        check_config_def f_outside_def f_within_def draw_below_def)
qed

theorem parse_config_accepts_nan_witness:
  "\<exists>cfg. parse_config (\<lambda>v. if v = ''NaN'' then Some NotANumber else None) id ''drop=NaN%'' = Inr (Some cfg) \<and>
    \<not> f_within 0 1 (icDropRate cfg)"
  using parse_config_accepts_nan [of "\<lambda>v. if v = ''NaN'' then Some NotANumber else None" id] by auto

text \<open>What one evaluation of an accepted configuration may do, for every generator whose
  \<open>Intn n\<close> lies below \<open>n\<close> and whose floats lie in \<open>[0,1)\<close>: it does not panic, the delay is at
  most the configured jitter, a drop, reset or status override happens only when its rate is
  positive, a drop rate of 1 always drops, plain connections never get a status, and the
  description is empty exactly when nothing is applied.\<close>

theorem evaluate_within_config:
  assumes cfg: "parse_config pfloat rnd s = Inr (Some cfg)"
    and small: "icJitterMs cfg \<le> 9223372036854"
    and intn: "\<And>g n. 0 < n \<Longrightarrow> 0 \<le> fst (intn g n) \<and> fst (intn g n) < n"
    and float: "\<And>g. 0 \<le> fst (float64 g) \<and> fst (float64 g) < 1"
  shows "\<exists>act g'. evaluate intn float64 (Some cfg) isHTTP g = Some (act, g') \<and>
    0 \<le> acDelay act \<and> acDelay act \<le> icJitterMs cfg * 1000000 \<and>
    (acDrop act \<longrightarrow> f_less (Fin 0) (icDropRate cfg)) \<and>
    (icDropRate cfg = Fin 1 \<longrightarrow> acDrop act) \<and>
    (acReset act \<longrightarrow> f_less (Fin 0) (icResetRate cfg)) \<and>
    acStatus act \<in> {0, icStatus cfg} \<and> (\<not> isHTTP \<longrightarrow> acStatus act = 0) \<and>
    (acApplied act = [] \<longleftrightarrow> acDelay act = 0 \<and> \<not> acDrop act \<and> \<not> acReset act \<and> acStatus act = 0)"
proof -
  from parse_config_facts(1) [OF cfg] have pos: "0 \<le> icJitterMs cfg" by (simp add: config_ok_def)
  with small draw_jitter_facts [of intn "icJitterMs cfg" g] intn
  obtain j g1 where j: "draw_jitter intn (icJitterMs cfg) g = Some (j, g1)" "0 \<le> j" "j \<le> icJitterMs cfg"
    by auto
  obtain drop g2 where d: "draw_below float64 True (icDropRate cfg) g1 = (drop, g2)" by fastforce
  obtain rst g3 where r: "draw_below float64 True (icResetRate cfg) g2 = (rst, g3)" by fastforce
  obtain st g4 where t: "draw_below float64 (isHTTP \<and> icStatus cfg > 0) (icStatusRate cfg) g3 = (st, g4)"
    by fastforce
  note below = draw_below_facts [of float64, OF float]
  have facts: "drop \<Longrightarrow> f_less (Fin 0) (icDropRate cfg)" "icDropRate cfg = Fin 1 \<Longrightarrow> drop"
    "rst \<Longrightarrow> f_less (Fin 0) (icResetRate cfg)" "st \<Longrightarrow> isHTTP \<and> icStatus cfg > 0"
    using below [of True "icDropRate cfg" g1] below(1) [of True "icResetRate cfg" g2]
      below(1) [of "isHTTP \<and> icStatus cfg > 0" "icStatusRate cfg" g3] d r t by auto
  have w: "wrap64 (j * 1000000) = j * 1000000" using j small by simp
  show ?thesis
    using j facts by (auto simp: evaluate_def d r t w join_empty_iff)
qed

theorem evaluate_within_config_witness:
  "\<exists>act g'. evaluate (\<lambda>g n. (0, g)) (\<lambda>g. (0, g)) (Some \<lparr>icJitterMs = 5, icDropRate = Fin 1, icResetRate = Fin 0,
      icStatus = 0, icStatusRate = Fin 0\<rparr>) True () = Some (act, g') \<and> acDrop act"
proof -
  define pf where "pf = (\<lambda>v. if v = ''100'' then Some (Fin 100) else None)"
  have c: "parse_config pf id ''jitter=5ms,drop=100%'' =
      Inr (Some \<lparr>icJitterMs = 5, icDropRate = Fin 1, icResetRate = Fin 0, icStatus = 0,
                 icStatusRate = Fin 0\<rparr>)"
    unfolding pf_def by code_simp
  have "\<exists>act g'. evaluate (\<lambda>g n. (0, g)) (\<lambda>g. (0, g)) (Some \<lparr>icJitterMs = 5, icDropRate = Fin 1,
      icResetRate = Fin 0, icStatus = 0, icStatusRate = Fin 0\<rparr>) True () = Some (act, g') \<and> acDrop act"
    using evaluate_within_config [OF c, of "\<lambda>g n. (0, g)" "\<lambda>g. (0, g)" True "()"] by auto
  then show ?thesis .
qed

text \<open>\<open>ParseRules\<close> returns one rule per flag, and every rule names a dependency and has a
  latency and a timeout that are not negative and a retry limit of at least -1 (no limit).\<close>

theorem parse_rules_sound:
  assumes "parse_rules pdur flags = Inr rs"
  shows "length rs = length flags \<and> (\<forall>r\<in>set rs. rule_ok r)"
proof -
  from assms obtain t where "fold_err (parse_rule pdur) ([], []) flags = Inr t" "fst t = rs"
    by (auto simp: parse_rules_def split: if_splits)
  with parse_rules_run [of pdur "([], [])" flags t] show ?thesis by simp
qed

theorem parse_rules_sound_witness:
  "\<exists>rs. parse_rules (\<lambda>v. if v = ''200ms'' then Some 200000000 else None)
      [''dep=redis latency=+200ms retries=2''] = Inr rs \<and> length rs = 1 \<and> (\<forall>r\<in>set rs. rule_ok r)"
proof -
  have r: "parse_rules (\<lambda>v. if v = ''200ms'' then Some 200000000 else None)
      [''dep=redis latency=+200ms retries=2''] =
    Inr [\<lparr>ruDep = ''redis'', ruAddLatency = 200000000, ruTimeout = 0, ruRetryLimit = 2\<rparr>]"
    by code_simp
  show ?thesis using parse_rules_sound [OF r] r by auto
qed

end
