(* ===== verification/CertStore.thy ===== *)
theory CertStore
  imports GoEnv
begin

text \<open>
  \<open>pkg/capture\<close> (\<open>mitm.go\<close>): the certificate authority of the intercepting proxies, its two files and the cache of leaf
  certificates. Keys, signing and the PEM and DER codecs belong to Go's crypto packages: an authority is a pair of a
  certificate and a key of types of their own, made and read by parameters. Making the directory is outside.
\<close>

section \<open>The two files\<close>

text \<open>A file that is absent, cannot be opened, or has a content; \<open>writable\<close> tells whether it can be created or overwritten.\<close>

datatype stored_file = Absent | Unreadable | Content string

record ca_files =
  cfCert :: stored_file
  cfKey :: stored_file
  cfCertWritable :: bool
  cfKeyWritable :: bool

datatype ca_error = GenerateFailed | WriteFailed | ReadFailed | BadCert | BadKey

record ('c, 'k) codec =
  cdParseCert :: "string \<Rightarrow> 'c option"
  cdParseKey :: "string \<Rightarrow> 'k option"
  cdCertText :: "'c \<Rightarrow> string"
  cdKeyText :: "'k \<Rightarrow> string"

text \<open>\<open>generateCA\<close>: the certificate is written before the key; \<open>gen\<close> is the pair the crypto library makes, if it does.\<close>

definition generate_ca ::
  "('c, 'k) codec \<Rightarrow> ('c \<times> 'k) option \<Rightarrow> ca_files \<Rightarrow> (ca_error, 'c \<times> 'k) result \<times> ca_files" where
  "generate_ca cd gen fs =
     (case gen of
        None \<Rightarrow> (Inl GenerateFailed, fs)
      | Some (c, k) \<Rightarrow>
          if \<not> cfCertWritable fs then (Inl WriteFailed, fs)
          else (let fs1 = fs\<lparr>cfCert := Content (cdCertText cd c)\<rparr>
                in if \<not> cfKeyWritable fs then (Inl WriteFailed, fs1)
                   else (Inr (c, k), fs1\<lparr>cfKey := Content (cdKeyText cd k)\<rparr>)))"

definition load_or_generate ::
  "('c, 'k) codec \<Rightarrow> ('c \<times> 'k) option \<Rightarrow> ca_files \<Rightarrow> (ca_error, 'c \<times> 'k) result \<times> ca_files" where
  "load_or_generate cd gen fs =
     (if cfCert fs = Absent \<or> cfKey fs = Absent then generate_ca cd gen fs
      else (case cfCert fs of
              Content ct \<Rightarrow> (case cfKey fs of
                  Content kt \<Rightarrow> (case cdParseCert cd ct of
                      None \<Rightarrow> (Inl BadCert, fs)
                    | Some c \<Rightarrow> (case cdParseKey cd kt of None \<Rightarrow> (Inl BadKey, fs) | Some k \<Rightarrow> (Inr (c, k), fs)))
                | _ \<Rightarrow> (Inl ReadFailed, fs))
            | _ \<Rightarrow> (Inl ReadFailed, fs)))"

section \<open>Leaf certificates\<close>

text \<open>What a leaf says: its name, as an address or as a DNS name, the time it ends, and its serial number.\<close>

datatype leaf_name = AddressName string | DnsName string

record leaf =
  lfSubject :: string
  lfName :: leaf_name
  lfEnds :: int
  lfSerial :: nat

type_synonym leaf_cache = "(string \<times> leaf) list"

definition leaf_lifetime :: int where "leaf_lifetime = 30 * 24 * 3600 * 1000000000"

definition new_leaf :: "(string \<Rightarrow> bool) \<Rightarrow> string \<Rightarrow> int \<Rightarrow> nat \<Rightarrow> leaf" where
  "new_leaf is_ip host now serial =
     \<lparr>lfSubject = host, lfName = (if is_ip host then AddressName host else DnsName host), lfEnds = now + leaf_lifetime,
      lfSerial = serial\<rparr>"

text \<open>\<open>GenerateLeafCert\<close>: \<open>fresh\<close> is the serial number of a new certificate, None when a key or signature cannot be made;
  \<open>is_ip\<close> tells what \<open>net.ParseIP\<close> accepts. \<open>raced\<close> is the cache as found when the lock is taken again.\<close>

definition leaf_key :: "string \<Rightarrow> string" where
  "leaf_key host = to_lower (trim_space host)"

definition find_leaf :: "leaf_cache \<Rightarrow> string \<Rightarrow> leaf option" where
  "find_leaf cache host = map_of cache (leaf_key host)"

definition store_leaf :: "leaf \<Rightarrow> leaf_cache \<Rightarrow> leaf \<times> leaf_cache" where
  "store_leaf l cache =
     (case map_of cache (lfSubject l) of Some c \<Rightarrow> (c, cache) | None \<Rightarrow> (l, AList.update (lfSubject l) l cache))"

definition generate_leaf ::
  "(string \<Rightarrow> bool) \<Rightarrow> int \<Rightarrow> nat option \<Rightarrow> (leaf_cache \<Rightarrow> leaf_cache) \<Rightarrow> string \<Rightarrow> leaf_cache \<Rightarrow> leaf option \<times> leaf_cache" where
  "generate_leaf is_ip now fresh raced host cache =
     (case find_leaf cache host of
        Some l \<Rightarrow> (Some l, cache)
      | None \<Rightarrow> (case fresh of
            None \<Rightarrow> (None, cache)
          | Some n \<Rightarrow> (case store_leaf (new_leaf is_ip (leaf_key host) now n) (raced cache) of (l, c) \<Rightarrow> (Some l, c))))"

text \<open>\<open>isAllowed\<close>.\<close>

definition is_allowed :: "string list \<Rightarrow> string \<Rightarrow> bool" where
  "is_allowed hosts host \<longleftrightarrow>
     (\<exists>h\<in>set (if hosts = [] then [''localhost'', ''127.0.0.1'', ''::1''] else hosts). equal_fold (trim_space h) host)"

section \<open>Opening the store twice\<close>

definition faithful_codec :: "('c, 'k) codec \<Rightarrow> bool" where
  "faithful_codec cd \<longleftrightarrow>
     (\<forall>c. cdParseCert cd (cdCertText cd c) = Some c) \<and> (\<forall>k. cdParseKey cd (cdKeyText cd k) = Some k)"

lemma reopens:
  assumes "faithful_codec cd" and "load_or_generate cd gen fs = (Inr ca, fs')"
  shows "load_or_generate cd gen' fs' = (Inr ca, fs')"
proof (cases "cfCert fs = Absent \<or> cfKey fs = Absent")
  case True
  with assms(2) obtain c k where "gen = Some (c, k)"
    by (auto simp: load_or_generate_def generate_ca_def split: option.split_asm)
  with True assms show ?thesis
    by (auto simp: load_or_generate_def generate_ca_def faithful_codec_def Let_def split: if_split_asm)
next
  case False
  with assms(2) have "fs' = fs" by (auto simp: load_or_generate_def split: option.split_asm stored_file.split_asm)
  with False assms(2) show ?thesis by (simp add: load_or_generate_def)
qed

text \<open>A key file that cannot be written leaves the new certificate beside the old key, and the next start loads the two as an
  authority although they do not belong together.\<close>

lemma half_written_pair_loads:
  assumes "faithful_codec cd" and "cfKey fs = Content (cdKeyText cd k0)" and "cfCert fs = Absent"
    and "cfCertWritable fs" and "\<not> cfKeyWritable fs" and "gen = Some (c, k)"
  shows "case load_or_generate cd gen fs of (r, fs') \<Rightarrow> r = Inl WriteFailed \<and> load_or_generate cd gen' fs' = (Inr (c, k0), fs')"
  using assms by (auto simp: load_or_generate_def generate_ca_def faithful_codec_def Let_def)

section \<open>The cache\<close>

text \<open>Every cached certificate is the one of its key.\<close>

definition cache_ok :: "leaf_cache \<Rightarrow> bool" where
  "cache_ok cache \<longleftrightarrow> list_all (\<lambda>(h, l). lfSubject l = h) cache"

lemma find_leaf_subject: "cache_ok cache \<Longrightarrow> find_leaf cache host = Some l \<Longrightarrow> lfSubject l = leaf_key host"
  by (auto simp: cache_ok_def find_leaf_def list_all_iff dest!: map_of_SomeD)

lemma store_leaf_ok:
  assumes "cache_ok cache"
  shows "case store_leaf l cache of (l', cache') \<Rightarrow>
           cache_ok cache' \<and> map_of cache' (lfSubject l) = Some l' \<and> lfSubject l' = lfSubject l"
proof (cases "map_of cache (lfSubject l)")
  case None
  have "set (AList.update (lfSubject l) l cache) \<subseteq> insert (lfSubject l, l) (set cache)"
    by (induction cache) auto
  with assms None show ?thesis by (auto simp: store_leaf_def cache_ok_def list_all_iff update_conv')
next
  case (Some c)
  with assms show ?thesis by (auto simp: store_leaf_def cache_ok_def list_all_iff dest: map_of_SomeD)
qed

text \<open>The cache of leaf certificates stays sound and decisive: a host, in any spelling of its case and with any blanks
  around it, gets one certificate for its own name as long as the proxy runs, also when another connection has stored one
  while it was being made; nothing but a failure of the crypto library leaves a host without one.\<close>

theorem leaf_is_settled:
  assumes "cache_ok cache" and "cache_ok (raced cache)"
  shows "case generate_leaf is_ip now fresh raced host cache of (r, cache') \<Rightarrow>
     cache_ok cache' \<and>
     (case r of
        None \<Rightarrow> fresh = None \<and> find_leaf cache host = None \<and> cache' = cache
      | Some l \<Rightarrow> lfSubject l = leaf_key host \<and>
          (leaf_key other = leaf_key host \<longrightarrow> generate_leaf is_ip later fresh' raced' other cache' = (Some l, cache')))"
proof (cases "find_leaf cache host")
  case (Some l)
  with assms find_leaf_subject show ?thesis by (simp add: generate_leaf_def find_leaf_def)
next
  case none: None
  show ?thesis
  proof (cases fresh)
    case None
    with assms none show ?thesis by (simp add: generate_leaf_def)
  next
    case (Some n)
    obtain l c where s: "store_leaf (new_leaf is_ip (leaf_key host) now n) (raced cache) = (l, c)" by fastforce
    with store_leaf_ok [OF assms(2), of "new_leaf is_ip (leaf_key host) now n"]
    have "cache_ok c" and "map_of c (leaf_key host) = Some l" and "lfSubject l = leaf_key host"
      by (simp_all add: new_leaf_def)
    with none Some s show ?thesis by (simp add: generate_leaf_def find_leaf_def)
  qed
qed

theorem leaf_is_settled_witness:
  "generate_leaf (\<lambda>h. False) 5 (Some 9) (\<lambda>c. c) '' API.example '' [] =
     (Some (new_leaf (\<lambda>h. False) ''api.example'' 5 9), [(''api.example'', new_leaf (\<lambda>h. False) ''api.example'' 5 9)]) \<and>
   generate_leaf (\<lambda>h. False) 99 (Some 10) (\<lambda>c. c) ''api.EXAMPLE'' [(''api.example'', new_leaf (\<lambda>h. False) ''api.example'' 5 9)] =
     (Some (new_leaf (\<lambda>h. False) ''api.example'' 5 9), [(''api.example'', new_leaf (\<lambda>h. False) ''api.example'' 5 9)])"
proof
  show first: "generate_leaf (\<lambda>h. False) 5 (Some 9) (\<lambda>c. c) '' API.example '' [] =
     (Some (new_leaf (\<lambda>h. False) ''api.example'' 5 9), [(''api.example'', new_leaf (\<lambda>h. False) ''api.example'' 5 9)])"
    by code_simp
  have "leaf_key ''api.EXAMPLE'' = leaf_key '' API.example ''" by code_simp
  then show "generate_leaf (\<lambda>h. False) 99 (Some 10) (\<lambda>c. c) ''api.EXAMPLE'' [(''api.example'', new_leaf (\<lambda>h. False) ''api.example'' 5 9)] =
     (Some (new_leaf (\<lambda>h. False) ''api.example'' 5 9), [(''api.example'', new_leaf (\<lambda>h. False) ''api.example'' 5 9)])"
    using leaf_is_settled [where cache = "[]" and raced = "\<lambda>c. c" and is_ip = "\<lambda>h. False" and now = 5 and fresh = "Some 9"
        and host = "'' API.example ''" and other = "''api.EXAMPLE''" and later = 99 and fresh' = "Some 10" and raced' = "\<lambda>c. c"] first
    by (simp add: cache_ok_def)
qed

text \<open>A cached certificate is handed out after it has ended.\<close>

lemma expired_leaf_served:
  "find_leaf cache host = Some l \<Longrightarrow> lfEnds l < now \<Longrightarrow> generate_leaf is_ip now fresh raced host cache = (Some l, cache)"
  by (simp add: generate_leaf_def)

end
