(* ===== verification/StubProxy.thy ===== *)
theory StubProxy
  imports Scenario SimTemplate Inject CertStore
begin

text \<open>
  \<open>pkg/stubproxy\<close> (\<open>stubproxy.go\<close>): the proxy that answers a service's outbound calls from scenarios
  and captured events. The state is the one of the \<open>StubProxy\<close> structure, less the maps and counters
  no code reads. An operation returns the reply, the time slept and the events recorded, beside the
  new state. Hijacked TLS connections and the sockets of the transparent mode are outside: their
  handlers are modelled from the point where a request has been read.
\<close>

section \<open>State\<close>

record proxy =
  pxEvents :: "event list"
  pxRules :: "rule list"
  pxMatcher :: matcher
  pxTemplates :: template_engine
  pxAllowed :: "string list option"
  pxI :: nat
  pxSeen :: nat
  pxMaxSeen :: int
  pxAttempts :: "string \<Rightarrow> nat"
  pxDivergences :: "string list"
  pxUnexpected :: bool
  pxCycle :: bool
  pxMultiplier :: int
  pxUses :: "nat \<Rightarrow> nat"
  pxScenarios :: engine

record stub_response =
  srStatus :: int
  srHeader :: header
  srTrailer :: header
  srWrites :: "string list"

datatype reply = HttpError int string | Stub stub_response | Panicked | Tunnel string | Simple int

record outcome =
  ocReply :: reply
  ocSlept :: int
  ocObserved :: "event list"

datatype proxy_error = MatcherInvalid match_error | ScenariosInvalid scenario_error | TemplatesInvalid

text \<open>\<open>NewWithOptions\<close>, once the outbound log has been read: a missing file gives no events.\<close>

definition outbound_events :: "event list \<Rightarrow> event list" where
  "outbound_events es = filter (\<lambda>e. evType e = ''OutboundCall'') es"

definition new_proxy ::
  "go_env \<Rightarrow> event list \<Rightarrow> rule list \<Rightarrow> match_config \<Rightarrow> scenario_config list \<Rightarrow> template_config \<Rightarrow>
   string list option \<Rightarrow> (proxy_error, proxy) result" where
  "new_proxy E logged rules matching scs tcfg allowed =
     (case new_matcher E matching None of
        Inl e \<Rightarrow> Inl (MatcherInvalid e)
      | Inr m \<Rightarrow>
          (case new_with_registry E scs matching (maGrpc m) of
             Inl e \<Rightarrow> Inl (ScenariosInvalid e)
           | Inr eng \<Rightarrow>
               (case new_templates tcfg of
                  None \<Rightarrow> Inl TemplatesInvalid
                | Some t \<Rightarrow> Inr \<lparr>pxEvents = outbound_events logged, pxRules = rules, pxMatcher = m,
                    pxTemplates = t, pxAllowed = allowed, pxI = 0, pxSeen = 0, pxMaxSeen = 0,
                    pxAttempts = (\<lambda>_. 0), pxDivergences = [], pxUnexpected = False, pxCycle = False,
                    pxMultiplier = 1, pxUses = (\<lambda>_. 0), pxScenarios = eng\<rparr>)))"

definition reset_proxy :: "proxy \<Rightarrow> proxy" where
  "reset_proxy p =
     p\<lparr>pxI := 0, pxSeen := 0, pxMaxSeen := 0, pxAttempts := (\<lambda>_. 0), pxDivergences := [],
       pxUnexpected := False, pxUses := (\<lambda>_. 0), pxScenarios := reset_engine (pxScenarios p)\<rparr>"

text \<open>\<open>ConfigureReplayCardinality\<close>; Go's division of non-negative numbers rounds down.\<close>

definition multiplier_for :: "nat \<Rightarrow> int \<Rightarrow> int" where
  "multiplier_for events maxObserved =
     (let m = (maxObserved + int events - 1) div int events in if m < 1 then 1 else m)"

definition configure_cardinality :: "bool \<Rightarrow> int \<Rightarrow> proxy \<Rightarrow> proxy" where
  "configure_cardinality cycle maxObserved p =
     (let m = (if maxObserved < 0 then 0 else maxObserved)
      in p\<lparr>pxCycle := cycle, pxMaxSeen := m,
           pxMultiplier := (if cycle \<and> pxEvents p \<noteq> [] then multiplier_for (length (pxEvents p)) m else 1)\<rparr>)"

section \<open>Keys and statuses\<close>

definition the_url :: "request \<Rightarrow> gourl" where
  "the_url rq = dflt \<lparr>uScheme = [], uHost = [], uPath = [], uRawPath = [], uRawQuery = []\<rparr> (rqURL rq)"

definition dep_key_from_host :: "string \<Rightarrow> string" where
  "dep_key_from_host host =
     (if contains host '':'' then (case split_host_port host of Some (h, _) \<Rightarrow> h | None \<Rightarrow> host) else host)"

definition dep_key :: "request \<Rightarrow> string" where
  "dep_key rq = dep_key_from_host (if uHost (the_url rq) = [] then rqHost rq else uHost (the_url rq))"

definition canonical_match_key :: "string \<Rightarrow> string \<Rightarrow> string \<Rightarrow> string \<Rightarrow> string" where
  "canonical_match_key m host path query =
     to_upper m @ '' '' @ to_lower host @ (if path = [] then ''/'' else path) @
     (if query = [] then [] else ''?'' @ query)"

definition event_match_key :: "go_env \<Rightarrow> event \<Rightarrow> string" where
  "event_match_key E e =
     (case gUrlParse E (evURL e) of
        None \<Rightarrow> to_upper (evMethod e) @ '' '' @ evURL e
      | Some u \<Rightarrow> canonical_match_key (evMethod e) (uHost u) (url_escaped_path u) (uRawQuery u))"

definition request_match_key :: "request \<Rightarrow> string" where
  "request_match_key rq =
     canonical_match_key (rqMethod rq)
       (if rqURL rq \<noteq> None \<and> uHost (the_url rq) \<noteq> [] then uHost (the_url rq) else rqHost rq)
       (if rqURL rq \<noteq> None \<and> url_escaped_path (the_url rq) \<noteq> [] then url_escaped_path (the_url rq) else ''/'')
       (if rqURL rq \<noteq> None then uRawQuery (the_url rq) else [])"

definition is_grpc_request :: "request \<Rightarrow> bool" where
  "is_grpc_request rq \<longleftrightarrow> has_prefix (to_lower (hget (rqHeader rq) ''Content-Type'')) ''application/grpc''"

definition grpc_codes :: "(string \<times> string) list" where
  "grpc_codes =
     [([], ''0''), (''OK'', ''0''), (''CANCELLED'', ''1''), (''UNKNOWN'', ''2''), (''INVALID_ARGUMENT'', ''3''),
      (''DEADLINE_EXCEEDED'', ''4''), (''NOT_FOUND'', ''5''), (''ALREADY_EXISTS'', ''6''),
      (''PERMISSION_DENIED'', ''7''), (''RESOURCE_EXHAUSTED'', ''8''), (''FAILED_PRECONDITION'', ''9''),
      (''ABORTED'', ''10''), (''OUT_OF_RANGE'', ''11''), (''UNIMPLEMENTED'', ''12''), (''INTERNAL'', ''13''),
      (''UNAVAILABLE'', ''14''), (''DATA_LOSS'', ''15''), (''UNAUTHENTICATED'', ''16'')]"

definition normalize_grpc_status :: "string \<Rightarrow> string" where
  "normalize_grpc_status v = dflt v (map_of grpc_codes (to_upper (trim_space v)))"

section \<open>Writing a response\<close>

definition hop_by_hop :: "string list" where
  "hop_by_hop = [''Connection'', ''Proxy-Connection'', ''Keep-Alive'', ''Proxy-Authenticate'',
     ''Proxy-Authorization'', ''Te'', ''Trailer'', ''Transfer-Encoding'', ''Upgrade'']"

definition copy_headers :: "header \<Rightarrow> header \<Rightarrow> header" where
  "copy_headers dst src =
     foldl (\<lambda>h (k, vs). if k \<in> set hop_by_hop then h else foldl (\<lambda>h v. hadd h k v) h vs) dst src"

definition response_trailers :: "header \<Rightarrow> string \<Rightarrow> header" where
  "response_trailers trailers grpcStatus =
     (if grpcStatus \<noteq> [] \<and> hget trailers ''Grpc-Status'' = []
      then hset trailers ''Grpc-Status'' grpcStatus else trailers)"

text \<open>\<open>writeStubResponseChunks\<close>; \<open>WriteHeader\<close> panics on a status that is not of three digits. The
  time slept is the delay between chunks.\<close>

definition write_chunks ::
  "int \<Rightarrow> header \<Rightarrow> header \<Rightarrow> string \<Rightarrow> string list \<Rightarrow> int \<Rightarrow> reply \<times> int" where
  "write_chunks status headers trailers grpcStatus chunks delay =
     (if status < 100 \<or> 999 < status then (Panicked, 0)
      else let t = response_trailers trailers grpcStatus
           in (Stub \<lparr>srStatus = status,
                srHeader = foldl (\<lambda>h n. hadd h ''Trailer'' n) (copy_headers [] headers) (map fst t),
                srTrailer = t,
                srWrites = filter (\<lambda>b. b \<noteq> []) chunks\<rparr>,
               if 0 < delay then delay * int (length chunks - 1) else 0))"

section \<open>Answering from a scenario\<close>

definition template_data_of :: "go_env \<Rightarrow> proxy \<Rightarrow> request \<Rightarrow> string \<Rightarrow> template_data" where
  "template_data_of E p rq body =
     \<lparr>tdMethod = rqMethod rq, tdURL = gUrlString E (the_url rq), tdPath = uPath (the_url rq),
      tdHeaders = rqHeader rq, tdQuery = url_query (the_url rq),
      tdJSON = (if contains (to_lower (hget (rqHeader rq) ''Content-Type'')) ''json''
                then dflt JNull (gUnmarshal E body) else JNull),
      tdProtobuf = (case maGrpc (pxMatcher p) of
                      Some g \<Rightarrow>
                        (if is_grpc_request rq
                         then (case grDecodeRequest g (uPath (the_url rq)) body of Inr v \<Rightarrow> v | Inl _ \<Rightarrow> JNull)
                         else JNull)
                    | None \<Rightarrow> JNull),
      tdBody = body\<rparr>"

definition protobuf_documents :: "response \<Rightarrow> string list" where
  "protobuf_documents r = (if rpProtobufJSON r \<noteq> [] then [rpProtobufJSON r] else rpProtobufStream r)"

definition render_scenario_body ::
  "go_env \<Rightarrow> proxy \<Rightarrow> response \<Rightarrow> request \<Rightarrow> template_data \<Rightarrow> string list option" where
  "render_scenario_body E p r rq d =
     (if rpBodyTemplate r \<noteq> [] then
        (case render E (pxTemplates p) (rpBodyTemplate r) d of Inl _ \<Rightarrow> None | Inr v \<Rightarrow> Some [v])
      else if protobuf_documents r \<noteq> [] then
        (case maGrpc (pxMatcher p) of
           None \<Rightarrow> None
         | Some g \<Rightarrow>
             (case map_err (\<lambda>t. render E (pxTemplates p) t d) (protobuf_documents r) of
                Inl _ \<Rightarrow> None
              | Inr docs \<Rightarrow>
                  (case (if rpProtobufType r \<noteq> [] then grEncodeMessage g (rpProtobufType r) docs
                         else grEncodeResponse g (uPath (the_url rq)) docs) of
                     Inl _ \<Rightarrow> None | Inr frames \<Rightarrow> Some frames)))
      else map_option (\<lambda>b. [b]) (response_bytes r))"

definition scenario_grpc_status :: "response \<Rightarrow> request \<Rightarrow> string" where
  "scenario_grpc_status r rq =
     (let s = (if is_grpc_request rq \<and> rpGRPCStatus r = [] then ''0'' else rpGRPCStatus r)
      in if s = [] then [] else normalize_grpc_status s)"

definition answer_scenario ::
  "go_env \<Rightarrow> proxy \<Rightarrow> match_result \<Rightarrow> request \<Rightarrow> string \<Rightarrow> reply \<times> int" where
  "answer_scenario E p m rq body =
     (let r = mrResponse m; d = template_data_of E p rq body
      in case render_header E (pxTemplates p) (rpHeaders r) d of
           Inl _ \<Rightarrow> (HttpError 502 ''scenario response header template failed'', 0)
         | Inr headers \<Rightarrow>
       (case render_header E (pxTemplates p) (rpTrailers r) d of
           Inl _ \<Rightarrow> (HttpError 502 ''scenario response trailer template failed'', 0)
         | Inr trailers \<Rightarrow>
       (let headers' = hset headers ''X-Inferno-Scenario'' (mrScenario m)
        in case render_scenario_body E p r rq d of
             None \<Rightarrow> (HttpError 502 ''scenario response body is invalid'', 0)
           | Some chunks \<Rightarrow>
               write_chunks (rpStatus r)
                 (if (rpProtobufJSON r \<noteq> [] \<or> rpProtobufStream r \<noteq> []) \<and> hget headers' ''Content-Type'' = []
                  then hset headers' ''Content-Type'' ''application/grpc'' else headers')
                 trailers (scenario_grpc_status r rq) chunks
                 (if rpStreamMessageDelay r = [] then 0 else dflt 0 (gParseDuration E (rpStreamMessageDelay r))))))"

section \<open>Answering from the capture\<close>

text \<open>\<open>matchExpected\<close>: the first captured call that matches and has uses left; its use is counted.\<close>

definition usable :: "go_env \<Rightarrow> proxy \<Rightarrow> request \<Rightarrow> string \<Rightarrow> nat \<Rightarrow> bool" where
  "usable E p rq body i \<longleftrightarrow>
     fst (match_event E (pxMatcher p) (pxEvents p ! i) rq body) \<and> int (pxUses p i) < pxMultiplier p"

definition match_expected :: "go_env \<Rightarrow> proxy \<Rightarrow> request \<Rightarrow> string \<Rightarrow> (event \<times> nat) option \<times> proxy" where
  "match_expected E p rq body =
     (case List.find (usable E p rq body) [0..<length (pxEvents p)] of
        None \<Rightarrow> (None, p)
      | Some i \<Rightarrow> (Some (pxEvents p ! i, i), p\<lparr>pxUses := bump i (pxUses p)\<rparr>))"

definition diverge :: "string \<Rightarrow> proxy \<Rightarrow> proxy" where
  "diverge msg p = p\<lparr>pxDivergences := pxDivergences p @ [msg], pxUnexpected := True\<rparr>"

definition divergence_text :: "nat \<Rightarrow> string \<Rightarrow> string" where
  "divergence_text i why = ''DIVERGENCE at outbound event index='' @ nat_digits i @ '' why='' @ why"

definition unmatched_text :: "go_env \<Rightarrow> nat \<Rightarrow> request \<Rightarrow> string" where
  "unmatched_text E i rq =
     divergence_text i ''no_matching_captured_call'' @ '' got={method='' @ rqMethod rq @
     '' url='' @ gUrlString E (the_url rq) @ '' host='' @ rqHost rq @ ''}''"

text \<open>The captured outcome, once a call has been matched and no rule intervened.\<close>

definition replay_captured :: "request \<Rightarrow> event \<Rightarrow> reply" where
  "replay_captured rq e =
     (if evStatus e = 0 then HttpError 502 ''captured error replayed''
      else case b64_decode (evResponseBodyB64 e) of
             None \<Rightarrow> HttpError 502 ''captured dependency body is invalid''
           | Some b \<Rightarrow>
               fst (write_chunks (evStatus e) (evResponseHeaders e) (evResponseTrailers e)
                 (if is_grpc_request rq \<and> evGrpcStatus e = [] then ''0'' else evGrpcStatus e) [b] 0))"

definition inject_rule :: "rule option \<Rightarrow> nat \<Rightarrow> reply \<Rightarrow> reply \<times> int" where
  "inject_rule ru attempt normal =
     (case ru of
        None \<Rightarrow> (normal, 0)
      | Some r \<Rightarrow>
          if 0 < ruTimeout r then (HttpError 504 ''injected timeout'', ruTimeout r)
          else let slept = (if 0 < ruAddLatency r then ruAddLatency r else 0)
               in if 0 \<le> ruRetryLimit r \<and> int attempt \<le> ruRetryLimit r
                  then (HttpError 502 ''injected retry-failure'', slept)
                  else (normal, slept))"

definition observed_event :: "string \<Rightarrow> string \<Rightarrow> string \<Rightarrow> int \<Rightarrow> int \<Rightarrow> event" where
  "observed_event m host ip port status =
     zero_event\<lparr>evType := ''OutboundCall'', evMethod := m,
       evURL := (if ip \<noteq> [] \<and> 0 < port then ''tcp://'' @ ip @ '':'' @ itoa port
                 else if host \<noteq> [] then ''http://'' @ host else []),
       evService := host, evStatus := status\<rparr>"

section \<open>Handlers\<close>

definition max_body :: nat where
  "max_body = 16777216"

definition serve_captured :: "go_env \<Rightarrow> proxy \<Rightarrow> request \<Rightarrow> string \<Rightarrow> (reply \<times> int) \<times> proxy" where
  "serve_captured E p rq body =
     (if pxEvents p = [] then ((HttpError 502 ''no captured outbound events or matching scenario'', 0), p)
      else case match_expected E p rq body of
        (None, q) \<Rightarrow> ((HttpError 502 ''unexpected outbound call'', 0), diverge (unmatched_text E (pxSeen p - 1) rq) q)
      | (Some (e, i), q) \<Rightarrow>
          (let dep = dep_key rq; attempts = bump dep (pxAttempts q)
           in (inject_rule (match_dep dep (pxRules q)) (attempts dep) (replay_captured rq e),
               q\<lparr>pxAttempts := attempts\<rparr>)))"

definition over_limit :: "proxy \<Rightarrow> bool" where
  "over_limit p \<longleftrightarrow> 0 < pxMaxSeen p \<and> pxMaxSeen p < int (pxSeen p)"

text \<open>What follows the reading of the body: the request is counted first.\<close>

definition serve_counted :: "go_env \<Rightarrow> proxy \<Rightarrow> request \<Rightarrow> string \<Rightarrow> (reply \<times> int) \<times> proxy" where
  "serve_counted E p rq body =
     (if over_limit p
      then ((HttpError 502 ''unexpected outbound call'', 0),
            diverge (divergence_text (pxSeen p - 1) ''unexpected_outbound_call'') p)
      else case match_request E (pxScenarios p) rq body of
        (Some m, eng) \<Rightarrow> (answer_scenario E p m rq body, p\<lparr>pxScenarios := eng\<rparr>)
      | (None, eng) \<Rightarrow> serve_captured E (p\<lparr>pxScenarios := eng\<rparr>) rq body)"

text \<open>\<open>serveTLSConnect\<close> up to the hijack, and the request the tunnel hands back to \<open>ServeHTTP\<close>.\<close>

definition serve_connect :: "string list \<Rightarrow> request \<Rightarrow> reply" where
  "serve_connect hosts rq =
     (let host = trim_brackets (case split_host_port (rqHost rq) of Some (h, _) \<Rightarrow> h | None \<Rightarrow> rqHost rq)
      in if \<not> is_allowed hosts host then HttpError 403 ''HTTPS stub host is not allowlisted'' else Tunnel host)"

definition tunnelled :: "string \<Rightarrow> request \<Rightarrow> request" where
  "tunnelled destination rq =
     rq\<lparr>rqURL := map_option (\<lambda>u. u\<lparr>uScheme := ''https'', uHost := destination\<rparr>) (rqURL rq), rqHost := destination\<rparr>"

text \<open>\<open>ServeHTTP\<close>. The body is None when reading it failed.\<close>

definition serve_http :: "go_env \<Rightarrow> proxy \<Rightarrow> request \<Rightarrow> string option \<Rightarrow> outcome \<times> proxy" where
  "serve_http E p rq body =
     (if rqMethod rq = ''CONNECT'' then
        (\<lparr>ocReply = (case pxAllowed p of
             None \<Rightarrow> HttpError 501 ''HTTPS stubbing is not enabled''
           | Some hosts \<Rightarrow> serve_connect hosts rq), ocSlept = 0, ocObserved = []\<rparr>, p)
      else case body of
        None \<Rightarrow> (\<lparr>ocReply = HttpError 400 ''could not read request body'', ocSlept = 0, ocObserved = []\<rparr>, p)
      | Some b \<Rightarrow>
          if max_body < length b
          then (\<lparr>ocReply = HttpError 413 ''request body exceeds 16 MiB safety limit'', ocSlept = 0, ocObserved = []\<rparr>, p)
          else (case serve_counted E (p\<lparr>pxSeen := pxSeen p + 1\<rparr>) rq b of
                  ((r, slept), q) \<Rightarrow>
                    (\<lparr>ocReply = r, ocSlept = slept,
                      ocObserved = [observed_event (rqMethod rq) (request_host rq (the_url rq)) [] 0 0]\<rparr>, q)))"

text \<open>\<open>handleTransparent\<close>: captured calls are taken in order, whatever was asked. The index is loaded first and the
  counter advanced later, in two atomic operations; \<open>transparent_from\<close> is what follows the load of index \<open>i\<close>. The
  original destination is None when the socket has none, the request when it could not be read. The result is the reply
  with the time slept, and what is observed.\<close>

definition transparent_rule :: "rule option \<Rightarrow> string \<Rightarrow> int \<Rightarrow> proxy \<Rightarrow> (reply \<times> int) \<times> proxy" where
  "transparent_rule ru dep status p =
     (case ru of
        None \<Rightarrow> ((Simple status, 0), p)
      | Some r \<Rightarrow>
          if 0 < ruTimeout r then ((Simple 504, ruTimeout r), p)
          else let slept = (if 0 < ruAddLatency r then ruAddLatency r else 0)
               in if 0 \<le> ruRetryLimit r then
                    (let attempts = bump dep (pxAttempts p)
                     in ((Simple (if int (attempts dep) \<le> ruRetryLimit r then 502 else status), slept),
                         p\<lparr>pxAttempts := attempts\<rparr>))
                  else ((Simple status, slept), p))"

definition transparent_from :: "nat \<Rightarrow> proxy \<Rightarrow> string \<Rightarrow> int \<Rightarrow> request \<Rightarrow> (reply \<times> int) \<times> proxy" where
  "transparent_from i p ip port rq =
     (let p1 = p\<lparr>pxSeen := pxSeen p + 1\<rparr>
      in if length (pxEvents p) \<le> i
         then ((Simple 502, 0), diverge (divergence_text i ''unexpected_outbound_call'') p1)
         else (let e = pxEvents p ! i;
                   dep = (if rqHost rq = [] then ip @ '':'' @ itoa port else rqHost rq)
               in transparent_rule (match_dep (dep_key_from_host dep) (pxRules p)) dep
                    (if evStatus e = 0 then 502 else evStatus e) (p1\<lparr>pxI := pxI p + 1\<rparr>)))"

definition handle_transparent ::
  "proxy \<Rightarrow> (string \<times> int) option \<Rightarrow> request option \<Rightarrow> ((reply \<times> int) option \<times> event list) \<times> proxy" where
  "handle_transparent p destination req =
     (case destination of
        None \<Rightarrow> ((None, []), p)
      | Some (ip, port) \<Rightarrow>
          (case req of
             None \<Rightarrow> ((None, [observed_event ''UNKNOWN'' [] ip port 0]), p)
           | Some rq \<Rightarrow>
               (case transparent_from (pxI p) p ip port rq of
                  (r, q) \<Rightarrow> ((Some r, [observed_event (rqMethod rq) (rqHost rq) ip port 0]), q))))"

record snapshot =
  snExpected :: nat
  snObserved :: nat
  snDivergences :: "string list"
  snUnexpected :: bool

definition snapshot_of :: "proxy \<Rightarrow> snapshot" where
  "snapshot_of p = \<lparr>snExpected = length (pxEvents p), snObserved = pxSeen p,
     snDivergences = pxDivergences p, snUnexpected = pxUnexpected p\<rparr>"

text \<open>A run: requests with their bodies, one after the other.\<close>

definition serve :: "go_env \<Rightarrow> proxy \<Rightarrow> request \<times> string option \<Rightarrow> outcome \<times> proxy" where
  "serve E p rb = serve_http E p (fst rb) (snd rb)"

section \<open>Frame lemmas\<close>

text \<open>What an operation may change: the counters, the diagnostics and the scenarios.\<close>

definition same_setup :: "proxy \<Rightarrow> proxy \<Rightarrow> bool" where
  "same_setup p q \<longleftrightarrow> pxEvents q = pxEvents p \<and> pxRules q = pxRules p \<and> pxMatcher q = pxMatcher p \<and>
     pxTemplates q = pxTemplates p \<and> pxAllowed q = pxAllowed p \<and> pxI q = pxI p \<and>
     pxMaxSeen q = pxMaxSeen p \<and> pxCycle q = pxCycle p \<and> pxMultiplier q = pxMultiplier p"

lemma same_setup_refl [simp]: "same_setup p p"
  by (simp add: same_setup_def)

lemma same_setup_trans: "same_setup p q \<Longrightarrow> same_setup q r \<Longrightarrow> same_setup p r"
  by (simp add: same_setup_def)

lemma diverge_fields [simp]:
  "same_setup p (diverge m q) = same_setup p q" "pxUses (diverge m q) = pxUses q"
  "pxScenarios (diverge m q) = pxScenarios q" "pxSeen (diverge m q) = pxSeen q"
  "pxUnexpected (diverge m q)" "pxDivergences (diverge m q) = pxDivergences q @ [m]"
  by (simp_all add: diverge_def same_setup_def)

lemma match_expected_setup:
  "same_setup p (snd (match_expected E p rq body)) \<and> pxScenarios (snd (match_expected E p rq body)) = pxScenarios p \<and>
   pxUnexpected (snd (match_expected E p rq body)) = pxUnexpected p \<and>
   pxDivergences (snd (match_expected E p rq body)) = pxDivergences p"
  by (auto simp: match_expected_def same_setup_def split: option.splits)

lemma serve_captured_setup:
  "same_setup p (snd (serve_captured E p rq body)) \<and> pxScenarios (snd (serve_captured E p rq body)) = pxScenarios p"
  using match_expected_setup [of p E rq body]
  by (auto simp: serve_captured_def Let_def same_setup_def diverge_def split: option.splits prod.splits)

lemma serve_counted_setup:
  "same_setup p (snd (serve_counted E p rq body)) \<and>
   reset_engine (pxScenarios (snd (serve_counted E p rq body))) = reset_engine (pxScenarios p)"
proof -
  obtain mo eng where m: "match_request E (pxScenarios p) rq body = (mo, eng)" by fastforce
  have r: "reset_engine eng = reset_engine (pxScenarios p)"
    using eng.reset_step [of E "pxScenarios p" "(rq, body)"] by (simp add: answer_def m)
  note captured = serve_captured_setup [of "p\<lparr>pxScenarios := eng\<rparr>" E rq body]
  show ?thesis
    using r captured by (cases mo) (simp_all add: serve_counted_def m same_setup_def diverge_def)
qed

text \<open>Every transition of \<open>ServeHTTP\<close>: a refused request changes nothing, any other is counted.\<close>

lemma serve_cases:
  obtains "snd (serve E p rb) = p"
  | b where "snd rb = Some b" "snd (serve E p rb) = snd (serve_counted E (p\<lparr>pxSeen := pxSeen p + 1\<rparr>) (fst rb) b)"
proof (cases "rqMethod (fst rb) = ''CONNECT'' \<or> snd rb = None \<or> (\<exists>b. snd rb = Some b \<and> max_body < length b)")
  case True
  then have "snd (serve E p rb) = p" by (auto simp: serve_def serve_http_def split: option.splits)
  then show ?thesis by (rule that(1))
next
  case False
  then obtain b where "snd rb = Some b" "\<not> max_body < length b" by auto
  with False have "snd (serve E p rb) = snd (serve_counted E (p\<lparr>pxSeen := pxSeen p + 1\<rparr>) (fst rb) b)"
    by (simp add: serve_def serve_http_def case_prod_beta)
  with \<open>snd rb = Some b\<close> show ?thesis by (rule that(2))
qed

lemma serve_counted_cases:
  obtains "over_limit p" "snd (serve_counted E p rq b) = diverge (divergence_text (pxSeen p - 1) ''unexpected_outbound_call'') p"
  | m eng where "\<not> over_limit p" "match_request E (pxScenarios p) rq b = (Some m, eng)"
      "serve_counted E p rq b = (answer_scenario E p m rq b, p\<lparr>pxScenarios := eng\<rparr>)"
  | eng where "\<not> over_limit p" "match_request E (pxScenarios p) rq b = (None, eng)"
      "serve_counted E p rq b = serve_captured E (p\<lparr>pxScenarios := eng\<rparr>) rq b"
  by (cases "over_limit p"; cases "match_request E (pxScenarios p) rq b"; cases "fst (match_request E (pxScenarios p) rq b)")
     (auto simp: serve_counted_def)

lemma serve_setup:
  "same_setup p (snd (serve E p rb)) \<and> reset_engine (pxScenarios (snd (serve E p rb))) = reset_engine (pxScenarios p)"
proof (cases rule: serve_cases [of E p rb])
  case (2 b)
  then show ?thesis
    using serve_counted_setup [of "p\<lparr>pxSeen := pxSeen p + 1\<rparr>" E "fst rb" b] by (simp add: same_setup_def)
qed simp

lemma reset_proxy_eq:
  "same_setup p q \<Longrightarrow> reset_engine (pxScenarios q) = reset_engine (pxScenarios p) \<Longrightarrow> reset_proxy q = reset_proxy p"
  by (simp add: reset_proxy_def same_setup_def proxy.equality)

interpretation px: resettable "serve E" reset_proxy for E
proof
  show "reset_proxy (snd (serve E p rb)) = reset_proxy p" for p rb
    using serve_setup reset_proxy_eq by blast
  show "reset_proxy (reset_proxy p) = reset_proxy p" for p
    by (simp add: reset_proxy_def eng.reset_reset)
qed

text \<open>C1. Runs repeat: resetting the proxy and configuring the cardinality again, as the replay loop
  does between runs, gives every reply, sleep and observed event of the next run as in the first one,
  whatever the run in between was asked.\<close>

theorem proxy_runs_repeat:
  "run_all (serve E)
     (configure_cardinality c n (reset_proxy (snd (run_all (serve E) (configure_cardinality c n (reset_proxy p)) rbs)))) qs =
   run_all (serve E) (configure_cardinality c n (reset_proxy p)) qs"
proof -
  have "configure_cardinality c n (reset_proxy (configure_cardinality c n (reset_proxy p))) =
      configure_cardinality c n (reset_proxy p)"
    by (simp add: configure_cardinality_def reset_proxy_def Let_def eng.reset_reset)
  then show ?thesis by (simp add: px.reset_run)
qed

lemma run_setup: "same_setup p (snd (run_all (serve E) p rbs))"
proof (induction rbs arbitrary: p)
  case (Cons rb rbs)
  have "same_setup p (snd (serve E p rb))" using serve_setup [of p E rb] by (rule conjunct1)
  then show ?case using Cons.IH same_setup_trans by simp
qed simp

section \<open>Use counts\<close>

definition uses_ok :: "proxy \<Rightarrow> bool" where
  "uses_ok p \<longleftrightarrow> (\<forall>i. int (pxUses p i) \<le> pxMultiplier p) \<and> (\<forall>i\<ge>length (pxEvents p). pxUses p i = 0)"

lemma find_upt_Some: "List.find P [0..<n] = Some i \<longleftrightarrow> i < n \<and> P i \<and> (\<forall>j<i. \<not> P j)"
  by (auto simp: find_Some_iff)

lemma serve_captured_cases:
  obtains "pxEvents p = []" "snd (serve_captured E p rq b) = p"
  | "pxEvents p \<noteq> []" "match_expected E p rq b = (None, p)"
      "serve_captured E p rq b = ((HttpError 502 ''unexpected outbound call'', 0), diverge (unmatched_text E (pxSeen p - 1) rq) p)"
  | e i where "pxEvents p \<noteq> []" "match_expected E p rq b = (Some (e, i), p\<lparr>pxUses := bump i (pxUses p)\<rparr>)"
      "i < length (pxEvents p)" "e = pxEvents p ! i" "usable E p rq b i" "\<forall>j<i. \<not> usable E p rq b j"
      "serve_captured E p rq b =
         (inject_rule (match_dep (dep_key rq) (pxRules p)) (Suc (pxAttempts p (dep_key rq))) (replay_captured rq e),
          p\<lparr>pxUses := bump i (pxUses p), pxAttempts := bump (dep_key rq) (pxAttempts p)\<rparr>)"
proof (cases "pxEvents p = []")
  case True
  then show ?thesis using that(1) by (simp add: serve_captured_def)
next
  case ne: False
  show ?thesis
  proof (cases "List.find (usable E p rq b) [0..<length (pxEvents p)]")
    case None
    then have "match_expected E p rq b = (None, p)" by (simp add: match_expected_def)
    with ne show ?thesis by (intro that(2)) (auto simp: serve_captured_def)
  next
    case (Some i)
    then have "match_expected E p rq b = (Some (pxEvents p ! i, i), p\<lparr>pxUses := bump i (pxUses p)\<rparr>)"
      by (simp add: match_expected_def)
    with ne Some show ?thesis by (intro that(3)) (auto simp: serve_captured_def find_upt_Some Let_def)
  qed
qed

lemma serve_captured_uses:
  assumes "uses_ok p"
  shows "uses_ok (snd (serve_captured E p rq b))"
proof (cases rule: serve_captured_cases [of p E rq b])
  case (3 e i)
  with assms show ?thesis by (auto simp: uses_ok_def usable_def bump_def)
next
  case 2
  have "uses_ok (snd (serve_captured E p rq b)) = uses_ok p" unfolding 2(3) by (simp add: uses_ok_def diverge_def)
  with assms show ?thesis by simp
qed (use assms in simp)

lemma serve_uses:
  assumes "uses_ok p"
  shows "uses_ok (snd (serve E p rb))"
proof (cases rule: serve_cases [of E p rb])
  case (2 b)
  let ?p = "p\<lparr>pxSeen := pxSeen p + 1\<rparr>"
  have ok: "uses_ok ?p" using assms by (simp add: uses_ok_def)
  have "uses_ok (snd (serve_counted E ?p (fst rb) b))"
  proof (cases rule: serve_counted_cases [of ?p E "fst rb" b])
    case (3 eng)
    have "uses_ok (?p\<lparr>pxScenarios := eng\<rparr>)" using ok by (simp add: uses_ok_def)
    from serve_captured_uses [OF this] 3 show ?thesis by simp
  qed (use ok in \<open>simp_all add: uses_ok_def diverge_def\<close>)
  with 2 show ?thesis by simp
qed (use assms in simp)


text \<open>The multiplier is the smallest number of rounds that lets the run observe the configured number
  of calls: that many rounds are enough, and one round fewer is not, unless one round is all.\<close>

theorem multiplier_is_ceiling:
  assumes "0 < n" and "0 \<le> m"
  shows "m \<le> multiplier_for n m * int n \<and>
    (multiplier_for n m = 1 \<or> (multiplier_for n m - 1) * int n < m) \<and> 1 \<le> multiplier_for n m"
proof -
  define k where "k = int n"
  have k: "0 < k" using assms by (simp add: k_def)
  define q where "q = (m + k - 1) div k"
  have "m + k - 1 = q * k + (m + k - 1) mod k" "0 \<le> (m + k - 1) mod k" "(m + k - 1) mod k < k"
    using k by (simp_all add: q_def)
  then have q: "m \<le> q * k" "(q - 1) * k < m" by (auto simp: algebra_simps)
  have le: "m \<le> 1 * k" if "q < 1"
  proof -
    from that have "q * k \<le> 0 * k" using k by (intro mult_right_mono) auto
    with q(1) k show ?thesis by simp
  qed
  show ?thesis
    using q le by (auto simp: multiplier_for_def Let_def q_def [symmetric] k_def [symmetric])
qed

lemma multiplier_is_ceiling_witness:
  "7 \<le> multiplier_for 3 7 * int 3 \<and> (multiplier_for 3 7 = 1 \<or> (multiplier_for 3 7 - 1) * int 3 < 7) \<and> 1 \<le> multiplier_for 3 7"
  by (rule multiplier_is_ceiling) simp_all

section \<open>Divergences\<close>

definition refusal :: reply where
  "refusal = HttpError 502 ''unexpected outbound call''"

lemma inject_not_refusal: "normal \<noteq> refusal \<Longrightarrow> fst (inject_rule ru n normal) \<noteq> refusal"
  by (auto simp: inject_rule_def refusal_def Let_def split: option.splits)

lemma write_chunks_not_refusal: "fst (write_chunks st h t g cs d) \<noteq> refusal"
  by (simp add: write_chunks_def refusal_def Let_def)

lemma replay_not_refusal: "replay_captured rq e \<noteq> refusal"
  using write_chunks_not_refusal by (auto simp: replay_captured_def refusal_def split: option.splits)

lemma scenario_not_refusal: "fst (answer_scenario E p m rq b) \<noteq> refusal"
  using write_chunks_not_refusal
  by (auto simp: answer_scenario_def refusal_def Let_def split: sum.splits option.splits)

text \<open>A step reports one divergence when it refuses a call, and none otherwise.\<close>

definition reports :: "proxy \<Rightarrow> reply \<Rightarrow> proxy \<Rightarrow> bool" where
  "reports p r q \<longleftrightarrow>
     (if r = refusal then length (pxDivergences q) = Suc (length (pxDivergences p)) \<and> pxUnexpected q
      else pxDivergences q = pxDivergences p \<and> pxUnexpected q = pxUnexpected p)"

lemma serve_captured_reports:
  "reports p (fst (fst (serve_captured E p rq b))) (snd (serve_captured E p rq b))"
proof (cases rule: serve_captured_cases [of p E rq b])
  case 1
  then show ?thesis by (simp add: reports_def serve_captured_def refusal_def)
next
  case 2
  show ?thesis unfolding 2(3) by (simp add: reports_def refusal_def)
next
  case (3 e i)
  show ?thesis
    unfolding 3(7) using inject_not_refusal [OF replay_not_refusal] by (simp add: reports_def)
qed

lemma serve_reports: "reports p (ocReply (fst (serve E p rb))) (snd (serve E p rb))"
proof (cases "rqMethod (fst rb) = ''CONNECT'' \<or> snd rb = None \<or> (\<exists>b. snd rb = Some b \<and> max_body < length b)")
  case True
  then show ?thesis
    by (auto simp: serve_def serve_http_def serve_connect_def reports_def refusal_def Let_def split: option.splits)
next
  case False
  then obtain b where b: "snd rb = Some b" "\<not> max_body < length b" by auto
  let ?p = "p\<lparr>pxSeen := pxSeen p + 1\<rparr>"
  have e: "ocReply (fst (serve E p rb)) = fst (fst (serve_counted E ?p (fst rb) b))"
      "snd (serve E p rb) = snd (serve_counted E ?p (fst rb) b)"
    using False b by (simp_all add: serve_def serve_http_def case_prod_beta)
  have "reports ?p (fst (fst (serve_counted E ?p (fst rb) b))) (snd (serve_counted E ?p (fst rb) b))"
  proof (cases rule: serve_counted_cases [of ?p E "fst rb" b])
    case 1
    then show ?thesis by (simp add: serve_counted_def reports_def refusal_def)
  next
    case (2 m eng)
    show ?thesis unfolding 2(3) using scenario_not_refusal by (simp add: reports_def)
  next
    case (3 eng)
    show ?thesis
      unfolding 3(3) using serve_captured_reports [of "?p\<lparr>pxScenarios := eng\<rparr>" E "fst rb" b] by (simp add: reports_def)
  qed
  then show ?thesis unfolding e by (simp add: reports_def)
qed

text \<open>C15. The diagnostics tell the truth about a run: after a reset, the divergences are as many as the
  calls that were refused as unexpected, and the flag is set exactly when there was one.\<close>

theorem divergences_are_refusals:
  "length (pxDivergences (snd (run_all (serve E) (configure_cardinality c n (reset_proxy p)) rbs))) =
     length (filter (\<lambda>oc. ocReply oc = refusal) (fst (run_all (serve E) (configure_cardinality c n (reset_proxy p)) rbs))) \<and>
   (pxUnexpected (snd (run_all (serve E) (configure_cardinality c n (reset_proxy p)) rbs)) \<longleftrightarrow>
     (\<exists>oc\<in>set (fst (run_all (serve E) (configure_cardinality c n (reset_proxy p)) rbs)). ocReply oc = refusal))"
proof -
  have "length (pxDivergences (snd (run_all (serve E) q rbs))) =
      length (pxDivergences q) + length (filter (\<lambda>oc. ocReply oc = refusal) (fst (run_all (serve E) q rbs))) \<and>
    (pxUnexpected (snd (run_all (serve E) q rbs)) \<longleftrightarrow>
       pxUnexpected q \<or> (\<exists>oc\<in>set (fst (run_all (serve E) q rbs)). ocReply oc = refusal))" for q
  proof (induction rbs arbitrary: q)
    case (Cons rb rbs)
    from serve_reports [of q E rb] Cons.IH [of "snd (serve E q rb)"] show ?case
      by (auto simp: reports_def split: if_splits)
  qed simp
  from this [of "configure_cardinality c n (reset_proxy p)"] show ?thesis
    by (simp add: configure_cardinality_def reset_proxy_def Let_def)
qed

section \<open>The greedy assignment\<close>

text \<open>
  \<open>matchExpected\<close> takes the first call that is free. That is enough when the captured calls fall into
  kinds and a request matches the calls of its own kind only: then the number of answered requests of
  a kind depends on how many there are, not on the order in which they arrive.
\<close>

definition kind_matching :: "go_env \<Rightarrow> matcher \<Rightarrow> event list \<Rightarrow> (event \<Rightarrow> 'k option) \<Rightarrow> (request \<Rightarrow> 'k option) \<Rightarrow> bool" where
  "kind_matching E ma evs ek rk \<longleftrightarrow>
     (\<forall>e\<in>set evs. \<forall>rq body. fst (match_event E ma e rq body) \<longleftrightarrow> rk rq \<noteq> None \<and> ek e = rk rq)"

definition kind_uses :: "(event \<Rightarrow> 'k option) \<Rightarrow> 'k \<Rightarrow> proxy \<Rightarrow> nat" where
  "kind_uses ek k p = (\<Sum>i\<in>{i. i < length (pxEvents p) \<and> ek (pxEvents p ! i) = Some k}. pxUses p i)"

definition kind_budget :: "(event \<Rightarrow> 'k option) \<Rightarrow> 'k \<Rightarrow> proxy \<Rightarrow> nat" where
  "kind_budget ek k p = nat (pxMultiplier p) * length (filter (\<lambda>e. ek e = Some k) (pxEvents p))"

definition answer_captured :: "go_env \<Rightarrow> proxy \<Rightarrow> request \<times> string \<Rightarrow> (event \<times> nat) option \<times> proxy" where
  "answer_captured E p rb = match_expected E p (fst rb) (snd rb)"

lemma sum_bump:
  "finite A \<Longrightarrow> (\<Sum>i\<in>A. bump j f i) = (\<Sum>i\<in>A. f i) + (if j \<in> A then 1 else 0)"
proof -
  assume A: "finite A"
  have "(\<Sum>i\<in>A. bump j f i) = (\<Sum>i\<in>A. f i + (if i = j then 1 else 0))"
    by (rule sum.cong) (auto simp: bump_def)
  with A show ?thesis by (simp add: sum.distrib)
qed

lemma kind_budget_bound:
  assumes "uses_ok p"
  shows "kind_uses ek k p \<le> kind_budget ek k p"
    and "kind_uses ek k p = kind_budget ek k p \<longleftrightarrow>
      (\<forall>i<length (pxEvents p). ek (pxEvents p ! i) = Some k \<longrightarrow> int (pxUses p i) = pxMultiplier p)"
proof -
  let ?A = "{i. i < length (pxEvents p) \<and> ek (pxEvents p ! i) = Some k}"
  have b: "kind_budget ek k p = (\<Sum>i\<in>?A. nat (pxMultiplier p))"
    by (simp add: kind_budget_def length_filter_conv_card)
  have le: "pxUses p i \<le> nat (pxMultiplier p)" for i
    using assms by (simp add: uses_ok_def nat_le_iff le_nat_iff zless_nat_eq_int_zless)
       (metis nat_int nat_mono)
  show "kind_uses ek k p \<le> kind_budget ek k p" unfolding b kind_uses_def by (intro sum_mono le)
  have "kind_uses ek k p = kind_budget ek k p \<longleftrightarrow> (\<forall>i\<in>?A. pxUses p i = nat (pxMultiplier p))"
  proof
    assume "kind_uses ek k p = kind_budget ek k p"
    then have eq: "(\<Sum>i\<in>?A. pxUses p i) = (\<Sum>i\<in>?A. nat (pxMultiplier p))" by (simp add: b kind_uses_def)
    show "\<forall>i\<in>?A. pxUses p i = nat (pxMultiplier p)"
      using sum_mono_inv [OF eq] le by auto
  qed (simp add: b kind_uses_def)
  moreover have "0 \<le> pxMultiplier p" using assms by (auto simp: uses_ok_def intro: order_trans [of 0 "int (pxUses p 0)"])
  ultimately show "kind_uses ek k p = kind_budget ek k p \<longleftrightarrow>
      (\<forall>i<length (pxEvents p). ek (pxEvents p ! i) = Some k \<longrightarrow> int (pxUses p i) = pxMultiplier p)"
    by auto
qed

lemma answer_captured_step:
  fixes rb :: "request \<times> string"
  assumes ok: "uses_ok p" and kinds: "kind_matching E (pxMatcher p) (pxEvents p) ek rk"
  defines "q \<equiv> snd (answer_captured E p rb)"
  shows "uses_ok q" and "pxEvents q = pxEvents p" and "pxMatcher q = pxMatcher p" and "pxMultiplier q = pxMultiplier p"
    and "fst (answer_captured E p rb) \<noteq> None \<longleftrightarrow>
      (\<exists>k. rk (fst rb) = Some k \<and> kind_uses ek k p < kind_budget ek k p)"
    and "kind_uses ek k q =
      kind_uses ek k p + (if fst (answer_captured E p rb) \<noteq> None \<and> rk (fst rb) = Some k then 1 else 0)"
proof -
  let ?rq = "fst rb" and ?n = "length (pxEvents p)"
  have m: "usable E p ?rq (snd rb) i \<longleftrightarrow>
      rk ?rq \<noteq> None \<and> ek (pxEvents p ! i) = rk ?rq \<and> int (pxUses p i) < pxMultiplier p" if "i < ?n" for i
    using kinds that by (auto simp: kind_matching_def usable_def)
  have all: "uses_ok q \<and> pxEvents q = pxEvents p \<and> pxMatcher q = pxMatcher p \<and> pxMultiplier q = pxMultiplier p \<and>
    (fst (answer_captured E p rb) \<noteq> None \<longleftrightarrow> (\<exists>k. rk ?rq = Some k \<and> kind_uses ek k p < kind_budget ek k p)) \<and>
    kind_uses ek k q = kind_uses ek k p + (if fst (answer_captured E p rb) \<noteq> None \<and> rk ?rq = Some k then 1 else 0)"
  proof (cases "List.find (usable E p ?rq (snd rb)) [0..<?n]")
    case None
    then have q: "fst (answer_captured E p rb) = None" "q = p"
      by (simp_all add: q_def answer_captured_def match_expected_def)
    from None have no: "\<not> usable E p ?rq (snd rb) i" if "i < ?n" for i using that by (auto simp: find_None_iff)
    have "int (pxUses p i) = pxMultiplier p" if "i < ?n" "ek (pxEvents p ! i) = Some k'" "rk ?rq = Some k'" for i k'
    proof -
      have "\<not> int (pxUses p i) < pxMultiplier p" using no [OF that(1)] m [OF that(1)] that(2,3) by simp
      moreover have "int (pxUses p i) \<le> pxMultiplier p" using ok by (simp add: uses_ok_def)
      ultimately show ?thesis by simp
    qed
    then have "kind_uses ek k' p = kind_budget ek k' p" if "rk ?rq = Some k'" for k'
      using that kind_budget_bound(2) [OF ok, of ek k'] by simp
    then have "\<not> (\<exists>k'. rk ?rq = Some k' \<and> kind_uses ek k' p < kind_budget ek k' p)" by force
    with q ok show ?thesis by simp
  next
    case (Some i)
    then have i: "i < ?n" "usable E p ?rq (snd rb) i" by (auto simp: find_upt_Some)
    then obtain k' where k': "rk ?rq = Some k'" "ek (pxEvents p ! i) = Some k'" "int (pxUses p i) < pxMultiplier p"
      using m by auto
    have q: "fst (answer_captured E p rb) \<noteq> None" "q = p\<lparr>pxUses := bump i (pxUses p)\<rparr>"
      using Some by (simp_all add: q_def answer_captured_def match_expected_def)
    have "kind_uses ek k' p \<noteq> kind_budget ek k' p"
      using kind_budget_bound(2) [OF ok, of ek k'] i(1) k'(2,3) by auto
    with kind_budget_bound(1) [OF ok, of ek k'] have "kind_uses ek k' p < kind_budget ek k' p" by simp
    moreover have "uses_ok q" using ok i k'(3) by (auto simp: q(2) uses_ok_def bump_def)
    moreover have "kind_uses ek k q = kind_uses ek k p + (if k' = k then 1 else 0)"
      using i(1) k'(2) by (simp add: kind_uses_def q(2) sum_bump)
    ultimately show ?thesis using q k' by auto
  qed
  then show "uses_ok q" "pxEvents q = pxEvents p" "pxMatcher q = pxMatcher p" "pxMultiplier q = pxMultiplier p"
    "fst (answer_captured E p rb) \<noteq> None \<longleftrightarrow> (\<exists>k. rk (fst rb) = Some k \<and> kind_uses ek k p < kind_budget ek k p)"
    "kind_uses ek k q = kind_uses ek k p + (if fst (answer_captured E p rb) \<noteq> None \<and> rk (fst rb) = Some k then 1 else 0)"
    by blast+
qed

lemma answered_by_kind:
  assumes "uses_ok p" and "kind_matching E (pxMatcher p) (pxEvents p) ek rk"
  shows "length (filter (\<lambda>(rb, a). rk (fst rb) = Some k \<and> a \<noteq> None) (zip rbs (fst (run_all (answer_captured E) p rbs)))) =
    min (length (filter (\<lambda>rb. rk (fst rb) = Some k) rbs)) (kind_budget ek k p - kind_uses ek k p)"
  using assms
proof (induction rbs arbitrary: p)
  case (Cons rb rbs)
  let ?q = "snd (answer_captured E p rb)"
  note st = answer_captured_step [OF Cons.prems, where rb = rb]
  have budget: "kind_budget ek k ?q = kind_budget ek k p" by (simp add: kind_budget_def st)
  have "kind_matching E (pxMatcher ?q) (pxEvents ?q) ek rk" using Cons.prems(2) st by simp
  note IH = Cons.IH [OF st(1) this]
  show ?case using IH st(5) st(6) [of k] budget kind_budget_bound(1) [OF Cons.prems(1), of ek k] by auto
qed simp

text \<open>Without rules the matcher has such kinds: method, host, path and the values of the query.\<close>

type_synonym call_kind = "string \<times> string \<times> string \<times> (string \<Rightarrow> string list)"

definition call_kind :: "matcher \<Rightarrow> string \<Rightarrow> string \<Rightarrow> gourl \<Rightarrow> call_kind" where
  "call_kind ma m host u =
     (to_lower m, to_lower (strip_default_port host), escaped_path u,
      \<lambda>k. if k \<in> set (mcIgnoredQueryParameters (maCfg ma)) then [] else hvalues (url_query u) k)"

definition request_kind :: "matcher \<Rightarrow> request \<Rightarrow> call_kind option" where
  "request_kind ma rq = map_option (\<lambda>u. call_kind ma (rqMethod rq) (request_host rq u) u) (rqURL rq)"

definition event_kind :: "go_env \<Rightarrow> matcher \<Rightarrow> event \<Rightarrow> call_kind option" where
  "event_kind E ma e = map_option (\<lambda>u. call_kind ma (evMethod e) (uHost u) u) (gUrlParse E (evURL e))"

lemma default_kinds:
  assumes "maRules ma = []"
  shows "kind_matching E ma evs (event_kind E ma) (request_kind ma)"
proof -
  have "fst (match_event E ma e rq body) \<longleftrightarrow> request_kind ma rq \<noteq> None \<and> event_kind E ma e = request_kind ma rq" for e rq body
  proof (cases "rqURL rq")
    case None
    then show ?thesis by (simp add: match_event_def match_checks_def request_kind_def)
  next
    case u: (Some u)
    show ?thesis
    proof (cases "gUrlParse E (evURL e)")
      case None
      with u show ?thesis by (simp add: match_event_def match_checks_def request_kind_def event_kind_def)
    next
      case (Some cu)
      have "rule_for ma m h pth = None" for m h pth using assms by (simp add: rule_for_def)
      with u Some show ?thesis
        by (auto simp: match_event_ok match_default_ok request_kind_def event_kind_def call_kind_def
            equal_fold_def equal_host_def fun_eq_iff)
    qed
  qed
  then show ?thesis by (simp add: kind_matching_def)
qed

definition example_proxy :: "matcher \<Rightarrow> rule list \<Rightarrow> event list \<Rightarrow> proxy" where
  "example_proxy ma rules evs = \<lparr>pxEvents = evs, pxRules = rules, pxMatcher = ma,
     pxTemplates = \<lparr>teSeed = ''s'', teMaxOutput = 1048576\<rparr>, pxAllowed = None, pxI = 0, pxSeen = 0, pxMaxSeen = 0,
     pxAttempts = (\<lambda>_. 0), pxDivergences = [], pxUnexpected = False, pxCycle = False, pxMultiplier = 1,
     pxUses = (\<lambda>_. 0), pxScenarios = \<lparr>enConfigs = [], enStates = Map.empty, enCompiled = []\<rparr>\<rparr>"


definition two_calls :: "(request \<times> string) list" where
  "two_calls = [(example_get ''http://h/b'', []), (example_get ''http://h/a'', [])]"

definition two_captured :: proxy where
  "two_captured = example_proxy (plain_matcher []) [] [example_call ''http://h/a'', example_call ''http://h/b'']"


text \<open>Two rules that overlap: one for \<open>/a\<close>, then one for every path.\<close>

definition overlap_env :: go_env where
  "overlap_env = example_env\<lparr>gCompile := (\<lambda>p. Some (\<lambda>s. p = ''.*'' \<or> s = p))\<rparr>"

definition overlap_matcher :: matcher where
  "overlap_matcher = (case new_matcher overlap_env ((maCfg (plain_matcher []))
       \<lparr>mcRules := [empty_rule\<lparr>rlPathRegex := ''/a''\<rparr>, empty_rule\<lparr>rlPathRegex := ''.*''\<rparr>]\<rparr>) None of
     Inr m \<Rightarrow> m | Inl _ \<Rightarrow> plain_matcher [])"

definition captured_reply :: "string \<Rightarrow> string \<Rightarrow> event" where
  "captured_reply url b = (example_call url)\<lparr>evStatus := 200, evResponseBodyB64 := b64_encode b\<rparr>"

definition body_of :: "reply \<Rightarrow> string list option" where
  "body_of r = (case r of Stub s \<Rightarrow> Some (srWrites s) | _ \<Rightarrow> None)"

text \<open>With overlapping rules the greedy choice can fail where another choice serves both calls: the
  capture holds /a and /c, the service asks /c first, gets the reply captured for /a, and its call to /a
  is then refused as unexpected although the call to /c is still free. Asked in the captured order, both
  are served.\<close>

theorem greedy_choice_misassigns:
  "map (body_of \<circ> ocReply) (fst (run_all (serve overlap_env)
      (example_proxy overlap_matcher [] [captured_reply ''http://h/a'' ''A'', captured_reply ''http://h/c'' ''C''])
      [(example_get ''http://h/c'', Some []), (example_get ''http://h/a'', Some [])])) = [Some [''A''], None] \<and>
   map (body_of \<circ> ocReply) (fst (run_all (serve overlap_env)
      (example_proxy overlap_matcher [] [captured_reply ''http://h/a'' ''A'', captured_reply ''http://h/c'' ''C''])
      [(example_get ''http://h/a'', Some []), (example_get ''http://h/c'', Some [])])) = [Some [''A''], Some [''C'']]"
  by (rule conjI; code_simp)

text \<open>An injected retry failure uses up the captured call it fails: with one captured call and a rule
  that fails the first attempt, the service's retry, the very behaviour the rule is there to test, is
  refused as unexpected and reported as a divergence.\<close>

theorem injected_failure_breaks_retry:
  "(let r = run_all (serve example_env)
      (example_proxy (plain_matcher []) [\<lparr>ruDep = ''h'', ruAddLatency = 0, ruTimeout = 0, ruRetryLimit = 1\<rparr>]
         [captured_reply ''http://h/a'' ''A''])
      [(example_get ''http://h/a'', Some []), (example_get ''http://h/a'', Some [])]
    in map ocReply (fst r) = [HttpError 502 ''injected retry-failure'', HttpError 502 ''unexpected outbound call''] \<and>
       pxUnexpected (snd r))"
  by code_simp

section \<open>Replies are the captured ones\<close>

definition canonical_header :: "header \<Rightarrow> bool" where
  "canonical_header h \<longleftrightarrow> distinct (map fst h) \<and> (\<forall>k\<in>fst ` set h. canonical_key k = k)"

lemma hvalues_add_all:
  "hvalues (foldl (\<lambda>h v. hadd h name v) h vs) k = hvalues h k @ (if canonical_key name = k then vs else [])"
  by (induction vs arbitrary: h) (auto simp: hvalues_hadd)

lemma hvalues_absent: "k \<notin> fst ` set h \<Longrightarrow> hvalues h k = []"
  by (induction h) (auto simp: hvalues_def)

lemma copy_headers_values:
  "canonical_header src \<Longrightarrow>
   hvalues (copy_headers dst src) k = hvalues dst k @ (if k \<in> set hop_by_hop then [] else hvalues src k)"
proof (induction src arbitrary: dst)
  case (Cons e src)
  obtain n vs where e: "e = (n, vs)" by (cases e)
  let ?dst = "if n \<in> set hop_by_hop then dst else foldl (\<lambda>h v. hadd h n v) dst vs"
  have n: "canonical_header src" "canonical_key n = n" "n \<notin> fst ` set src"
    using Cons.prems e by (auto simp: canonical_header_def)
  have "copy_headers dst (e # src) = copy_headers ?dst src" by (simp add: copy_headers_def e)
  then have "hvalues (copy_headers dst (e # src)) k =
      hvalues ?dst k @ (if k \<in> set hop_by_hop then [] else hvalues src k)" by (simp only: Cons.IH [OF n(1)])
  moreover have "hvalues ?dst k = hvalues dst k @ (if n = k \<and> k \<notin> set hop_by_hop then vs else [])"
    using n(2) by (auto simp: hvalues_add_all)
  moreover have "hvalues (e # src) k = (if n = k then vs else hvalues src k)" "n = k \<Longrightarrow> hvalues src k = []"
    using n(3) hvalues_absent by (auto simp: e hvalues_def)
  ultimately show ?case by auto
qed (simp add: copy_headers_def hvalues_def)

lemma trailer_names: "k \<noteq> ''Trailer'' \<Longrightarrow> hvalues (foldl (\<lambda>h n. hadd h ''Trailer'' n) h ns) k = hvalues h k"
proof -
  assume k: "k \<noteq> ''Trailer''"
  have c: "canonical_key ''Trailer'' = ''Trailer''" by code_simp
  show ?thesis using k by (induction ns arbitrary: h) (simp_all add: hvalues_hadd c)
qed

lemma hvalues_hset: "hvalues (hset h k v) n = (if n = canonical_key k then [v] else hvalues h n)"
  by (simp add: hset_def hvalues_def update_conv')

text \<open>A captured call whose status can be sent and whose body decodes is replayed as it was captured:
  the status, the body, every header but the hop-by-hop ones with its values in order, and every
  trailer; the gRPC status trailer is added only where the capture has none, and a gRPC request always
  gets one.\<close>

theorem captured_reply_faithful:
  assumes "100 \<le> evStatus e" and "evStatus e \<le> 999" and "b64_decode (evResponseBodyB64 e) = Some b"
    and "canonical_header (evResponseHeaders e)"
  shows "\<exists>s. replay_captured rq e = Stub s \<and> srStatus s = evStatus e \<and> concat (srWrites s) = b \<and>
    (\<forall>k. hvalues (srHeader s) k = (if k \<in> set hop_by_hop then [] else hvalues (evResponseHeaders e) k) \<or> k = ''Trailer'') \<and>
    (\<forall>k. hvalues (srTrailer s) k = hvalues (evResponseTrailers e) k \<or>
       k = ''Grpc-Status'' \<and> hget (evResponseTrailers e) ''Grpc-Status'' = []) \<and>
    (is_grpc_request rq \<longrightarrow> hget (srTrailer s) ''Grpc-Status'' \<noteq> [])"
proof -
  have c: "canonical_key ''Grpc-Status'' = ''Grpc-Status''" by code_simp
  have empty: "hvalues [] k = []" for k by (simp add: hvalues_def)
  have "hget (hset h ''Grpc-Status'' v) ''Grpc-Status'' = v" for h v
    by (simp add: hget_def hvalues_hset)
  then show ?thesis
    using assms
    by (auto simp: replay_captured_def write_chunks_def Let_def trailer_names copy_headers_values empty
        response_trailers_def hvalues_hset c)
qed

lemma captured_reply_faithful_witness:
  "\<exists>s. replay_captured (example_get ''http://h/a'') (captured_reply ''http://h/a'' ''A'') = Stub s \<and>
    srStatus s = 200 \<and> concat (srWrites s) = ''A''"
proof -
  let ?e = "captured_reply ''http://h/a'' ''A''"
  have f: "evStatus ?e = 200" "b64_decode (evResponseBodyB64 ?e) = Some ''A''" "canonical_header (evResponseHeaders ?e)"
    by (simp_all add: captured_reply_def canonical_header_def example_call_def zero_event_def
        del: b64_encode.simps)
  have "100 \<le> evStatus ?e" "evStatus ?e \<le> 999" by (simp_all add: f)
  from captured_reply_faithful [OF this f(2,3), of "example_get ''http://h/a''"] show ?thesis
    unfolding f(1) by blast
qed

section \<open>Tunnels\<close>

text \<open>No CONNECT is tunnelled to a host outside the allowlist, and an empty allowlist means the three
  names of the local machine and nothing else.\<close>

theorem connect_only_allowed:
  assumes "ocReply (fst (serve_http E p rq body)) = Tunnel host"
  shows "\<exists>hosts. pxAllowed p = Some hosts \<and> rqMethod rq = ''CONNECT'' \<and>
    (if hosts = [] then to_lower host \<in> {''localhost'', ''127.0.0.1'', ''::1''}
     else \<exists>h\<in>set hosts. to_lower (trim_space h) = to_lower host)"
proof -
  have no: "fst x \<noteq> Tunnel host" if "x = write_chunks st h t g cs d" for x st h t g cs d
    using that by (simp add: write_chunks_def Let_def)
  have "fst (answer_scenario E q m r b) \<noteq> Tunnel host" for q m r b
    using no by (auto simp: answer_scenario_def Let_def split: sum.splits option.splits)
  moreover have "replay_captured r e \<noteq> Tunnel host" for r e
    using no by (auto simp: replay_captured_def split: option.splits)
  then have "fst (inject_rule ru n (replay_captured r e)) \<noteq> Tunnel host" for ru n r e
    by (auto simp: inject_rule_def Let_def split: option.splits)
  then have "fst (fst (serve_captured E q r b)) \<noteq> Tunnel host" for q r b
    by (cases rule: serve_captured_cases [of q E r b]) (simp_all add: serve_captured_def)
  ultimately have "fst (fst (serve_counted E q r b)) \<noteq> Tunnel host" for q r b
    by (cases rule: serve_counted_cases [of q E r b]) (simp_all add: serve_counted_def)
  then have connect: "rqMethod rq = ''CONNECT''"
    using assms by (auto simp: serve_http_def case_prod_beta split: option.splits if_splits)
  with assms obtain hosts where "pxAllowed p = Some hosts" "serve_connect hosts rq = Tunnel host"
    by (auto simp: serve_http_def split: option.splits)
  moreover from this have "is_allowed hosts host" by (auto simp: serve_connect_def Let_def split: if_splits)
  moreover have "map to_lower (map trim_space [''localhost'', ''127.0.0.1'', ''::1'']) = [''localhost'', ''127.0.0.1'', ''::1'']"
    by code_simp
  ultimately show ?thesis using connect by (auto simp: is_allowed_def equal_fold_def split: if_splits)
qed

lemma connect_only_allowed_witness:
  "\<exists>hosts. Some [''api.test''] = Some hosts \<and> ''CONNECT'' = ''CONNECT'' \<and>
    (if hosts = [] then to_lower ''api.test'' \<in> {''localhost'', ''127.0.0.1'', ''::1''}
     else \<exists>h\<in>set hosts. to_lower (trim_space h) = to_lower ''api.test'')"
proof -
  let ?p = "example_proxy (plain_matcher []) [] []\<lparr>pxAllowed := Some [''api.test'']\<rparr>"
  let ?rq = "(example_get ''http://x/'')\<lparr>rqMethod := ''CONNECT'', rqHost := ''api.test:443''\<rparr>"
  have "ocReply (fst (serve_http example_env ?p ?rq (Some []))) = Tunnel ''api.test''" by code_simp
  from connect_only_allowed [OF this] show ?thesis by (simp add: example_proxy_def)
qed

section \<open>Transparent connections side by side\<close>

text \<open>Each connection loads the index, and later answers with the call of that index. The connections
  are numbered; the state is the proxy and the phase of each.\<close>

datatype phase = Waiting | Loaded nat | Answered nat reply

type_synonym connection = "string \<times> int \<times> request"

inductive tstep :: "(nat \<Rightarrow> connection) \<Rightarrow> proxy \<times> (nat \<Rightarrow> phase) \<Rightarrow> proxy \<times> (nat \<Rightarrow> phase) \<Rightarrow> bool" for conns where
  load: "ph c = Waiting \<Longrightarrow> tstep conns (p, ph) (p, ph(c := Loaded (pxI p)))"
| finish: "ph c = Loaded i \<Longrightarrow> conns c = (ip, port, rq) \<Longrightarrow> transparent_from i p ip port rq = ((r, slept), q) \<Longrightarrow>
    tstep conns (p, ph) (q, ph(c := Answered i r))"

inductive tsteps :: "(nat \<Rightarrow> connection) \<Rightarrow> proxy \<times> (nat \<Rightarrow> phase) \<Rightarrow> proxy \<times> (nat \<Rightarrow> phase) \<Rightarrow> bool" for conns where
  none: "tsteps conns s s"
| more: "tsteps conns s t \<Longrightarrow> tstep conns t u \<Longrightarrow> tsteps conns s u"

inductive_cases tstep_elim: "tstep conns (p, ph) (q, ph')"

lemma transparent_fields:
  "pxI (snd (transparent_from i p ip port rq)) = (if i < length (pxEvents p) then pxI p + 1 else pxI p) \<and>
   pxEvents (snd (transparent_from i p ip port rq)) = pxEvents p"
  by (auto simp: transparent_from_def transparent_rule_def diverge_def Let_def split: option.splits)

definition index_of :: "phase \<Rightarrow> nat option" where
  "index_of f = (case f of Waiting \<Rightarrow> None | Loaded i \<Rightarrow> Some i | Answered i _ \<Rightarrow> Some i)"

lemma tstep_mono: "tstep conns (p, ph) (q, ph') \<Longrightarrow> pxI p \<le> pxI q"
  using transparent_fields by (auto elim!: tstep_elim) (metis le_add1 order_refl snd_conv)

lemma tstep_indices:
  assumes "tstep conns (p, ph) (q, ph')" and "\<And>c i. index_of (ph c) = Some i \<Longrightarrow> i \<le> pxI p" and "index_of (ph' c) = Some i"
  shows "i \<le> pxI q"
  using assms(1)
proof (cases rule: tstep.cases)
  case (load d)
  with assms(2,3) show ?thesis by (cases "c = d") (auto simp: index_of_def)
next
  case (finish d j ip port rq r slept)
  have "j \<le> pxI p" using finish assms(2) [of d j] by (simp add: index_of_def)
  moreover have "index_of (ph c) = Some i" if "c \<noteq> d" using that finish assms(3) by simp
  ultimately show ?thesis
    using tstep_mono [OF assms(1)] assms(2) [of c i] assms(3) finish
    by (cases "c = d") (auto simp: index_of_def)
qed

text \<open>However transparent connections interleave, no connection holds or has answered an index beyond
  the counter: captured calls are never served ahead of the captured order.\<close>

theorem transparent_never_ahead:
  assumes "tsteps conns (p, \<lambda>_. Waiting) (q, ph)" and "index_of (ph c) = Some i"
  shows "i \<le> pxI q"
proof -
  have "\<forall>c i. index_of (snd t c) = Some i \<longrightarrow> i \<le> pxI (fst t)" if "tsteps conns s t" "snd s = (\<lambda>_. Waiting)" for s t
    using that
  proof (induction rule: tsteps.induct)
    case (none s)
    then show ?case by (simp add: index_of_def)
  next
    case (more s t u)
    then show ?case using tstep_indices [of conns "fst t" "snd t" "fst u" "snd u"] by auto
  qed
  from this [OF assms(1)] assms(2) show ?thesis by simp
qed

definition two_replies :: proxy where
  "two_replies = example_proxy (plain_matcher []) []
     [captured_reply ''http://h/a'' ''A'', (captured_reply ''http://h/b'' ''B'')\<lparr>evStatus := 201\<rparr>]"

definition plain_connection :: connection where
  "plain_connection = (''10.0.0.1'', 80, example_get ''http://h/a'')"

lemma race_replies:
  "fst (transparent_from 0 two_replies ''10.0.0.1'' 80 (example_get ''http://h/a'')) = (Simple 200, 0)"
  "fst (transparent_from 0 (snd (transparent_from 0 two_replies ''10.0.0.1'' 80 (example_get ''http://h/a'')))
     ''10.0.0.1'' 80 (example_get ''http://h/a'')) = (Simple 200, 0)"
  by code_simp+

lemma race_reaches:
  "\<exists>q ph. tsteps (\<lambda>_. plain_connection) (two_replies, \<lambda>_. Waiting) (q, ph) \<and>
     ph 0 = Answered 0 (Simple 200) \<and> ph 1 = Answered 0 (Simple 200) \<and> pxI q = 2"
proof -
  let ?rq = "example_get ''http://h/a''"
  let ?T = "\<lambda>p. transparent_from 0 p ''10.0.0.1'' 80 ?rq"
  let ?q1 = "snd (?T two_replies)" and ?q2 = "snd (?T (snd (?T two_replies)))"
  let ?w = "\<lambda>_ :: nat. Waiting"
  let ?l = "?w(0 := Loaded 0, 1 := Loaded 0)"
  let ?f = "?l(0 := Answered 0 (Simple 200))"
  let ?conns = "\<lambda>_ :: nat. plain_connection"
  have e: "length (pxEvents two_replies) = 2" "pxI two_replies = 0"
    by (simp_all add: two_replies_def example_proxy_def)
  have "tstep ?conns (two_replies, ?w) (two_replies, ?w(0 := Loaded 0))"
    using load [of ?w 0 ?conns two_replies] e(2) by simp
  moreover have "tstep ?conns (two_replies, ?w(0 := Loaded 0)) (two_replies, ?l)"
    using load [of "?w(0 := Loaded 0)" 1 ?conns two_replies] e(2) by simp
  moreover have "tstep ?conns (two_replies, ?l) (?q1, ?f)"
    by (rule finish [where i = 0 and slept = 0]) (auto simp: plain_connection_def race_replies prod_eq_iff)
  moreover have "tstep ?conns (?q1, ?f) (?q2, ?f(1 := Answered 0 (Simple 200)))"
    by (rule finish [where i = 0 and slept = 0]) (auto simp: plain_connection_def race_replies prod_eq_iff)
  ultimately have "tsteps ?conns (two_replies, ?w) (?q2, ?f(1 := Answered 0 (Simple 200)))"
    by (meson none more)
  moreover have "pxI ?q2 = 2" using e by (simp add: transparent_fields)
  ultimately show ?thesis by (intro exI [of _ ?q2] exI [of _ "?f(1 := Answered 0 (Simple 200))"]) simp
qed

lemma transparent_never_ahead_witness:
  "\<exists>q ph. tsteps (\<lambda>_. plain_connection) (two_replies, \<lambda>_. Waiting) (q, ph) \<and> index_of (ph 1) = Some 0 \<and> 0 \<le> pxI q"
proof -
  from race_reaches obtain q ph where r: "tsteps (\<lambda>_. plain_connection) (two_replies, \<lambda>_. Waiting) (q, ph)"
    "ph 1 = Answered 0 (Simple 200)" by blast
  then have i: "index_of (ph 1) = Some 0" by (simp add: index_of_def)
  from r i transparent_never_ahead [OF r(1) i] show ?thesis by blast
qed

text \<open>The load of the index and its increment are two operations, and another connection can load in
  between: two connections both get the reply captured for the first call, the counter moves on by two, and
  the second captured call is never served.\<close>

theorem transparent_race:
  "\<exists>q ph. tsteps (\<lambda>_. plain_connection) (two_replies, \<lambda>_. Waiting) (q, ph) \<and>
     ph 0 = Answered 0 (Simple 200) \<and> ph 1 = Answered 0 (Simple 200) \<and> pxI q = 2"
  by (rule race_reaches)


lemma tstep_keeps_answer: "tstep conns t u \<Longrightarrow> snd t c = Answered i r \<Longrightarrow> snd u c = Answered i r"
  by (cases rule: tstep.cases) auto

lemma answered_stays:
  assumes "tsteps conns t u" and "snd t c = Answered i r"
  shows "snd u c = Answered i r"
  using assms
proof (induction rule: tsteps.induct)
  case (more s t u)
  then show ?case using tstep_keeps_answer by blast
qed

text \<open>Every transparent connection can be answered: from every state of the proxy and its connections, steps lead to
  a state in which the connection has its reply and every other connection is where it was, and no later step of any
  connection takes the reply back or changes it.\<close>

theorem connections_get_answered:
  "\<exists>t i r. tsteps conns s t \<and> snd t = (snd s)(c := Answered i r) \<and> (\<forall>u. tsteps conns t u \<longrightarrow> snd u c = Answered i r)"
proof -
  obtain q ph where s: "s = (q, ph)" by fastforce
  obtain ip port rq where conn: "conns c = (ip, port, rq)" by (rule prod_cases3)
  have run: "\<exists>t r. tstep conns (q, f) t \<and> snd t = f(c := Answered j r)" if "f c = Loaded j" for f j
  proof -
    obtain r slept q' where "transparent_from j q ip port rq = ((r, slept), q')" by (metis surj_pair)
    from finish [of f c j conns, OF that conn this] show ?thesis by auto
  qed
  have "\<exists>t i r. tsteps conns s t \<and> snd t = (snd s)(c := Answered i r)"
  proof (cases "ph c")
    case Waiting
    let ?f = "ph(c := Loaded (pxI q))"
    have "tstep conns s (q, ?f)" unfolding s using load [of ph c conns q] Waiting by simp
    moreover obtain t r where "tstep conns (q, ?f) t" "snd t = ?f(c := Answered (pxI q) r)" using run [of ?f "pxI q"] by auto
    ultimately have "tsteps conns s t \<and> snd t = (snd s)(c := Answered (pxI q) r)"
      using tsteps.more [OF tsteps.more [OF tsteps.none]] by (simp add: s)
    then show ?thesis by blast
  next
    case (Loaded j)
    with run obtain t r where "tstep conns (q, ph) t" "snd t = ph(c := Answered j r)" by blast
    then have "tsteps conns s t \<and> snd t = (snd s)(c := Answered j r)" using tsteps.more [OF tsteps.none] by (simp add: s)
    then show ?thesis by blast
  next
    case (Answered j r)
    then have "tsteps conns s s \<and> snd s = (snd s)(c := Answered j r)" by (simp add: s tsteps.none fun_upd_idem)
    then show ?thesis by blast
  qed
  then obtain t i r where "tsteps conns s t" "snd t = (snd s)(c := Answered i r)" by blast
  moreover from this have "\<forall>u. tsteps conns t u \<longrightarrow> snd u c = Answered i r" using answered_stays [of conns t _ c i r] by simp
  ultimately show ?thesis by blast
qed

lemma connections_get_answered_witness:
  "\<exists>t i r. tsteps (\<lambda>_. plain_connection) (two_replies, \<lambda>_. Waiting) t \<and> snd t 7 = Answered i r \<and> snd t 8 = Waiting"
proof -
  from connections_get_answered [of "\<lambda>_. plain_connection" "(two_replies, \<lambda>_. Waiting)" 7] obtain t i r
    where "tsteps (\<lambda>_. plain_connection) (two_replies, \<lambda>_. Waiting) t" "snd t = (\<lambda>_. Waiting)(7 := Answered i r)" by auto
  then show ?thesis by (intro exI [of _ t] exI [of _ i] exI [of _ r]) simp
qed

end
