(* ===== verification/Agent.thy ===== *)
theory Agent
  imports ReplayDriver StubProxy Contract
begin

text \<open>
  \<open>cmd/agent\<close> (\<open>main.go\<close>), the replay command from \<open>executeReplay\<close> on: preparing a replay, the runs with their concurrent
  workers, what is compared, and how the outcome and the exit status follow. What the files, the clock and the constructors
  give is a record; a wave of workers is a function of the stub proxy it starts with, because the workers, the target and the
  proxy run concurrently. Floating point rates appear in texts only and are left out with them.
\<close>

section \<open>Inputs and state\<close>

record agent_input =
  aiRuns :: int
  aiFanout :: int
  aiWindow :: int
  aiDiff :: bool
  aiMaxEvents :: int
  aiMaxWall :: int
  aiInject :: "string list"
  aiMatching :: match_config
  aiScenarios :: "scenario_config list"
  aiTemplates :: template_config
  aiHttps :: bool
  aiAllowHosts :: "string list"

type_synonym wave_result = "(string, replay_report) result"

text \<open>Errors of the file system, the listeners and the constructors are their texts; \<open>aeWave i remaining stub\<close> is what the
  workers of run \<open>i\<close> return, in the order of the channel, and the stub proxy after them.\<close>

record agent_env =
  aeGo :: go_env
  aeErrText :: "string \<Rightarrow> string"
  aeSlow :: "int \<Rightarrow> int \<Rightarrow> bool"
  aeTransparent :: bool
  aeInboundStat :: "string option"
  aeInbound :: "(string, event list) result"
  aeOutboundExists :: bool
  aeOutbound :: "(string, event list) result"
  aeContract :: "(string, api_document) result option"
  aeRuleText :: "validation_error \<Rightarrow> string"
  aeProxyText :: "proxy_error \<Rightarrow> string"
  aeAuthority :: "string option"
  aeRedirect :: "string option"
  aeListen :: "string option"
  aeStarted :: "nat \<Rightarrow> int"
  aeWave :: "nat \<Rightarrow> int \<Rightarrow> proxy \<Rightarrow> wave_result list \<times> proxy"
  aeElapsed :: int
  aeSloText :: string

record replay_outcome =
  rnIndex :: nat
  rnTotal :: int
  rnCompleted :: nat

record replay_summary =
  smOutcome :: string
  smRunsRequested :: int
  smRunsExecuted :: nat
  smRunsCompleted :: nat
  smInbound :: nat
  smObserved :: nat
  smExpected :: int
  smVerification :: string
  smProxyStatus :: string
  smInjections :: string
  smExercised :: bool
  smDeterministic :: nat
  smNonDeterministic :: nat
  smReason :: string
  smRecommendation :: string
  smNotTested :: "string list"
  smOutcomes :: "replay_outcome list"
  smExit :: int
  smTransparent :: bool
  smFanout :: int
  smWindow :: int
  smTargetInbound :: int
  smTargetOutbound :: int
  smElapsed :: int
  smLimiting :: string
  smMaxLatency :: int
  smMaxTimeout :: int
  smDiffs :: "event_diff list"
  smFindings :: "finding list"

text \<open>\<open>NewReplaySummary\<close>.\<close>

definition new_summary :: replay_summary where
  "new_summary = \<lparr>smOutcome = [], smRunsRequested = 0, smRunsExecuted = 0, smRunsCompleted = 0, smInbound = 0, smObserved = 0,
     smExpected = 0, smVerification = [], smProxyStatus = ''UNKNOWN'', smInjections = ''none'', smExercised = False,
     smDeterministic = 0, smNonDeterministic = 0, smReason = [], smRecommendation = [], smNotTested = [], smOutcomes = [],
     smExit = 0, smTransparent = False, smFanout = 0, smWindow = 0, smTargetInbound = 0, smTargetOutbound = 0, smElapsed = 0,
     smLimiting = [], smMaxLatency = 0, smMaxTimeout = 0, smDiffs = [], smFindings = []\<rparr>"

section \<open>Preparing a replay\<close>

definition refuse :: "replay_summary \<Rightarrow> string \<Rightarrow> string \<Rightarrow> (replay_summary, 'a) result" where
  "refuse s outcome reason = Inl (s\<lparr>smReason := reason, smOutcome := outcome\<rparr>)"

definition injections_label :: "rule list \<Rightarrow> string" where
  "injections_label rs =
     (let latency = list_ex (\<lambda>r. 0 < ruAddLatency r) rs; timeout = list_ex (\<lambda>r. 0 < ruTimeout r) rs
      in if latency \<and> timeout then ''latency+timeout'' else if latency then ''latency'' else if timeout then ''timeout''
         else ''none'')"

definition largest :: "('a \<Rightarrow> int) \<Rightarrow> 'a list \<Rightarrow> int" where
  "largest f xs = fold (\<lambda>x m. if m < f x then f x else m) xs 0"

record prepared =
  ppEvents :: "event list"
  ppContract :: "api_document option"
  ppPerReplay :: nat
  ppProxy :: proxy

text \<open>\<open>executeReplay\<close> up to the events and the contract findings about them.\<close>

definition load_baseline ::
  "agent_input \<Rightarrow> agent_env \<Rightarrow> replay_summary \<Rightarrow>
   (replay_summary, replay_summary \<times> event list \<times> api_document option) result" where
  "load_baseline I V s0 =
     (let s1 = s0\<lparr>smRunsRequested := aiRuns I, smTransparent := aeTransparent V\<rparr>
      in if aiFanout I < 1 then refuse s1 ''FAIL_INVALID_ENV'' ''fanout must be >= 1''
         else let s2 = s1\<lparr>smFanout := aiFanout I, smWindow := aiWindow I\<rparr>
              in case aeInboundStat V of
                   Some err \<Rightarrow> refuse s2 ''FAIL_INVALID_ENV'' (''Inbound log not found: '' @ err)
                 | None \<Rightarrow>
                     let s3 = s2\<lparr>smVerification := if aeOutboundExists V then ''enabled'' else ''skipped (no outbound.log)''\<rparr>
                     in case aeInbound V of
                          Inl err \<Rightarrow> refuse s3 ''FAIL_INVALID_ENV'' (''Failed to load inbound log: '' @ err)
                        | Inr logged \<Rightarrow>
                            let es = load_inbound logged;
                                es' = (if 0 < aiMaxEvents I \<and> aiMaxEvents I < int (length es) then take (nat (aiMaxEvents I)) es else es)
                            in if es = [] then refuse s3 ''FAIL_NO_COVERAGE'' ''No inbound requests found in incident''
                               else (case aeContract V of
                                       None \<Rightarrow> Inr (s3, es', None)
                                     | Some (Inl err) \<Rightarrow> refuse s3 ''FAIL_INVALID_ENV'' err
                                     | Some (Inr d) \<Rightarrow>
                                         Inr (s3\<lparr>smFindings := smFindings s3 @
                                                validate_events (aeGo V) (aeErrText V) d es' ''baseline''\<rparr>, es', Some d)))"

text \<open>\<open>NewWithOptions\<close> as the agent calls it: a missing outbound log gives no events.\<close>

definition make_proxy :: "agent_input \<Rightarrow> agent_env \<Rightarrow> rule list \<Rightarrow> (string, proxy) result" where
  "make_proxy I V rules =
     and_then (case aeOutbound V of Inr logged \<Rightarrow> Inr logged | Inl err \<Rightarrow> if aeOutboundExists V then Inl err else Inr [])
       (\<lambda>logged. case new_proxy (aeGo V) logged rules (aiMatching I) (aiScenarios I) (aiTemplates I)
                        (if aiHttps I then Some (aiAllowHosts I) else None) of
          Inl e \<Rightarrow> Inl (aeProxyText V e)
        | Inr p \<Rightarrow> Inr p)"

definition set_targets :: "agent_input \<Rightarrow> nat \<Rightarrow> nat \<Rightarrow> replay_summary \<Rightarrow> replay_summary" where
  "set_targets I n per s =
     s\<lparr>smTargetInbound := wrap64 (wrap64 (int n * aiRuns I) * aiFanout I),
       smTargetOutbound := wrap64 (wrap64 (int per * aiRuns I) * aiFanout I),
       smExpected := wrap64 (wrap64 (int per * aiRuns I) * aiFanout I)\<rparr>"

definition start_stub ::
  "agent_input \<Rightarrow> agent_env \<Rightarrow> rule list \<Rightarrow> replay_summary \<Rightarrow> (replay_summary, replay_summary \<times> proxy) result" where
  "start_stub I V rules s =
     (case (if aiHttps I then aeAuthority V else None) of
        Some err \<Rightarrow> refuse s ''FAIL_INVALID_ENV'' (''HTTPS stub CA init failed: '' @ err)
      | None \<Rightarrow>
          (case make_proxy I V rules of
             Inl err \<Rightarrow> refuse s ''FAIL_INVALID_ENV'' (''Stub proxy init failed: '' @ err)
           | Inr p \<Rightarrow>
               (case (if smTransparent s then aeRedirect V else None) of
                  Some err \<Rightarrow> refuse s ''FAIL_INVALID_ENV'' (''iptables setup failed: '' @ err)
                | None \<Rightarrow>
                    (case aeListen V of
                       Some err \<Rightarrow> refuse (s\<lparr>smProxyStatus := ''FAILED''\<rparr>) ''FAIL_INVALID_ENV'' (''Stub proxy bind failed: '' @ err)
                     | None \<Rightarrow> Inr (s\<lparr>smProxyStatus := ''BOUND''\<rparr>, p)))))"

definition prepare :: "agent_input \<Rightarrow> agent_env \<Rightarrow> replay_summary \<Rightarrow> (replay_summary, replay_summary \<times> prepared) result" where
  "prepare I V s0 =
     and_then (load_baseline I V s0) (\<lambda>(s1, es, d).
       let per = (case aeOutbound V of Inl err \<Rightarrow> 0 | Inr logged \<Rightarrow> length (outbound_events logged));
           s2 = set_targets I (length es) per s1
       in case parse_rules (gParseDuration (aeGo V)) (aiInject I) of
            Inl err \<Rightarrow> refuse s2 ''FAIL_INVALID_ENV'' (''Invalid injection: '' @ aeRuleText V err)
          | Inr rules \<Rightarrow>
              and_then (start_stub I V rules
                (s2\<lparr>smInjections := injections_label rules, smMaxLatency := largest ruAddLatency rules,
                    smMaxTimeout := largest ruTimeout rules\<rparr>))
                (\<lambda>(s3, p). Inr (s3, \<lparr>ppEvents = es, ppContract = d, ppPerReplay = per, ppProxy = p\<rparr>)))"

section \<open>Runs\<close>

text \<open>The variables of the loop: the summary, the reference fingerprint, whether fingerprints differed, whether the contract
  has been evaluated, and the stub proxy.\<close>

record loop_state =
  lsSummary :: replay_summary
  lsReference :: "string option"
  lsNonDeterministic :: bool
  lsEvaluated :: bool
  lsProxy :: proxy

text \<open>The reason a replay that did not finish gives; the stalled reason is set last.\<close>

definition ending_reason :: "ending \<Rightarrow> string" where
  "ending_reason r =
     (case r of
        Completed \<Rightarrow> []
      | StalledIdle \<Rightarrow> ''no replay progress observed within idle limit''
      | ExpandedPreserving \<Rightarrow> ''replay exceeded wall-clock limit while preserving timing''
      | ExpandedAwaiting \<Rightarrow> ''replay exceeded wall-clock limit while awaiting responses'')"

definition fail_run :: "string \<Rightarrow> string \<Rightarrow> loop_state \<Rightarrow> loop_state" where
  "fail_run outcome reason l = l\<lparr>lsSummary := (lsSummary l)\<lparr>smReason := reason, smOutcome := outcome\<rparr>\<rparr>"

definition note_fingerprint :: "string \<Rightarrow> loop_state \<Rightarrow> loop_state" where
  "note_fingerprint f l =
     (case lsReference l of
        None \<Rightarrow> l\<lparr>lsReference := Some f\<rparr>
      | Some g \<Rightarrow> if f = g then l else l\<lparr>lsNonDeterministic := True\<rparr>)"

text \<open>The events of a replay are compared with the captured events of the same position. The response headers of a
  replayed event are never nil.\<close>

definition diffs_of :: "(int \<Rightarrow> int \<Rightarrow> bool) \<Rightarrow> event list \<Rightarrow> event list \<Rightarrow> event_diff list" where
  "diffs_of slow es rs = List.map_filter (\<lambda>(i, c, r). compare_events slow False c r (int (Suc i))) (enumerate 0 (zip es rs))"

definition note_diffs :: "agent_input \<Rightarrow> agent_env \<Rightarrow> event list \<Rightarrow> event list \<Rightarrow> loop_state \<Rightarrow> loop_state" where
  "note_diffs I V es rs l =
     (if aiDiff I then l\<lparr>lsSummary := (lsSummary l)\<lparr>smDiffs := smDiffs (lsSummary l) @ diffs_of (aeSlow V) es rs\<rparr>\<rparr> else l)"

definition contract_findings :: "agent_env \<Rightarrow> api_document \<Rightarrow> event list \<Rightarrow> event list \<Rightarrow> finding list" where
  "contract_findings V d es rs =
     validate_events (aeGo V) (aeErrText V) d rs ''candidate'' @ drift_findings (gQuote (aeGo V)) es rs"

definition note_contract :: "agent_env \<Rightarrow> prepared \<Rightarrow> event list \<Rightarrow> loop_state \<Rightarrow> loop_state" where
  "note_contract V P rs l =
     (case ppContract P of
        Some d \<Rightarrow>
          if lsEvaluated l then l
          else l\<lparr>lsSummary := (lsSummary l)\<lparr>smFindings := smFindings (lsSummary l) @ contract_findings V d (ppEvents P) rs\<rparr>,
                 lsEvaluated := True\<rparr>
      | None \<Rightarrow> l)"

text \<open>One result of a wave, with whether the wave is complete and the events it replayed.\<close>

definition take_result ::
  "agent_input \<Rightarrow> agent_env \<Rightarrow> prepared \<Rightarrow> wave_result \<Rightarrow> loop_state \<times> bool \<times> nat \<Rightarrow> loop_state \<times> bool \<times> nat" where
  "take_result I V P r st =
     (case st of (l, whole, inbound) \<Rightarrow>
      case r of
        Inl err \<Rightarrow> (fail_run ''FAIL_STALLED'' (''Replay failed: '' @ err) l, False, inbound)
      | Inr rep \<Rightarrow>
          let l1 = (if roEnding rep = Completed then l else fail_run ''FAIL_STALLED'' (ending_reason (roEnding rep)) l)
          in (note_contract V P (roReplayed rep)
                (note_diffs I V (ppEvents P) (roReplayed rep) (note_fingerprint (roFingerprint rep) l1)),
              whole \<and> roEnding rep = Completed, inbound + roCompleted rep))"

text \<open>\<open>ObservedCount\<close>, \<open>DivergenceReasons\<close> and \<open>ForwardErrors\<close>: nothing in the proxy increments the last counter.\<close>

definition observed_count :: "proxy \<Rightarrow> nat" where "observed_count p = pxSeen p"

definition divergence_reasons :: "proxy \<Rightarrow> string list" where "divergence_reasons p = pxDivergences p"

definition forward_errors :: "proxy \<Rightarrow> nat" where "forward_errors p = 0"

definition run_proxy :: "agent_input \<Rightarrow> prepared \<Rightarrow> proxy \<Rightarrow> proxy" where
  "run_proxy I P p = configure_cardinality (1 < aiFanout I) (wrap64 (int (ppPerReplay P) * aiFanout I)) (reset_proxy p)"

text \<open>After the wave: the proxy's counters decide, and the flag tells whether the loop goes on.\<close>

definition conclude_run ::
  "agent_input \<Rightarrow> prepared \<Rightarrow> nat \<Rightarrow> loop_state \<times> bool \<times> nat \<Rightarrow> loop_state \<times> bool" where
  "conclude_run I P i st =
     (case st of (l, whole, inbound) \<Rightarrow>
      let s = lsSummary l;
          seen = smObserved s + observed_count (lsProxy l);
          l1 = l\<lparr>lsSummary := s\<lparr>smInbound := smInbound s + inbound, smObserved := seen, smExercised := 0 < seen\<rparr>\<rparr>
      in if 0 < forward_errors (lsProxy l) then (fail_run ''FAIL_PROXY_FORWARDING'' ''Proxy forwarding failed'' l1, False)
         else (case divergence_reasons (lsProxy l) of
                 reason # reasons \<Rightarrow> (fail_run ''FAIL_NON_DETERMINISTIC'' reason l1, False)
               | [] \<Rightarrow>
                   if \<not> whole then (l1, False)
                   else (l1\<lparr>lsSummary := (lsSummary l1)
                           \<lparr>smRunsCompleted := Suc (smRunsCompleted s),
                            smOutcomes := smOutcomes s @
                              [\<lparr>rnIndex = Suc i, rnTotal = wrap64 (int (length (ppEvents P)) * aiFanout I), rnCompleted = inbound\<rparr>]\<rparr>\<rparr>,
                         True)))"

definition one_run :: "agent_input \<Rightarrow> agent_env \<Rightarrow> prepared \<Rightarrow> nat \<Rightarrow> loop_state \<Rightarrow> loop_state \<times> bool" where
  "one_run I V P i l =
     (let p = run_proxy I P (lsProxy l); remaining = aiMaxWall I - aeStarted V i
      in if remaining \<le> 0
         then (l\<lparr>lsProxy := p, lsSummary := (lsSummary l)\<lparr>smReason := ''Replay exceeded max wall time before run start''\<rparr>\<rparr>, False)
         else (case aeWave V i remaining p of (results, p') \<Rightarrow>
                 conclude_run I P i
                   (fold (take_result I V P) results
                      (l\<lparr>lsProxy := p', lsSummary := (lsSummary l)\<lparr>smRunsExecuted := Suc (smRunsExecuted (lsSummary l))\<rparr>\<rparr>,
                       True, 0))))"

fun run_from :: "agent_input \<Rightarrow> agent_env \<Rightarrow> prepared \<Rightarrow> nat \<Rightarrow> nat \<Rightarrow> loop_state \<Rightarrow> loop_state" where
  "run_from I V P 0 i l = l"
| "run_from I V P (Suc n) i l =
     (case one_run I V P i l of (l', True) \<Rightarrow> run_from I V P n (Suc i) l' | (l', False) \<Rightarrow> l')"

section \<open>Outcome\<close>

definition failed :: "replay_summary \<Rightarrow> bool" where
  "failed s \<longleftrightarrow> has_prefix (smOutcome s) ''FAIL_''"

text \<open>The rest of \<open>executeReplay\<close>: differences, findings, the window and the fingerprints.\<close>

definition judge_diffs :: "agent_input \<Rightarrow> replay_summary \<Rightarrow> replay_summary" where
  "judge_diffs I s =
     (if aiDiff I \<and> smDiffs s \<noteq> [] \<and> \<not> failed s
      then s\<lparr>smOutcome := ''FAIL_NON_DETERMINISTIC'',
             smReason := nat_digits (length (smDiffs s)) @ '' replay response divergence(s) detected''\<rparr>
      else s)"

definition judge_findings :: "replay_summary \<Rightarrow> replay_summary" where
  "judge_findings s =
     (if smFindings s \<noteq> [] \<and> \<not> failed s
      then s\<lparr>smOutcome := ''FAIL_CONTRACT_DRIFT'',
             smReason := nat_digits (length (smFindings s)) @ '' OpenAPI or contract drift finding(s) detected''\<rparr>
      else s)"

definition judge_window :: "agent_env \<Rightarrow> replay_summary \<Rightarrow> replay_summary" where
  "judge_window V s =
     (if 0 < smWindow s \<and> (int (smInbound s) < smTargetInbound s \<or> smWindow s < smElapsed s)
      then s\<lparr>smOutcome := ''FAIL_SLO_MISSED'', smReason := (if smReason s = [] then aeSloText V else smReason s)\<rparr>
      else s)"

definition judge_fingerprints :: "bool \<Rightarrow> replay_summary \<Rightarrow> replay_summary" where
  "judge_fingerprints differ s =
     (if 1 < smRunsExecuted s \<and> differ
      then s\<lparr>smNonDeterministic := 1,
             smReason := (if smReason s = [] then ''Non-deterministic fingerprints observed'' else smReason s)\<rparr>
      else s\<lparr>smDeterministic := smRunsCompleted s\<rparr>)"

definition judge :: "agent_input \<Rightarrow> agent_env \<Rightarrow> loop_state \<Rightarrow> replay_summary" where
  "judge I V l =
     judge_fingerprints (lsNonDeterministic l)
       (judge_window V ((judge_findings (judge_diffs I (lsSummary l)))\<lparr>smElapsed := aeElapsed V\<rparr>))"

definition execute_replay :: "agent_input \<Rightarrow> agent_env \<Rightarrow> replay_summary \<Rightarrow> replay_summary" where
  "execute_replay I V s0 =
     (case prepare I V s0 of
        Inl s \<Rightarrow> s
      | Inr (s, P) \<Rightarrow>
          judge I V (run_from I V P (nat (aiRuns I)) 0
            \<lparr>lsSummary = s, lsReference = None, lsNonDeterministic = False, lsEvaluated = False, lsProxy = ppProxy P\<rparr>))"

definition compute_outcome :: "replay_summary \<Rightarrow> string" where
  "compute_outcome s =
     (if failed s then smOutcome s
      else if smProxyStatus s = ''FAILED'' then ''FAIL_INVALID_ENV''
      else if smTransparent s \<and> 0 < smExpected s \<and> smObserved s = 0 then ''FAIL_TRANSPARENT_PROXY''
      else if 0 < smExpected s \<and> smObserved s = 0 then ''FAIL_NO_COVERAGE''
      else if 0 < smWindow s \<and> int (smInbound s) < smTargetInbound s then ''FAIL_SLO_MISSED''
      else if 1 < smRunsExecuted s \<and> 0 < smNonDeterministic s then ''FAIL_NON_DETERMINISTIC''
      else if smReason s \<noteq> [] \<and> smRunsCompleted s = 0 then ''FAIL_STALLED''
      else if int (smRunsCompleted s) = smRunsRequested s \<and> smExercised s then ''PASS_STRONG''
      else ''PASS_WEAK'')"

definition limiting_factor :: "replay_summary \<Rightarrow> string" where
  "limiting_factor s =
     (if smOutcome s = ''PASS_STRONG'' \<or> smOutcome s = ''PASS_WEAK'' then ''NONE''
      else if smDiffs s \<noteq> [] then ''RESPONSE_DIVERGENCE''
      else if smFindings s \<noteq> [] then ''CONTRACT_DRIFT''
      else if 0 < smMaxTimeout s then ''DEPENDENCY_TIMEOUT''
      else if 0 < smMaxLatency s \<and> (smObserved s < smInbound s \<or> contains (smReason s) ''wall-clock'')
        then ''OUTBOUND_DEPENDENCY_LATENCY''
      else if smObserved s = 0 \<and> smProxyStatus s = ''BOUND'' then ''PROXY_BACKPRESSURE''
      else if 0 < smObserved s \<and> smObserved s < smInbound s then ''CONNECTION_POOL_EXHAUSTION''
      else ''APPLICATION_CPU'')"

definition recommendation :: "string \<Rightarrow> string" where
  "recommendation out =
     dflt ''Inspect logs for additional details.'' (map_of
       [(''PASS_STRONG'', ''Keep using replay for regression detection.''),
        (''PASS_WEAK'', ''Increase coverage by exercising dependencies and completing all runs.''),
        (''FAIL_NON_DETERMINISTIC'', ''Disable retries and reduce concurrency for deterministic replay.''),
        (''FAIL_INVALID_ENV'', ''Fix environment permissions, ports, or configuration and retry.''),
        (''FAIL_PROXY_FORWARDING'', ''Ensure HTTP_PROXY points to InfernoSIM and outbound forwarding is reachable.''),
        (''FAIL_TRANSPARENT_PROXY'', ''Verify iptables redirect to port 19000 and ensure NET_ADMIN is enabled.''),
        (''FAIL_NO_COVERAGE'', ''Ensure outbound dependencies are reachable and instrumented.''),
        (''FAIL_STALLED'', ''Reduce load or increase timeouts to avoid stalls.''),
        (''FAIL_SLO_MISSED'', ''Lower fanout or increase window; then inspect app saturation limits and outbound dependency latency.''),
        (''FAIL_CONTRACT_DRIFT'', ''Review the OpenAPI and response-drift findings before accepting the release.'')] out)"

definition not_tested :: "replay_summary \<Rightarrow> string list" where
  "not_tested s =
     (if smInbound s = 0 then [''No inbound events replayed''] else []) @
     (if smObserved s = 0 then [''No outbound calls observed''] else []) @
     (if smTransparent s \<and> 0 < smExpected s \<and> smObserved s = 0
      then [''Transparent redirect did not capture outbound traffic''] else []) @
     (if smProxyStatus s \<noteq> ''BOUND'' then [''Outbound stub proxy not bound''] else []) @
     (if \<not> smExercised s then [''Dependencies not exercised''] else []) @
     (if smInjections s = ''none'' then [''Fault injections not exercised''] else []) @
     (if int (smRunsExecuted s) < smRunsRequested s then [''Not all requested runs executed''] else []) @
     (if 0 < smWindow s \<and> int (smInbound s) < smTargetInbound s then [''Replay SLO not met for requested window''] else [])"

definition exit_code :: "string \<Rightarrow> int" where
  "exit_code out =
     (if out = ''PASS_STRONG'' then 0
      else if out = ''PASS_WEAK'' \<or> out = ''FAIL_NON_DETERMINISTIC'' \<or> out = ''FAIL_SLO_MISSED'' then 1 else 2)"

text \<open>\<open>Finalize\<close>, without the texts with rates.\<close>

definition finalize :: "replay_summary \<Rightarrow> replay_summary" where
  "finalize s0 =
     (let s = s0\<lparr>smOutcome := compute_outcome s0\<rparr>
      in s\<lparr>smLimiting := limiting_factor s,
           smRecommendation := (if smDiffs s \<noteq> []
             then ''Inspect the reported status, header, body, and latency changes before accepting the release.''
             else recommendation (smOutcome s)),
           smNotTested := not_tested s, smExit := exit_code (smOutcome s)\<rparr>)"

definition run_replay :: "agent_input \<Rightarrow> agent_env \<Rightarrow> replay_summary" where
  "run_replay I V = finalize (execute_replay I V new_summary)"

section \<open>When a replay passes\<close>

definition clean_result :: "wave_result \<Rightarrow> bool" where
  "clean_result r = (case r of Inl err \<Rightarrow> False | Inr rep \<Rightarrow> roEnding rep = Completed)"

definition reports :: "wave_result list \<Rightarrow> replay_report list" where
  "reports rs = concat (map (\<lambda>r. case r of Inl err \<Rightarrow> [] | Inr rep \<Rightarrow> [rep]) rs)"

definition clean_wave :: "wave_result list \<times> proxy \<Rightarrow> bool" where
  "clean_wave w \<longleftrightarrow> list_all clean_result (fst w) \<and> pxDivergences (snd w) = []"

text \<open>The waves of \<open>n\<close> runs, each with the proxy the one before left.\<close>

fun waves :: "agent_input \<Rightarrow> agent_env \<Rightarrow> prepared \<Rightarrow> nat \<Rightarrow> nat \<Rightarrow> proxy \<Rightarrow> (wave_result list \<times> proxy) list" where
  "waves I V P 0 i p = []"
| "waves I V P (Suc n) i p =
     (let w = aeWave V i (aiMaxWall I - aeStarted V i) (run_proxy I P p) in w # waves I V P n (Suc i) (snd w))"

definition all_reports :: "(wave_result list \<times> proxy) list \<Rightarrow> replay_report list" where
  "all_reports ws = concat (map (\<lambda>w. reports (fst w)) ws)"

definition observed_calls :: "(wave_result list \<times> proxy) list \<Rightarrow> nat" where
  "observed_calls ws = sum_list (map (\<lambda>w. pxSeen (snd w)) ws)"

text \<open>The findings about the first report.\<close>

definition first_findings :: "agent_env \<Rightarrow> prepared \<Rightarrow> replay_report list \<Rightarrow> finding list" where
  "first_findings V P reps =
     (case (ppContract P, reps) of
        (Some d, rep # rest) \<Rightarrow> contract_findings V d (ppEvents P) (roReplayed rep)
      | _ \<Rightarrow> [])"

definition wave_diffs :: "agent_input \<Rightarrow> agent_env \<Rightarrow> prepared \<Rightarrow> replay_report list \<Rightarrow> event_diff list" where
  "wave_diffs I V P reps = (if aiDiff I then concat (map (\<lambda>rep. diffs_of (aeSlow V) (ppEvents P) (roReplayed rep)) reps) else [])"

definition passes :: "agent_input \<Rightarrow> agent_env \<Rightarrow> replay_summary \<Rightarrow> prepared \<Rightarrow> bool" where
  "passes I V s P =
     (let n = nat (aiRuns I); ws = waves I V P n 0 (ppProxy P); reps = all_reports ws
      in 0 < aiRuns I \<and> list_all (\<lambda>i. aeStarted V i < aiMaxWall I) [0..<n] \<and> list_all clean_wave ws \<and>
         0 < observed_calls ws \<and>
         wave_diffs I V P reps = [] \<and> smFindings s @ first_findings V P reps = [] \<and>
         (0 < aiWindow I \<longrightarrow>
            smTargetInbound s \<le> int (sum_list (map roCompleted reps)) \<and> aeElapsed V \<le> aiWindow I) \<and>
         (1 < n \<longrightarrow> list_all (\<lambda>rep. roFingerprint rep = roFingerprint (hd reps)) reps))"

subsection \<open>What a wave does\<close>

definition absorb :: "agent_input \<Rightarrow> agent_env \<Rightarrow> prepared \<Rightarrow> replay_report \<Rightarrow> loop_state \<Rightarrow> loop_state" where
  "absorb I V P rep l =
     note_contract V P (roReplayed rep) (note_diffs I V (ppEvents P) (roReplayed rep) (note_fingerprint (roFingerprint rep) l))"

lemma reports_simps [simp]: "reports [] = []" "reports (Inr rep # rs) = rep # reports rs" "reports (Inl e # rs) = reports rs"
  by (simp_all add: reports_def)

lemma take_results_clean:
  "list_all clean_result rs \<Longrightarrow>
     fold (take_result I V P) rs (l, c, n) =
       (fold (absorb I V P) (reports rs) l, c, n + sum_list (map roCompleted (reports rs)))"
  by (induction rs arbitrary: l n) (auto simp: clean_result_def take_result_def absorb_def split: sum.splits)

text \<open>What no result of a wave changes.\<close>

definition basic_part :: "replay_summary \<Rightarrow> _" where
  "basic_part s = (smRunsRequested s, smProxyStatus s, smTransparent s, smExpected s, smWindow s, smTargetInbound s)"

definition fixed_part :: "replay_summary \<Rightarrow> _" where
  "fixed_part s = (basic_part s, smNonDeterministic s)"

definition counted :: "loop_state \<Rightarrow> _" where
  "counted l = (smRunsCompleted (lsSummary l), smRunsExecuted (lsSummary l), smObserved (lsSummary l), smInbound (lsSummary l),
     fixed_part (lsSummary l), lsProxy l)"

lemma counted_notes [simp]:
  "counted (note_contract V P rs l) = counted l" "counted (note_diffs I V es rs l) = counted l"
  "counted (note_fingerprint f l) = counted l" "counted (fail_run out reason l) = counted l"
  by (auto simp: note_contract_def note_diffs_def note_fingerprint_def fail_run_def counted_def fixed_part_def basic_part_def
      split: option.splits)

lemma take_results_counted:
  "counted (fst (fold (take_result I V P) rs (l, c, n))) = counted l"
  by (induction rs arbitrary: l c n) (auto simp: take_result_def Let_def split: sum.splits)

lemma take_results_unclean:
  "fst (snd (fold (take_result I V P) rs (l, c, n))) \<longleftrightarrow> c \<and> list_all clean_result rs"
  by (induction rs arbitrary: l c n) (auto simp: take_result_def Let_def clean_result_def split: sum.splits)

subsection \<open>What the reports add\<close>

definition reference :: "loop_state \<Rightarrow> replay_report list \<Rightarrow> string" where
  "reference l reps = (case lsReference l of Some g \<Rightarrow> g | None \<Rightarrow> roFingerprint (hd reps))"

lemma wave_diffs_Nil [simp]: "wave_diffs I V P [] = []"
  by (simp add: wave_diffs_def)

lemma absorb_fields:
  "smOutcome (lsSummary (absorb I V P rep l)) = smOutcome (lsSummary l)"
  "smDiffs (lsSummary (absorb I V P rep l)) = smDiffs (lsSummary l) @ wave_diffs I V P [rep]"
  "smFindings (lsSummary (absorb I V P rep l)) = smFindings (lsSummary l) @ (if lsEvaluated l then [] else first_findings V P [rep])"
  "lsReference (absorb I V P rep l) = Some (reference l [rep])"
  "lsNonDeterministic (absorb I V P rep l) \<longleftrightarrow> lsNonDeterministic l \<or> roFingerprint rep \<noteq> reference l [rep]"
  "lsEvaluated (absorb I V P rep l) \<longleftrightarrow> lsEvaluated l \<or> ppContract P \<noteq> None"
  by (auto simp: absorb_def note_contract_def note_diffs_def note_fingerprint_def wave_diffs_def first_findings_def reference_def
      split: option.splits)

lemma absorb_counted [simp]: "counted (absorb I V P rep l) = counted l"
  by (simp add: absorb_def)

lemma absorb_all:
  "smOutcome (lsSummary (fold (absorb I V P) reps l)) = smOutcome (lsSummary l) \<and>
   smDiffs (lsSummary (fold (absorb I V P) reps l)) = smDiffs (lsSummary l) @ wave_diffs I V P reps \<and>
   smFindings (lsSummary (fold (absorb I V P) reps l)) =
     smFindings (lsSummary l) @ (if lsEvaluated l then [] else first_findings V P reps) \<and>
   counted (fold (absorb I V P) reps l) = counted l \<and>
   lsReference (fold (absorb I V P) reps l) = (if reps = [] then lsReference l else Some (reference l reps)) \<and>
   (lsNonDeterministic (fold (absorb I V P) reps l) \<longleftrightarrow>
      lsNonDeterministic l \<or> \<not> list_all (\<lambda>rep. roFingerprint rep = reference l reps) reps) \<and>
   (lsEvaluated (fold (absorb I V P) reps l) \<longleftrightarrow> lsEvaluated l \<or> ppContract P \<noteq> None \<and> reps \<noteq> [])"
proof (induction reps arbitrary: l)
  case Nil
  then show ?case by (simp add: wave_diffs_def first_findings_def split: option.splits)
next
  case (Cons rep reps)
  have r: "reference (absorb I V P rep l) xs = reference l (rep # reps)" for xs
    by (cases "lsReference l") (simp_all add: reference_def absorb_fields)
  have f: "first_findings V P (rep # reps) = first_findings V P [rep]" by (simp add: first_findings_def split: option.splits)
  have none: "ppContract P = None \<Longrightarrow> first_findings V P reps = []" by (simp add: first_findings_def)
  have d: "wave_diffs I V P (rep # reps) = wave_diffs I V P [rep] @ wave_diffs I V P reps" by (simp add: wave_diffs_def)
  have r1: "reference l [rep] = reference l (rep # reps)" by (cases "lsReference l") (simp_all add: reference_def)
  have step: "fold (absorb I V P) (rep # reps) l = fold (absorb I V P) reps (absorb I V P rep l)" by simp
  note IH = Cons.IH [of "absorb I V P rep l", unfolded r absorb_fields absorb_counted append_assoc]
  show ?case unfolding step f d r1 [symmetric]
  proof (intro conjI)
    show "smFindings (lsSummary (fold (absorb I V P) reps (absorb I V P rep l))) =
        smFindings (lsSummary l) @ (if lsEvaluated l then [] else first_findings V P [rep])"
      unfolding IH [THEN conjunct2, THEN conjunct2, THEN conjunct1]
      by (cases "ppContract P = None") (simp_all add: none)
    show "lsReference (fold (absorb I V P) reps (absorb I V P rep l)) =
        (if rep # reps = [] then lsReference l else Some (reference l [rep]))"
      unfolding IH [THEN conjunct2, THEN conjunct2, THEN conjunct2, THEN conjunct2, THEN conjunct1] r1 by simp
    show "lsNonDeterministic (fold (absorb I V P) reps (absorb I V P rep l)) \<longleftrightarrow>
        lsNonDeterministic l \<or> \<not> list_all (\<lambda>rep'. roFingerprint rep' = reference l [rep]) (rep # reps)"
      unfolding IH [THEN conjunct2, THEN conjunct2, THEN conjunct2, THEN conjunct2, THEN conjunct2, THEN conjunct1] r1 by simp
    show "lsEvaluated (fold (absorb I V P) reps (absorb I V P rep l)) \<longleftrightarrow> lsEvaluated l \<or> ppContract P \<noteq> None \<and> rep # reps \<noteq> []"
      using IH by blast
  qed (use IH in \<open>simp_all only: append_assoc\<close>)
qed

subsection \<open>Runs\<close>

definition wave_of :: "agent_input \<Rightarrow> agent_env \<Rightarrow> prepared \<Rightarrow> nat \<Rightarrow> proxy \<Rightarrow> wave_result list \<times> proxy" where
  "wave_of I V P i p = aeWave V i (aiMaxWall I - aeStarted V i) (run_proxy I P p)"

definition goes_on :: "agent_input \<Rightarrow> agent_env \<Rightarrow> prepared \<Rightarrow> nat \<Rightarrow> proxy \<Rightarrow> bool" where
  "goes_on I V P i p \<longleftrightarrow> aeStarted V i < aiMaxWall I \<and> clean_wave (wave_of I V P i p)"

lemma waves_Suc: "waves I V P (Suc n) i p = wave_of I V P i p # waves I V P n (Suc i) (snd (wave_of I V P i p))"
  by (simp add: wave_of_def Let_def)

definition begun :: "loop_state \<Rightarrow> proxy \<Rightarrow> loop_state" where
  "begun l p = l\<lparr>lsProxy := p, lsSummary := (lsSummary l)\<lparr>smRunsExecuted := Suc (smRunsExecuted (lsSummary l))\<rparr>\<rparr>"

lemma one_run_unfold:
  "aeStarted V i < aiMaxWall I \<Longrightarrow>
     one_run I V P i l = conclude_run I P i (fold (take_result I V P) (fst (wave_of I V P i (lsProxy l)))
       (begun l (snd (wave_of I V P i (lsProxy l))), True, 0))"
  by (simp add: one_run_def Let_def wave_of_def begun_def split: prod.splits)

text \<open>A run that goes on, field by field.\<close>

definition progressed :: "agent_input \<Rightarrow> agent_env \<Rightarrow> prepared \<Rightarrow> (wave_result list \<times> proxy) list \<Rightarrow> loop_state \<Rightarrow> loop_state \<Rightarrow> bool" where
  "progressed I V P ws l l' \<longleftrightarrow>
     (let s = lsSummary l; s' = lsSummary l'; reps = all_reports ws
      in smOutcome s' = smOutcome s \<and> smDiffs s' = smDiffs s @ wave_diffs I V P reps \<and>
         smFindings s' = smFindings s @ (if lsEvaluated l then [] else first_findings V P reps) \<and>
         fixed_part s' = fixed_part s \<and>
         smRunsCompleted s' = smRunsCompleted s + length ws \<and> smRunsExecuted s' = smRunsExecuted s + length ws \<and>
         smObserved s' = smObserved s + observed_calls ws \<and> smInbound s' = smInbound s + sum_list (map roCompleted reps) \<and>
         smExercised s' = (if ws = [] then smExercised s else 0 < smObserved s') \<and>
         lsReference l' = (if reps = [] then lsReference l else Some (reference l reps)) \<and>
         (lsNonDeterministic l' \<longleftrightarrow> lsNonDeterministic l \<or> \<not> list_all (\<lambda>rep. roFingerprint rep = reference l reps) reps) \<and>
         (lsEvaluated l' \<longleftrightarrow> lsEvaluated l \<or> ppContract P \<noteq> None \<and> reps \<noteq> []))"

lemma all_reports_simps [simp]:
  "all_reports [] = []" "all_reports (w # ws) = reports (fst w) @ all_reports ws"
  "observed_calls [] = 0" "observed_calls (w # ws) = pxSeen (snd w) + observed_calls ws"
  by (simp_all add: all_reports_def observed_calls_def)

lemma one_run_goes_on:
  assumes "goes_on I V P i (lsProxy l)"
  shows "snd (one_run I V P i l) \<and> lsProxy (fst (one_run I V P i l)) = snd (wave_of I V P i (lsProxy l)) \<and>
    progressed I V P [wave_of I V P i (lsProxy l)] l (fst (one_run I V P i l))"
proof -
  let ?w = "wave_of I V P i (lsProxy l)" and ?reps = "reports (fst (wave_of I V P i (lsProxy l)))"
  let ?l = "fold (absorb I V P) ?reps (begun l (snd ?w))"
  have run: "one_run I V P i l = conclude_run I P i (?l, True, sum_list (map roCompleted ?reps))"
    using assms by (simp add: goes_on_def one_run_unfold clean_wave_def take_results_clean)
  note a = absorb_all [of I V P ?reps "begun l (snd ?w)"]
  have b: "reference (begun l p) reps = reference l reps" for p reps by (simp add: begun_def reference_def)
  have c: "counted ?l = counted (begun l (snd ?w))" using a by blast
  then have counts: "smRunsCompleted (lsSummary ?l) = smRunsCompleted (lsSummary l)"
    "smRunsExecuted (lsSummary ?l) = Suc (smRunsExecuted (lsSummary l))" "smObserved (lsSummary ?l) = smObserved (lsSummary l)"
    "smInbound (lsSummary ?l) = smInbound (lsSummary l)" "fixed_part (lsSummary ?l) = fixed_part (lsSummary l)" "lsProxy ?l = snd ?w"
    by (simp_all add: counted_def begun_def fixed_part_def basic_part_def)
  have quiet: "pxDivergences (snd ?w) = []" using assms by (simp add: goes_on_def clean_wave_def)
  have l: "lsReference (begun l p) = lsReference l" "lsEvaluated (begun l p) = lsEvaluated l"
    "lsNonDeterministic (begun l p) = lsNonDeterministic l" "smOutcome (lsSummary (begun l p)) = smOutcome (lsSummary l)"
    "smDiffs (lsSummary (begun l p)) = smDiffs (lsSummary l)" "smFindings (lsSummary (begun l p)) = smFindings (lsSummary l)" for p
    by (simp_all add: begun_def)
  from a counts quiet show ?thesis unfolding run b l
    by (simp add: conclude_run_def forward_errors_def divergence_reasons_def observed_count_def progressed_def Let_def
        fixed_part_def basic_part_def)
qed

lemma one_run_stops:
  assumes "\<not> goes_on I V P i (lsProxy l)"
  shows "\<not> snd (one_run I V P i l) \<and>
    smRunsCompleted (lsSummary (fst (one_run I V P i l))) = smRunsCompleted (lsSummary l) \<and>
    fixed_part (lsSummary (fst (one_run I V P i l))) = fixed_part (lsSummary l)"
proof (cases "aeStarted V i < aiMaxWall I")
  case False
  then show ?thesis by (simp add: one_run_def Let_def fixed_part_def basic_part_def)
next
  case True
  let ?w = "wave_of I V P i (lsProxy l)"
  obtain l' c n where f: "fold (take_result I V P) (fst ?w) (begun l (snd ?w), True, 0) = (l', c, n)"
    by (cases "fold (take_result I V P) (fst ?w) (begun l (snd ?w), True, 0)") auto
  have "counted l' = counted (begun l (snd ?w))" using take_results_counted [of I V P "fst ?w" "begun l (snd ?w)" True 0] f by simp
  then have counts: "smRunsCompleted (lsSummary l') = smRunsCompleted (lsSummary l)" "fixed_part (lsSummary l') = fixed_part (lsSummary l)"
    "lsProxy l' = snd ?w"
    by (simp_all add: counted_def begun_def fixed_part_def basic_part_def)
  have "c = list_all clean_result (fst ?w)" using take_results_unclean [of I V P "fst ?w" "begun l (snd ?w)" True 0] f by simp
  with assms True have "\<not> c \<or> pxDivergences (snd ?w) \<noteq> []" by (auto simp: goes_on_def clean_wave_def)
  with True f counts show ?thesis
    by (auto simp: one_run_unfold conclude_run_def forward_errors_def divergence_reasons_def fail_run_def Let_def fixed_part_def basic_part_def
        split: list.splits)
qed

lemma first_findings_append:
  "first_findings V P (xs @ ys) = (if xs = [] then first_findings V P ys else first_findings V P xs)"
  by (cases xs) (auto simp: first_findings_def split: option.splits)

lemma first_findings_none [simp]: "ppContract P = None \<Longrightarrow> first_findings V P xs = []" "first_findings V P [] = []"
  by (auto simp: first_findings_def split: option.splits)

lemma progressed_trans:
  assumes "progressed I V P [w] l l'" and "progressed I V P ws l' l''"
  shows "progressed I V P (w # ws) l l''"
proof -
  have r: "reference l' ys = reference l (reports (fst w) @ ys)" for ys
    using assms(1) by (cases "lsReference l") (auto simp: progressed_def reference_def Let_def)
  have r': "reports (fst w) \<noteq> [] \<Longrightarrow> reference l (reports (fst w) @ ys) = reference l (reports (fst w))" for ys
    by (cases "lsReference l") (auto simp: reference_def)
  have d: "wave_diffs I V P (xs @ ys) = wave_diffs I V P xs @ wave_diffs I V P ys" for xs ys by (simp add: wave_diffs_def)
  note one = assms(1) [unfolded progressed_def Let_def, simplified]
  note rest = assms(2) [unfolded progressed_def Let_def r d]
  show ?thesis
  proof (cases "reports (fst w) = []")
    case True
    with one rest show ?thesis unfolding progressed_def Let_def
      by (intro conjI) (simp_all add: d)
  next
    case False
    with one rest r' [OF False, of "all_reports ws"] show ?thesis unfolding progressed_def Let_def
      by (intro conjI) (simp_all add: d first_findings_append, blast)
  qed
qed

definition started_in_time :: "agent_input \<Rightarrow> agent_env \<Rightarrow> nat \<Rightarrow> nat \<Rightarrow> bool" where
  "started_in_time I V n i \<longleftrightarrow> list_all (\<lambda>j. aeStarted V j < aiMaxWall I) [i..<i + n]"

lemma started_in_time_Suc: "started_in_time I V (Suc n) i \<longleftrightarrow> aeStarted V i < aiMaxWall I \<and> started_in_time I V n (Suc i)"
proof -
  have "[i..<i + Suc n] = i # [Suc i..<Suc i + n]" using upt_conv_Cons [of i "i + Suc n"] by simp
  then show ?thesis by (simp add: started_in_time_def)
qed

lemma waves_length [simp]: "length (waves I V P n i p) = n"
  by (induction n arbitrary: i p) (simp_all add: waves_Suc del: waves.simps(2))

lemma progressed_refl: "progressed I V P [] l l"
  by (simp add: progressed_def)

lemma runs_clean:
  "started_in_time I V n i \<Longrightarrow> list_all clean_wave (waves I V P n i (lsProxy l)) \<Longrightarrow>
     progressed I V P (waves I V P n i (lsProxy l)) l (run_from I V P n i l)"
proof (induction n arbitrary: i l)
  case 0
  then show ?case by (simp add: progressed_refl)
next
  case (Suc n)
  then have go: "goes_on I V P i (lsProxy l)" and rest: "started_in_time I V n (Suc i)"
    by (simp_all add: goes_on_def waves_Suc started_in_time_Suc del: waves.simps(2))
  note one = one_run_goes_on [OF go]
  obtain l' where l': "one_run I V P i l = (l', True)" using one by (cases "one_run I V P i l") auto
  from one l' have p: "lsProxy l' = snd (wave_of I V P i (lsProxy l))"
    and first: "progressed I V P [wave_of I V P i (lsProxy l)] l l'" by simp_all
  have "progressed I V P (waves I V P n (Suc i) (lsProxy l')) l' (run_from I V P n (Suc i) l')"
    using Suc.IH [OF rest, of l'] Suc.prems(2) p by (simp add: waves_Suc del: waves.simps(2))
  from progressed_trans [OF first this] l' p show ?case by (simp add: waves_Suc del: waves.simps(2))
qed

lemma runs_unclean:
  "\<not> (started_in_time I V n i \<and> list_all clean_wave (waves I V P n i (lsProxy l))) \<Longrightarrow>
     smRunsCompleted (lsSummary (run_from I V P n i l)) < smRunsCompleted (lsSummary l) + n \<and>
     fixed_part (lsSummary (run_from I V P n i l)) = fixed_part (lsSummary l)"
proof (induction n arbitrary: i l)
  case 0
  then show ?case by (simp add: started_in_time_def)
next
  case (Suc n)
  show ?case
  proof (cases "goes_on I V P i (lsProxy l)")
    case True
    note one = one_run_goes_on [OF True]
    obtain l' where l': "one_run I V P i l = (l', True)" using one by (cases "one_run I V P i l") auto
    from one l' have p: "lsProxy l' = snd (wave_of I V P i (lsProxy l))"
      and counts: "smRunsCompleted (lsSummary l') = Suc (smRunsCompleted (lsSummary l))" "fixed_part (lsSummary l') = fixed_part (lsSummary l)"
      by (simp_all add: progressed_def Let_def)
    have "\<not> (started_in_time I V n (Suc i) \<and> list_all clean_wave (waves I V P n (Suc i) (lsProxy l')))"
      using Suc.prems True p by (auto simp: waves_Suc started_in_time_Suc goes_on_def simp del: waves.simps(2))
    from Suc.IH [OF this] l' counts show ?thesis by simp
  next
    case False
    with one_run_stops [OF False] show ?thesis by (cases "one_run I V P i l") auto
  qed
qed

section \<open>The verdict\<close>

definition kept :: "replay_summary \<Rightarrow> _" where
  "kept s = (basic_part s, smRunsCompleted s, smRunsExecuted s, smExercised s, smObserved s, smInbound s)"

lemma judge_diffs_kept [simp]: "kept (judge_diffs I s) = kept s"
  by (simp add: judge_diffs_def kept_def basic_part_def)

lemma judge_findings_kept [simp]: "kept (judge_findings s) = kept s"
  by (simp add: judge_findings_def kept_def basic_part_def)

lemma judge_window_kept [simp]: "kept (judge_window V s) = kept s"
  by (simp add: judge_window_def kept_def basic_part_def)

lemma judge_fingerprints_kept [simp]: "kept (judge_fingerprints differ s) = kept s"
  by (simp add: judge_fingerprints_def kept_def basic_part_def)

lemma elapsed_kept [simp]: "kept (s\<lparr>smElapsed := t\<rparr>) = kept s"
  by (simp add: kept_def basic_part_def)

lemma judge_kept [simp]: "kept (judge I V l) = kept (lsSummary l)"
  by (simp add: judge_def)

lemma exit_zero: "smExit (finalize s) = 0 \<longleftrightarrow> compute_outcome s = ''PASS_STRONG''"
  by (simp add: finalize_def Let_def exit_code_def)

lemma compute_strong:
  "compute_outcome s = ''PASS_STRONG'' \<Longrightarrow> \<not> failed s \<Longrightarrow> int (smRunsCompleted s) = smRunsRequested s \<and> smExercised s"
  by (simp add: compute_outcome_def split: if_splits)

lemma failed_not_strong: "failed s \<Longrightarrow> compute_outcome s \<noteq> ''PASS_STRONG''"
  by (auto simp: compute_outcome_def failed_def has_prefix_def)

text \<open>Every refusal has an outcome that begins with \<open>FAIL_\<close>.\<close>

lemma refuse_Inl [simp]: "refuse s out reason = Inl t \<longleftrightarrow> t = s\<lparr>smReason := reason, smOutcome := out\<rparr>"
  "refuse s out reason \<noteq> Inr x"
  by (auto simp: refuse_def)

lemma failed_refusal [simp]:
  "failed (s\<lparr>smReason := r, smOutcome := ''FAIL_INVALID_ENV''\<rparr>)" "failed (s\<lparr>smReason := r, smOutcome := ''FAIL_NO_COVERAGE''\<rparr>)"
  by (simp_all add: failed_def has_prefix_def)

lemma baseline_refused: "load_baseline I V s0 = Inl s \<Longrightarrow> failed s"
  unfolding load_baseline_def Let_def
  by (simp split: if_split_asm option.split_asm sum.split_asm)

lemma stub_refused: "start_stub I V rules s0 = Inl s \<Longrightarrow> failed s"
  unfolding start_stub_def
  by (simp split: if_split_asm option.split_asm sum.split_asm)

lemma refused_fails: "prepare I V s0 = Inl s \<Longrightarrow> failed s"
  by (cases "parse_rules (gParseDuration (aeGo V)) (aiInject I)")
    (auto simp: prepare_def Let_def and_then_Inl dest: baseline_refused stub_refused)

text \<open>The summary a prepared replay starts with.\<close>

definition fresh :: "agent_input \<Rightarrow> replay_summary \<Rightarrow> bool" where
  "fresh I s \<longleftrightarrow> smOutcome s = [] \<and> smReason s = [] \<and> smRunsRequested s = aiRuns I \<and> smRunsExecuted s = 0 \<and>
     smRunsCompleted s = 0 \<and> smInbound s = 0 \<and> smObserved s = 0 \<and> smWindow s = aiWindow I \<and> smDiffs s = [] \<and>
     smNonDeterministic s = 0 \<and> \<not> smExercised s"

lemma baseline_fresh: "load_baseline I V new_summary = Inr (s, x) \<Longrightarrow> fresh I s"
  unfolding load_baseline_def Let_def
  by (auto simp: fresh_def new_summary_def split: if_split_asm option.split_asm sum.split_asm)

lemma stub_fresh: "start_stub I V rules s0 = Inr (s, p) \<Longrightarrow> fresh I s0 \<Longrightarrow> fresh I s \<and> smProxyStatus s = ''BOUND''"
  unfolding start_stub_def
  by (auto simp: fresh_def split: if_split_asm option.split_asm sum.split_asm)

lemma targets_fresh: "fresh I s \<Longrightarrow> fresh I (set_targets I n per s\<lparr>smInjections := a, smMaxLatency := b, smMaxTimeout := c\<rparr>)"
  by (simp add: fresh_def set_targets_def)

lemma prepared_fresh: "prepare I V new_summary = Inr (s, P) \<Longrightarrow> fresh I s \<and> smProxyStatus s = ''BOUND''"
  by (cases "parse_rules (gParseDuration (aeGo V)) (aiInject I)")
    (auto simp: prepare_def Let_def dest!: baseline_fresh dest: stub_fresh targets_fresh)

lemma judge_strong:
  assumes "smOutcome (lsSummary l) = []" and "smProxyStatus (lsSummary l) = ''BOUND''" and "smNonDeterministic (lsSummary l) = 0"
    and "smExercised (lsSummary l) \<longleftrightarrow> 0 < smObserved (lsSummary l)" and "0 < smRunsCompleted (lsSummary l)"
  shows "compute_outcome (judge I V l) = ''PASS_STRONG'' \<longleftrightarrow>
    (let s = lsSummary l in
      (aiDiff I \<longrightarrow> smDiffs s = []) \<and> smFindings s = [] \<and>
      (0 < smWindow s \<longrightarrow> smTargetInbound s \<le> int (smInbound s) \<and> aeElapsed V \<le> smWindow s) \<and>
      (1 < smRunsExecuted s \<longrightarrow> \<not> lsNonDeterministic l) \<and>
      int (smRunsCompleted s) = smRunsRequested s \<and> 0 < smObserved s)"
proof -
  let ?s = "lsSummary l"
  show ?thesis
  proof (cases "(aiDiff I \<longrightarrow> smDiffs ?s = []) \<and> smFindings ?s = []")
    case True
    then have j: "judge_findings (judge_diffs I ?s) = ?s" by (auto simp: judge_findings_def judge_diffs_def)
    show ?thesis
    proof (cases "0 < smWindow ?s \<and> (int (smInbound ?s) < smTargetInbound ?s \<or> smWindow ?s < aeElapsed V)")
      case late: True
      then have "failed (judge I V l)"
        unfolding judge_def j by (simp add: judge_window_def judge_fingerprints_def failed_def has_prefix_def)
      with late show ?thesis using failed_not_strong by (auto simp: Let_def)
    next
      case False
      then have w: "judge_window V (?s\<lparr>smElapsed := aeElapsed V\<rparr>) = ?s\<lparr>smElapsed := aeElapsed V\<rparr>"
        by (auto simp: judge_window_def)
      show ?thesis unfolding judge_def j w
        using True False assms
        by (auto simp: judge_fingerprints_def compute_outcome_def failed_def has_prefix_def Let_def)
    qed
  next
    case False
    have keep: "failed (judge_window V s)" if "failed s" for s
      using that by (simp add: judge_window_def failed_def has_prefix_def)
    have "failed (judge_findings (judge_diffs I ?s))"
      using False by (auto simp: judge_findings_def judge_diffs_def failed_def has_prefix_def)
    then have "failed ((judge_findings (judge_diffs I ?s))\<lparr>smElapsed := aeElapsed V\<rparr>)" by (simp add: failed_def)
    from keep [OF this] have "failed (judge I V l)" by (simp add: judge_def judge_fingerprints_def failed_def)
    with False show ?thesis using failed_not_strong by (auto simp: Let_def)
  qed
qed

text \<open>C4. The command exits with 0 exactly when the replay could be prepared and every requested run began in time, all its
  workers finished without error, stall or time-out and without a divergence at the stub proxy, at least one dependency
  call was observed, no response differed (when asked), no contract finding was made, the window was met, and with more
  than one run all workers had one fingerprint.\<close>

theorem exit_zero_exact:
  "smExit (run_replay I V) = 0 \<longleftrightarrow>
     (case prepare I V new_summary of Inl s \<Rightarrow> False | Inr (s, P) \<Rightarrow> passes I V s P)"
proof (cases "prepare I V new_summary")
  case (Inl s)
  with refused_fails [OF Inl] failed_not_strong show ?thesis by (simp add: run_replay_def execute_replay_def exit_zero)
next
  case (Inr sp)
  obtain s P where sp: "sp = (s, P)" by (cases sp)
  define n where "n = nat (aiRuns I)"
  define l where "l = \<lparr>lsSummary = s, lsReference = None, lsNonDeterministic = False, lsEvaluated = False, lsProxy = ppProxy P\<rparr>"
  let ?ws = "waves I V P n 0 (ppProxy P)" and ?r = "run_from I V P n 0 l"
  have fr: "fresh I s" "smProxyStatus s = ''BOUND''" using prepared_fresh Inr sp by blast+
  have exit: "smExit (run_replay I V) = 0 \<longleftrightarrow> compute_outcome (judge I V ?r) = ''PASS_STRONG''"
    using Inr sp by (simp add: run_replay_def execute_replay_def exit_zero n_def l_def)
  have start: "lsProxy l = ppProxy P" "lsSummary l = s" by (simp_all add: l_def)
  show ?thesis
  proof (cases "started_in_time I V n 0 \<and> list_all clean_wave ?ws")
    case False
    then have fewer: "smRunsCompleted (lsSummary ?r) < n" "fixed_part (lsSummary ?r) = fixed_part s"
      using runs_unclean [of I V n 0 P l] fr by (simp_all add: start fresh_def)
    have "compute_outcome (judge I V ?r) \<noteq> ''PASS_STRONG''"
    proof
      assume strong: "compute_outcome (judge I V ?r) = ''PASS_STRONG''"
      with failed_not_strong compute_strong have "int (smRunsCompleted (judge I V ?r)) = smRunsRequested (judge I V ?r)" by blast
      moreover have "kept (judge I V ?r) = kept (lsSummary ?r)" by simp
      ultimately show False using fewer fr by (simp add: kept_def fixed_part_def basic_part_def fresh_def n_def)
    qed
    with False exit Inr sp show ?thesis by (auto simp: passes_def Let_def started_in_time_def n_def)
  next
    case True
    then have pr: "progressed I V P ?ws l ?r" using runs_clean [of I V n 0 P l] by (simp add: start)
    show ?thesis
    proof (cases "0 < n")
      case False
      then have "?r = l" by simp
      then have "\<not> smExercised (judge I V ?r)"
        using fr judge_kept [of I V l] by (simp add: kept_def start fresh_def)
      then have "compute_outcome (judge I V ?r) \<noteq> ''PASS_STRONG''" using failed_not_strong compute_strong by blast
      with False exit Inr sp show ?thesis by (auto simp: passes_def Let_def n_def)
    next
      case pos: True
      then have "?ws \<noteq> []" using waves_length [of I V P n 0 "ppProxy P"] by force
      with pr fr have f: "smOutcome (lsSummary ?r) = []" "smProxyStatus (lsSummary ?r) = ''BOUND''"
        "smNonDeterministic (lsSummary ?r) = 0" "smExercised (lsSummary ?r) \<longleftrightarrow> 0 < smObserved (lsSummary ?r)"
        "smRunsCompleted (lsSummary ?r) = n" "smRunsExecuted (lsSummary ?r) = n" "smObserved (lsSummary ?r) = observed_calls ?ws"
        "smInbound (lsSummary ?r) = sum_list (map roCompleted (all_reports ?ws))" "smWindow (lsSummary ?r) = aiWindow I"
        "smTargetInbound (lsSummary ?r) = smTargetInbound s" "smRunsRequested (lsSummary ?r) = aiRuns I"
        "smDiffs (lsSummary ?r) = wave_diffs I V P (all_reports ?ws)"
        "smFindings (lsSummary ?r) = smFindings s @ first_findings V P (all_reports ?ws)"
        "lsNonDeterministic ?r \<longleftrightarrow> \<not> list_all (\<lambda>rep. roFingerprint rep = roFingerprint (hd (all_reports ?ws))) (all_reports ?ws)"
        by (simp_all add: progressed_def Let_def start fresh_def fixed_part_def basic_part_def l_def reference_def)
      have "wave_diffs I V P (all_reports ?ws) = [] \<longleftrightarrow> (aiDiff I \<longrightarrow> wave_diffs I V P (all_reports ?ws) = [])"
        by (simp add: wave_diffs_def)
      with judge_strong [of ?r I V] f pos exit Inr sp True show ?thesis
        by (simp add: passes_def Let_def started_in_time_def n_def) blast
    qed
  qed
qed

section \<open>Examples\<close>

definition no_templates :: template_config where
  "no_templates = \<lparr>tcSeed = [], tcMaxOutputBytes = 0\<rparr>"

text \<open>A service with one captured request; every run has one worker and makes the given number of dependency calls.\<close>

definition example_report :: replay_report where
  "example_report = \<lparr>roFingerprint = ''f'', roCompleted = 1, roTotal = 1, roProgressIndex = 0, roExpectedDuration = 0,
     roSignatures = [], roErrors = 0, roSkipped = 0, roEnding = Completed, roReplayed = [captured_get 0 ''http://svc/items/3'' [] [] ''ok'']\<rparr>"

definition example_input :: "int \<Rightarrow> int \<Rightarrow> agent_input" where
  "example_input runs window = \<lparr>aiRuns = runs, aiFanout = 1, aiWindow = window, aiDiff = True, aiMaxEvents = 0, aiMaxWall = 1000, aiInject = [],
     aiMatching = no_matching, aiScenarios = [], aiTemplates = no_templates, aiHttps = False, aiAllowHosts = []\<rparr>"

definition example_agent :: "nat \<Rightarrow> agent_env" where
  "example_agent calls = \<lparr>aeGo = example_env, aeErrText = (\<lambda>s. s), aeSlow = (\<lambda>_ _. False), aeTransparent = False, aeInboundStat = None,
     aeInbound = Inr [captured_get 0 ''http://svc/items/3'' [] [] ''ok''], aeOutboundExists = False, aeOutbound = Inl ''missing'',
     aeContract = None, aeRuleText = (\<lambda>_. []), aeProxyText = (\<lambda>_. []), aeAuthority = None, aeRedirect = None, aeListen = None,
     aeStarted = (\<lambda>i. 10 * int i), aeWave = (\<lambda>i remaining p. ([Inr example_report], p\<lparr>pxSeen := calls\<rparr>)), aeElapsed = 20,
     aeSloText = ''slow''\<rparr>"

text \<open>A missed window is reported with exit code 1, whatever went wrong before: a replay with contract findings or
  unmatched dependency calls, otherwise code 2 or its own outcome, then only says that the window was missed.\<close>

theorem missed_window_hides_failure:
  assumes "0 < smWindow (lsSummary l)" and "int (smInbound (lsSummary l)) < smTargetInbound (lsSummary l)"
  shows "smOutcome (finalize (judge I V l)) = ''FAIL_SLO_MISSED'' \<and> smExit (finalize (judge I V l)) = 1"
proof -
  have "kept (judge_findings (judge_diffs I (lsSummary l))\<lparr>smElapsed := aeElapsed V\<rparr>) = kept (lsSummary l)" by simp
  with assms have "smOutcome (judge I V l) = ''FAIL_SLO_MISSED''"
    by (simp add: judge_def judge_window_def judge_fingerprints_def kept_def basic_part_def)
  then show ?thesis by (simp add: finalize_def Let_def compute_outcome_def failed_def has_prefix_def exit_code_def)
qed

definition late_loop :: loop_state where
  "late_loop = \<lparr>lsSummary = new_summary\<lparr>smProxyStatus := ''BOUND'', smWindow := 10, smInbound := 1, smTargetInbound := 2,
       smFindings := [\<lparr>fdRuleID = ''CONTRACT_STATUS_CHANGED'', fdLevel = ''error'', fdTitle = [], fdMessage = [], fdLocation = []\<rparr>]\<rparr>,
     lsReference = None, lsNonDeterministic = False, lsEvaluated = True, lsProxy = example_proxy (plain_matcher []) [] []\<rparr>"

lemma missed_window_hides_failure_witness:
  "smOutcome (judge_findings (lsSummary late_loop)) = ''FAIL_CONTRACT_DRIFT'' \<and>
   exit_code ''FAIL_CONTRACT_DRIFT'' = 2 \<and>
   smExit (finalize (judge (example_input 1 10) (example_agent 1) late_loop)) = 1"
  using missed_window_hides_failure [of late_loop "example_input 1 10" "example_agent 1"]
  by (simp add: late_loop_def new_summary_def judge_findings_def failed_def has_prefix_def exit_code_def)

text \<open>Safe mode leaves a write out, and the comparison by position then holds the answer to the second request against the
  capture of the first: a difference is reported although the service answers as it was captured.\<close>

definition write_then_read :: "event list" where
  "write_then_read =
     [(captured_get 0 ''http://svc/login'' [] [] ''ok'')\<lparr>evMethod := ''POST'', evStatus := 201\<rparr>,
      captured_get 5 ''http://svc/items/3'' [] [] ''ok'']"

lemma skipped_write_misaligned:
  "answers_as_captured example_env (example_world faithful_answer) plain_config ''http://svc'' 1 (write_then_read ! 1) ''ok'' \<and>
   (case fst (replay_events example_env (example_world faithful_answer) same_gap (plain_config\<lparr>rcSafeMode := True\<rparr>) ''http://svc''
                write_then_read (0, [])) of
      Inl err \<Rightarrow> False
    | Inr rep \<Rightarrow> map edIndex (diffs_of (\<lambda>_ _. False) write_then_read (roReplayed rep)) = [1])"
proof
  show "answers_as_captured example_env (example_world faithful_answer) plain_config ''http://svc'' 1 (write_then_read ! 1) ''ok''"
    by (rule example_faithful_answers) code_simp
  show "case fst (replay_events example_env (example_world faithful_answer) same_gap (plain_config\<lparr>rcSafeMode := True\<rparr>) ''http://svc''
                write_then_read (0, [])) of
      Inl err \<Rightarrow> False
    | Inr rep \<Rightarrow> map edIndex (diffs_of (\<lambda>_ _. False) write_then_read (roReplayed rep)) = [1]"
    by code_simp
qed

text \<open>A replay that passes: two runs, each with one dependency call.\<close>

lemma exit_zero_exact_witness: "smExit (run_replay (example_input 2 0) (example_agent 1)) = 0"
proof -
  have "case prepare (example_input 2 0) (example_agent 1) new_summary of
      Inl s \<Rightarrow> False | Inr (s, P) \<Rightarrow> passes (example_input 2 0) (example_agent 1) s P"
    by code_simp
  then show ?thesis using exit_zero_exact [of "example_input 2 0" "example_agent 1"] by simp
qed

end
