(* ===== verification/Workflow.thy ===== *)
theory Workflow
  imports Message Reporting
begin

text \<open>
  \<open>pkg/workflow\<close> (\<open>workflow.go\<close>): validation of workflow configurations, the observations loaded from an
  incident's three logs, and the search for each workflow's steps among them. A log is the list of its decoded
  records, None standing for one that does not decode; a file that is missing is None itself. Timestamps count
  nanoseconds; the text of a duration is a parameter.
\<close>

section \<open>Configuration\<close>

record workflow_step =
  wsName :: string
  wsProtocol :: string
  wsDirection :: string
  wsMethod :: string
  wsPathRegex :: string
  wsGRPCMethod :: string
  wsTopic :: string
  wsWithin :: string

record workflow_config =
  wcName :: string
  wcCorrelation :: string
  wcSteps :: "workflow_step list"

datatype workflow_error =
    WorkflowNameMissing nat | WorkflowNameDuplicated string | CorrelationUnknown string | StepsMissing string
  | StepNameNotUnique nat | PathRegexMissing string | GRPCMethodMissing string | TopicMissing string
  | ProtocolUnknown string | DirectionUnknown string | PathRegexInvalid string | WithinInvalid string

text \<open>What the protocol of a step requires.\<close>

definition check_protocol :: "workflow_step \<Rightarrow> (workflow_error, unit) result" where
  "check_protocol s =
     (if wsProtocol s = ''http'' then fail_if (wsPathRegex s = []) (PathRegexMissing (wsName s))
      else if wsProtocol s = ''grpc'' then fail_if (wsGRPCMethod s = []) (GRPCMethodMissing (wsName s))
      else if wsProtocol s = ''kafka'' then fail_if (wsTopic s = []) (TopicMissing (wsName s))
      else Inl (ProtocolUnknown (wsName s)))"

definition check_step ::
  "go_env \<Rightarrow> string set \<Rightarrow> nat \<times> workflow_step \<Rightarrow> (workflow_error, string set) result" where
  "check_step E seen is =
     (case is of (i, s) \<Rightarrow>
       and_then (fail_if (wsName s = [] \<or> wsName s \<in> seen) (StepNameNotUnique i)) (\<lambda>_.
       and_then (check_protocol s) (\<lambda>_.
       and_then (fail_if (wsDirection s \<notin> {[], ''inbound'', ''outbound''}) (DirectionUnknown (wsName s))) (\<lambda>_.
       and_then (fail_if (wsPathRegex s \<noteq> [] \<and> gCompile E (wsPathRegex s) = None) (PathRegexInvalid (wsName s))) (\<lambda>_.
       and_then (fail_if (wsWithin s \<noteq> [] \<and> (case gParseDuration E (wsWithin s) of None \<Rightarrow> True | Some d \<Rightarrow> d < 0))
                   (WithinInvalid (wsName s))) (\<lambda>_.
         Inr (insert (wsName s) seen)))))))"

definition check_workflow ::
  "go_env \<Rightarrow> string set \<Rightarrow> nat \<times> workflow_config \<Rightarrow> (workflow_error, string set) result" where
  "check_workflow E seen ic =
     (case ic of (i, c) \<Rightarrow>
       and_then (fail_if (trim_space (wcName c) = []) (WorkflowNameMissing i)) (\<lambda>_.
       and_then (fail_if (wcName c \<in> seen) (WorkflowNameDuplicated (wcName c))) (\<lambda>_.
       and_then (fail_if (wcCorrelation c \<notin> {[], ''none'', ''prefer'', ''required''}) (CorrelationUnknown (wcName c))) (\<lambda>_.
       and_then (fail_if (wcSteps c = []) (StepsMissing (wcName c))) (\<lambda>_.
       and_then (fold_err (check_step E) {} (enumerate 0 (wcSteps c))) (\<lambda>_.
         Inr (insert (wcName c) seen)))))))"

definition validate_workflows :: "go_env \<Rightarrow> workflow_config list \<Rightarrow> (workflow_error, unit) result" where
  "validate_workflows E cs = and_then (fold_err (check_workflow E) {} (enumerate 0 cs)) (\<lambda>_. Inr ())"

section \<open>Observations\<close>

record observed =
  obProtocol :: string
  obDirection :: string
  obMethod :: string
  obPath :: string
  obGrpcMethod :: string
  obTopic :: string
  obCorrelation :: string
  obTimestamp :: int
  obSequence :: int
  obLocation :: string

text \<open>\<open>firstHeader\<close>: the first entry, in the order of the map, whose name fits and which has a value.\<close>

definition first_header :: "header \<Rightarrow> string \<Rightarrow> string" where
  "first_header h wanted =
     (case List.find (\<lambda>(k, vs). equal_fold k wanted \<and> vs \<noteq> []) h of None \<Rightarrow> [] | Some (_, vs) \<Rightarrow> hd vs)"

definition event_correlation :: "event \<Rightarrow> string" where
  "event_correlation e =
     (if evTraceID e \<noteq> [] then evTraceID e
      else dflt [] (List.find (\<lambda>v. v \<noteq> [])
        (map (first_header (evHeaders e)) [''X-Correlation-Id'', ''Correlation-Id'', ''X-Request-Id'', ''Traceparent''])))"

definition grpc_method_of :: "event \<Rightarrow> gourl \<Rightarrow> string" where
  "grpc_method_of e u =
     (if evGrpcServiceMethod e = [] \<and> has_prefix (to_lower (first_header (evHeaders e) ''Content-Type'')) ''application/grpc''
      then uPath u else evGrpcServiceMethod e)"

definition observe_event :: "string \<Rightarrow> string \<Rightarrow> nat \<Rightarrow> event \<Rightarrow> gourl \<Rightarrow> observed" where
  "observe_event log direction index e u =
     \<lparr>obProtocol = (if grpc_method_of e u \<noteq> [] then ''grpc'' else ''http''), obDirection = direction,
      obMethod = evMethod e, obPath = uPath u, obGrpcMethod = grpc_method_of e u, obTopic = [],
      obCorrelation = event_correlation e, obTimestamp = evTimestamp e, obSequence = evSequence e,
      obLocation = log @ ''#event-'' @ nat_digits index\<rparr>"

text \<open>Reading a log. The error of \<open>url.Parse\<close> is ignored, and the nil URL it leaves is then dereferenced: that is
  a panic, not an error.\<close>

datatype observe_error = LogMissing | LogUnreadable | MessagesUnreadable msg_error | NilURLPanic

definition is_call :: "event \<Rightarrow> bool" where
  "is_call e \<longleftrightarrow> evType e = ''InboundRequest'' \<or> evType e = ''OutboundCall''"

fun observe_log ::
  "go_env \<Rightarrow> string \<Rightarrow> string \<Rightarrow> nat \<Rightarrow> event option list \<Rightarrow> (observe_error, observed list) result" where
  "observe_log E log direction index [] = Inr []"
| "observe_log E log direction index (None # rest) = Inl LogUnreadable"
| "observe_log E log direction index (Some e # rest) =
     (if \<not> is_call e then observe_log E log direction (Suc index) rest
      else case gUrlParse E (evURL e) of
        None \<Rightarrow> Inl NilURLPanic
      | Some u \<Rightarrow> and_then (observe_log E log direction (Suc index) rest)
                  (\<lambda>os. Inr (observe_event log direction (Suc index) e u # os)))"

definition observe_message :: "nat \<times> message \<Rightarrow> observed" where
  "observe_message im =
     (case im of (i, m) \<Rightarrow>
       \<lparr>obProtocol = ''kafka'', obDirection = (if msDirection m = ''consume'' then ''inbound'' else ''outbound''),
        obMethod = [], obPath = [], obGrpcMethod = [], obTopic = msTopic m, obCorrelation = msCorrelationID m,
        obTimestamp = msTimestamp m, obSequence = msSequence m,
        obLocation = ''messages.log#message-'' @ nat_digits (Suc i)\<rparr>)"

definition observed_less :: "observed \<Rightarrow> observed \<Rightarrow> bool" where
  "observed_less a b =
     (if obTimestamp a = obTimestamp b
      then if obSequence a = obSequence b then obLocation a < obLocation b else obSequence a < obSequence b
      else obTimestamp a < obTimestamp b)"

interpretation observed_order: keyed_order "\<lambda>x. (obTimestamp x, obSequence x, obLocation x)" observed_less
  by unfold_locales (auto simp: observed_less_def)

record incident_logs =
  ilInbound :: "event option list option"
  ilOutbound :: "event option list option"
  ilMessages :: "message option list option"

definition load_observed :: "go_env \<Rightarrow> incident_logs \<Rightarrow> (observe_error, observed list) result" where
  "load_observed E l =
     (case ilInbound l of
        None \<Rightarrow> Inl LogMissing
      | Some inb \<Rightarrow>
          and_then (observe_log E ''inbound.log'' ''inbound'' 0 inb) (\<lambda>is.
          and_then (observe_log E ''outbound.log'' ''outbound'' 0 (dflt [] (ilOutbound l))) (\<lambda>os.
            case load_messages E (dflt [] (ilMessages l)) of
              Inl err \<Rightarrow> Inl (MessagesUnreadable err)
            | Inr ms \<Rightarrow> Inr (stable_sort observed_less (is @ os @ map observe_message (enumerate 0 ms))))))"

section \<open>Verification\<close>

record compiled_step =
  csStep :: workflow_step
  csPath :: "regex option"
  csMax :: int

text \<open>\<open>regexp.MustCompile\<close> panics on an expression that does not compile (None).\<close>

definition compile_step :: "go_env \<Rightarrow> workflow_step \<Rightarrow> compiled_step option" where
  "compile_step E s =
     (let limit = (if wsWithin s = [] then 0 else dflt 0 (gParseDuration E (wsWithin s)))
      in if wsPathRegex s = [] then Some \<lparr>csStep = s, csPath = None, csMax = limit\<rparr>
         else case gCompile E (wsPathRegex s) of
           None \<Rightarrow> None | Some re \<Rightarrow> Some \<lparr>csStep = s, csPath = Some re, csMax = limit\<rparr>)"

definition step_matches :: "compiled_step \<Rightarrow> observed \<Rightarrow> bool" where
  "step_matches c x \<longleftrightarrow>
     (let s = csStep c
      in obProtocol x = wsProtocol s \<and>
         (wsDirection s = [] \<or> obDirection x = wsDirection s) \<and>
         (wsMethod s = [] \<or> equal_fold (obMethod x) (wsMethod s)) \<and>
         (case csPath c of None \<Rightarrow> True | Some re \<Rightarrow> re (obPath x)) \<and>
         (wsGRPCMethod s = [] \<or> obGrpcMethod x = wsGRPCMethod s) \<and>
         (wsTopic s = [] \<or> obTopic x = wsTopic s))"

text \<open>The inner loop: the first observation from the cursor on that the step and the correlation accept, beside the
  last correlation problem met.\<close>

fun seek ::
  "string \<Rightarrow> string \<Rightarrow> compiled_step \<Rightarrow> nat \<Rightarrow> observed list \<Rightarrow> string \<Rightarrow> (nat \<times> observed) option \<times> string" where
  "seek mode corr c index [] problem = (None, problem)"
| "seek mode corr c index (x # xs) problem =
     (if \<not> step_matches c x then seek mode corr c (Suc index) xs problem
      else if mode = ''required'' \<and> obCorrelation x = []
        then seek mode corr c (Suc index) xs ''matched event has no correlation ID''
      else if mode = ''required'' \<and> corr \<noteq> [] \<and> obCorrelation x \<noteq> corr
        then seek mode corr c (Suc index) xs ''matched event has a different correlation ID''
      else if mode = ''prefer'' \<and> corr \<noteq> [] \<and> obCorrelation x \<noteq> [] \<and> obCorrelation x \<noteq> corr
        then seek mode corr c (Suc index) xs problem
      else (Some (index, x), problem))"

definition missing_step :: "string \<Rightarrow> compiled_step \<Rightarrow> nat \<Rightarrow> string \<Rightarrow> finding" where
  "missing_step name c cursor problem =
     \<lparr>fdRuleID = ''WORKFLOW_MISSING_STEP'', fdLevel = ''error'', fdTitle = ''Causal workflow step is missing'',
      fdMessage = ''expected '' @ wsProtocol (csStep c) @ '' step '' @ wsName (csStep c) @ '' after workflow position '' @
        nat_digits cursor @ (if problem = [] then [] else '': '' @ problem),
      fdLocation = name @ ''/'' @ wsName (csStep c)\<rparr>"

definition timing_drift :: "(int \<Rightarrow> string) \<Rightarrow> compiled_step \<Rightarrow> int \<Rightarrow> observed \<Rightarrow> finding list" where
  "timing_drift show_duration c previous x =
     (let took = obTimestamp x - previous
      in if previous \<noteq> 0 \<and> 0 < csMax c \<and> csMax c < took
         then [\<lparr>fdRuleID = ''WORKFLOW_TIMING_DRIFT'', fdLevel = ''error'',
                fdTitle = ''Causal workflow exceeded its timing bound'',
                fdMessage = ''step '' @ wsName (csStep c) @ '' took '' @ show_duration took @
                  '' after the prior step; maximum is '' @ show_duration (csMax c),
                fdLocation = obLocation x\<rparr>]
         else [])"

fun run_steps ::
  "(int \<Rightarrow> string) \<Rightarrow> string \<Rightarrow> string \<Rightarrow> observed list \<Rightarrow> compiled_step list \<Rightarrow> nat \<Rightarrow> string \<Rightarrow> int \<Rightarrow> finding list" where
  "run_steps shw name mode obs [] cursor corr previous = []"
| "run_steps shw name mode obs (c # cs) cursor corr previous =
     (case seek mode corr c cursor (drop cursor obs) [] of
        (None, problem) \<Rightarrow> [missing_step name c cursor problem]
      | (Some (i, x), _) \<Rightarrow>
          timing_drift shw c previous x @
          run_steps shw name mode obs cs (Suc i) (if corr = [] \<and> obCorrelation x \<noteq> [] then obCorrelation x else corr)
            (obTimestamp x))"

datatype verify_error = ConfigInvalid workflow_error | LogsInvalid observe_error | MustCompilePanic

definition verify_workflow ::
  "go_env \<Rightarrow> (int \<Rightarrow> string) \<Rightarrow> observed list \<Rightarrow> workflow_config \<Rightarrow> (verify_error, finding list) result" where
  "verify_workflow E shw obs c =
     (case map_err (\<lambda>s. case compile_step E s of None \<Rightarrow> Inl () | Some k \<Rightarrow> Inr k) (wcSteps c) of
        Inl _ \<Rightarrow> Inl MustCompilePanic
      | Inr ks \<Rightarrow> Inr (run_steps shw (wcName c) (wcCorrelation c) obs ks 0 [] 0))"

definition verify_workflows ::
  "go_env \<Rightarrow> (int \<Rightarrow> string) \<Rightarrow> incident_logs \<Rightarrow> workflow_config list \<Rightarrow> (verify_error, finding list) result" where
  "verify_workflows E shw l cs =
     (case validate_workflows E cs of
        Inl err \<Rightarrow> Inl (ConfigInvalid err)
      | Inr _ \<Rightarrow>
          (case load_observed E l of
             Inl err \<Rightarrow> Inl (LogsInvalid err)
           | Inr obs \<Rightarrow> and_then (map_err (verify_workflow E shw obs) cs) (\<lambda>fss. Inr (concat fss))))"

section \<open>What the search finds\<close>

definition admissible :: "string \<Rightarrow> string \<Rightarrow> observed \<Rightarrow> bool" where
  "admissible mode corr x \<longleftrightarrow>
     (mode = ''required'' \<longrightarrow> obCorrelation x \<noteq> [] \<and> (corr = [] \<or> obCorrelation x = corr)) \<and>
     (mode = ''prefer'' \<longrightarrow> corr = [] \<or> obCorrelation x = [] \<or> obCorrelation x = corr)"

lemma seek_cases:
  obtains (none) q where "seek mode corr c i xs p = (None, q)" "\<forall>x\<in>set xs. \<not> (step_matches c x \<and> admissible mode corr x)"
  | (some) us x vs q where "seek mode corr c i xs p = (Some (i + length us, x), q)" "xs = us @ x # vs"
      "step_matches c x" "admissible mode corr x" "\<forall>u\<in>set us. \<not> (step_matches c u \<and> admissible mode corr u)"
proof (induction xs arbitrary: i p thesis)
  case Nil
  then show ?case by simp
next
  case (Cons y ys)
  show ?case
  proof (cases "step_matches c y \<and> admissible mode corr y")
    case True
    then have "seek mode corr c i (y # ys) p = (Some (i, y), p)" by (auto simp: admissible_def)
    with True Cons.prems(2) [of "[]" y p ys] show ?thesis by simp
  next
    case False
    then have "\<exists>p'. seek mode corr c i (y # ys) p = seek mode corr c (Suc i) ys p'"
      by (cases "step_matches c y") (auto simp: admissible_def)
    then obtain p' where s: "seek mode corr c i (y # ys) p = seek mode corr c (Suc i) ys p'" ..
    show ?thesis
    proof (rule Cons.IH [of "Suc i" p'])
      fix q assume "seek mode corr c (Suc i) ys p' = (None, q)"
        and "\<forall>x\<in>set ys. \<not> (step_matches c x \<and> admissible mode corr x)"
      with s False Cons.prems(1) show ?thesis by auto
    next
      fix us x q vs assume "seek mode corr c (Suc i) ys p' = (Some (Suc i + length us, x), q)" and "ys = us @ x # vs"
        and "step_matches c x" and "admissible mode corr x"
        and "\<forall>u\<in>set us. \<not> (step_matches c u \<and> admissible mode corr u)"
      with s False Cons.prems(2) [of "y # us" x q vs] show ?thesis by auto
    qed
  qed
qed

definition nothing_missing :: "finding list \<Rightarrow> bool" where
  "nothing_missing fs \<longleftrightarrow> ''WORKFLOW_MISSING_STEP'' \<notin> fdRuleID ` set fs"

lemma nothing_missing_simps [simp]:
  "nothing_missing []" "\<not> nothing_missing [missing_step n c k p]"
  "nothing_missing (timing_drift shw c previous x @ fs) \<longleftrightarrow> nothing_missing fs"
  by (auto simp: nothing_missing_def missing_step_def timing_drift_def Let_def)

lemma drop_after:
  assumes "drop n xs = us @ x # vs"
  shows "drop (Suc (n + length us)) xs = vs"
proof -
  have "drop (Suc (n + length us)) xs = drop (Suc (length us)) (drop n xs)" by (simp add: add.commute)
  with assms show ?thesis by simp
qed

text \<open>The reference for the search: the steps occur in the log, in order, possibly with other entries between.\<close>

fun embeds :: "('a \<Rightarrow> 'b \<Rightarrow> bool) \<Rightarrow> 'a list \<Rightarrow> 'b list \<Rightarrow> bool" where
  "embeds P [] ys = True"
| "embeds P (x # xs) [] = False"
| "embeds P (x # xs) (y # ys) = (P x y \<and> embeds P xs ys \<or> embeds P (x # xs) ys)"

lemma embeds_weaken: "embeds P (x # xs) ys \<Longrightarrow> embeds P xs ys"
proof (induction ys arbitrary: x xs)
  case (Cons y ys)
  then show ?case by (cases xs) auto
qed simp

lemma embeds_later: "embeds P xs ys \<Longrightarrow> embeds P xs (us @ ys)"
  by (induction us) (cases xs; simp)+

lemma embeds_none: "\<forall>y\<in>set ys. \<not> P c y \<Longrightarrow> \<not> embeds P (c # cs) ys"
  by (induction ys) auto

text \<open>Taking the first match loses nothing.\<close>

lemma embeds_first:
  assumes "P c x" and "\<forall>u\<in>set us. \<not> P c u"
  shows "embeds P (c # cs) (us @ x # vs) \<longleftrightarrow> embeds P cs vs"
  using assms by (induction us) (auto dest: embeds_weaken)

lemma run_steps_free:
  assumes "mode \<noteq> ''required''" and "mode \<noteq> ''prefer''"
  shows "nothing_missing (run_steps shw name mode obs cs cursor corr previous) \<longleftrightarrow>
    embeds step_matches cs (drop cursor obs)"
proof (induction cs arbitrary: cursor corr previous)
  case (Cons c cs)
  have adm: "admissible mode k x" for k x using assms by (simp add: admissible_def)
  show ?case
  proof (cases rule: seek_cases [of mode corr c cursor "drop cursor obs" "[]"])
    case (none q)
    then have "\<not> embeds step_matches (c # cs) (drop cursor obs)"
      using adm by (intro embeds_none) auto
    with none show ?thesis by simp
  next
    case (some us x vs q)
    have "embeds step_matches (c # cs) (drop cursor obs) \<longleftrightarrow> embeds step_matches cs vs"
      unfolding some(2) using some(3,5) adm by (intro embeds_first) auto
    with some Cons.IH [of "Suc (cursor + length us)"] drop_after [OF some(2)] show ?thesis by simp
  qed
qed simp

definition traced :: "string \<Rightarrow> compiled_step \<Rightarrow> observed \<Rightarrow> bool" where
  "traced t c x \<longleftrightarrow> step_matches c x \<and> obCorrelation x = t"

lemma run_steps_required:
  assumes "nothing_missing (run_steps shw name ''required'' obs cs cursor corr previous)"
  shows "if corr = [] then cs = [] \<or> (\<exists>t. t \<noteq> [] \<and> embeds (traced t) cs (drop cursor obs))
    else embeds (traced corr) cs (drop cursor obs)"
  using assms
proof (induction cs arbitrary: cursor corr previous)
  case (Cons c cs)
  show ?case
  proof (cases rule: seek_cases [of "''required''" corr c cursor "drop cursor obs" "[]"])
    case (none q)
    with Cons.prems show ?thesis by simp
  next
    case (some us x vs q)
    define t where "t = obCorrelation x"
    have t: "t \<noteq> []" "corr = [] \<or> corr = t" using some(4) by (auto simp: admissible_def t_def)
    from Cons.prems some(1) t have
      "nothing_missing (run_steps shw name ''required'' obs cs (Suc (cursor + length us)) t (obTimestamp x))"
      by (auto simp: t_def split: if_splits)
    from Cons.IH [OF this] t drop_after [OF some(2)] have "embeds (traced t) cs vs" by simp
    with some(3) have "embeds (traced t) (c # cs) (x # vs)" by (simp add: traced_def t_def)
    then have "embeds (traced t) (c # cs) (drop cursor obs)" unfolding some(2) by (rule embeds_later)
    with t show ?thesis by (auto simp del: embeds.simps)
  qed
qed simp

section \<open>Correctness\<close>

text \<open>A step of the configuration accepts an observation.\<close>

definition step_accepts :: "go_env \<Rightarrow> workflow_step \<Rightarrow> observed \<Rightarrow> bool" where
  "step_accepts E s x = (case compile_step E s of None \<Rightarrow> False | Some k \<Rightarrow> step_matches k x)"

definition compile_all :: "go_env \<Rightarrow> workflow_config \<Rightarrow> (unit, compiled_step list) result" where
  "compile_all E c = map_err (\<lambda>s. case compile_step E s of None \<Rightarrow> Inl () | Some k \<Rightarrow> Inr k) (wcSteps c)"

lemma verify_workflow_ok:
  "verify_workflow E shw obs c = Inr fs \<longleftrightarrow>
     (\<exists>ks. compile_all E c = Inr ks \<and> fs = run_steps shw (wcName c) (wcCorrelation c) obs ks 0 [] 0)"
  by (auto simp: verify_workflow_def compile_all_def split: sum.splits)

lemma embeds_compiled:
  assumes "list_all2 (\<lambda>s k. compile_step E s = Some k) ss ks"
  shows "embeds (\<lambda>k x. step_matches k x \<and> Q x) ks obs \<longleftrightarrow> embeds (\<lambda>s x. step_accepts E s x \<and> Q x) ss obs"
  using assms
proof (induction obs arbitrary: ss ks)
  case Nil
  then show ?case by (cases ss; cases ks) auto
next
  case (Cons x obs)
  then show ?case by (cases ss; cases ks) (auto simp: step_accepts_def)
qed

lemma compile_all_list:
  "compile_all E c = Inr ks \<Longrightarrow> list_all2 (\<lambda>s k. compile_step E s = Some k) (wcSteps c) ks"
  unfolding compile_all_def map_err_all2 by (erule list_all2_mono) (auto split: option.splits)

text \<open>C23. Without correlation, a workflow is reported incomplete exactly when the incident does not contain its
  steps in order: the single forward pass that takes the first match of each step is as good as any choice.\<close>

theorem workflow_verdict_exact:
  assumes "verify_workflow E shw obs c = Inr fs" and "wcCorrelation c \<noteq> ''required''" and "wcCorrelation c \<noteq> ''prefer''"
  shows "nothing_missing fs \<longleftrightarrow> embeds (step_accepts E) (wcSteps c) obs"
proof -
  obtain ks where ks: "compile_all E c = Inr ks"
    and fs: "fs = run_steps shw (wcName c) (wcCorrelation c) obs ks 0 [] 0"
    using assms(1) by (auto simp: verify_workflow_ok)
  from run_steps_free [OF assms(2,3)] fs have "nothing_missing fs \<longleftrightarrow> embeds step_matches ks obs" by simp
  with embeds_compiled [OF compile_all_list [OF ks], of "\<lambda>_. True" obs] show ?thesis by simp
qed

text \<open>When correlation is required and nothing is reported missing, the incident contains the steps in order
  under one trace identifier that is not empty.\<close>

theorem required_correlation_sound:
  assumes "verify_workflow E shw obs c = Inr fs" and "wcCorrelation c = ''required''" and "wcSteps c \<noteq> []"
    and "nothing_missing fs"
  shows "\<exists>t. t \<noteq> [] \<and> embeds (\<lambda>s x. step_accepts E s x \<and> obCorrelation x = t) (wcSteps c) obs"
proof -
  obtain ks where ks: "compile_all E c = Inr ks"
    and fs: "fs = run_steps shw (wcName c) ''required'' obs ks 0 [] 0"
    using assms(1,2) by (auto simp: verify_workflow_ok)
  from run_steps_required [of shw "wcName c" obs ks 0 "[]" 0] fs assms(4)
  have "ks = [] \<or> (\<exists>t. t \<noteq> [] \<and> embeds (traced t) ks obs)" by simp
  moreover have "ks \<noteq> []" using compile_all_list [OF ks] assms(3) by auto
  ultimately obtain t where "t \<noteq> []" "embeds (traced t) ks obs" by blast
  moreover have "traced t = (\<lambda>k x. step_matches k x \<and> obCorrelation x = t)" by (intro ext) (simp add: traced_def)
  ultimately show ?thesis using embeds_compiled [OF compile_all_list [OF ks]] by auto
qed

text \<open>A validated configuration compiles.\<close>

lemma check_step_compiles: "check_step E seen (i, s) = Inr t \<Longrightarrow> compile_step E s \<noteq> None"
  by (auto simp: check_step_def compile_step_def Let_def split: option.splits)

lemma in_enumerate: "x \<in> set xs \<Longrightarrow> \<exists>i. (i, x) \<in> set (enumerate n xs)"
  by (induction xs arbitrary: n) auto

lemma compile_all_ok: "is_ok (compile_all E c) \<longleftrightarrow> (\<forall>s\<in>set (wcSteps c). compile_step E s \<noteq> None)"
proof -
  have "is_ok (map_err (\<lambda>s. case compile_step E s of None \<Rightarrow> Inl () | Some k \<Rightarrow> Inr k) ss) \<longleftrightarrow>
    (\<forall>s\<in>set ss. compile_step E s \<noteq> None)" for ss
    by (induction ss) (auto simp: and_then_def split: option.splits sum.splits)
  then show ?thesis by (simp add: compile_all_def)
qed

lemma validate_compiles:
  assumes "validate_workflows E cs = Inr ()" and "c \<in> set cs"
  shows "is_ok (compile_all E c)"
proof -
  from assms(1) obtain t where t: "fold_err (check_workflow E) {} (enumerate 0 cs) = Inr t"
    by (auto simp: validate_workflows_def)
  from in_enumerate [OF assms(2)] fold_err_each [OF t] obtain u i v where "check_workflow E u (i, c) = Inr v" by blast
  then obtain w where w: "fold_err (check_step E) {} (enumerate 0 (wcSteps c)) = Inr w"
    by (auto simp: check_workflow_def)
  have "compile_step E s \<noteq> None" if "s \<in> set (wcSteps c)" for s
    using in_enumerate [OF that] fold_err_each [OF w] check_step_compiles by blast
  then show ?thesis by (simp add: compile_all_ok)
qed

text \<open>\<open>regexp.MustCompile\<close> never panics: verification fails exactly when the configurations are invalid or the
  logs cannot be loaded, and in every other case it returns its findings.\<close>

theorem verify_workflows_total:
  "verify_workflows E shw l cs \<noteq> Inl MustCompilePanic \<and>
   is_ok (verify_workflows E shw l cs) = (is_ok (validate_workflows E cs) \<and> is_ok (load_observed E l))"
proof (cases "validate_workflows E cs")
  case (Inr u)
  have "is_ok (map_err (verify_workflow E shw obs) cs)" for obs
  proof -
    have "is_ok (verify_workflow E shw obs c) = is_ok (compile_all E c)" for c
      by (cases "compile_all E c") (simp_all add: verify_workflow_def compile_all_def)
    then have "\<forall>c\<in>set cs. is_ok (verify_workflow E shw obs c)"
      using validate_compiles [of E cs] Inr by simp
    then show ?thesis by (induction cs) (auto simp: is_ok_def and_then_def split: sum.splits)
  qed
  then have fss: "\<exists>fss. map_err (verify_workflow E shw obs) cs = Inr fss" for obs
    by (cases "map_err (verify_workflow E shw obs) cs") (metis is_ok_simps(2), blast)
  show ?thesis
  proof (cases "load_observed E l")
    case loaded: (Inr obs)
    from fss obtain f where "map_err (verify_workflow E shw obs) cs = Inr f" by blast
    with Inr loaded show ?thesis by (simp add: verify_workflows_def)
  qed (simp add: verify_workflows_def Inr)
qed (simp add: verify_workflows_def)

text \<open>A log whose records all decode is read without a panic exactly when the URL of each of its calls parses.
  Recorded CONNECT tunnels, whose URL is a bare host and port, do not pass this test.\<close>

theorem observe_log_panics:
  "observe_log E log direction index (map Some es) = Inl NilURLPanic \<longleftrightarrow>
     (\<exists>e\<in>set es. is_call e \<and> gUrlParse E (evURL e) = None)"
  by (induction es arbitrary: index) (auto simp: and_then_Inl split: option.splits)

text \<open>Observations are ordered by time, then number, then location.\<close>

lemma load_observed_sorted:
  "load_observed E l = Inr obs \<Longrightarrow> sorted (map (\<lambda>x. (obTimestamp x, obSequence x, obLocation x)) obs)"
  by (cases "load_messages E (dflt [] (ilMessages l))")
    (auto simp: load_observed_def observed_order.sort_keys_sorted split: option.splits)

section \<open>Examples\<close>

definition example_step :: "string \<Rightarrow> workflow_step" where
  "example_step path = \<lparr>wsName = path, wsProtocol = ''http'', wsDirection = [], wsMethod = [], wsPathRegex = path,
     wsGRPCMethod = [], wsTopic = [], wsWithin = []\<rparr>"

definition example_workflow :: "string \<Rightarrow> workflow_config" where
  "example_workflow mode = \<lparr>wcName = ''checkout'', wcCorrelation = mode, wcSteps = [example_step ''/a'', example_step ''/b'']\<rparr>"

definition example_seen :: "string \<Rightarrow> string \<Rightarrow> int \<Rightarrow> observed" where
  "example_seen path trace t = \<lparr>obProtocol = ''http'', obDirection = ''inbound'', obMethod = ''GET'', obPath = path,
     obGrpcMethod = [], obTopic = [], obCorrelation = trace, obTimestamp = t, obSequence = t, obLocation = []\<rparr>"

lemma workflow_verdict_exact_witness:
  "embeds (step_accepts example_env) (wcSteps (example_workflow []))
     [example_seen ''/a'' [] 1, example_seen ''/x'' [] 2, example_seen ''/b'' [] 3]"
proof -
  have run: "verify_workflow example_env nat_digits' [example_seen ''/a'' [] 1, example_seen ''/x'' [] 2, example_seen ''/b'' [] 3]
    (example_workflow []) = Inr []" for nat_digits' by code_simp
  from workflow_verdict_exact [OF run] show ?thesis by (simp add: example_workflow_def)
qed

lemma required_correlation_sound_witness:
  "\<exists>t. t \<noteq> [] \<and> embeds (\<lambda>s x. step_accepts example_env s x \<and> obCorrelation x = t) (wcSteps (example_workflow ''required''))
     [example_seen ''/a'' ''t1'' 1, example_seen ''/b'' ''t2'' 2, example_seen ''/b'' ''t1'' 3]"
proof -
  have run: "verify_workflow example_env shw
    [example_seen ''/a'' ''t1'' 1, example_seen ''/b'' ''t2'' 2, example_seen ''/b'' ''t1'' 3]
    (example_workflow ''required'') = Inr []" for shw by code_simp
  from required_correlation_sound [OF run] show ?thesis by (simp add: example_workflow_def)
qed

text \<open>The converse fails: the first match of the first step binds the trace, so a complete chain that starts
  later is reported missing.\<close>

lemma required_correlation_greedy:
  "embeds (\<lambda>s x. step_accepts example_env s x \<and> obCorrelation x = ''t2'') (wcSteps (example_workflow ''required''))
     [example_seen ''/a'' ''t1'' 1, example_seen ''/a'' ''t2'' 2, example_seen ''/b'' ''t2'' 3] \<and>
   map_err (verify_workflow example_env (\<lambda>_. [])
     [example_seen ''/a'' ''t1'' 1, example_seen ''/a'' ''t2'' 2, example_seen ''/b'' ''t2'' 3])
     [example_workflow ''required''] =
   Inr [[missing_step ''checkout'' \<lparr>csStep = example_step ''/b'', csPath = None, csMax = 0\<rparr> 1
     ''matched event has a different correlation ID'']]"
  by code_simp

end
