(* ===== verification/ReplayYaml.thy ===== *)
theory ReplayYaml
  imports ReplayDriver StubProxy Workflow GoPath
begin

text \<open>
  \<open>pkg/replaydriver\<close> (\<open>config.go\<close>, \<open>bundle.go\<close>, \<open>state_adapter.go\<close>) and the part of \<open>cmd/agent\<close> (\<open>runReplay\<close>) that lays the
  flags over a configuration: the layout of an incident directory, loading \<open>replay.yaml\<close> with every check it makes, and
  the settings of a replay. The YAML decoder is a parameter; files are given as functions from paths.
\<close>

section \<open>Incident directories\<close>

record incident_bundle =
  ibDir :: string
  ibMetadata :: string
  ibInbound :: string
  ibOutbound :: string
  ibConfig :: string

type_synonym files = "string \<Rightarrow> string option"

definition open_incident :: "files \<Rightarrow> string \<Rightarrow> incident_bundle option" where
  "open_incident fs dir =
     (let inbound = path_join [dir, ''inbound.log'']
      in case fs inbound of
           None \<Rightarrow> None
         | Some _ \<Rightarrow> Some \<lparr>ibDir = dir, ibMetadata = path_join [dir, ''incident.json''], ibInbound = inbound,
                          ibOutbound = path_join [dir, ''outbound.log''], ibConfig = path_join [dir, ''replay.yaml'']\<rparr>)"

definition has_outbound :: "files \<Rightarrow> incident_bundle \<Rightarrow> bool" where
  "has_outbound fs b \<longleftrightarrow> fs (ibOutbound b) \<noteq> None"

definition has_config :: "files \<Rightarrow> incident_bundle \<Rightarrow> bool" where
  "has_config fs b \<longleftrightarrow> fs (ibConfig b) \<noteq> None"

section \<open>Configuration\<close>

record replay_yaml =
  ryTarget :: string
  ryTimeScale :: f64
  ryRuns :: int
  rySafeMode :: bool
  ryChaosRequest :: int
  ryChaosDelay :: string
  ryStateFile :: string
  ryMatching :: match_config
  ryScenarios :: "scenario_config list"
  ryTemplates :: template_config
  ryHttps :: bool
  ryCADir :: string
  ryAllowHosts :: "string list"
  ryWorkflows :: "workflow_config list"

definition zero_yaml :: replay_yaml where
  "zero_yaml = \<lparr>ryTarget = [], ryTimeScale = Fin 0, ryRuns = 0, rySafeMode = False, ryChaosRequest = 0, ryChaosDelay = [],
     ryStateFile = [], ryMatching = no_matching, ryScenarios = [], ryTemplates = \<lparr>tcSeed = [], tcMaxOutputBytes = 0\<rparr>,
     ryHttps = False, ryCADir = [], ryAllowHosts = [], ryWorkflows = []\<rparr>"

datatype config_error =
    ConfigUnreadable | ConfigInvalid | RunsNegative | TimeScaleNegative | ChaosRequestNegative | DelayInvalid string
  | DelayNegative | MatchingRefused match_error | ScenariosRefused scenario_error | TemplatesRefused
  | WorkflowsRefused workflow_error

definition chaos_of :: "go_env \<Rightarrow> string \<Rightarrow> (config_error, int) result" where
  "chaos_of E d =
     (if d = [] then Inr 0
      else (case gParseDuration E d of
              None \<Rightarrow> Inl (DelayInvalid d)
            | Some t \<Rightarrow> if t < 0 then Inl DelayNegative else Inr t))"

text \<open>\<open>resolvePaths\<close> and \<open>ResolvePaths\<close>: paths relative to the directory of the configuration.\<close>

definition resolve_path :: "string \<Rightarrow> string \<Rightarrow> string" where
  "resolve_path base p = path_clean (if p \<noteq> [] \<and> \<not> is_abs p then path_join [base, p] else p)"

definition resolve_grpc :: "string \<Rightarrow> grpc_config \<Rightarrow> grpc_config" where
  "resolve_grpc base c = \<lparr>gcProtoFiles = map (resolve_path base) (gcProtoFiles c),
     gcDescriptorSets = map (resolve_path base) (gcDescriptorSets c), gcImportPaths = map (resolve_path base) (gcImportPaths c)\<rparr>"

text \<open>\<open>LoadReplayConfig\<close>. A time scale that is not a number passes the check for negative values.\<close>

definition load_replay_config ::
  "go_env \<Rightarrow> files \<Rightarrow> (string \<Rightarrow> replay_yaml option) \<Rightarrow> string \<Rightarrow> (config_error, replay_yaml) result" where
  "load_replay_config E fs decode path =
     (case fs path of
        None \<Rightarrow> Inl ConfigUnreadable
      | Some data \<Rightarrow> (case decode data of
          None \<Rightarrow> Inl ConfigInvalid
        | Some raw \<Rightarrow>
            and_then (fail_if (ryRuns raw < 0) RunsNegative) (\<lambda>_.
            and_then (fail_if (f_less (ryTimeScale raw) (Fin 0)) TimeScaleNegative) (\<lambda>_.
            and_then (fail_if (ryChaosRequest raw < 0) ChaosRequestNegative) (\<lambda>_.
            and_then (chaos_of E (ryChaosDelay raw)) (\<lambda>_.
            let cfg = raw\<lparr>ryMatching := (ryMatching raw)\<lparr>mcGRPC := resolve_grpc (path_dir path) (mcGRPC (ryMatching raw))\<rparr>\<rparr>
            in case new_matcher E (ryMatching cfg) None of
                 Inl e \<Rightarrow> Inl (MatchingRefused e)
               | Inr m \<Rightarrow> (case new_with_registry E (ryScenarios cfg) (ryMatching cfg) (maGrpc m) of
                   Inl e \<Rightarrow> Inl (ScenariosRefused e)
                 | Inr eng \<Rightarrow>
                     and_then (fail_if (new_templates (ryTemplates cfg) = None) TemplatesRefused) (\<lambda>_.
                     case validate_workflows E (ryWorkflows cfg) of
                       Inl e \<Rightarrow> Inl (WorkflowsRefused e)
                     | Inr _ \<Rightarrow> Inr cfg))))))))"

section \<open>Settings of a replay\<close>

record replay_flags =
  fgTarget :: string
  fgRuns :: int
  fgTimeScale :: f64
  fgSafeMode :: bool
  fgAllowWrites :: bool
  fgHttps :: bool
  fgCADir :: string
  fgAllowHosts :: "string list"

record settings =
  seTarget :: string
  seRuns :: int
  seTimeScale :: f64
  seSafeMode :: bool
  seChaosDelay :: int
  seChaosRequest :: int
  seMatching :: match_config
  seScenarios :: "scenario_config list"
  seTemplates :: template_config
  seHttps :: bool
  seCADir :: string
  seAllowHosts :: "string list"
  seStateFiles :: "string list"

definition default_target :: string where "default_target = ''http://localhost:18080''"

text \<open>Which configuration file is read: the flag, or \<open>replay.yaml\<close> of the incident when it is there.\<close>

definition config_path :: "files \<Rightarrow> string \<Rightarrow> string \<Rightarrow> string" where
  "config_path fs flag dir =
     (if flag \<noteq> [] then flag
      else if fs (path_join [dir, ''replay.yaml'']) \<noteq> None then path_join [dir, ''replay.yaml''] else [])"

definition base_settings :: "replay_flags \<Rightarrow> settings" where
  "base_settings f = \<lparr>seTarget = fgTarget f, seRuns = fgRuns f, seTimeScale = fgTimeScale f,
     seSafeMode = (fgSafeMode f \<and> \<not> fgAllowWrites f), seChaosDelay = 0, seChaosRequest = 0, seMatching = no_matching,
     seScenarios = [], seTemplates = \<lparr>tcSeed = [], tcMaxOutputBytes = 0\<rparr>, seHttps = False, seCADir = [], seAllowHosts = [],
     seStateFiles = []\<rparr>"

text \<open>A configured value replaces a flag whose value is the default of the flag.\<close>

definition lay_over :: "go_env \<Rightarrow> string \<Rightarrow> replay_yaml \<Rightarrow> settings \<Rightarrow> settings" where
  "lay_over E path y s =
     s\<lparr>seTarget := (if ryTarget y \<noteq> [] \<and> seTarget s = default_target then ryTarget y else seTarget s),
       seRuns := (if 0 < ryRuns y \<and> seRuns s = 10 then ryRuns y else seRuns s),
       seTimeScale := (if f_less (Fin 0) (ryTimeScale y) \<and> f_eq (seTimeScale s) (Fin 1) then ryTimeScale y else seTimeScale s),
       seSafeMode := (seSafeMode s \<or> rySafeMode y),
       seChaosDelay := (case chaos_of E (ryChaosDelay y) of Inl _ \<Rightarrow> 0 | Inr d \<Rightarrow> d),
       seChaosRequest := ryChaosRequest y, seMatching := ryMatching y, seScenarios := ryScenarios y,
       seTemplates := ryTemplates y, seHttps := ryHttps y, seCADir := ryCADir y, seAllowHosts := ryAllowHosts y,
       seStateFiles := (if ryStateFile y = [] then []
         else [if is_abs (ryStateFile y) then ryStateFile y else path_join [path_dir path, ryStateFile y]])\<rparr>"

definition https_flags :: "replay_flags \<Rightarrow> settings \<Rightarrow> settings" where
  "https_flags f s =
     s\<lparr>seHttps := (seHttps s \<or> fgHttps f), seCADir := (if fgCADir f \<noteq> [] then fgCADir f else seCADir s),
       seAllowHosts := (if fgAllowHosts f \<noteq> [] then fgAllowHosts f else seAllowHosts s)\<rparr>"

definition replay_settings ::
  "go_env \<Rightarrow> files \<Rightarrow> (string \<Rightarrow> replay_yaml option) \<Rightarrow> string \<Rightarrow> string \<Rightarrow> replay_flags \<Rightarrow> (config_error, settings) result" where
  "replay_settings E fs decode flag dir f =
     (let path = config_path fs flag dir
      in and_then (if path = [] then Inr (base_settings f)
                   else and_then (load_replay_config E fs decode path) (\<lambda>y. Inr (lay_over E path y (base_settings f))))
           (\<lambda>s. Inr (https_flags f s)))"

section \<open>What a loaded configuration guarantees\<close>

lemma loaded_shape:
  assumes "load_replay_config E fs decode path = Inr y"
  obtains m eng where "new_matcher E (ryMatching y) None = Inr m"
    "new_with_registry E (ryScenarios y) (ryMatching y) (maGrpc m) = Inr eng" "new_templates (ryTemplates y) \<noteq> None"
    "0 \<le> ryRuns y" "\<not> f_less (ryTimeScale y) (Fin 0)" "0 \<le> ryChaosRequest y" "is_ok (chaos_of E (ryChaosDelay y))"
    "is_ok (validate_workflows E (ryWorkflows y))"
  using assms by (auto simp: load_replay_config_def Let_def split: option.splits sum.splits)

text \<open>A configuration that loads builds a stub proxy from every outbound log, and the settings made of it keep what the
  checks established: no negative chaos delay, and safe mode whenever the configuration asks for it, whatever the flags
  say.\<close>

theorem loaded_settings_usable:
  assumes "replay_settings E fs decode flag dir f = Inr s" and "config_path fs flag dir \<noteq> []"
  shows "is_ok (new_proxy E logged rules (seMatching s) (seScenarios s) (seTemplates s) allowed) \<and>
    0 \<le> seChaosDelay s \<and> 0 \<le> seChaosRequest s \<and>
    (case load_replay_config E fs decode (config_path fs flag dir) of
       Inl e \<Rightarrow> False
     | Inr y \<Rightarrow> seSafeMode s = (rySafeMode y \<or> (fgSafeMode f \<and> \<not> fgAllowWrites f)))"
proof -
  from assms obtain y where y: "load_replay_config E fs decode (config_path fs flag dir) = Inr y"
    and s: "s = https_flags f (lay_over E (config_path fs flag dir) y (base_settings f))"
    by (auto simp: replay_settings_def Let_def)
  from y obtain m eng where ok: "new_matcher E (ryMatching y) None = Inr m"
    "new_with_registry E (ryScenarios y) (ryMatching y) (maGrpc m) = Inr eng" "new_templates (ryTemplates y) \<noteq> None"
    "0 \<le> ryChaosRequest y" "is_ok (chaos_of E (ryChaosDelay y))"
    by (rule loaded_shape)
  have "0 \<le> (case chaos_of E d of Inl _ \<Rightarrow> 0 | Inr t \<Rightarrow> t)" for d
    by (auto simp: chaos_of_def split: option.splits)
  with ok y show ?thesis unfolding s
    by (auto simp: https_flags_def lay_over_def base_settings_def new_proxy_def)
qed

text \<open>\<open>FileStateAdapter.Load\<close>: the file is a JSON object of strings, where null is the empty string; any other value refuses the whole
  file.\<close>

definition text_value :: "json \<Rightarrow> string option" where
  "text_value v = (case v of JStr s \<Rightarrow> Some s | JNull \<Rightarrow> Some [] | _ \<Rightarrow> None)"

definition load_state_file :: "go_env \<Rightarrow> files \<Rightarrow> string \<Rightarrow> runtime_state option" where
  "load_state_file E fs path =
     (case Option.bind (fs path) (gUnmarshal E) of
        Some JNull \<Rightarrow> Some []
      | Some (JObj kvs) \<Rightarrow>
          if list_all (\<lambda>(k, v). text_value v \<noteq> None) kvs then Some (map (\<lambda>(k, v). (k, the (text_value v))) kvs) else None
      | _ \<Rightarrow> None)"

lemma state_file_lookup:
  "load_state_file E fs path = Some st \<Longrightarrow> fs path = Some data \<Longrightarrow> gUnmarshal E data = Some (JObj kvs) \<Longrightarrow>
     map_of st k = Option.bind (map_of kvs k) text_value"
proof -
  assume "load_state_file E fs path = Some st" "fs path = Some data" "gUnmarshal E data = Some (JObj kvs)"
  then have all: "list_all (\<lambda>(k, v). text_value v \<noteq> None) kvs" and st: "st = map (\<lambda>(k, v). (k, the (text_value v))) kvs"
    by (auto simp: load_state_file_def split: if_split_asm)
  from all show "map_of st k = Option.bind (map_of kvs k) text_value"
    unfolding st by (induction kvs) auto
qed

definition example_files :: files where
  "example_files = map_of [(''incident/inbound.log'', []), (''incident/replay.yaml'', ''runs: 3'')]"

definition example_flags :: "int \<Rightarrow> replay_flags" where
  "example_flags runs = \<lparr>fgTarget = default_target, fgRuns = runs, fgTimeScale = Fin 1, fgSafeMode = True, fgAllowWrites = True,
     fgHttps = False, fgCADir = [], fgAllowHosts = []\<rparr>"

definition example_decode :: "string \<Rightarrow> replay_yaml option" where
  "example_decode data = Some (zero_yaml\<lparr>ryRuns := 3, rySafeMode := True, ryTarget := ''http://staging''\<rparr>)"

text \<open>The flags of the command ask for ten runs and for writes; the configuration is used for both.\<close>

lemma example_settings:
  "replay_settings example_env example_files example_decode [] ''incident'' (example_flags 10) =
     Inr ((base_settings (example_flags 10))\<lparr>seTarget := ''http://staging'', seRuns := 3, seSafeMode := True\<rparr>)"
  by code_simp

lemma loaded_settings_usable_witness:
  "is_ok (new_proxy example_env [] [] (ryMatching zero_yaml) [] (ryTemplates zero_yaml) None) \<and>
   (case load_replay_config example_env example_files example_decode ''incident/replay.yaml'' of
      Inl e \<Rightarrow> False | Inr y \<Rightarrow> rySafeMode y)"
proof -
  have path: "config_path example_files [] ''incident'' = ''incident/replay.yaml''" by code_simp
  have "seMatching (base_settings (example_flags 10)) = ryMatching zero_yaml" "seScenarios (base_settings (example_flags 10)) = []"
    "seTemplates (base_settings (example_flags 10)) = ryTemplates zero_yaml"
    by (simp_all add: base_settings_def zero_yaml_def)
  with loaded_settings_usable [OF example_settings, of "[]" "[]" None] show ?thesis
    by (auto simp: path example_flags_def split: sum.splits)
qed

end
