(* ===== verification/SimServer.thy ===== *)
theory SimServer
  imports ReplayYaml
begin

text \<open>
  \<open>pkg/simserver\<close> (\<open>server.go\<close>): setting the simulator up from an incident, its control interface and the proof it hands
  out. Listeners, TLS and the two HTTP servers are outside; the control interface is the function of method and path that
  Go's \<open>ServeMux\<close> computes for the five registered patterns, with HEAD admitted where GET is, applied to clean paths.
\<close>

section \<open>Set up\<close>

record server_options =
  soIncident :: string
  soConfig :: string
  soListen :: string
  soAdminListen :: string
  soHttps :: bool
  soCADir :: string
  soAllowHosts :: "string list"

datatype server_error =
    IncidentRequired | IncidentInvalid | ConfigRefused config_error | AuthorityFailed | StubRefused proxy_error
  | OutboundUnreadable | HashFailed string

text \<open>A file is missing, unreadable, or its bytes.\<close>

datatype file_state = Missing | Unreadable | Bytes string

type_synonym disk = "string \<Rightarrow> file_state"

definition files_of :: "disk \<Rightarrow> files" where
  "files_of d p = (case d p of Bytes s \<Rightarrow> Some s | _ \<Rightarrow> None)"

text \<open>\<open>hashFiles\<close>: what is written to the hash.\<close>

fun hash_input :: "disk \<Rightarrow> string list \<Rightarrow> (server_error, string) result" where
  "hash_input d [] = Inr []"
| "hash_input d (p # ps) =
     (case d (path_clean p) of
        Missing \<Rightarrow> hash_input d ps
      | Unreadable \<Rightarrow> Inl (HashFailed p)
      | Bytes s \<Rightarrow> and_then (hash_input d ps) (\<lambda>t. Inr (path_base p @ [chr 0] @ s @ [chr 0] @ t)))"

definition hash_files :: "go_env \<Rightarrow> disk \<Rightarrow> string list \<Rightarrow> (server_error, string) result" where
  "hash_files E d ps = and_then (hash_input d ps) (\<lambda>s. Inr (hex_encode (gSha256 E s)))"

record proof_record =
  pfVersion :: int
  pfIncidentHash :: string
  pfConfigHash :: string
  pfSemanticHash :: string
  pfStartedAt :: int
  pfSnapshot :: snapshot

record server =
  svOptions :: server_options
  svStub :: proxy
  svProof :: proof_record

definition with_defaults :: "server_options \<Rightarrow> server_options" where
  "with_defaults o' = o'\<lparr>soListen := (if soListen o' = [] then ''127.0.0.1:19000'' else soListen o'),
     soAdminListen := (if soAdminListen o' = [] then ''127.0.0.1:19001'' else soAdminListen o')\<rparr>"

definition with_config :: "replay_yaml \<Rightarrow> server_options \<Rightarrow> server_options" where
  "with_config y o' = o'\<lparr>soHttps := (soHttps o' \<or> ryHttps y),
     soCADir := (if soCADir o' = [] then ryCADir y else soCADir o'),
     soAllowHosts := (if soAllowHosts o' = [] then ryAllowHosts y else soAllowHosts o')\<rparr>"

definition hashed_files :: "incident_bundle \<Rightarrow> string list" where
  "hashed_files b = [ibMetadata b, ibInbound b, ibOutbound b, path_join [ibDir b, ''messages.log'']]"

text \<open>\<open>New\<close>; \<open>logged\<close> reads the outbound log (None when it cannot be parsed), \<open>authority\<close> tells whether the certificate
  authority could be set up.\<close>

definition new_server ::
  "go_env \<Rightarrow> disk \<Rightarrow> (string \<Rightarrow> replay_yaml option) \<Rightarrow> (string \<Rightarrow> event list option) \<Rightarrow> bool \<Rightarrow> int \<Rightarrow> server_options \<Rightarrow>
   (server_error, server) result" where
  "new_server E d decode logged authority now o0 =
     and_then (fail_if (trim_space (soIncident o0) = []) IncidentRequired) (\<lambda>_.
     let o1 = with_defaults o0 in
     case open_incident (files_of d) (soIncident o1) of
       None \<Rightarrow> Inl IncidentInvalid
     | Some b \<Rightarrow>
         let path = (if soConfig o1 = [] \<and> has_config (files_of d) b then ibConfig b else soConfig o1)
         in and_then (if path = [] then Inr zero_yaml
                      else (case load_replay_config E (files_of d) decode path of Inl e \<Rightarrow> Inl (ConfigRefused e) | Inr y \<Rightarrow> Inr y))
              (\<lambda>y. let o2 = with_config y o1 in
               and_then (fail_if (soHttps o2 \<and> \<not> authority) AuthorityFailed) (\<lambda>_.
               and_then (case d (ibOutbound b) of
                           Missing \<Rightarrow> Inr []
                         | Unreadable \<Rightarrow> Inl OutboundUnreadable
                         | Bytes s \<Rightarrow> (case logged s of None \<Rightarrow> Inl OutboundUnreadable | Some es \<Rightarrow> Inr es)) (\<lambda>es.
               and_then (case new_proxy E es [] (ryMatching y) (ryScenarios y) (ryTemplates y)
                                (if soHttps o2 then Some (soAllowHosts o2) else None) of
                           Inl e \<Rightarrow> Inl (StubRefused e) | Inr p \<Rightarrow> Inr p) (\<lambda>p.
               and_then (hash_files E d (hashed_files b)) (\<lambda>h.
               and_then (if path = [] then Inr [] else hash_files E d [path]) (\<lambda>c.
               Inr \<lparr>svOptions = o2, svStub = p,
                    svProof = \<lparr>pfVersion = 1, pfIncidentHash = h, pfConfigHash = c, pfSemanticHash = [], pfStartedAt = now,
                               pfSnapshot = \<lparr>snExpected = 0, snObserved = 0, snDivergences = [], snUnexpected = False\<rparr>\<rparr>\<rparr>)))))))"

section \<open>Control interface\<close>

datatype control_reply = StatusReply string | SnapshotReply snapshot | ProofReply proof_record | NotFound | MethodNotAllowed

text \<open>The JSON of the hashed structure is a parameter.\<close>

definition make_proof :: "go_env \<Rightarrow> (proof_record \<Rightarrow> string) \<Rightarrow> server \<Rightarrow> proof_record" where
  "make_proof E encode s =
     (let p = (svProof s)\<lparr>pfSnapshot := snapshot_of (svStub s)\<rparr> in p\<lparr>pfSemanticHash := hex_encode (gSha256 E (encode p))\<rparr>)"

definition control_paths :: "string list" where
  "control_paths = [''/healthz'', ''/__infernosim/healthz'', ''/__infernosim/status'', ''/__infernosim/reset'', ''/__infernosim/proof'']"

definition control :: "go_env \<Rightarrow> (proof_record \<Rightarrow> string) \<Rightarrow> string \<Rightarrow> string \<Rightarrow> server \<Rightarrow> control_reply \<times> server" where
  "control E encode verb path s =
     (let get = verb = ''GET'' \<or> verb = ''HEAD'' in
      if path \<notin> set control_paths then (NotFound, s)
      else if path = ''/__infernosim/reset''
        then (if verb = ''POST'' then (StatusReply ''reset'', s\<lparr>svStub := reset_proxy (svStub s)\<rparr>) else (MethodNotAllowed, s))
      else if \<not> get then (MethodNotAllowed, s)
      else if path = ''/__infernosim/status'' then (SnapshotReply (snapshot_of (svStub s)), s)
      else if path = ''/__infernosim/proof'' then (ProofReply (make_proof E encode s), s)
      else (StatusReply ''ready'', s))"

section \<open>Sessions\<close>

text \<open>What a running simulator is asked: dependency calls on one address, control requests on the other.\<close>

datatype server_call = Dependency "request \<times> string option" | Control string string

datatype server_reply = Answered outcome | Controlled control_reply

definition server_step :: "go_env \<Rightarrow> (proof_record \<Rightarrow> string) \<Rightarrow> server \<Rightarrow> server_call \<Rightarrow> server_reply \<times> server" where
  "server_step E encode s c =
     (case c of
        Dependency rb \<Rightarrow> (case serve E (svStub s) rb of (out, p) \<Rightarrow> (Answered out, s\<lparr>svStub := p\<rparr>))
      | Control verb path \<Rightarrow> (case control E encode verb path s of (r, s') \<Rightarrow> (Controlled r, s')))"

definition reset_server :: "server \<Rightarrow> server" where
  "reset_server s = s\<lparr>svStub := reset_proxy (svStub s)\<rparr>"

lemma control_resets: "reset_server (snd (control E encode verb path s)) = reset_server s"
  by (simp add: control_def reset_server_def Let_def px.reset_reset)

interpretation sv: resettable "server_step E encode" reset_server for E encode
proof
  show "reset_server (snd (server_step E encode s c)) = reset_server s" for s c
    using px.reset_step by (auto simp: server_step_def reset_server_def control_resets [unfolded reset_server_def] split: server_call.splits prod.splits)
      (metis snd_conv, metis snd_conv control_resets reset_server_def)
  show "reset_server (reset_server s) = reset_server s" for s
    by (simp add: reset_server_def px.reset_reset)
qed

text \<open>A session that begins with a reset request is reproducible: every reply, the status and the proof with its hash
  included, depends only on the calls since the reset, not on what the simulator was asked before.\<close>

theorem proof_reproducible:
  "fst (run_all (server_step E encode) (snd (run_all (server_step E encode) s before)) (Control ''POST'' ''/__infernosim/reset'' # calls)) =
   fst (run_all (server_step E encode) s (Control ''POST'' ''/__infernosim/reset'' # calls))"
proof -
  have reset: "server_step E encode t (Control ''POST'' ''/__infernosim/reset'') = (Controlled (StatusReply ''reset''), reset_server t)" for t
    by (simp add: server_step_def control_def control_paths_def reset_server_def)
  have "fst (run_all (server_step E encode) t (Control ''POST'' ''/__infernosim/reset'' # calls)) =
      Controlled (StatusReply ''reset'') # fst (run_all (server_step E encode) (reset_server t) calls)" for t
    by (simp add: run_all_Cons reset)
  then show ?thesis by (simp only: sv.reset_run)
qed

section \<open>What the proof identifies\<close>

definition plain_file :: "disk \<Rightarrow> string \<Rightarrow> bool" where
  "plain_file d p \<longleftrightarrow> (case d (path_clean p) of Missing \<Rightarrow> True | Unreadable \<Rightarrow> False | Bytes s \<Rightarrow> chr 0 \<notin> set s)"

fun hash_parts :: "disk \<Rightarrow> string list \<Rightarrow> string list" where
  "hash_parts d [] = []"
| "hash_parts d (p # ps) = (case d (path_clean p) of Bytes s \<Rightarrow> [path_base p, s] | _ \<Rightarrow> []) @ hash_parts d ps"

lemma hash_input_parts:
  "list_all (plain_file d) ps \<Longrightarrow> list_all (\<lambda>p. chr 0 \<notin> set (path_base p)) ps \<Longrightarrow>
     (\<exists>s. hash_input d ps = Inr s \<and> split_on (chr 0) s = hash_parts d ps @ [[]])"
  by (induction d ps rule: hash_input.induct) (auto simp: plain_file_def split_on_append split: file_state.splits)

lemma hash_parts_eq:
  "list_all (plain_file d) ps \<Longrightarrow> list_all (plain_file d') ps \<Longrightarrow> distinct (map path_base ps) \<Longrightarrow>
     hash_parts d ps = hash_parts d' ps \<Longrightarrow> p \<in> set ps \<Longrightarrow> d (path_clean p) = d' (path_clean p)"
proof (induction ps)
  case (Cons q ps)
  have heads: "hash_parts e ps = x # rest \<Longrightarrow> x \<in> path_base ` set ps" for e x rest
    by (induction ps) (auto split: file_state.split_asm)
  then have other: "path_base q # rest \<noteq> hash_parts e ps" "hash_parts e ps \<noteq> path_base q # rest" for e rest
    using Cons.prems(3) by (metis distinct.simps(2) list.simps(9) set_map)+
  from Cons.prems have "hash_parts d ps = hash_parts d' ps \<and> d (path_clean q) = d' (path_clean q)"
    by (cases "d (path_clean q)"; cases "d' (path_clean q)")
      (simp_all add: plain_file_def other)
  with Cons show ?case by auto
qed simp

text \<open>What is hashed for the proof identifies the files, when none of them contains a null byte and their names differ: two
  directories give the same input exactly when the same files are there with the same bytes.\<close>

theorem hash_identifies_files:
  assumes "list_all (plain_file d) ps" and "list_all (plain_file d') ps"
    and "distinct (map path_base ps)" and "list_all (\<lambda>p. chr 0 \<notin> set (path_base p)) ps"
  shows "hash_input d ps = hash_input d' ps \<longleftrightarrow> map (\<lambda>p. d (path_clean p)) ps = map (\<lambda>p. d' (path_clean p)) ps"
proof
  assume same: "hash_input d ps = hash_input d' ps"
  from hash_input_parts [OF assms(1,4)] hash_input_parts [OF assms(2,4)] same have "hash_parts d ps = hash_parts d' ps" by auto
  with hash_parts_eq [OF assms(1,2,3)] show "map (\<lambda>p. d (path_clean p)) ps = map (\<lambda>p. d' (path_clean p)) ps" by simp
next
  show "map (\<lambda>p. d (path_clean p)) ps = map (\<lambda>p. d' (path_clean p)) ps \<Longrightarrow> hash_input d ps = hash_input d' ps"
    by (induction ps) (auto split: file_state.splits)
qed

text \<open>With a null byte two incidents have one proof, for every hash function: the records of the message log can be moved to
  the end of the outbound log.\<close>

definition proof_paths :: "string list" where
  "proof_paths = hashed_files \<lparr>ibDir = ''incident'', ibMetadata = ''incident/incident.json'', ibInbound = ''incident/inbound.log'',
     ibOutbound = ''incident/outbound.log'', ibConfig = ''incident/replay.yaml''\<rparr>"

definition disk_of :: "(string \<times> string) list \<Rightarrow> disk" where
  "disk_of fs p = (case map_of fs p of None \<Rightarrow> Missing | Some s \<Rightarrow> Bytes s)"

lemma null_byte_collision:
  "hash_files E (disk_of [(''incident/inbound.log'', ''in''), (''incident/outbound.log'', ''out''), (''incident/messages.log'', ''msg'')]) proof_paths =
   hash_files E (disk_of [(''incident/inbound.log'', ''in''),
     (''incident/outbound.log'', ''out'' @ [chr 0] @ ''messages.log'' @ [chr 0] @ ''msg'')]) proof_paths"
proof -
  have "hash_input (disk_of [(''incident/inbound.log'', ''in''), (''incident/outbound.log'', ''out''), (''incident/messages.log'', ''msg'')]) proof_paths =
    hash_input (disk_of [(''incident/inbound.log'', ''in''),
     (''incident/outbound.log'', ''out'' @ [chr 0] @ ''messages.log'' @ [chr 0] @ ''msg'')]) proof_paths"
    by code_simp
  then show ?thesis by (simp add: hash_files_def)
qed

lemma hash_identifies_files_witness:
  "hash_input (disk_of [(''incident/inbound.log'', ''in'')]) proof_paths \<noteq>
   hash_input (disk_of [(''incident/inbound.log'', ''in''), (''incident/outbound.log'', [])]) proof_paths"
proof -
  let ?d = "disk_of [(''incident/inbound.log'', ''in'')]" and ?d' = "disk_of [(''incident/inbound.log'', ''in''), (''incident/outbound.log'', [])]"
  have "list_all (plain_file ?d) proof_paths" "list_all (plain_file ?d') proof_paths" "distinct (map path_base proof_paths)"
    "list_all (\<lambda>p. chr 0 \<notin> set (path_base p)) proof_paths"
    "map (\<lambda>p. ?d (path_clean p)) proof_paths \<noteq> map (\<lambda>p. ?d' (path_clean p)) proof_paths"
    by code_simp+
  with hash_identifies_files [of ?d proof_paths ?d'] show ?thesis by simp
qed

end
