(* ===== verification/Capture.thy ===== *)
theory Capture
  imports Privacy Inject ReplayDriver CertStore
begin

text \<open>
  \<open>pkg/capture\<close> (\<open>http.go\<close>, \<open>grpc.go\<close>): what the recording proxies forward, refuse and write to the log. A body is its
  bytes, absent, or a stream that breaks; dialling, resolving names and the upstream exchange are parameters; hijacked
  connections are what the client sees of them. The two copies of a tunnel's bytes, TLS and the listeners are outside.
\<close>

section \<open>Bodies, headers and URLs for the log\<close>

datatype body = NoBody | Body string | BrokenBody

definition max_body :: nat where "max_body = 262144"

record capture_context =
  ccAllowPrivate :: bool
  ccSensitive :: bool
  ccPrivacy :: "policy option"

text \<open>\<open>peekBody\<close>: the snapshot, whether it is cut off, and what is forwarded. A stream that breaks is replaced by nothing,
  and the callers ignore the error.\<close>

definition peek_body :: "body \<Rightarrow> string \<times> bool \<times> body" where
  "peek_body b =
     (case b of
        NoBody \<Rightarrow> ([], False, NoBody)
      | BrokenBody \<Rightarrow> ([], False, NoBody)
      | Body s \<Rightarrow> (take max_body s, max_body < length s, Body s))"

definition sensitive_names :: "string list" where
  "sensitive_names = [''authorization'', ''cookie'', ''proxy-authorization'', ''set-cookie'', ''x-api-key'']"

definition headers_for_log :: "go_env \<Rightarrow> capture_context \<Rightarrow> header \<Rightarrow> header" where
  "headers_for_log E C h =
     (let out = apply_headers E (ccPrivacy C) h
      in if ccSensitive C then out
         else map (\<lambda>(n, vs). if to_lower n \<in> set sensitive_names \<and> header_rule (ccPrivacy C) n = None
                            then (n, [''[REDACTED]'']) else (n, vs)) out)"

text \<open>The payload, whether its bytes may be stored, and whether the policy changed them.\<close>

definition payload_for_log :: "go_env \<Rightarrow> capture_context \<Rightarrow> string \<Rightarrow> string \<times> bool \<times> bool" where
  "payload_for_log E C b =
     (case ccPrivacy C of
        None \<Rightarrow> (b, ccSensitive C, False)
      | Some p \<Rightarrow> (case apply_body E (Some p) b of
          None \<Rightarrow> ([], False, True)
        | Some b' \<Rightarrow> (b', ccSensitive C \<or> pyCaptureBodies p, b' \<noteq> b)))"

definition url_for_log :: "go_env \<Rightarrow> capture_context \<Rightarrow> gourl option \<Rightarrow> string" where
  "url_for_log E C u = (case u of None \<Rightarrow> [] | Some v \<Rightarrow> gUrlString E (apply_url E (ccPrivacy C) v))"

definition sha_hex :: "go_env \<Rightarrow> string \<Rightarrow> string" where
  "sha_hex E b = hex_encode (gSha256 E b)"

definition grpc_request :: "header \<Rightarrow> bool" where
  "grpc_request h \<longleftrightarrow> has_prefix (hget h ''Content-Type'') ''application/grpc''"

section \<open>The inbound proxy\<close>

record capture_request =
  cqMethod :: string
  cqURL :: "gourl option"
  cqHost :: string
  cqHeader :: header
  cqBody :: body
  cqLength :: int

record upstream_response =
  urStatus :: int
  urHeader :: header
  urTrailer :: header
  urBody :: body
  urLength :: int

definition bytes_of :: "int \<Rightarrow> string \<Rightarrow> int" where
  "bytes_of len snap = (if 0 \<le> len then len else int (length snap))"

definition request_path :: "gourl option \<Rightarrow> string" where
  "request_path u = (case u of None \<Rightarrow> [] | Some v \<Rightarrow> uPath v)"

text \<open>The fields both inbound events share; nothing is set for an empty payload.\<close>

definition with_body :: "go_env \<Rightarrow> capture_context \<Rightarrow> string \<Rightarrow> bool \<Rightarrow> event \<Rightarrow> event" where
  "with_body E C snap trunc e =
     (case payload_for_log E C snap of (payload, store, transformed) \<Rightarrow>
      if payload = [] then e
      else e\<lparr>evBodySha256 := sha_hex E payload, evBodyTruncated := trunc, evBodyRedacted := \<not> store \<or> transformed,
             evBodyB64 := (if \<not> trunc \<and> store then b64_encode payload else evBodyB64 e)\<rparr>)"

text \<open>The director: the trace header is set when it is empty, and the request is logged with that header.\<close>

definition trace_header :: string where "trace_header = ''X-Inferno-TraceID''"

definition with_trace :: "string \<Rightarrow> header \<Rightarrow> header" where
  "with_trace fresh h = (if hget h trace_header = [] then hset h trace_header fresh else h)"

definition inbound_request ::
  "go_env \<Rightarrow> capture_context \<Rightarrow> string \<Rightarrow> string \<Rightarrow> string \<Rightarrow> int \<Rightarrow> capture_request \<Rightarrow> event \<times> capture_request" where
  "inbound_request E C service fresh ident now rq =
     (let h = with_trace fresh (cqHeader rq);
          (snap, trunc, rest) = peek_body (cqBody rq);
          base = zero_event\<lparr>evID := ident, evType := ''InboundRequest'', evTimestamp := now, evService := service,
                   evMethod := cqMethod rq, evURL := url_for_log E C (cqURL rq), evHeaders := headers_for_log E C h,
                   evBodySize := cqLength rq, evTraceID := hget h trace_header\<rparr>;
          e1 = with_body E C snap trunc base;
          e2 = (if fst (payload_for_log E C snap) = [] then e1 else e1\<lparr>evBytesReceived := bytes_of (cqLength rq) snap\<rparr>);
          e3 = (if grpc_request h then e2\<lparr>evGrpcServiceMethod := request_path (cqURL rq)\<rparr> else e2)
      in (e3, rq\<lparr>cqHeader := h, cqBody := rest\<rparr>))"

definition grpc_status_of :: "upstream_response \<Rightarrow> string" where
  "grpc_status_of rs =
     (let s = hget (urHeader rs) ''Grpc-Status'' in if s = [] then hget (urTrailer rs) ''Grpc-Status'' else s)"

text \<open>\<open>ModifyResponse\<close>: the event, and the body handed on to the client; \<open>rq\<close> is the request as it was forwarded.\<close>

definition inbound_response ::
  "go_env \<Rightarrow> capture_context \<Rightarrow> string \<Rightarrow> string \<Rightarrow> string \<Rightarrow> int \<Rightarrow> capture_request \<Rightarrow> upstream_response \<Rightarrow> event \<times> body" where
  "inbound_response E C service fresh ident now rq rs =
     (let t = sanitize_trace_id (hget (cqHeader rq) trace_header);
          (snap, trunc, rest) = peek_body (urBody rs);
          base = zero_event\<lparr>evID := ident, evType := ''InboundResponse'', evTimestamp := now, evService := service,
                   evMethod := cqMethod rq, evURL := url_for_log E C (cqURL rq), evStatus := urStatus rs,
                   evTraceID := (if t = [] then fresh else t), evHeaders := headers_for_log E C (urHeader rs)\<rparr>;
          e1 = with_body E C snap trunc base;
          e2 = (if fst (payload_for_log E C snap) = [] then e1 else e1\<lparr>evBytesSent := bytes_of (urLength rs) snap\<rparr>);
          e3 = (if grpc_request (cqHeader rq)
                then e2\<lparr>evGrpcServiceMethod := request_path (cqURL rq), evGrpcStatus := grpc_status_of rs\<rparr> else e2)
      in (e3, rest))"

section \<open>Destinations\<close>

text \<open>An address is its 4 or 16 bytes; \<open>to4\<close> unwraps an IPv4 address in 16 bytes.\<close>

type_synonym ip = "nat list"

definition to4 :: "ip \<Rightarrow> nat list option" where
  "to4 a =
     (if length a = 4 then Some a
      else if length a = 16 \<and> take 12 a = replicate 10 0 @ [255, 255] then Some (drop 12 a) else None)"

definition is_loopback :: "ip \<Rightarrow> bool" where
  "is_loopback a = (case to4 a of Some b \<Rightarrow> b ! 0 = 127 | None \<Rightarrow> a = replicate 15 0 @ [1])"

definition is_link_local :: "ip \<Rightarrow> bool" where
  "is_link_local a =
     (case to4 a of Some b \<Rightarrow> b ! 0 = 169 \<and> b ! 1 = 254
      | None \<Rightarrow> length a = 16 \<and> a ! 0 = 254 \<and> 128 \<le> a ! 1 \<and> a ! 1 < 192)"

definition is_private :: "ip \<Rightarrow> bool" where
  "is_private a =
     (case to4 a of
        Some b \<Rightarrow> b ! 0 = 10 \<or> b ! 0 = 172 \<and> 16 \<le> b ! 1 \<and> b ! 1 < 32 \<or> b ! 0 = 192 \<and> b ! 1 = 168
      | None \<Rightarrow> length a = 16 \<and> 252 \<le> a ! 0 \<and> a ! 0 < 254)"

definition is_unspecified :: "ip \<Rightarrow> bool" where
  "is_unspecified a = (case to4 a of Some b \<Rightarrow> b = replicate 4 0 | None \<Rightarrow> a = replicate 16 0)"

definition is_blocked_ip :: "ip \<Rightarrow> bool" where
  "is_blocked_ip a \<longleftrightarrow> is_loopback a \<or> is_link_local a \<or> is_private a \<or> is_unspecified a"

datatype dial_error = BadDestination | Unresolved string | DialFailed string | OnlyBlocked "ip list" | NoAddresses

text \<open>The addresses in turn: the dials made, the addresses left out, and the connection or the last error.\<close>

fun dial_each ::
  "(ip \<Rightarrow> string \<Rightarrow> string option) \<Rightarrow> bool \<Rightarrow> string \<Rightarrow> ip list \<Rightarrow> ip list \<Rightarrow> string option \<Rightarrow>
   ip list \<times> (dial_error, ip) result" where
  "dial_each dial allow port [] skipped err =
     ([], (case err of
             None \<Rightarrow> if skipped \<noteq> [] then Inl (OnlyBlocked skipped) else Inl NoAddresses
           | Some e \<Rightarrow> Inl (DialFailed e)))"
| "dial_each dial allow port (a # as) skipped err =
     (if \<not> allow \<and> is_blocked_ip a then dial_each dial allow port as (skipped @ [a]) err
      else (case dial a port of
              None \<Rightarrow> ([a], Inr a)
            | Some e \<Rightarrow> (case dial_each dial allow port as skipped (Some e) of (tried, r) \<Rightarrow> (a # tried, r))))"

text \<open>\<open>dialDestination\<close>: the addresses dialled and the result.\<close>

definition dial_destination ::
  "(string \<Rightarrow> (string, ip list) result) \<Rightarrow> (ip \<Rightarrow> string \<Rightarrow> string option) \<Rightarrow> string \<Rightarrow> string \<Rightarrow> bool \<Rightarrow>
   ip list \<times> (dial_error, ip) result" where
  "dial_destination resolve dial address default_port allow =
     (case (case split_host_port address of Some hp \<Rightarrow> hp | None \<Rightarrow> (trim_brackets address, default_port)) of (host, port) \<Rightarrow>
      if host = [] \<or> port = [] then ([], Inl BadDestination)
      else (case resolve host of
              Inl e \<Rightarrow> ([], Inl (Unresolved e))
            | Inr as \<Rightarrow> dial_each dial allow port as [] None))"

section \<open>The forward proxy\<close>

record out_request =
  oqMethod :: string
  oqURL :: gourl
  oqHeader :: header
  oqBody :: body

datatype client_view =
    ConnectionClosed | StatusOnly int | ErrorReply int | Relayed int header header body | Aborted | TunnelOpen

record handled =
  hdSlept :: int
  hdView :: client_view
  hdSent :: "out_request option"
  hdLogged :: "event list"

definition hdel :: "header \<Rightarrow> string \<Rightarrow> header" where
  "hdel h k = AList.delete (canonical_key k) h"

text \<open>The headers of the request sent on: proxy headers, those the first Connection header names, and the hop-by-hop ones
  are removed.\<close>

definition forwarded_headers :: "header \<Rightarrow> header" where
  "forwarded_headers h0 =
     (let h1 = foldl hdel h0 [''Proxy-Connection'', ''Proxy-Authenticate'', ''Proxy-Authorization''];
          h2 = foldl hdel h1 (map trim_space (split_on (CHR '','') (hget h1 ''Connection'')))
      in foldl hdel h2 [''Connection'', ''Keep-Alive'', ''Transfer-Encoding'', ''Upgrade'', ''Trailer'', ''TE''])"

definition absolute_url :: "string \<Rightarrow> gourl \<Rightarrow> gourl" where
  "absolute_url host u = (if uScheme u = [] then u\<lparr>uScheme := ''http'', uHost := host\<rparr> else u)"

text \<open>\<open>copyResponse\<close>: the headers the client sees; the Connection header is not copied, trailers are announced.\<close>

definition relayed_header :: "upstream_response \<Rightarrow> header" where
  "relayed_header rs =
     foldl (\<lambda>h t. hadd h ''Trailer'' (fst t))
       (foldl (\<lambda>h (k, vs). if to_lower k = ''connection'' then h else foldl (\<lambda>g v. hadd g k v) h vs) [] (urHeader rs))
       (urTrailer rs)"

text \<open>The event of a forwarded request; the times are those of the clock.\<close>

definition outbound_event ::
  "go_env \<Rightarrow> capture_context \<Rightarrow> string \<Rightarrow> int \<Rightarrow> int \<Rightarrow> string \<Rightarrow> capture_request \<Rightarrow> gourl \<Rightarrow>
   (string, upstream_response) result \<Rightarrow> event" where
  "outbound_event E C ident start took applied rq u res =
     (let (qsnap, qtrunc, qrest) = peek_body (cqBody rq);
          (rsnap, rtrunc, rrest) = (case res of Inl e \<Rightarrow> ([], False, NoBody) | Inr rs \<Rightarrow> peek_body (urBody rs));
          (qpay, qstore, qchanged) = payload_for_log E C qsnap;
          (rpay, rstore, rchanged) = payload_for_log E C rsnap;
          err = (case res of Inl e \<Rightarrow> e | Inr rs \<Rightarrow> []);
          base = zero_event\<lparr>evID := ident, evType := ''OutboundCall'', evTimestamp := start, evMethod := cqMethod rq,
                   evURL := url_for_log E C (Some u), evHeaders := headers_for_log E C (cqHeader rq), evBodySize := cqLength rq,
                   evStatus := (case res of Inl e \<Rightarrow> 0 | Inr rs \<Rightarrow> urStatus rs), evDuration := took,
                   evInjectionApplied := applied, evResponseBodyTruncated := rtrunc, evError := err, evBodyTruncated := qtrunc\<rparr>;
          e1 = (if qpay = [] then base
                else base\<lparr>evBodySha256 := sha_hex E qpay, evBodyRedacted := \<not> qstore \<or> qchanged,
                          evBodyB64 := (if \<not> qtrunc \<and> qstore then b64_encode qpay else []),
                          evBytesSent := bytes_of (cqLength rq) qsnap\<rparr>);
          e2 = (case res of
                  Inl e \<Rightarrow> e1
                | Inr rs \<Rightarrow>
                    if rpay = [] then e1
                    else e1\<lparr>evBytesReceived := bytes_of (urLength rs) rsnap, evResponseBodySha256 := sha_hex E rpay,
                            evResponseBodyRedacted := \<not> rstore \<or> rchanged,
                            evResponseBodyB64 := (if rstore \<and> \<not> rtrunc then b64_encode rpay else [])\<rparr>);
          e3 = (case res of
                  Inl e \<Rightarrow> e2
                | Inr rs \<Rightarrow> e2\<lparr>evResponseHeaders := headers_for_log E C (urHeader rs),
                              evResponseTrailers := headers_for_log E C (urTrailer rs), evResponseCaptured := True\<rparr>)
      in if grpc_request (cqHeader rq)
         then e3\<lparr>evGrpcServiceMethod := uPath u, evGrpcStatus := (case res of Inl e \<Rightarrow> [] | Inr rs \<Rightarrow> grpc_status_of rs)\<rparr>
         else e3)"

text \<open>\<open>handleHTTP\<close>. A response whose body breaks while it is read ahead leaves a nil body, and copying it panics. An error of
  the upstream has a text. \<open>hijack\<close> tells whether the connection can be taken over (it cannot with HTTP/2); \<open>upstream\<close> is
  the exchange with the service.\<close>

definition handle_http ::
  "go_env \<Rightarrow> capture_context \<Rightarrow> bool \<Rightarrow> string \<Rightarrow> int \<Rightarrow> int \<Rightarrow> (out_request \<Rightarrow> (string, upstream_response) result) \<Rightarrow>
   action \<Rightarrow> capture_request \<Rightarrow> handled" where
  "handle_http E C hijack ident start took upstream act rq =
     (let slept = (if 0 < acDelay act then acDelay act else 0);
          reply = (\<lambda>v sent es. \<lparr>hdSlept = slept, hdView = v, hdSent = sent, hdLogged = es\<rparr>)
      in if (acDrop act \<or> acReset act) \<and> hijack then reply ConnectionClosed None []
         else if 0 < acStatus act then
           reply (StatusOnly (acStatus act)) None
             [zero_event\<lparr>evID := ident, evType := ''OutboundCall'', evTimestamp := start, evMethod := cqMethod rq,
                evURL := (case cqURL rq of None \<Rightarrow> [] | Some u \<Rightarrow> gUrlString E u), evStatus := acStatus act, evDuration := took,
                evInjectionApplied := acApplied act\<rparr>]
         else (case cqURL rq of
             None \<Rightarrow> reply (ErrorReply 400) None []
           | Some u0 \<Rightarrow>
               let u = absolute_url (cqHost rq) u0
               in case gUrlParse E (gUrlString E u) of
                    None \<Rightarrow> reply (ErrorReply 502) None []
                  | Some target \<Rightarrow>
                      let out = \<lparr>oqMethod = cqMethod rq, oqURL = target, oqHeader = forwarded_headers (cqHeader rq),
                                 oqBody = (case peek_body (cqBody rq) of (snap, trunc, rest) \<Rightarrow> rest)\<rparr>;
                          res = upstream out;
                          logged = outbound_event E C ident start took (acApplied act) rq u res
                      in case res of
                           Inl e \<Rightarrow> reply (ErrorReply 502) (Some out) [logged]
                         | Inr rs \<Rightarrow>
                             if urBody rs = BrokenBody then reply Aborted (Some out) []
                             else reply (Relayed (urStatus rs) (relayed_header rs) (urTrailer rs) (urBody rs)) (Some out) [logged]))"

text \<open>\<open>logEventTunnel\<close>.\<close>

definition tunnel_event :: "string \<Rightarrow> int \<Rightarrow> int \<Rightarrow> string \<Rightarrow> int \<Rightarrow> string \<Rightarrow> string \<Rightarrow> event" where
  "tunnel_event ident now took dest status applied err =
     zero_event\<lparr>evID := ident, evType := ''OutboundCall'', evTimestamp := now, evMethod := ''CONNECT'', evURL := dest,
       evStatus := status, evDuration := took, evInjectionApplied := applied, evError := err\<rparr>"

text \<open>\<open>tunnelConnect\<close>, up to the copying of bytes. The texts of dial errors are a parameter; \<open>written\<close> is the error of
  writing the reply, if any.\<close>

definition tunnel_connect ::
  "(dial_error \<Rightarrow> string) \<Rightarrow> (string \<Rightarrow> (string, ip list) result) \<Rightarrow> (ip \<Rightarrow> string \<Rightarrow> string option) \<Rightarrow> capture_context \<Rightarrow>
   bool \<Rightarrow> string option \<Rightarrow> string option \<Rightarrow> string \<Rightarrow> int \<Rightarrow> int \<Rightarrow> action \<Rightarrow> string \<Rightarrow> handled \<times> ip list" where
  "tunnel_connect text resolve dial C hijack hijack_error written ident now took act dest =
     (let slept = (if 0 < acDelay act then acDelay act else 0);
          reply = (\<lambda>v status err. \<lparr>hdSlept = slept, hdView = v, hdSent = None,
                     hdLogged = [tunnel_event ident now took dest status (acApplied act) err]\<rparr>)
      in if acDrop act \<or> acReset act then (reply (ErrorReply 503) 0 ''Injected drop/reset'', [])
         else (case dial_destination resolve dial dest ''443'' (ccAllowPrivate C) of
             (tried, Inl e) \<Rightarrow> (reply (ErrorReply 503) 0 (text e), tried)
           | (tried, Inr a) \<Rightarrow>
               if \<not> hijack then (reply (ErrorReply 500) 500 ''Hijack failed'', tried)
               else (case hijack_error of
                   Some e \<Rightarrow> (reply ConnectionClosed 500 e, tried)
                 | None \<Rightarrow> (case written of
                     Some e \<Rightarrow> (reply ConnectionClosed 0 e, tried)
                   | None \<Rightarrow> (reply TunnelOpen 200 [], tried)))))"

text \<open>\<open>mitmConnect\<close> up to the handshake: only a host on the list gets a certificate.\<close>

definition mitm_connect ::
  "string list \<Rightarrow> bool \<Rightarrow> bool \<Rightarrow> string \<Rightarrow> int \<Rightarrow> int \<Rightarrow> string \<Rightarrow> handled" where
  "mitm_connect hosts hijack established ident now took dest =
     (let host = (case split_host_port dest of Some (h, p) \<Rightarrow> h | None \<Rightarrow> dest);
          reply = (\<lambda>v es. \<lparr>hdSlept = 0, hdView = v, hdSent = None, hdLogged = es\<rparr>)
      in if \<not> is_allowed hosts host then reply (ErrorReply 403) []
         else if \<not> hijack then reply (ErrorReply 500) []
         else if \<not> established then reply ConnectionClosed []
         else reply TunnelOpen [tunnel_event ident now took dest 200 [] ''MITM Tunnel Established''])"

text \<open>Requests inside an intercepted connection: the destination is the one of the CONNECT, private addresses are allowed.\<close>

definition intercepted :: "string \<Rightarrow> capture_context \<Rightarrow> capture_request \<Rightarrow> capture_context \<times> capture_request" where
  "intercepted dest C rq =
     (C\<lparr>ccAllowPrivate := True\<rparr>, rq\<lparr>cqURL := map_option (\<lambda>u. u\<lparr>uScheme := ''https'', uHost := dest\<rparr>) (cqURL rq)\<rparr>)"

text \<open>\<open>StartForwardProxy\<close>: which handler takes a request.\<close>

datatype forward_route = ToMitm | ToTunnel | ToHttp

definition forward_route_of :: "bool \<Rightarrow> bool \<Rightarrow> string \<Rightarrow> forward_route" where
  "forward_route_of use_mitm has_ca m = (if m = ''CONNECT'' then if use_mitm \<and> has_ca then ToMitm else ToTunnel else ToHttp)"

text \<open>\<open>CaptureGRPCInbound\<close> and \<open>CaptureGRPCOutbound\<close>: the headers are logged as they are.\<close>

definition grpc_inbound_event :: "string \<Rightarrow> int \<Rightarrow> string \<Rightarrow> string \<Rightarrow> header \<Rightarrow> event" where
  "grpc_inbound_event ident now m path h =
     zero_event\<lparr>evID := ident, evType := ''InboundGRPC'', evTimestamp := now, evMethod := m, evURL := path, evHeaders := h\<rparr>"

definition grpc_outbound_event :: "string \<Rightarrow> int \<Rightarrow> int \<Rightarrow> string \<Rightarrow> int \<Rightarrow> event" where
  "grpc_outbound_event ident start took target status =
     zero_event\<lparr>evID := ident, evType := ''OutboundGRPC'', evTimestamp := start, evURL := target, evStatus := status,
       evDuration := took\<rparr>"

section \<open>Destinations are checked\<close>

definition admissible_ip :: "bool \<Rightarrow> ip \<Rightarrow> bool" where
  "admissible_ip allow a \<longleftrightarrow> allow \<or> \<not> is_blocked_ip a"

definition answering :: "(ip \<Rightarrow> string \<Rightarrow> string option) \<Rightarrow> string \<Rightarrow> ip \<Rightarrow> bool" where
  "answering dial port a \<longleftrightarrow> dial a port = None"

lemma dial_each_tried:
  "fst (dial_each dial allow port as skipped err) =
     takeWhile (\<lambda>a. \<not> answering dial port a) (filter (admissible_ip allow) as) @
     (case List.find (answering dial port) (filter (admissible_ip allow) as) of None \<Rightarrow> [] | Some a \<Rightarrow> [a])"
proof (induction as arbitrary: skipped err)
  case (Cons b as)
  show ?case using Cons.IH by (cases allow; cases "dial b port") (simp_all add: admissible_ip_def answering_def case_prod_beta)
qed simp

lemma dial_each_result:
  "snd (dial_each dial allow port as skipped err) = Inr a \<longleftrightarrow>
     List.find (answering dial port) (filter (admissible_ip allow) as) = Some a"
proof (induction as arbitrary: skipped err)
  case (Cons b as)
  show ?case using Cons.IH by (cases allow; cases "dial b port") (simp_all add: admissible_ip_def answering_def case_prod_beta)
qed (simp split: option.splits)

text \<open>C13. The proxy dials the addresses of the resolved name that are not local, private or unspecified, in order and up to the
  first that answers; a refused address is never dialled, and the connection is made exactly when one of the others
  answers. The dialled address is the one that was checked.\<close>

theorem dialled_addresses_exact:
  "case dial_destination resolve dial address port0 allow of (tried, r) \<Rightarrow>
     list_all (admissible_ip allow) tried \<and>
     (case (case split_host_port address of Some hp \<Rightarrow> hp | None \<Rightarrow> (trim_brackets address, port0)) of (host, port) \<Rightarrow>
      case resolve host of
        Inl e \<Rightarrow> tried = [] \<and> \<not> is_ok r
      | Inr as \<Rightarrow>
          if host = [] \<or> port = [] then tried = [] \<and> r = Inl BadDestination
          else tried = takeWhile (\<lambda>a. \<not> answering dial port a) (filter (admissible_ip allow) as) @
                 (case List.find (answering dial port) (filter (admissible_ip allow) as) of None \<Rightarrow> [] | Some a \<Rightarrow> [a]) \<and>
               (case List.find (answering dial port) (filter (admissible_ip allow) as) of
                  None \<Rightarrow> \<not> is_ok r | Some a \<Rightarrow> r = Inr a))"
proof -
  obtain host port where hp: "(case split_host_port address of Some hp \<Rightarrow> hp | None \<Rightarrow> (trim_brackets address, port0)) = (host, port)"
    by (cases "case split_host_port address of Some hp \<Rightarrow> hp | None \<Rightarrow> (trim_brackets address, port0)") auto
  show ?thesis
  proof (cases "host = [] \<or> port = []")
    case True
    then show ?thesis by (auto simp: dial_destination_def hp split: sum.splits)
  next
    case named: False
    show ?thesis
    proof (cases "resolve host")
      case (Inl e)
      with named show ?thesis by (simp add: dial_destination_def hp)
    next
      case (Inr as)
      let ?fs = "filter (admissible_ip allow) as"
      obtain tried r where t: "dial_each dial allow port as [] None = (tried, r)" by (cases "dial_each dial allow port as [] None")
      then have tried: "tried = takeWhile (\<lambda>a. \<not> answering dial port a) ?fs @
          (case List.find (answering dial port) ?fs of None \<Rightarrow> [] | Some a \<Rightarrow> [a])"
        and r: "r = Inr a \<longleftrightarrow> List.find (answering dial port) ?fs = Some a" for a
        using dial_each_tried [of dial allow port as "[]" None] dial_each_result [of dial allow port as "[]" None] by auto
      have "list_all (admissible_ip allow) tried"
        unfolding tried by (auto simp: list_all_iff dest: set_takeWhileD dest!: find_mem find_mem [OF sym] split: option.splits)
      moreover have "case List.find (answering dial port) ?fs of None \<Rightarrow> \<not> is_ok r | Some a \<Rightarrow> r = Inr a"
        using r by (cases r) (auto split: option.splits)
      ultimately show ?thesis using named Inr t tried by (simp add: dial_destination_def hp)
    qed
  qed
qed

text \<open>An IPv4 address written in 16 bytes is refused as well.\<close>

lemma mapped_loopback_blocked: "is_blocked_ip (replicate 10 0 @ [255, 255, 127, 0, 0, 1])"
  by code_simp

section \<open>What is logged\<close>

text \<open>Unless raw data is asked for, an event shows no value of a sensitive header the policy has no rule for, and stores bytes
  of a body only when a policy permits it.\<close>

definition discreet_header :: "capture_context \<Rightarrow> header \<Rightarrow> bool" where
  "discreet_header C h \<longleftrightarrow>
     list_all (\<lambda>(n, vs). to_lower n \<in> set sensitive_names \<longrightarrow> header_rule (ccPrivacy C) n = None \<longrightarrow> vs = [''[REDACTED]'']) h"

definition bodies_permitted :: "capture_context \<Rightarrow> bool" where
  "bodies_permitted C \<longleftrightarrow> (case ccPrivacy C of None \<Rightarrow> False | Some p \<Rightarrow> pyCaptureBodies p)"

definition discreet :: "capture_context \<Rightarrow> event \<Rightarrow> bool" where
  "discreet C e \<longleftrightarrow>
     discreet_header C (evHeaders e) \<and> discreet_header C (evResponseHeaders e) \<and> discreet_header C (evResponseTrailers e) \<and>
     (\<not> bodies_permitted C \<longrightarrow> evBodyB64 e = [] \<and> evResponseBodyB64 e = [])"

lemma headers_for_log_discreet: "\<not> ccSensitive C \<Longrightarrow> discreet_header C (headers_for_log E C h)"
  by (auto simp: discreet_header_def headers_for_log_def list_all_iff split: if_split_asm)

lemma discreet_empty [simp]: "discreet_header C []" "discreet C zero_event"
  by (simp_all add: discreet_header_def discreet_def zero_event_def)

lemma payload_not_stored: "\<not> ccSensitive C \<Longrightarrow> \<not> bodies_permitted C \<Longrightarrow> \<not> fst (snd (payload_for_log E C b))"
  by (auto simp: payload_for_log_def bodies_permitted_def split: option.splits)

lemma with_body_discreet:
  assumes "\<not> ccSensitive C" and "discreet C e"
  shows "discreet C (with_body E C snap trunc e)"
  using assms payload_not_stored [OF assms(1), of E snap]
  by (auto simp: with_body_def discreet_def split: prod.splits)

lemma payload_stored: "payload_for_log E C b = (p, True, t) \<Longrightarrow> \<not> ccSensitive C \<Longrightarrow> bodies_permitted C"
  using payload_not_stored [of C E b] by auto

lemma outbound_event_discreet:
  assumes "\<not> ccSensitive C"
  shows "discreet C (outbound_event E C ident start took applied rq u res)"
proof -
  obtain qsnap qtrunc qrest where q: "peek_body (cqBody rq) = (qsnap, qtrunc, qrest)" by (rule prod_cases3)
  obtain qpay qstore qchanged where qp: "payload_for_log E C qsnap = (qpay, qstore, qchanged)" by (rule prod_cases3)
  have qs: "qstore \<Longrightarrow> bodies_permitted C" using payload_stored qp assms by simp
  show ?thesis
  proof (cases res)
    case (Inl e)
    obtain rpay rstore rchanged where "payload_for_log E C [] = (rpay, rstore, rchanged)" by (rule prod_cases3)
    with q qp qs Inl headers_for_log_discreet [OF assms, of E] show ?thesis
      by (simp add: outbound_event_def discreet_def zero_event_def Let_def)
  next
    case (Inr rs)
    obtain rsnap rtrunc rrest where r: "peek_body (urBody rs) = (rsnap, rtrunc, rrest)" by (rule prod_cases3)
    obtain rpay rstore rchanged where rp: "payload_for_log E C rsnap = (rpay, rstore, rchanged)" by (rule prod_cases3)
    have "rstore \<Longrightarrow> bodies_permitted C" using payload_stored rp assms by simp
    with q qp qs r rp Inr headers_for_log_discreet [OF assms, of E] show ?thesis
      by (simp add: outbound_event_def discreet_def zero_event_def Let_def)
  qed
qed


lemma inbound_request_discreet:
  assumes "\<not> ccSensitive C"
  shows "discreet C (fst (inbound_request E C service fresh ident now rq))"
proof -
  obtain snap trunc rest where q: "peek_body (cqBody rq) = (snap, trunc, rest)" by (rule prod_cases3)
  let ?h = "with_trace fresh (cqHeader rq)"
  let ?base = "zero_event\<lparr>evID := ident, evType := ''InboundRequest'', evTimestamp := now, evService := service,
                 evMethod := cqMethod rq, evURL := url_for_log E C (cqURL rq), evHeaders := headers_for_log E C ?h,
                 evBodySize := cqLength rq, evTraceID := hget ?h trace_header\<rparr>"
  have "discreet C ?base" using headers_for_log_discreet [OF assms] by (simp add: discreet_def zero_event_def)
  then have "discreet C (with_body E C snap trunc ?base)" by (rule with_body_discreet [OF assms])
  then show ?thesis by (simp add: inbound_request_def q Let_def discreet_def)
qed

lemma inbound_response_discreet:
  assumes "\<not> ccSensitive C"
  shows "discreet C (fst (inbound_response E C service fresh ident now rq rs))"
proof -
  obtain snap trunc rest where q: "peek_body (urBody rs) = (snap, trunc, rest)" by (rule prod_cases3)
  let ?t = "sanitize_trace_id (hget (cqHeader rq) trace_header)"
  let ?base = "zero_event\<lparr>evID := ident, evType := ''InboundResponse'', evTimestamp := now, evService := service,
                 evMethod := cqMethod rq, evURL := url_for_log E C (cqURL rq), evStatus := urStatus rs,
                 evTraceID := (if ?t = [] then fresh else ?t), evHeaders := headers_for_log E C (urHeader rs)\<rparr>"
  have "discreet C ?base" using headers_for_log_discreet [OF assms] by (simp add: discreet_def zero_event_def)
  then have "discreet C (with_body E C snap trunc ?base)" by (rule with_body_discreet [OF assms])
  then show ?thesis by (simp add: inbound_response_def q Let_def discreet_def)
qed

lemma handle_http_discreet:
  assumes "\<not> ccSensitive C"
  shows "list_all (discreet C) (hdLogged (handle_http E C hijack ident start took upstream act rq))"
proof -
  have "discreet C (zero_event\<lparr>evID := a, evType := b, evTimestamp := c, evMethod := d, evURL := f, evStatus := g,
          evDuration := h, evInjectionApplied := i\<rparr>)" for a b c d f g h i
    by (simp add: discreet_def zero_event_def)
  then show ?thesis
    using outbound_event_discreet [OF assms] by (simp add: handle_http_def Let_def split: option.split sum.split)
qed

text \<open>C12. Unless the proxy is told to capture raw data, none of its events shows the value of a credential header that the
  privacy policy has no rule for, and none stores bytes of a body without a policy that permits it: for the requests and
  responses of the inbound proxy, those of the forward proxy and those inside an intercepted connection.\<close>

theorem secrets_never_logged:
  assumes "\<not> ccSensitive C"
  shows "discreet C (fst (inbound_request E C service fresh ident now rq)) \<and>
         discreet C (fst (inbound_response E C service fresh ident now rq rs)) \<and>
         list_all (discreet C) (hdLogged (handle_http E C hijack ident now took upstream act rq)) \<and>
         (case intercepted dest C rq of (C', rq') \<Rightarrow>
            list_all (discreet C) (hdLogged (handle_http E C' hijack ident now took upstream act rq')))"
proof -
  have "discreet (C\<lparr>ccAllowPrivate := True\<rparr>) = discreet C"
    by (simp add: fun_eq_iff discreet_def discreet_header_def bodies_permitted_def)
  then show ?thesis
    using assms inbound_request_discreet inbound_response_discreet handle_http_discreet [of C]
      handle_http_discreet [of "C\<lparr>ccAllowPrivate := True\<rparr>"]
    by (simp add: intercepted_def)
qed


text \<open>A proxy without a policy, and a request that carries a credential.\<close>

definition plain_context :: capture_context where
  "plain_context = \<lparr>ccAllowPrivate = False, ccSensitive = False, ccPrivacy = None\<rparr>"

definition login_request :: capture_request where
  "login_request = \<lparr>cqMethod = ''POST'', cqURL = simple_url ''http://api/login?'', cqHost = ''api'',
     cqHeader = [(''Authorization'', [''Bearer s3cret'']), (''Accept'', [''*/*''])], cqBody = Body ''pw=1'', cqLength = 4\<rparr>"

definition login_response :: upstream_response where
  "login_response = \<lparr>urStatus = 200, urHeader = [(''Set-Cookie'', [''sid=1''])], urTrailer = [], urBody = Body ''ok'', urLength = 2\<rparr>"

theorem secrets_never_logged_witness:
  "list_all (discreet plain_context)
     (hdLogged (handle_http example_env plain_context True ''e1'' 7 3 (\<lambda>_. Inr login_response)
        \<lparr>acDelay = 0, acDrop = False, acReset = False, acStatus = 0, acApplied = []\<rparr> login_request)) \<and>
   map evHeaders (hdLogged (handle_http example_env plain_context True ''e1'' 7 3 (\<lambda>_. Inr login_response)
        \<lparr>acDelay = 0, acDrop = False, acReset = False, acStatus = 0, acApplied = []\<rparr> login_request)) =
     [[(''Authorization'', [''[REDACTED]'']), (''Accept'', [''*/*''])]]"
proof
  show "list_all (discreet plain_context)
     (hdLogged (handle_http example_env plain_context True ''e1'' 7 3 (\<lambda>_. Inr login_response)
        \<lparr>acDelay = 0, acDrop = False, acReset = False, acStatus = 0, acApplied = []\<rparr> login_request))"
    using secrets_never_logged [of plain_context] by (simp add: plain_context_def)
qed code_simp

section \<open>Recorded exchanges\<close>

lemma with_body_keeps [simp]: "evTraceID (with_body E C s t e) = evTraceID e" "evType (with_body E C s t e) = evType e"
  by (simp_all add: with_body_def split: prod.split)

lemma inbound_request_event:
  "evTraceID (fst (inbound_request E C service fresh ident now rq)) = hget (with_trace fresh (cqHeader rq)) trace_header"
  "evType (fst (inbound_request E C service fresh ident now rq)) = ''InboundRequest''"
  "cqHeader (snd (inbound_request E C service fresh ident now rq)) = with_trace fresh (cqHeader rq)"
  by (simp_all add: inbound_request_def zero_event_def Let_def split: prod.split)

lemma inbound_response_event:
  "evTraceID (fst (inbound_response E C service fresh ident now rq rs)) =
     (let t = sanitize_trace_id (hget (cqHeader rq) trace_header) in if t = [] then fresh else t)"
  "evType (fst (inbound_response E C service fresh ident now rq rs)) = ''InboundResponse''"
  by (simp_all add: inbound_response_def zero_event_def Let_def split: prod.split)

lemma hget_hset [simp]: "hget (hset h k v) k = v"
  by (simp add: hget_def hset_def hvalues_def update_conv')

lemma sanitize_fresh: "length r = 16 \<Longrightarrow> sanitize_trace_id (hex_encode r) = hex_encode r \<and> hex_encode r \<noteq> []"
  using length_hex_encode [of r] by (auto simp: sanitize_trace_id_def hex_encode_is_hex simp del: length_hex_encode)

lemma sanitize_idem [simp]: "sanitize_trace_id (sanitize_trace_id t) = sanitize_trace_id t"
  by (simp add: sanitize_trace_id_def)

lemma response_trace_well_formed:
  assumes "length r = 16"
  shows "sanitize_trace_id (evTraceID (fst (inbound_response E C service (hex_encode r) ident now rq rs))) \<noteq> []"
  using sanitize_fresh [OF assms] by (simp add: inbound_response_event Let_def)

definition well_traced :: "header \<Rightarrow> bool" where
  "well_traced h \<longleftrightarrow> hget h trace_header = [] \<or> sanitize_trace_id (hget h trace_header) \<noteq> []"


lemma last_response_here:
  assumes "evType e = ''InboundResponse''" and "evTraceID e = t" and "t \<noteq> []"
  shows "last_response (xs @ [e]) t = Some e"
  using assms by (simp add: last_response_def)

text \<open>C14. A recorded exchange can be loaded for replay: whatever other events lie before the request and between it and its
  response, the loaded request carries its own response, provided the client sent no trace header or a well-formed one.
  With any other trace header the request is logged under the raw value while every response is logged under a
  well-formed one, so that it is paired with no response at all.\<close>

theorem exchange_loads:
  assumes "length ra = 16" and "length rb = 16"
  shows "case inbound_request E C service (hex_encode ra) i1 t1 rq of (e1, sent) \<Rightarrow>
           case inbound_response E C service (hex_encode rb) i2 t2 sent rs of (e2, body) \<Rightarrow>
             if well_traced (cqHeader rq) then with_response e1 e2 \<in> set (load_inbound (xs @ e1 # ys @ [e2]))
             else evTraceID e1 \<noteq> evTraceID (fst (inbound_response E C service (hex_encode rb) i3 t3 other rs3))"
proof -
  obtain e1 sent where q: "inbound_request E C service (hex_encode ra) i1 t1 rq = (e1, sent)" by fastforce
  obtain e2 body where p: "inbound_response E C service (hex_encode rb) i2 t2 sent rs = (e2, body)" by fastforce
  note requests = inbound_request_event [of E C service "hex_encode ra" i1 t1 rq, unfolded q, simplified]
  note responses = inbound_response_event [of E C service "hex_encode rb" i2 t2 sent rs, unfolded p, simplified]
  note fresh = sanitize_fresh [OF assms(1)] sanitize_fresh [OF assms(2)]
  show ?thesis
  proof (cases "well_traced (cqHeader rq)")
    case True
    then have t: "sanitize_trace_id (evTraceID e1) \<noteq> []"
      using fresh by (auto simp: requests with_trace_def well_traced_def)
    then have same: "evTraceID e2 = evTraceID e1" and some: "evTraceID e1 \<noteq> []"
      by (auto simp: responses requests Let_def sanitize_trace_id_def split: if_split_asm)
    have "last_response (xs @ e1 # ys @ [e2]) (evTraceID e1) = Some e2"
      using last_response_here [of e2 "evTraceID e1" "xs @ e1 # ys"] same some responses by simp
    then have "pair_response (inbound_responses (xs @ e1 # ys @ [e2])) e1 = with_response e1 e2"
      by (simp add: pair_response_last)
    then have "with_response e1 e2 \<in> pair_response (inbound_responses (xs @ e1 # ys @ [e2])) ` set (inbound_requests (xs @ e1 # ys @ [e2]))"
      using requests by (force simp: inbound_requests_def)
    with True show ?thesis by (simp add: q p load_inbound_def)
  next
    case False
    then have "sanitize_trace_id (evTraceID e1) = []"
      by (simp add: requests with_trace_def well_traced_def)
    moreover have "sanitize_trace_id (evTraceID (fst (inbound_response E C service (hex_encode rb) i3 t3 other rs3))) \<noteq> []"
      by (rule response_trace_well_formed [OF assms(2)])
    ultimately have "evTraceID e1 \<noteq> evTraceID (fst (inbound_response E C service (hex_encode rb) i3 t3 other rs3))" by metis
    with False show ?thesis by (simp add: q p)
  qed
qed

theorem exchange_loads_witness:
  "\<not> well_traced (cqHeader (login_request\<lparr>cqHeader := hset [] trace_header ''abc''\<rparr>)) \<and>
   evTraceID (fst (inbound_request example_env plain_context ''api'' (hex_encode (replicate 16 (CHR ''a''))) ''e1'' 1
     (login_request\<lparr>cqHeader := hset [] trace_header ''abc''\<rparr>))) \<noteq>
   evTraceID (fst (inbound_response example_env plain_context ''api'' (hex_encode (replicate 16 (CHR ''b''))) ''e2'' 2
     login_request login_response)) \<and>
   (let (e1, sent) = inbound_request example_env plain_context ''api'' (hex_encode (replicate 16 (CHR ''a''))) ''e1'' 1 login_request;
        (e2, body) = inbound_response example_env plain_context ''api'' (hex_encode (replicate 16 (CHR ''b''))) ''e2'' 2 sent login_response
    in with_response e1 e2 \<in> set (load_inbound [e1, e2]) \<and> evStatus (with_response e1 e2) = 200)"
proof -
  let ?odd = "login_request\<lparr>cqHeader := hset [] trace_header ''abc''\<rparr>"
  have odd: "\<not> well_traced (cqHeader ?odd)" and plain: "well_traced (cqHeader login_request)" by code_simp+
  note used = exchange_loads [where ra = "replicate 16 (CHR ''a'')" and rb = "replicate 16 (CHR ''b'')" and E = example_env
      and C = plain_context and service = "''api''" and ?i1.0 = "''e1''" and ?t1.0 = 1 and ?i2.0 = "''e2''" and ?t2.0 = 2
      and rs = login_response, simplified]
  have "inbound_response example_env plain_context ''api'' f ''e2'' 2 sent login_response = (e2, b) \<Longrightarrow> evStatus (with_response e1 e2) = 200"
    for e1 e2 f sent b
    by (auto simp: with_response_def inbound_response_def with_body_def login_response_def Let_def zero_event_def split: prod.splits if_splits)
  then show ?thesis
    using odd plain used [where rq = ?odd and ?i3.0 = "''e2''" and ?t3.0 = 2 and ?rs3.0 = login_response and other = login_request]
      used [where rq = login_request and xs = "[]" and ys = "[]"]
    by (auto simp: Let_def split: prod.splits)
qed


text \<open>Of a response above 256 KiB only the prefix is hashed, and the comparison of a replay does not ask whether the recorded
  body was cut off: a service that answers with the very same body is reported as different.\<close>

lemma large_body_differs:
  assumes "ccPrivacy C = None" and "urBody rs = Body s" and "max_body < length s"
    and "sha_hex E (take max_body s) \<notin> {[], sha_hex E s}" and "sha_hex E s \<noteq> []" and "evResponseBodySha256 r = sha_hex E s"
  shows "body_diff (with_response e (fst (inbound_response E C service fresh ident now rq rs))) r =
           Some (sha_hex E (take max_body s), sha_hex E s)"
proof -
  have "s \<noteq> []" and "take max_body s \<noteq> []" using assms(3) by (auto simp: max_body_def)
  then have "evBodySha256 (fst (inbound_response E C service fresh ident now rq rs)) = sha_hex E (take max_body s)"
    using assms by (simp add: inbound_response_def peek_body_def payload_for_log_def with_body_def Let_def)
  then show ?thesis using assms by (auto simp: body_diff_def captured_hash_def with_response_def)
qed

text \<open>A request whose body breaks is forwarded without a body, and one whose response breaks is not logged.\<close>

lemma broken_bodies:
  "cqBody (snd (inbound_request E C service fresh ident now (rq\<lparr>cqBody := BrokenBody\<rparr>))) = NoBody"
  "upstream = (\<lambda>_. Inr (rs\<lparr>urBody := BrokenBody\<rparr>)) \<Longrightarrow>
     hdLogged (handle_http E C hijack ident now took upstream \<lparr>acDelay = 0, acDrop = False, acReset = False, acStatus = 0, acApplied = []\<rparr> rq) = []"
  by (simp_all add: inbound_request_def peek_body_def handle_http_def Let_def split: option.split)

text \<open>An injected status is logged with the raw URL, whatever the privacy policy hides; the forwarded request's event has the
  URL the policy allows.\<close>

lemma injected_status_logs_url:
  assumes "cqURL rq = Some u" and "acStatus act > 0" and "\<not> (acDrop act \<or> acReset act)"
  shows "map evURL (hdLogged (handle_http E C hijack ident now took upstream act rq)) = [gUrlString E u]"
  using assms by (simp add: handle_http_def Let_def)

lemma forwarded_url_hidden:
  "evURL (outbound_event E C ident start took applied rq u res) = gUrlString E (apply_url E (ccPrivacy C) u)"
  by (simp add: outbound_event_def url_for_log_def zero_event_def Let_def split: prod.split sum.split)

end
