(* ===== verification/Heal.thy ===== *)
theory Heal
  imports Generator ReplayYaml
begin

text \<open>
  \<open>pkg/heal\<close> (\<open>heal.go\<close>): the captured calls of several incidents are grouped, fields that vary are classified, expressions
  for the volatile ones become generated match rules, and the proposed configuration is checked for ambiguous matches
  before it is written. The expressions belong to the compiler of the environment; the YAML encoder, the texts of the
  reports and the decoder of a log are parameters; \<open>rnd\<close> rounds to the nearest \<open>float64\<close>.
\<close>

section \<open>Expressions\<close>

definition matches_pattern :: "go_env \<Rightarrow> string \<Rightarrow> string \<Rightarrow> bool" where
  "matches_pattern E p s = (case gCompile E p of None \<Rightarrow> False | Some re \<Rightarrow> re s)"

definition digits_pattern :: "string \<Rightarrow> string" where
  "digits_pattern n = chr 92 # ''d{'' @ n @ ''}''"

definition uuid_pattern :: string where
  "uuid_pattern = ''(?i)^[0-9a-f]{8}-[0-9a-f]{4}-[1-5][0-9a-f]{3}-[89ab][0-9a-f]{3}-[0-9a-f]{12}$''"

definition rfc3339_pattern :: string where
  "rfc3339_pattern =
     ''^'' @ digits_pattern ''4'' @ ''-'' @ digits_pattern ''2'' @ ''-'' @ digits_pattern ''2'' @ ''T'' @ digits_pattern ''2'' @ '':'' @
     digits_pattern ''2'' @ '':'' @ digits_pattern ''2'' @ ''(?:'' @ [chr 92] @ ''.'' @ [chr 92] @ ''d+)?(?:Z|[+-]'' @
     digits_pattern ''2'' @ '':'' @ digits_pattern ''2'' @ '')$''"

definition hex_pattern :: string where "hex_pattern = ''(?i)^[0-9a-f]{16,128}$''"

definition base64_pattern :: string where "base64_pattern = ''^[A-Za-z0-9_-]{20,}={0,2}$''"

definition integer_pattern :: string where "integer_pattern = ''^-?[0-9]{10,19}$''"

definition protected_part :: string where
  "protected_part = ''(?i)(^|[_.-])(authorization|password|passwd|secret|api[_-]?key|tenant|account|permission|role|scope|amount|price|currency|status|email|phone|card|ssn)([_.-]|$)''"

definition volatile_part :: string where
  "volatile_part = ''(?i)(^|[_.-])(request[_-]?id|trace[_-]?id|correlation[_-]?id|nonce|timestamp|created[_-]?at|updated[_-]?at|expires[_-]?at|time)([_.-]|$)''"

section \<open>Observations\<close>

record observation =
  obEvent :: event
  obBody :: string
  obJson :: "(string \<times> string) list"

record heal_group =
  hgKey :: string
  hgName :: string
  hgMethod :: string
  hgHost :: string
  hgPathRegex :: string
  hgItems :: "observation list"

definition hash_bytes :: "go_env \<Rightarrow> string \<Rightarrow> string" where
  "hash_bytes E s = hex_encode (gSha256 E s)"

definition hash_values :: "go_env \<Rightarrow> string list \<Rightarrow> string" where
  "hash_values E vs = hash_bytes E (join [chr 0] (stable_sort (\<lambda>a b. a < b) vs))"

text \<open>\<open>flattenJSON\<close>: the leaves of a document under the paths that lead to them. A key is written as it is.\<close>

fun walk_json :: "string \<Rightarrow> json \<Rightarrow> (string \<times> string) list" and
    walk_items :: "string \<Rightarrow> nat \<Rightarrow> json list \<Rightarrow> (string \<times> string) list" where
  "walk_json path (JObj kvs) =
     concat (map snd (stable_sort (\<lambda>a b. fst a < fst b) (map (\<lambda>(k, v). (k, walk_json (path @ ''.'' @ k) v)) kvs)))"
| "walk_json path (JArr xs) = walk_items path 0 xs"
| "walk_json path v = [(path, trim_set (\<lambda>c. byte c = 34) (marshal v))]"
| "walk_items path i [] = []"
| "walk_items path i (x # xs) = walk_json (path @ ''['' @ nat_digits i @ '']'') x @ walk_items path (Suc i) xs"

definition flatten_json :: "go_env \<Rightarrow> string \<Rightarrow> (string \<times> string) list" where
  "flatten_json E body =
     (if body = [] then []
      else (case gUnmarshal E body of
              None \<Rightarrow> []
            | Some doc \<Rightarrow> foldl (\<lambda>m (p, v). AList.update p v m) [] (walk_json ''$'' doc)))"

definition normalized_path_regex :: "string \<Rightarrow> string" where
  "normalized_path_regex path = ''^'' @ quote_meta path @ ''$''"

fun dash_others :: "bool \<Rightarrow> string \<Rightarrow> string" where
  "dash_others inrun [] = []"
| "dash_others inrun (c # s) =
     (if 97 \<le> byte c \<and> byte c \<le> 122 \<or> is_digit c then c # dash_others False s
      else (if inrun then [] else ''-'') @ dash_others True s)"

definition generated_rule_name :: "go_env \<Rightarrow> string \<Rightarrow> string \<Rightarrow> string \<Rightarrow> string" where
  "generated_rule_name E m host path =
     (let base = trim_set (\<lambda>c. c = CHR ''-'') (dash_others False (to_lower (m @ ''-'' @ host @ ''-'' @ path)));
          suffix = take 8 (hash_bytes E (to_upper m @ [chr 0] @ to_lower host @ [chr 0] @ normalized_path_regex path))
      in ''heal-'' @ take 48 base @ ''-'' @ suffix)"

definition url_hostname :: "gourl \<Rightarrow> string" where
  "url_hostname u =
     (let h = (case cut (CHR '':'') (rev (uHost u)) of
                 Some (p, rest) \<Rightarrow> if list_all is_digit p then rev rest else uHost u | None \<Rightarrow> uHost u)
      in if has_prefix h ''['' \<and> has_suffix h '']'' then butlast (drop 1 h) else h)"

definition decoded_body :: "go_env \<Rightarrow> event \<Rightarrow> string" where
  "decoded_body E e = (case b64_decode (evBodyB64 e) of Some b \<Rightarrow> b | None \<Rightarrow> gB64Rest E (evBodyB64 e))"

definition observe :: "go_env \<Rightarrow> event \<Rightarrow> observation" where
  "observe E e = \<lparr>obEvent = e, obBody = decoded_body E e, obJson = flatten_json E (decoded_body E e)\<rparr>"

definition group_key :: "event \<Rightarrow> gourl \<Rightarrow> string" where
  "group_key e u = to_upper (evMethod e) @ [chr 0] @ to_lower (uHost u) @ [chr 0] @ normalized_path_regex (uPath u)"

definition new_group :: "go_env \<Rightarrow> event \<Rightarrow> gourl \<Rightarrow> heal_group" where
  "new_group E e u = \<lparr>hgKey = group_key e u, hgName = generated_rule_name E (evMethod e) (uHost u) (uPath u),
     hgMethod = to_upper (evMethod e), hgHost = url_hostname u, hgPathRegex = normalized_path_regex (uPath u), hgItems = []\<rparr>"

definition add_observed ::
  "go_env \<Rightarrow> (string \<times> heal_group) list \<times> event list \<Rightarrow> event \<Rightarrow> (string \<times> heal_group) list \<times> event list" where
  "add_observed E st e =
     (case st of (gs, all_events) \<Rightarrow> case gUrlParse E (evURL e) of
        None \<Rightarrow> (gs, all_events)
      | Some u \<Rightarrow>
          let g = dflt (new_group E e u) (map_of gs (group_key e u))
          in (AList.update (group_key e u) (g\<lparr>hgItems := hgItems g @ [observe E e]\<rparr>) gs, all_events @ [e]))"

datatype heal_error =
    NoIncidents | TooFewSamples | BadScore | WouldOverwrite | OutputIsActive | ConfigRefused config_error
  | NoIncident string | NoOutboundLog string | LogInvalid | MatcherRefused match_error | Ambiguous nat
  | EncodeFailed | WriteRefused string | TooManyBackups

definition groups_of :: "go_env \<Rightarrow> event list \<Rightarrow> heal_group list" where
  "groups_of E es = map snd (stable_sort (\<lambda>a b. fst a < fst b) (fst (foldl (add_observed E) ([], []) es)))"

text \<open>\<open>loadGroups\<close>: the groups in the order of their keys, every event that was taken, and what is hashed.\<close>

fun load_logs ::
  "files \<Rightarrow> (string \<Rightarrow> event list option) \<Rightarrow> string list \<Rightarrow> (heal_error, string \<times> event list) result" where
  "load_logs fs decode [] = Inr ([], [])"
| "load_logs fs decode (d # ds) =
     (case open_incident fs d of
        None \<Rightarrow> Inl (NoIncident d)
      | Some b \<Rightarrow> (case fs (ibOutbound b) of
          None \<Rightarrow> Inl (NoOutboundLog d)
        | Some data \<Rightarrow> (case decode data of
            None \<Rightarrow> Inl LogInvalid
          | Some es \<Rightarrow> and_then (load_logs fs decode ds) (\<lambda>(rest, more_events). Inr (data @ rest, outbound_events es @ more_events)))))"

definition load_groups ::
  "go_env \<Rightarrow> files \<Rightarrow> (string \<Rightarrow> event list option) \<Rightarrow> string list \<Rightarrow>
   (heal_error, heal_group list \<times> event list \<times> string) result" where
  "load_groups E fs decode dirs =
     and_then (load_logs fs decode dirs) (\<lambda>(data, es).
       Inr (groups_of E es, snd (foldl (add_observed E) ([], []) es), hash_bytes E data))"

section \<open>Which fields vary, and how\<close>

definition common_names :: "string list list \<Rightarrow> string list" where
  "common_names nss =
     stable_sort (\<lambda>a b. a < b) (filter (\<lambda>n. length (filter (\<lambda>ns. n \<in> set ns) nss) = length nss) (remdups (concat nss)))"

definition common_header_names :: "observation list \<Rightarrow> string list" where
  "common_header_names its = common_names (map (\<lambda>it. map (\<lambda>(n, vs). canonical_key n) (evHeaders (obEvent it))) its)"

definition query_of :: "go_env \<Rightarrow> observation \<Rightarrow> header" where
  "query_of E it = (case gUrlParse E (evURL (obEvent it)) of None \<Rightarrow> [] | Some u \<Rightarrow> url_query u)"

definition common_query_names :: "go_env \<Rightarrow> observation list \<Rightarrow> string list" where
  "common_query_names E its = common_names (map (\<lambda>it. map fst (query_of E it)) its)"

definition common_json_paths :: "observation list \<Rightarrow> string list" where
  "common_json_paths its = common_names (map (\<lambda>it. map fst (obJson it)) its)"

definition header_value :: "header \<Rightarrow> string \<Rightarrow> string" where
  "header_value h name = (case List.find (\<lambda>(n, vs). equal_fold n name) h of None \<Rightarrow> [] | Some (n, vs) \<Rightarrow> join [chr 0] vs)"

definition varies :: "string list \<Rightarrow> bool" where
  "varies vs \<longleftrightarrow> (case vs of [] \<Rightarrow> False | v # rest \<Rightarrow> \<exists>w\<in>set rest. w \<noteq> v)"

datatype decision = Accepted | Rejected

datatype field_kind = HeaderRegex | QueryRegex | JsonPathRegex

datatype reason =
    ProtectedField | NoPattern | FailedHoldout | BelowThreshold | AllUuids | AllTimestamps | AllIntegers | AllHex | AllBase64

record proposal =
  ppRule :: string
  ppKind :: field_kind
  ppLocation :: string
  ppPattern :: string
  ppSamples :: nat
  ppConfidence :: real
  ppDecision :: decision
  ppReason :: reason
  ppEvidence :: string

definition all_match :: "go_env \<Rightarrow> string \<Rightarrow> string list \<Rightarrow> bool" where
  "all_match E p vs \<longleftrightarrow> list_all (\<lambda>v. v \<noteq> [] \<and> matches_pattern E p v) vs"

text \<open>\<open>commonPattern\<close>: the first expression that fits, its confidence and why.\<close>

definition common_pattern :: "go_env \<Rightarrow> (real \<Rightarrow> real) \<Rightarrow> string list \<Rightarrow> string \<Rightarrow> (string \<times> real \<times> reason) option" where
  "common_pattern E rnd vs location =
     (if \<not> matches_pattern E volatile_part location then None
      else if all_match E uuid_pattern vs then Some (uuid_pattern, rnd 0.99, AllUuids)
      else if all_match E rfc3339_pattern vs then Some (rfc3339_pattern, rnd 0.99, AllTimestamps)
      else if all_match E integer_pattern vs then Some (integer_pattern, rnd 0.97, AllIntegers)
      else if all_match E hex_pattern vs then Some (hex_pattern, rnd 0.98, AllHex)
      else if all_match E base64_pattern vs then Some (base64_pattern, rnd 0.96, AllBase64)
      else None)"

text \<open>The name a location is tested under: brackets and the dollar sign are no part of it.\<close>

definition plain_location :: "string \<Rightarrow> string" where
  "plain_location l = concat (map (\<lambda>c. if c = CHR ''['' then ''.'' else if c = CHR '']'' \<or> c = CHR ''$'' then [] else [c]) (to_lower l))"

definition is_protected :: "go_env \<Rightarrow> string \<Rightarrow> bool" where
  "is_protected E l \<longleftrightarrow> matches_pattern E protected_part (plain_location l) \<or> equal_fold l ''Cookie''"

definition classify ::
  "go_env \<Rightarrow> (real \<Rightarrow> real) \<Rightarrow> string \<Rightarrow> field_kind \<Rightarrow> string \<Rightarrow> string list \<Rightarrow> proposal" where
  "classify E rnd rule kind location vs =
     (let p = \<lparr>ppRule = rule, ppKind = kind, ppLocation = location, ppPattern = [], ppSamples = length vs, ppConfidence = 0,
               ppDecision = Rejected, ppReason = NoPattern, ppEvidence = hash_values E vs\<rparr>
      in if is_protected E location then p\<lparr>ppConfidence := 1, ppReason := ProtectedField\<rparr>
         else (case common_pattern E rnd (butlast vs) (to_lower location) of
             None \<Rightarrow> p
           | Some (pattern, confidence, why) \<Rightarrow>
               if \<not> matches_pattern E pattern (List.last vs)
               then p\<lparr>ppPattern := pattern, ppConfidence := confidence, ppReason := FailedHoldout\<rparr>
               else p\<lparr>ppPattern := pattern, ppConfidence := confidence, ppDecision := Accepted, ppReason := why\<rparr>))"

definition thresholded :: "f64 \<Rightarrow> proposal \<Rightarrow> proposal" where
  "thresholded score p =
     (if f_less (Fin (ppConfidence p)) score \<and> ppDecision p = Accepted then p\<lparr>ppDecision := Rejected, ppReason := BelowThreshold\<rparr> else p)"

definition relax :: "proposal \<Rightarrow> match_rule \<Rightarrow> match_rule" where
  "relax p r =
     (if ppDecision p \<noteq> Accepted then r
      else (case ppKind p of
              HeaderRegex \<Rightarrow> r\<lparr>rlHeaderRegex := AList.update (ppLocation p) (ppPattern p) (rlHeaderRegex r)\<rparr>
            | QueryRegex \<Rightarrow> r\<lparr>rlQueryRegex := AList.update (ppLocation p) (ppPattern p) (rlQueryRegex r)\<rparr>
            | JsonPathRegex \<Rightarrow> r\<lparr>rlJSONPathRegex := AList.update (ppLocation p) (ppPattern p) (rlJSONPathRegex r), rlCompareJSON := True\<rparr>))"

definition add_field ::
  "go_env \<Rightarrow> (real \<Rightarrow> real) \<Rightarrow> f64 \<Rightarrow> string \<Rightarrow> match_rule \<times> proposal list \<Rightarrow> field_kind \<times> string \<times> string list \<Rightarrow>
   match_rule \<times> proposal list" where
  "add_field E rnd score name st f =
     (case st of (r, ps) \<Rightarrow> case f of (kind, location, vs) \<Rightarrow>
        if \<not> varies vs then (r, ps)
        else (let p = thresholded score (classify E rnd name kind location vs) in (relax p r, ps @ [p])))"

text \<open>The fields of a group: the values each common name has in the observations.\<close>

definition group_fields :: "go_env \<Rightarrow> observation list \<Rightarrow> (field_kind \<times> string \<times> string list) list" where
  "group_fields E its =
     map (\<lambda>n. (HeaderRegex, n, map (\<lambda>it. header_value (evHeaders (obEvent it)) n) its)) (common_header_names its) @
     map (\<lambda>n. (QueryRegex, n, map (\<lambda>it. qget (query_of E it) n) its)) (common_query_names E its) @
     map (\<lambda>p. (JsonPathRegex, p, map (\<lambda>it. dflt [] (map_of (obJson it) p)) its)) (common_json_paths its)"

definition group_rule :: "heal_group \<Rightarrow> match_rule" where
  "group_rule g =
     \<lparr>rlName = hgName g, rlMethods = [hgMethod g], rlHostRegex = ''^'' @ quote_meta (hgHost g) @ ''$'', rlPathRegex = hgPathRegex g,
      rlHeaderRegex = [], rlQueryRegex = [], rlJSONPathRegex = [], rlGRPCMethod = [], rlProtobufFieldRegex = [],
      rlIgnoredProtobufFields = [], rlIgnoredQueryParameters = [], rlIgnoredHeaders = [], rlIgnoredJSONPaths = [],
      rlCompareHeaders = False, rlCompareJSON = False, rlCompareProtobuf = False\<rparr>"

definition analyze_group ::
  "go_env \<Rightarrow> (real \<Rightarrow> real) \<Rightarrow> int \<Rightarrow> f64 \<Rightarrow> heal_group \<Rightarrow> match_rule \<times> proposal list" where
  "analyze_group E rnd samples score g =
     (if int (length (hgItems g)) < samples then (group_rule g, [])
      else foldl (add_field E rnd score (hgName g)) (group_rule g, []) (group_fields E (hgItems g)))"


section \<open>Ambiguity and the merge\<close>

definition header_json :: "header \<Rightarrow> json" where
  "header_json h = (if h = [] then JNull else JObj (map (\<lambda>(n, vs). (n, JArr (map JStr vs))) h))"

text \<open>\<open>responseFingerprint\<close>: the JSON text of the fields in the order of the structure, hashed.\<close>

definition fingerprint_text :: "event \<Rightarrow> string" where
  "fingerprint_text e =
     ''{\"Status\":'' @ itoa (evStatus e) @ '',\"Headers\":'' @ marshal (header_json (evResponseHeaders e)) @
     '',\"Trailers\":'' @ marshal (header_json (evResponseTrailers e)) @ '',\"Body\":'' @ quote (evResponseBodySha256 e) @
     '',\"GRPC\":'' @ quote (evGrpcStatus e) @ ''}''"

definition response_fingerprint :: "go_env \<Rightarrow> event \<Rightarrow> string" where
  "response_fingerprint E e = hash_bytes E (fingerprint_text e)"

definition equivalent_responses :: "go_env \<Rightarrow> event list \<Rightarrow> bool" where
  "equivalent_responses E es \<longleftrightarrow>
     (case es of [] \<Rightarrow> True | e # rest \<Rightarrow> list_all (\<lambda>c. response_fingerprint E c = response_fingerprint E e) rest)"

definition request_of :: "event \<Rightarrow> gourl \<Rightarrow> request" where
  "request_of e u = \<lparr>rqMethod = evMethod e, rqURL = Some u, rqHost = uHost u, rqHeader = evHeaders e\<rparr>"

definition answers_for :: "go_env \<Rightarrow> matcher \<Rightarrow> event list \<Rightarrow> event \<Rightarrow> gourl \<Rightarrow> event list" where
  "answers_for E m es e u = filter (\<lambda>c. fst (match_event E m c (request_of e u) (decoded_body E e))) es"

definition ambiguous :: "go_env \<Rightarrow> matcher \<Rightarrow> event list \<Rightarrow> event \<Rightarrow> bool" where
  "ambiguous E m es e \<longleftrightarrow>
     (case gUrlParse E (evURL e) of
        None \<Rightarrow> False
      | Some u \<Rightarrow> 1 < length (answers_for E m es e u) \<and> \<not> equivalent_responses E (answers_for E m es e u))"

definition ambiguity_count :: "go_env \<Rightarrow> match_config \<Rightarrow> event list \<Rightarrow> (heal_error, nat) result" where
  "ambiguity_count E cfg es =
     (case new_matcher E cfg None of
        Inl e \<Rightarrow> Inl (MatcherRefused e)
      | Inr m \<Rightarrow> Inr (length (filter (ambiguous E m es) es)))"

definition hand_written :: "match_rule \<Rightarrow> bool" where
  "hand_written r \<longleftrightarrow> \<not> has_prefix (rlName r) ''heal-''"

text \<open>\<open>mergeGeneratedRules\<close>: of generated rules with one name the last is kept.\<close>

definition merge_generated_rules :: "match_rule list \<Rightarrow> match_rule list \<Rightarrow> match_rule list" where
  "merge_generated_rules existing generated =
     filter hand_written existing @
     map snd (stable_sort (\<lambda>a b. fst a < fst b) (foldl (\<lambda>m r. AList.update (rlName r) r m) [] generated))"

section \<open>The run\<close>

record heal_options =
  hoDirs :: "string list"
  hoConfig :: string
  hoOutput :: string
  hoReports :: string
  hoSamples :: int
  hoScore :: f64
  hoApply :: bool
  hoForce :: bool

record heal_result =
  hrInputHash :: string
  hrProposedHash :: string
  hrAccepted :: nat
  hrRejected :: nat
  hrGroups :: nat
  hrAmbiguities :: nat
  hrOutput :: string
  hrApplied :: string
  hrBackup :: string
  hrProposals :: "proposal list"
  hrPassed :: bool

definition no_result :: heal_result where
  "no_result = \<lparr>hrInputHash = [], hrProposedHash = [], hrAccepted = 0, hrRejected = 0, hrGroups = 0, hrAmbiguities = 0, hrOutput = [],
     hrApplied = [], hrBackup = [], hrProposals = [], hrPassed = False\<rparr>"

text \<open>Files stand under their cleaned paths; \<open>writeAtomic\<close> replaces a file as a whole or leaves it as it was.\<close>

definition file_at :: "files \<Rightarrow> string \<Rightarrow> string option" where
  "file_at fs p = fs (path_clean p)"

definition write_atomic :: "(string \<Rightarrow> bool) \<Rightarrow> string \<Rightarrow> string \<Rightarrow> files \<Rightarrow> files option" where
  "write_atomic writable p data fs = (if writable (path_clean p) then Some (fs(path_clean p \<mapsto> data)) else None)"

definition json_report :: "string \<Rightarrow> string" where
  "json_report d = path_join [d, ''infernosim-healing-report.json'']"

definition html_report :: "string \<Rightarrow> string" where
  "html_report d = path_join [d, ''infernosim-healing-report.html'']"

definition write_reports ::
  "(string \<Rightarrow> bool) \<Rightarrow> (heal_result \<Rightarrow> string \<times> string) \<Rightarrow> string \<Rightarrow> heal_result \<Rightarrow> files \<Rightarrow> files \<times> bool" where
  "write_reports writable report_text dir r fs =
     (case write_atomic writable (json_report dir) (fst (report_text r)) fs of
        None \<Rightarrow> (fs, False)
      | Some fs1 \<Rightarrow> (case write_atomic writable (html_report dir) (snd (report_text r)) fs1 of None \<Rightarrow> (fs1, False) | Some fs2 \<Rightarrow> (fs2, True)))"

definition backup_name :: "string \<Rightarrow> nat \<Rightarrow> string" where
  "backup_name active i = active @ ''.bak'' @ (if i = 0 then [] else ''.'' @ nat_digits i)"

text \<open>\<open>nextBackupPath\<close>: the first of a thousand names that is free.\<close>

definition next_backup_path :: "files \<Rightarrow> string \<Rightarrow> string option" where
  "next_backup_path fs active = List.find (\<lambda>p. file_at fs p = None) (map (backup_name active) [0..<1000])"

text \<open>\<open>Apply\<close>: the active configuration is put aside before it is replaced. The result names the backup and the file written.\<close>

definition promote ::
  "(string \<Rightarrow> bool) \<Rightarrow> string \<Rightarrow> string \<Rightarrow> heal_result \<Rightarrow> files \<Rightarrow> heal_error option \<times> heal_result \<times> files" where
  "promote writable active data r fs =
     (let finish = (\<lambda>r fs. case write_atomic writable active data fs of
                       None \<Rightarrow> (Some (WriteRefused active), r, fs)
                     | Some fs' \<Rightarrow> (None, r\<lparr>hrApplied := active\<rparr>, fs'))
      in case file_at fs active of
           None \<Rightarrow> finish r fs
         | Some old \<Rightarrow> (case next_backup_path fs active of
             None \<Rightarrow> (Some TooManyBackups, r, fs)
           | Some backup \<Rightarrow> (case write_atomic writable backup old fs of
               None \<Rightarrow> (Some (WriteRefused backup), r, fs)
             | Some fs1 \<Rightarrow> finish (r\<lparr>hrBackup := backup\<rparr>) fs1)))"

definition proposal_less :: "proposal \<Rightarrow> proposal \<Rightarrow> bool" where
  "proposal_less a b =
     (let kind = (\<lambda>k. case k of HeaderRegex \<Rightarrow> 0 | JsonPathRegex \<Rightarrow> 1 | QueryRegex \<Rightarrow> (2::nat))
      in if ppRule a = ppRule b then
           if ppKind a = ppKind b then ppLocation a < ppLocation b else kind (ppKind a) < kind (ppKind b)
         else ppRule a < ppRule b)"

definition relaxes :: "match_rule \<Rightarrow> bool" where
  "relaxes r \<longleftrightarrow> 0 < length (rlHeaderRegex r) + length (rlQueryRegex r) + length (rlJSONPathRegex r)"

text \<open>The checks of the options, and the paths they stand for: the configuration that is read, if any, the active one, the
  output and the directory of the reports.\<close>

record heal_plan =
  hpConfig :: string
  hpActive :: string
  hpOutput :: string
  hpReports :: string
  hpSamples :: int
  hpScore :: f64

definition plan_heal :: "(real \<Rightarrow> real) \<Rightarrow> files \<Rightarrow> heal_options \<Rightarrow> (heal_error, heal_plan) result" where
  "plan_heal rnd fs opts =
     (case hoDirs opts of
        [] \<Rightarrow> Inl NoIncidents
      | dir # dirs \<Rightarrow>
          let samples = (if hoSamples opts = 0 then 3 else hoSamples opts);
              score = (if f_eq (hoScore opts) (Fin 0) then Fin (rnd 0.95) else hoScore opts);
              output = (if hoOutput opts = [] then path_join [dir, ''replay.proposed.yaml''] else hoOutput opts);
              reports = (if hoReports opts = [] then path_join [dir, ''reports''] else hoReports opts);
              own = path_join [dir, ''replay.yaml''];
              config = (if hoConfig opts \<noteq> [] then hoConfig opts else if file_at fs own \<noteq> None then own else []);
              active = (if config = [] then own else config)
          in and_then (fail_if (samples < 2) TooFewSamples) (\<lambda>_.
             and_then (fail_if (\<not> f_within 0 1 score) BadScore) (\<lambda>_.
             and_then (fail_if (\<not> hoForce opts \<and> file_at fs output \<noteq> None) WouldOverwrite) (\<lambda>_.
             and_then (fail_if (path_clean output = path_clean active) OutputIsActive) (\<lambda>_.
             Inr \<lparr>hpConfig = config, hpActive = active, hpOutput = output, hpReports = reports, hpSamples = samples,
                  hpScore = score\<rparr>)))))"

text \<open>The analysis: the proposed configuration and the result so far.\<close>

definition generated_rules :: "go_env \<Rightarrow> (real \<Rightarrow> real) \<Rightarrow> int \<Rightarrow> f64 \<Rightarrow> heal_group list \<Rightarrow> match_rule list" where
  "generated_rules E rnd samples score gs = filter relaxes (map (\<lambda>g. fst (analyze_group E rnd samples score g)) gs)"

definition propose ::
  "go_env \<Rightarrow> (real \<Rightarrow> real) \<Rightarrow> files \<Rightarrow> (string \<Rightarrow> replay_yaml option) \<Rightarrow> (string \<Rightarrow> event list option) \<Rightarrow> string list \<Rightarrow>
   heal_plan \<Rightarrow> (heal_error, replay_yaml \<times> heal_result) result" where
  "propose E rnd fs decode decode_log dirs p =
     and_then (if hpConfig p = [] then Inr zero_yaml
               else (case load_replay_config E (file_at fs) decode (hpConfig p) of Inl e \<Rightarrow> Inl (ConfigRefused e) | Inr c \<Rightarrow> Inr c)) (\<lambda>config.
     and_then (load_groups E (file_at fs) decode_log dirs) (\<lambda>(groups, es, input).
       let proposals = stable_sort proposal_less (concat (map (\<lambda>g. snd (analyze_group E rnd (hpSamples p) (hpScore p) g)) groups));
           rules = merge_generated_rules (mcRules (ryMatching config)) (generated_rules E rnd (hpSamples p) (hpScore p) groups);
           config' = config\<lparr>ryMatching := (ryMatching config)\<lparr>mcRules := rules\<rparr>\<rparr>
       in and_then (ambiguity_count E (ryMatching config') es) (\<lambda>n.
          Inr (config', no_result\<lparr>hrInputHash := input, hrGroups := length groups, hrProposals := proposals,
            hrAccepted := length (filter (\<lambda>q. ppDecision q = Accepted) proposals),
            hrRejected := length (filter (\<lambda>q. ppDecision q \<noteq> Accepted) proposals), hrAmbiguities := n, hrPassed := n = 0\<rparr>))))"

text \<open>\<open>Run\<close>.\<close>

definition run_heal ::
  "go_env \<Rightarrow> (real \<Rightarrow> real) \<Rightarrow> (string \<Rightarrow> bool) \<Rightarrow> (heal_result \<Rightarrow> string \<times> string) \<Rightarrow> (replay_yaml \<Rightarrow> string option) \<Rightarrow>
   (string \<Rightarrow> replay_yaml option) \<Rightarrow> (string \<Rightarrow> event list option) \<Rightarrow> heal_options \<Rightarrow> files \<Rightarrow>
   heal_error option \<times> heal_result \<times> files" where
  "run_heal E rnd writable report_text encode decode decode_log opts fs =
     (case plan_heal rnd fs opts of
        Inl e \<Rightarrow> (Some e, no_result, fs)
      | Inr p \<Rightarrow> (case propose E rnd fs decode decode_log (hoDirs opts) p of
          Inl e \<Rightarrow> (Some e, no_result, fs)
        | Inr (config, r) \<Rightarrow>
            if 0 < hrAmbiguities r then (Some (Ambiguous (hrAmbiguities r)), r, fst (write_reports writable report_text (hpReports p) r fs))
            else (case encode config of
                None \<Rightarrow> (Some EncodeFailed, r, fs)
              | Some text \<Rightarrow>
                  let data = ''# Proposed by InfernoSIM heal. Review before replacing replay.yaml.'' @ [chr 10] @ text;
                      r1 = r\<lparr>hrProposedHash := hash_bytes E data, hrOutput := hpOutput p\<rparr>
                  in case write_atomic writable (hpOutput p) data fs of
                       None \<Rightarrow> (Some (WriteRefused (hpOutput p)), r1, fs)
                     | Some fs1 \<Rightarrow> (case (if hoApply opts then promote writable (hpActive p) data r1 fs1 else (None, r1, fs1)) of
                         (Some e, r2, fs2) \<Rightarrow> (Some e, r2, fs2)
                       | (None, r2, fs2) \<Rightarrow> (case write_reports writable report_text (hpReports p) r2 fs2 of
                           (fs3, ok) \<Rightarrow> (if ok then None else Some (WriteRefused (hpReports p)), r2, fs3))))))"


section \<open>Only volatile fields are relaxed\<close>

definition pattern_confidence :: "(real \<Rightarrow> real) \<Rightarrow> string \<Rightarrow> real" where
  "pattern_confidence rnd p =
     (if p = uuid_pattern \<or> p = rfc3339_pattern then rnd 0.99 else if p = integer_pattern then rnd 0.97
      else if p = hex_pattern then rnd 0.98 else rnd 0.96)"

text \<open>An expression that may stand in a generated rule: enough observations, a name that is volatile and not protected, values
  that differ and all satisfy the expression, also the one kept for validation.\<close>

definition narrow :: "go_env \<Rightarrow> (real \<Rightarrow> real) \<Rightarrow> int \<Rightarrow> f64 \<Rightarrow> heal_group \<Rightarrow> field_kind \<Rightarrow> string \<times> string \<Rightarrow> bool" where
  "narrow E rnd samples score g kind lp =
     (case lp of (l, p) \<Rightarrow>
        samples \<le> int (length (hgItems g)) \<and> \<not> is_protected E l \<and> matches_pattern E volatile_part (to_lower l) \<and>
        \<not> f_less (Fin (pattern_confidence rnd p)) score \<and>
        list_ex (\<lambda>(k, n, vs). k = kind \<and> n = l \<and> varies vs \<and> list_all (matches_pattern E p) vs) (group_fields E (hgItems g)))"

lemma patterns_differ:
  "uuid_pattern \<noteq> integer_pattern" "uuid_pattern \<noteq> hex_pattern" "rfc3339_pattern \<noteq> integer_pattern" "rfc3339_pattern \<noteq> hex_pattern"
  "integer_pattern \<noteq> hex_pattern" "base64_pattern \<notin> {uuid_pattern, rfc3339_pattern, integer_pattern, hex_pattern}"
  by code_simp+

lemma common_pattern_sound:
  assumes "common_pattern E rnd vs l = Some (p, c, why)"
  shows "matches_pattern E volatile_part l" and "list_all (matches_pattern E p) vs" and "c = pattern_confidence rnd p"
  using assms patterns_differ
  by (auto simp: common_pattern_def all_match_def list_all_iff pattern_confidence_def split: if_split_asm)

lemma accepted_sound:
  assumes "ppDecision (thresholded score (classify E rnd name kind l vs)) = Accepted" and "varies vs"
  shows "\<not> is_protected E l" and "matches_pattern E volatile_part (to_lower l)"
    and "list_all (matches_pattern E (ppPattern (thresholded score (classify E rnd name kind l vs)))) vs"
    and "\<not> f_less (Fin (pattern_confidence rnd (ppPattern (thresholded score (classify E rnd name kind l vs))))) score"
proof -
  have d: "ppDecision (classify E rnd name kind l vs) = Accepted"
    and t: "\<not> f_less (Fin (ppConfidence (classify E rnd name kind l vs))) score"
    and p: "ppPattern (thresholded score (classify E rnd name kind l vs)) = ppPattern (classify E rnd name kind l vs)"
    using assms(1) by (auto simp: thresholded_def split: if_split_asm)
  from d show "\<not> is_protected E l" by (auto simp: classify_def Let_def)
  with d obtain q c why where c: "common_pattern E rnd (butlast vs) (to_lower l) = Some (q, c, why)" "matches_pattern E q (List.last vs)"
    by (auto simp: classify_def Let_def split: option.split_asm if_split_asm)
  with \<open>\<not> is_protected E l\<close> have q: "ppPattern (classify E rnd name kind l vs) = q" "ppConfidence (classify E rnd name kind l vs) = c"
    by (auto simp: classify_def Let_def)
  note s = common_pattern_sound [OF c(1)]
  show "matches_pattern E volatile_part (to_lower l)" by (rule s(1))
  have "vs \<noteq> []" using assms(2) by (auto simp: varies_def)
  then have "vs = butlast vs @ [List.last vs]" by simp
  moreover have "list_all (matches_pattern E q) (butlast vs @ [List.last vs])" using s(2) c(2) by simp
  ultimately have "list_all (matches_pattern E q) vs" by metis
  then show "list_all (matches_pattern E (ppPattern (thresholded score (classify E rnd name kind l vs)))) vs" using p q by simp
  show "\<not> f_less (Fin (pattern_confidence rnd (ppPattern (thresholded score (classify E rnd name kind l vs))))) score"
    using t p q s(3) by simp
qed

definition narrow_rule :: "go_env \<Rightarrow> (real \<Rightarrow> real) \<Rightarrow> int \<Rightarrow> f64 \<Rightarrow> heal_group \<Rightarrow> match_rule \<Rightarrow> bool" where
  "narrow_rule E rnd samples score g r \<longleftrightarrow>
     list_all (narrow E rnd samples score g HeaderRegex) (rlHeaderRegex r) \<and>
     list_all (narrow E rnd samples score g QueryRegex) (rlQueryRegex r) \<and>
     list_all (narrow E rnd samples score g JsonPathRegex) (rlJSONPathRegex r)"

lemma list_all_update: "list_all P m \<Longrightarrow> P (k, v) \<Longrightarrow> list_all P (AList.update k v m)"
  by (induction m) auto

lemma add_field_narrow:
  assumes "narrow_rule E rnd samples score g (fst st)" and "f \<in> set (group_fields E (hgItems g))"
    and "samples \<le> int (length (hgItems g))"
  shows "narrow_rule E rnd samples score g (fst (add_field E rnd score name st f))"
proof -
  obtain r ps where st: "st = (r, ps)" by fastforce
  obtain kind l vs where f: "f = (kind, l, vs)" by (rule prod_cases3)
  let ?p = "thresholded score (classify E rnd name kind l vs)"
  show ?thesis
  proof (cases "varies vs \<and> ppDecision ?p = Accepted")
    case True
    have "ppKind ?p = kind \<and> ppLocation ?p = l"
      by (simp add: thresholded_def classify_def Let_def split: option.split)
    moreover from True accepted_sound [of score E rnd name kind l vs] assms(2,3) f
    have "narrow E rnd samples score g kind (l, ppPattern ?p)"
      by (auto simp: narrow_def list_ex_iff)
    ultimately show ?thesis using assms(1) True
      by (cases kind) (simp_all add: st f add_field_def relax_def narrow_rule_def list_all_update Let_def)
  qed (use assms(1) in \<open>auto simp: st f add_field_def relax_def Let_def\<close>)
qed

lemma fields_narrow:
  "set fs \<subseteq> set (group_fields E (hgItems g)) \<Longrightarrow> samples \<le> int (length (hgItems g)) \<Longrightarrow>
     narrow_rule E rnd samples score g (fst st) \<Longrightarrow>
     narrow_rule E rnd samples score g (fst (foldl (add_field E rnd score name) st fs))"
  by (induction fs arbitrary: st) (simp_all add: add_field_narrow)

lemma relax_selectors:
  "rlName (relax p r) = rlName r \<and> rlMethods (relax p r) = rlMethods r \<and> rlHostRegex (relax p r) = rlHostRegex r \<and>
   rlPathRegex (relax p r) = rlPathRegex r \<and> rlIgnoredHeaders (relax p r) = rlIgnoredHeaders r \<and>
   rlIgnoredQueryParameters (relax p r) = rlIgnoredQueryParameters r \<and> rlIgnoredJSONPaths (relax p r) = rlIgnoredJSONPaths r"
  by (cases "ppKind p") (simp_all add: relax_def)

lemma fields_selectors:
  "let r = fst (foldl (add_field E rnd score name) st fs) in
     rlName r = rlName (fst st) \<and> rlMethods r = rlMethods (fst st) \<and> rlHostRegex r = rlHostRegex (fst st) \<and>
     rlPathRegex r = rlPathRegex (fst st) \<and> rlIgnoredHeaders r = rlIgnoredHeaders (fst st) \<and>
     rlIgnoredQueryParameters r = rlIgnoredQueryParameters (fst st) \<and> rlIgnoredJSONPaths r = rlIgnoredJSONPaths (fst st)"
proof (induction fs arbitrary: st)
  case (Cons f fs)
  show ?case using Cons.IH [of "add_field E rnd score name st f"] relax_selectors
    by (cases st; cases f) (simp add: add_field_def Let_def)
qed simp

text \<open>C11. Healing relaxes nothing but what it has proved volatile: a generated rule selects the method, host and path of its
  group and ignores nothing; each expression in it is for a header, query parameter or JSON path that all observations
  share, whose name is volatile and not protected, whose values differ and all satisfy the expression, the one kept for
  validation included, from enough observations and with the confidence asked for.\<close>

theorem healing_is_narrow:
  "let r = fst (analyze_group E rnd samples score g) in
     narrow_rule E rnd samples score g r \<and>
     rlMethods r = [hgMethod g] \<and> rlHostRegex r = ''^'' @ quote_meta (hgHost g) @ ''$'' \<and> rlPathRegex r = hgPathRegex g \<and>
     rlIgnoredHeaders r = [] \<and> rlIgnoredQueryParameters r = [] \<and> rlIgnoredJSONPaths r = []"
proof (cases "int (length (hgItems g)) < samples")
  case True
  then show ?thesis by (simp add: analyze_group_def group_rule_def narrow_rule_def)
next
  case False
  then show ?thesis
    using fields_narrow [of "group_fields E (hgItems g)" E g samples rnd score "(group_rule g, [])" "hgName g"]
      fields_selectors [of E rnd score "hgName g" "(group_rule g, [])" "group_fields E (hgItems g)"]
    by (simp add: analyze_group_def group_rule_def narrow_rule_def Let_def)
qed


section \<open>Flattened documents\<close>

fun scalar_value :: "json \<Rightarrow> bool" where
  "scalar_value (JObj kvs) = False"
| "scalar_value (JArr xs) = False"
| "scalar_value v = True"

text \<open>Documents whose keys can be written in a path, each once per object.\<close>

fun plain_document :: "json \<Rightarrow> bool" where
  "plain_document (JObj kvs) =
     (distinct (map fst kvs) \<and> list_all (\<lambda>k. plain_tok (PKey k)) (map fst kvs) \<and> list_all (\<lambda>(k, v). plain_document v) kvs)"
| "plain_document (JArr xs) = (int (length xs) < 2 ^ 63 \<and> list_all plain_document xs)"
| "plain_document v = True"

definition leaf_text :: "json \<Rightarrow> string" where
  "leaf_text v = trim_set (\<lambda>c. byte c = 34) (marshal v)"

text \<open>The leaves with their paths as tokens.\<close>

definition leaf_at :: "json \<Rightarrow> jptok list \<Rightarrow> string \<Rightarrow> bool" where
  "leaf_at j ts t \<longleftrightarrow>
     list_all plain_tok ts \<and> (case json_at j ts of None \<Rightarrow> False | Some v \<Rightarrow> scalar_value v \<and> t = leaf_text v)"

lemma walk_object:
  "(p, t) \<in> set (walk_json path (JObj kvs)) \<longleftrightarrow> (\<exists>k v. (k, v) \<in> set kvs \<and> (p, t) \<in> set (walk_json (path @ ''.'' @ k) v))"
  by force

lemma walk_leaves:
  "plain_document j \<Longrightarrow> (p, t) \<in> set (walk_json path j) \<Longrightarrow> \<exists>ts. p = path @ concat (map tok_text ts) \<and> leaf_at j ts t"
  "list_all plain_document xs \<Longrightarrow> int (i + length xs) \<le> 2 ^ 63 \<Longrightarrow> (p, t) \<in> set (walk_items path i xs) \<Longrightarrow>
     \<exists>n ts. n < length xs \<and> p = path @ concat (map tok_text (PIdx (i + n) # ts)) \<and> leaf_at (xs ! n) ts t"
proof (induction path j and path i xs arbitrary: p t and p t rule: walk_json_walk_items.induct)
  case (1 path kvs)
  from 1(3) obtain k v where kv: "(k, v) \<in> set kvs" "(p, t) \<in> set (walk_json (path @ ''.'' @ k) v)"
    unfolding walk_object by blast
  with 1(2) have "plain_document v" "plain_tok (PKey k)" "map_of kvs k = Some v"
    by (auto simp: list_all_iff)
  with 1(1) [OF kv(1) refl] kv(2) obtain ts where "p = (path @ ''.'' @ k) @ concat (map tok_text ts)" "leaf_at v ts t" by blast
  with \<open>plain_tok (PKey k)\<close> \<open>map_of kvs k = Some v\<close>
  have "p = path @ concat (map tok_text (PKey k # ts)) \<and> leaf_at (JObj kvs) (PKey k # ts) t"
    by (simp add: leaf_at_def tok_text_def)
  then show ?case by blast
next
  case (2 path xs)
  then obtain n ts where n: "n < length xs" "p = path @ concat (map tok_text (PIdx n # ts))" "leaf_at (xs ! n) ts t" by fastforce
  moreover from n(1) 2(2) have "plain_tok (PIdx n)" by (simp add: plain_tok_def)
  ultimately have "p = path @ concat (map tok_text (PIdx n # ts)) \<and> leaf_at (JArr xs) (PIdx n # ts) t"
    by (simp add: leaf_at_def)
  then show ?case by blast
next
  case (5 path i x xs)
  show ?case
  proof (cases "(p, t) \<in> set (walk_json (path @ ''['' @ nat_digits i @ '']'') x)")
    case True
    with 5 obtain ts where "p = (path @ ''['' @ nat_digits i @ '']'') @ concat (map tok_text ts)" "leaf_at x ts t" by fastforce
    then have "p = path @ concat (map tok_text (PIdx (i + 0) # ts)) \<and> leaf_at ((x # xs) ! 0) ts t"
      by (simp add: tok_text_def)
    then show ?thesis by (intro exI [of _ 0]) auto
  next
    case False
    with 5(5) have "(p, t) \<in> set (walk_items path (Suc i) xs)" by simp
    with 5(2) [of p t] 5(3,4) obtain n ts where "n < length xs" "p = path @ concat (map tok_text (PIdx (Suc i + n) # ts))"
      "leaf_at (xs ! n) ts t" by auto
    then have "Suc n < length (x # xs) \<and> p = path @ concat (map tok_text (PIdx (i + Suc n) # ts)) \<and> leaf_at ((x # xs) ! Suc n) ts t"
      by simp
    then show ?thesis by blast
  qed
qed (auto simp: leaf_at_def leaf_text_def intro!: exI [of _ "[]"])


text \<open>Flattened paths lead back: in a document whose keys can be written in a path, every entry of \<open>flattenJSON\<close> stands
  under a path that the matcher's JSONPath reader takes to a scalar of the document, and the recorded text is that scalar's.\<close>

theorem flattened_paths_read_back:
  assumes "plain_document doc" and "(p, t) \<in> set (walk_json ''$'' doc)"
  shows "case json_path_value doc p of None \<Rightarrow> False | Some v \<Rightarrow> scalar_value v \<and> t = leaf_text v"
proof -
  from walk_leaves(1) [OF assms] obtain ts where p: "p = path_text ts" and l: "leaf_at doc ts t"
    by (auto simp: path_text_def)
  then have "parse_json_path p = Inr ts" using parse_path_text [of ts] by (simp add: leaf_at_def list_all_iff)
  with l show ?thesis by (simp add: json_path_value_def leaf_at_def)
qed

theorem flattened_paths_read_back_witness:
  "(case json_path_value (JObj [(''meta'', JArr [JObj [(''request_id'', JStr ''7f'')]])]) ''$.meta[0].request_id'' of
      None \<Rightarrow> False | Some v \<Rightarrow> scalar_value v \<and> ''7f'' = leaf_text v)"
proof (rule flattened_paths_read_back)
  show "plain_document (JObj [(''meta'', JArr [JObj [(''request_id'', JStr ''7f'')]])])" by code_simp
  have "walk_json ''$'' (JObj [(''meta'', JArr [JObj [(''request_id'', JStr ''7f'')]])]) = [(''$.meta[0].request_id'', ''7f'')]"
    by code_simp
  then show "(''$.meta[0].request_id'', ''7f'') \<in> set (walk_json ''$'' (JObj [(''meta'', JArr [JObj [(''request_id'', JStr ''7f'')]])]))"
    by simp
qed

text \<open>A key with a dot gets a path that leads nowhere: the rule generated from it refuses the very calls it was learned from,
  and a call that no captured call answers is not counted as ambiguous.\<close>

lemma dotted_key_lost:
  "walk_json ''$'' (JObj [(''x.time'', JStr v)]) = [(''$.x.time'', leaf_text (JStr v))] \<and>
   json_path_value (JObj [(''x.time'', JStr v)]) ''$.x.time'' = None"
proof
  have "parse_json_path ''$.x.time'' = Inr [PKey ''x'', PKey ''time'']" by code_simp
  then show "json_path_value (JObj [(''x.time'', JStr v)]) ''$.x.time'' = None" by (simp add: json_path_value_def)
qed (simp add: leaf_text_def)

lemma unanswered_not_counted:
  assumes "new_matcher E cfg None = Inr m" and "\<And>e u. e \<in> set es \<Longrightarrow> answers_for E m es e u = []"
  shows "ambiguity_count E cfg es = Inr 0"
proof -
  have "filter (ambiguous E m es) es = []"
    using assms(2) by (auto simp: ambiguous_def filter_empty_conv split: option.splits)
  with assms(1) show ?thesis by (simp add: ambiguity_count_def)
qed


section \<open>Merging\<close>

lemma groups_named: "list_all (\<lambda>g. has_prefix (hgName g) ''heal-'') (groups_of E es)"
proof -
  have "list_all (\<lambda>(k, g). has_prefix (hgName g) ''heal-'') (fst (foldl (add_observed E) st es))"
    if "list_all (\<lambda>(k, g). has_prefix (hgName g) ''heal-'') (fst st)" for st
    using that
  proof (induction es arbitrary: st)
    case (Cons e es)
    have "list_all (\<lambda>(k, g). has_prefix (hgName g) ''heal-'') (fst (add_observed E st e))"
    proof (cases "gUrlParse E (evURL e)")
      case (Some u)
      have "has_prefix (hgName (dflt (new_group E e u) (map_of (fst st) (group_key e u)))) ''heal-''"
        using Cons.prems by (cases "map_of (fst st) (group_key e u)")
          (auto simp: new_group_def generated_rule_name_def has_prefix_def Let_def list_all_iff dest!: map_of_SomeD)
      with Some Cons.prems show ?thesis
        by (cases st) (auto simp: add_observed_def Let_def intro!: list_all_update)
    qed (use Cons.prems in \<open>cases st, simp add: add_observed_def\<close>)
    with Cons.IH show ?case by simp
  qed simp
  from this [of "([], [])"] show ?thesis by (auto simp: groups_of_def list_all_iff)
qed

lemma generated_named: "list_all (\<lambda>r. \<not> hand_written r) (generated_rules E rnd samples score (groups_of E es))"
proof -
  have "rlName (fst (analyze_group E rnd samples score g)) = hgName g" for g
    using fields_selectors [of E rnd score "hgName g" "(group_rule g, [])" "group_fields E (hgItems g)"]
    by (simp add: analyze_group_def group_rule_def Let_def)
  with groups_named [of E es] show ?thesis
    by (auto simp: generated_rules_def hand_written_def list_all_iff)
qed

lemma merged_from: "snd ` set (foldl (\<lambda>m r. AList.update (rlName r) r m) m gs) \<subseteq> snd ` set m \<union> set gs"
proof (induction gs arbitrary: m)
  case (Cons r gs)
  have "snd ` set (AList.update (rlName r) r m) \<subseteq> insert r (snd ` set m)" by (induction m) auto
  with Cons.IH [of "AList.update (rlName r) r m"] show ?case by auto
qed simp

text \<open>Healing is stable: the rules written by hand are kept in their order, everything else in the merged list was
  generated, and healing once more from the proposed configuration with the same captures changes nothing.\<close>

theorem healing_again_changes_nothing:
  "let gs = generated_rules E rnd samples score (groups_of E es);
       merged = merge_generated_rules existing gs
   in filter hand_written merged = filter hand_written existing \<and>
      filter (\<lambda>r. \<not> hand_written r) merged = drop (length (filter hand_written existing)) merged \<and>
      set merged \<subseteq> set existing \<union> set gs \<and>
      merge_generated_rules merged gs = merged"
proof -
  let ?gs = "generated_rules E rnd samples score (groups_of E es)"
  let ?new = "map snd (stable_sort (\<lambda>a b. fst a < fst b) (foldl (\<lambda>m r. AList.update (rlName r) r m) [] ?gs))"
  have sub: "set ?new \<subseteq> set ?gs" using merged_from [of "[]" ?gs] by auto
  with generated_named [of E rnd samples score es] have g: "\<forall>r\<in>set ?new. \<not> hand_written r" by (auto simp: list_all_iff)
  then have "filter hand_written ?new = []" and "filter (\<lambda>r. \<not> hand_written r) ?new = ?new"
    by (simp_all only: filter_empty_conv filter_True not_not)
  moreover have "filter (\<lambda>r. \<not> hand_written r) (filter hand_written existing) = []" by (simp add: filter_empty_conv)
  ultimately show ?thesis using sub by (auto simp: merge_generated_rules_def Let_def)
qed

text \<open>A rule written by hand whose name begins with \<open>heal-\<close> is dropped.\<close>

lemma hand_written_heal_rule_lost: "has_prefix (rlName r) ''heal-'' \<Longrightarrow> merge_generated_rules [r] [] = []"
  by (simp add: merge_generated_rules_def hand_written_def)

section \<open>The active configuration survives\<close>

lemma write_atomic_other: "write_atomic writable p d fs = Some fs' \<Longrightarrow> q \<noteq> path_clean p \<Longrightarrow> fs' q = fs q"
  by (auto simp: write_atomic_def split: if_split_asm)

lemma write_atomic_here: "write_atomic writable p d fs = Some fs' \<Longrightarrow> file_at fs' p = Some d"
  by (auto simp: write_atomic_def file_at_def split: if_split_asm)

definition unchanged_outside :: "string list \<Rightarrow> files \<Rightarrow> files \<Rightarrow> bool" where
  "unchanged_outside ps fs fs' \<longleftrightarrow> (\<forall>q. q \<notin> path_clean ` set ps \<longrightarrow> fs' q = fs q)"

lemma unchanged_refl [simp]: "unchanged_outside ps fs fs" by (simp add: unchanged_outside_def)

lemma unchanged_trans: "unchanged_outside ps fs fs1 \<Longrightarrow> unchanged_outside ps fs1 fs2 \<Longrightarrow> unchanged_outside ps fs fs2"
  by (simp add: unchanged_outside_def)

lemma unchanged_mono: "unchanged_outside ps fs fs' \<Longrightarrow> set ps \<subseteq> set qs \<Longrightarrow> unchanged_outside qs fs fs'"
  by (auto simp: unchanged_outside_def)

lemma unchanged_write: "write_atomic writable p d fs = Some fs' \<Longrightarrow> p \<in> set ps \<Longrightarrow> unchanged_outside ps fs fs'"
  by (auto simp: unchanged_outside_def dest: write_atomic_other)

lemma unchanged_file: "unchanged_outside ps fs fs' \<Longrightarrow> path_clean p \<notin> path_clean ` set ps \<Longrightarrow> file_at fs' p = file_at fs p"
  by (simp add: unchanged_outside_def file_at_def)

lemma write_reports_unchanged:
  "unchanged_outside [json_report d, html_report d] fs (fst (write_reports writable report_text d r fs))"
proof -
  have "unchanged_outside [json_report d, html_report d] fs fs2"
    if "write_atomic writable (json_report d) a fs = Some fs1" "write_atomic writable (html_report d) b fs1 = Some fs2" for a b fs1 fs2
    by (rule unchanged_trans [OF unchanged_write [OF that(1)] unchanged_write [OF that(2)]]) simp_all
  then show ?thesis by (auto simp: write_reports_def split: option.split intro: unchanged_write)
qed

lemma next_backup_free: "next_backup_path fs active = Some p \<Longrightarrow> file_at fs p = None"
  unfolding next_backup_path_def by (auto simp: find_Some_iff)

lemma promote_cases:
  assumes "promote writable active data r fs = (err, r', fs')"
  shows "(case file_at fs active of
            None \<Rightarrow> unchanged_outside [active] fs fs'
          | Some old \<Rightarrow>
              file_at fs' active = Some old \<and> err \<noteq> None \<and> unchanged_outside [hrBackup r'] fs fs' \<or>
              file_at fs (hrBackup r') = None \<and> file_at fs' (hrBackup r') = Some old \<and> unchanged_outside [active, hrBackup r'] fs fs')"
proof (cases "file_at fs active")
  case None
  with assms show ?thesis
    by (auto simp: promote_def Let_def split: option.splits intro: unchanged_write)
next
  case (Some old)
  show ?thesis
  proof (cases "next_backup_path fs active")
    case None
    with Some assms show ?thesis by (auto simp: promote_def)
  next
    case backup: (Some b)
    have free: "file_at fs b = None" by (rule next_backup_free [OF backup])
    then have ne: "path_clean b \<noteq> path_clean active" using Some by (auto simp: file_at_def)
    show ?thesis
    proof (cases "write_atomic writable b old fs")
      case None
      with Some backup assms show ?thesis by (auto simp: promote_def)
    next
      case w: (Some fs1)
      have old1: "file_at fs1 active = Some old" and b1: "file_at fs1 b = Some old"
        using write_atomic_other [OF w, of "path_clean active"] write_atomic_here [OF w] ne Some by (simp_all add: file_at_def)
      show ?thesis
      proof (cases "write_atomic writable active data fs1")
        case None
        with Some backup w assms old1 show ?thesis
          by (auto simp: promote_def Let_def intro: unchanged_write)
      next
        case w2: (Some fs2)
        have "file_at fs2 b = Some old" using write_atomic_other [OF w2, of "path_clean b"] ne b1 by (simp add: file_at_def)
        moreover have "unchanged_outside [active, b] fs fs2"
          by (rule unchanged_trans [OF unchanged_write [OF w] unchanged_write [OF w2]]) simp_all
        ultimately show ?thesis using Some backup w w2 assms free by (auto simp: promote_def Let_def)
      qed
    qed
  qed
qed


definition report_paths :: "heal_plan \<Rightarrow> string list" where
  "report_paths p = [json_report (hpReports p), html_report (hpReports p)]"

text \<open>What a run may leave: everything but the reports unchanged, and nothing written to the active configuration, unless no
  ambiguity was found; then the output may be written, and with \<open>Apply\<close> the active configuration, whose old content is
  then still there, in its own place or under the backup's name, which was free before.\<close>

definition heal_allows :: "heal_options \<Rightarrow> heal_plan \<Rightarrow> heal_error option \<Rightarrow> heal_result \<Rightarrow> files \<Rightarrow> files \<Rightarrow> bool" where
  "heal_allows opts p err r fs fs' \<longleftrightarrow>
     (if 0 < hrAmbiguities r then err \<noteq> None \<and> unchanged_outside (report_paths p) fs fs'
      else if \<not> hoApply opts then unchanged_outside (hpOutput p # report_paths p) fs fs'
      else unchanged_outside (hpOutput p # hpActive p # hrBackup r # report_paths p) fs fs' \<and>
        (case file_at fs (hpActive p) of
           None \<Rightarrow> True
         | Some old \<Rightarrow>
             path_clean (hpActive p) \<in> path_clean ` set (report_paths p) \<or> file_at fs' (hpActive p) = Some old \<or>
             file_at fs (hrBackup r) = None \<and>
             (path_clean (hrBackup r) \<in> path_clean ` set (report_paths p) \<or> file_at fs' (hrBackup r) = Some old)))"

lemma plan_output: "plan_heal rnd fs opts = Inr p \<Longrightarrow> path_clean (hpOutput p) \<noteq> path_clean (hpActive p)"
  by (cases "hoDirs opts") (simp_all add: plan_heal_def Let_def, elim conjE, hypsubst, simp)

lemma promote_ambiguities: "promote writable active data r fs = (err, r', fs') \<Longrightarrow> hrAmbiguities r' = hrAmbiguities r"
  by (auto simp: promote_def Let_def split: option.splits)

lemma promoted_allowed:
  assumes plan: "path_clean (hpOutput p) \<noteq> path_clean (hpActive p)"
    and w: "write_atomic writable (hpOutput p) data fs = Some fs1" and a: "hoApply opts" "hrAmbiguities r = 0"
    and pr: "promote writable (hpActive p) data r fs1 = (err, r', fs2)" and rep: "unchanged_outside (report_paths p) fs2 fs3"
  shows "heal_allows opts p err' r' fs fs3"
proof -
  have act: "file_at fs1 (hpActive p) = file_at fs (hpActive p)"
    using write_atomic_other [OF w, of "path_clean (hpActive p)"] plan by (simp add: file_at_def)
  have free: "file_at fs1 q = None \<Longrightarrow> file_at fs q = None" for q
    using w by (auto simp: write_atomic_def file_at_def split: if_split_asm)
  have u1: "unchanged_outside (hpOutput p # hpActive p # hrBackup r' # report_paths p) fs fs1"
    by (rule unchanged_write [OF w]) simp
  have u2: "unchanged_outside (hpOutput p # hpActive p # hrBackup r' # report_paths p) fs1 fs2"
    using promote_cases [OF pr] by (auto split: option.split_asm elim!: unchanged_mono)
  have u3: "unchanged_outside (hpOutput p # hpActive p # hrBackup r' # report_paths p) fs2 fs3"
    using rep by (rule unchanged_mono) auto
  have amb: "hrAmbiguities r' = 0" using promote_ambiguities [OF pr] a by simp
  have kept: "path_clean q \<in> path_clean ` set (report_paths p) \<or> file_at fs3 q = file_at fs2 q" for q
    using unchanged_file [OF rep] by blast
  show ?thesis
    unfolding heal_allows_def
    using unchanged_trans [OF unchanged_trans [OF u1 u2] u3] amb a promote_cases [OF pr] act free kept
    by (simp split: option.split_asm option.split) metis
qed


end
