(* ===== verification/Testgen.thy ===== *)
theory Testgen
  imports Heal
begin

text \<open>
  \<open>pkg/testgen\<close> (\<open>testgen.go\<close>): test harnesses generated for an incident: the checks of the options, the relative path from
  the output to the incident (\<open>filepath.Rel\<close>), the four templates line by line, and the files written. \<open>format.Source\<close> is
  a parameter; files are those of \<open>Heal\<close>, under cleaned paths.
\<close>

section \<open>Templates\<close>

record harness_data =
  hnIncident :: string
  hnRepository :: string
  hnImage :: string
  hnPackage :: string

definition tabs :: "nat \<Rightarrow> string" where "tabs n = replicate n (chr 9)"

definition unlines :: "string list \<Rightarrow> string" where
  "unlines ls = concat (map (\<lambda>l. l @ [chr 10]) ls)"

text \<open>\<open>yamlQuote\<close>.\<close>

definition yaml_quote :: "string \<Rightarrow> string" where
  "yaml_quote s = [chr 39] @ concat (map (\<lambda>c. if c = chr 39 then [chr 39, chr 39] else [c]) s) @ [chr 39]"

definition go_harness :: "go_env \<Rightarrow> harness_data \<Rightarrow> string" where
  "go_harness E d = unlines
    [''// Code generated by InfernoSIM; safe to edit.'',
     ''package '' @ hnPackage d,
     [],
     ''import ('',
     tabs 1 @ ''\"context\"'',
     tabs 1 @ ''\"fmt\"'',
     tabs 1 @ ''\"io/fs\"'',
     tabs 1 @ ''\"net/http\"'',
     tabs 1 @ ''\"os\"'',
     tabs 1 @ ''\"path/filepath\"'',
     tabs 1 @ ''\"strings\"'',
     tabs 1 @ ''\"testing\"'',
     tabs 1 @ ''\"time\"'',
     [],
     tabs 1 @ ''\"github.com/testcontainers/testcontainers-go\"'',
     tabs 1 @ ''\"github.com/testcontainers/testcontainers-go/wait\"'',
     '')'',
     [],
     ''const infernoSIMIncident = '' @ gQuote E (hnIncident d),
     ''const infernoSIMImage = '' @ gQuote E (hnImage d),
     [],
     ''type infernoSIMContainer struct {'',
     tabs 1 @ ''testcontainers.Container'',
     tabs 1 @ ''ProxyURL string'',
     tabs 1 @ ''AdminURL string'',
     ''}'',
     [],
     ''func startInfernoSIM(t testing.TB) *infernoSIMContainer {'',
     tabs 1 @ ''t.Helper()'',
     tabs 1 @ ''ctx, cancel := context.WithTimeout(context.Background(), 90*time.Second)'',
     tabs 1 @ ''defer cancel()'',
     [],
     tabs 1 @ ''files := make([]testcontainers.ContainerFile, 0)'',
     tabs 1 @ ''err := filepath.WalkDir(infernoSIMIncident, func(path string, entry fs.DirEntry, walkErr error) error {'',
     tabs 2 @ ''if walkErr != nil {'',
     tabs 3 @ ''return walkErr'',
     tabs 2 @ ''}'',
     tabs 2 @ ''if entry.Type()&fs.ModeSymlink != 0 {'',
     tabs 3 @ ''return fmt.Errorf(\"incident contains unsupported symlink %s\", path)'',
     tabs 2 @ ''}'',
     tabs 2 @ ''if entry.IsDir() {'',
     tabs 3 @ ''return nil'',
     tabs 2 @ ''}'',
     tabs 2 @ ''relative, err := filepath.Rel(infernoSIMIncident, path)'',
     tabs 2 @ ''if err != nil || relative == \"..\" || strings.HasPrefix(relative, \"..\"+string(filepath.Separator)) {'',
     tabs 3 @ ''return fmt.Errorf(\"incident file escapes root: %s\", path)'',
     tabs 2 @ ''}'',
     tabs 2 @ ''files = append(files, testcontainers.ContainerFile{'',
     tabs 3 @ ''HostFilePath: path,'',
     tabs 3 @ ''ContainerFilePath: \"/incident/\" + filepath.ToSlash(relative),'',
     tabs 3 @ ''FileMode: 0o444,'',
     tabs 2 @ ''})'',
     tabs 2 @ ''return nil'',
     tabs 1 @ ''})'',
     tabs 1 @ ''if err != nil {'',
     tabs 2 @ ''t.Fatalf(\"collect InfernoSIM incident: %v\", err)'',
     tabs 1 @ ''}'',
     tabs 1 @ ''if len(files) == 0 {'',
     tabs 2 @ ''t.Fatal(\"InfernoSIM incident contains no files\")'',
     tabs 1 @ ''}'',
     [],
     tabs 1 @ ''container, err := testcontainers.GenericContainer(ctx, testcontainers.GenericContainerRequest{'',
     tabs 2 @ ''ContainerRequest: testcontainers.ContainerRequest{'',
     tabs 3 @ ''Image: infernoSIMImage,'',
     tabs 3 @ ''ExposedPorts: []string{\"19000/tcp\", \"19001/tcp\"},'',
     tabs 3 @ ''Files: files,'',
     tabs 3 @ ''Cmd: []string{\"serve\", \"/incident\", \"--listen\", \"0.0.0.0:19000\", \"--admin-listen\", \"0.0.0.0:19001\"},'',
     tabs 3 @ ''WaitingFor: wait.ForHTTP(\"/healthz\").WithPort(\"19001/tcp\").WithStartupTimeout(60 * time.Second),'',
     tabs 2 @ ''},'',
     tabs 2 @ ''Started: true,'',
     tabs 1 @ ''})'',
     tabs 1 @ ''if err != nil {'',
     tabs 2 @ ''t.Fatalf(\"start InfernoSIM: %v\", err)'',
     tabs 1 @ ''}'',
     tabs 1 @ ''t.Cleanup(func() {'',
     tabs 2 @ ''terminateContext, terminateCancel := context.WithTimeout(context.Background(), 15*time.Second)'',
     tabs 2 @ ''defer terminateCancel()'',
     tabs 2 @ ''if err := container.Terminate(terminateContext); err != nil {'',
     tabs 3 @ ''t.Errorf(\"terminate InfernoSIM: %v\", err)'',
     tabs 2 @ ''}'',
     tabs 1 @ ''})'',
     tabs 1 @ ''proxyURL, err := container.PortEndpoint(ctx, \"19000/tcp\", \"http\")'',
     tabs 1 @ ''if err != nil {'',
     tabs 2 @ ''t.Fatalf(\"resolve InfernoSIM proxy: %v\", err)'',
     tabs 1 @ ''}'',
     tabs 1 @ ''adminURL, err := container.PortEndpoint(ctx, \"19001/tcp\", \"http\")'',
     tabs 1 @ ''if err != nil {'',
     tabs 2 @ ''t.Fatalf(\"resolve InfernoSIM admin API: %v\", err)'',
     tabs 1 @ ''}'',
     tabs 1 @ ''return &infernoSIMContainer{Container: container, ProxyURL: proxyURL, AdminURL: adminURL}'',
     ''}'',
     [],
     ''func (container *infernoSIMContainer) reset(t testing.TB) {'',
     tabs 1 @ ''t.Helper()'',
     tabs 1 @ ''request, err := http.NewRequest(http.MethodPost, container.AdminURL+\"/__infernosim/reset\", strings.NewReader(\"{}\"))'',
     tabs 1 @ ''if err != nil {'',
     tabs 2 @ ''t.Fatal(err)'',
     tabs 1 @ ''}'',
     tabs 1 @ ''request.Header.Set(\"Content-Type\", \"application/json\")'',
     tabs 1 @ ''response, err := http.DefaultClient.Do(request)'',
     tabs 1 @ ''if err != nil {'',
     tabs 2 @ ''t.Fatalf(\"reset InfernoSIM: %v\", err)'',
     tabs 1 @ ''}'',
     tabs 1 @ ''defer response.Body.Close()'',
     tabs 1 @ ''if response.StatusCode != http.StatusOK {'',
     tabs 2 @ ''t.Fatalf(\"reset InfernoSIM: %s\", response.Status)'',
     tabs 1 @ ''}'',
     ''}'',
     [],
     ''func TestInfernoSIMIncidentLoads(t *testing.T) {'',
     tabs 1 @ ''if _, err := os.Stat(infernoSIMIncident); err != nil {'',
     tabs 2 @ ''t.Fatalf(\"incident is unavailable: %v\", err)'',
     tabs 1 @ ''}'',
     tabs 1 @ ''simulator := startInfernoSIM(t)'',
     tabs 1 @ ''simulator.reset(t)'',
     tabs 1 @ ''if simulator.ProxyURL == \"\" {'',
     tabs 2 @ ''t.Fatal(fmt.Errorf(\"InfernoSIM proxy URL is empty\"))'',
     tabs 1 @ ''}'',
     tabs 1 @ ''// Configure your application under test with HTTP_PROXY and HTTPS_PROXY set'',
     tabs 1 @ ''// to simulator.ProxyURL, exercise the incident, and assert its response.'',
     ''}'']"

definition readme_text :: "harness_data \<Rightarrow> string" where
  "readme_text d = unlines
    [''# Generated InfernoSIM integration'',
     [],
     ''This directory contains a readable Testcontainers-Go harness for the incident at:'',
     [],
     ''    '' @ hnIncident d,
     [],
     ''Add the dependency and run the generated smoke test:'',
     [],
     ''    go get github.com/testcontainers/testcontainers-go@v0.44.0'',
     ''    go test ./...'',
     [],
     ''Set your application under test'' @ [chr 39] @ ''s HTTP_PROXY and HTTPS_PROXY to the returned'',
     ''ProxyURL. Call reset before each scenario. The control API is deliberately'',
     ''bound to a separate port and never exposes captured payloads.'']"

definition compose_text :: "harness_data \<Rightarrow> string" where
  "compose_text d = unlines
    [''services:'',
     ''  infernosim:'',
     ''    image: '' @ yaml_quote (hnImage d),
     ''    command: [\"serve\", \"/incident\", \"--listen\", \"0.0.0.0:19000\", \"--admin-listen\", \"0.0.0.0:19001\"]'',
     ''    volumes:'',
     ''      - type: bind'',
     ''        source: '' @ yaml_quote (hnIncident d),
     ''        target: /incident'',
     ''        read_only: true'',
     ''    ports:'',
     ''      - \"19000:19000\"'',
     ''      - \"19001:19001\"'',
     ''    healthcheck:'',
     ''      test: [\"CMD\", \"wget\", \"-qO-\", \"http://127.0.0.1:19001/healthz\"]'',
     ''      interval: 2s'',
     ''      timeout: 1s'',
     ''      retries: 30'',
     ''    read_only: true'',
     ''    tmpfs:'',
     ''      - /tmp'']"

definition actions_text :: "harness_data \<Rightarrow> string" where
  "actions_text d = unlines
    [''name: InfernoSIM incident test'',
     [],
     ''on:'',
     ''  pull_request:'',
     ''  push:'',
     [],
     ''jobs:'',
     ''  incident-test:'',
     ''    runs-on: ubuntu-latest'',
     ''    env:'',
     ''      INFERNOSIM_INCIDENT_DIR: '' @ yaml_quote (hnRepository d),
     ''      INFERNOSIM_IMAGE: '' @ yaml_quote (hnImage d),
     ''    steps:'',
     ''      - uses: actions/checkout@v4'',
     ''      - name: Start InfernoSIM'',
     ''        run: |'',
     ''          docker run --detach --rm --name infernosim '' @ [chr 92],
     ''            --publish 19000:19000 --publish 19001:19001 '' @ [chr 92],
     ''            --volume \"$PWD/$INFERNOSIM_INCIDENT_DIR:/incident:ro\" '' @ [chr 92],
     ''            \"$INFERNOSIM_IMAGE\" serve /incident --listen 0.0.0.0:19000 --admin-listen 0.0.0.0:19001'',
     ''          for _ in $(seq 1 30); do'',
     ''            curl --fail --silent http://127.0.0.1:19001/healthz && exit 0'',
     ''            sleep 1'',
     ''          done'',
     ''          docker logs infernosim'',
     ''          exit 1'',
     ''      - name: Run application incident tests'',
     ''        env:'',
     ''          HTTP_PROXY: http://127.0.0.1:19000'',
     ''          HTTPS_PROXY: http://127.0.0.1:19000'',
     ''        run: go test ./...'',
     ''      - name: Save deterministic proof'',
     ''        if: always()'',
     ''        run: curl --fail --silent http://127.0.0.1:19001/__infernosim/proof > infernosim-proof.json'',
     ''      - uses: actions/upload-artifact@v4'',
     ''        if: always()'',
     ''        with:'',
     ''          name: infernosim-proof'',
     ''          path: infernosim-proof.json'']"

section \<open>Generation\<close>

record harness_options =
  hqIncident :: string
  hqOutput :: string
  hqFramework :: string
  hqImage :: string
  hqPackage :: string
  hqForce :: bool

datatype harness_error =
    IncidentMissing | OutputRequired | BadImage | BadPackage | OutsideRepository | NewlineInPath | UnknownFramework string
  | FormatFailed | Exists string | HarnessWriteFailed string

definition one_line :: "string \<Rightarrow> bool" where
  "one_line s \<longleftrightarrow> list_all (\<lambda>c. byte c \<noteq> 10 \<and> byte c \<noteq> 13) s"

definition ident_start :: "char \<Rightarrow> bool" where
  "ident_start c \<longleftrightarrow> 65 \<le> byte c \<and> byte c \<le> 90 \<or> 97 \<le> byte c \<and> byte c \<le> 122 \<or> byte c = 95"

definition go_identifier :: "string \<Rightarrow> bool" where
  "go_identifier s \<longleftrightarrow> (case s of [] \<Rightarrow> False | c # r \<Rightarrow> ident_start c \<and> list_all (\<lambda>x. ident_start x \<or> is_digit x) r)"

definition outside_repository :: "string \<Rightarrow> bool" where
  "outside_repository r \<longleftrightarrow> r = ''..'' \<or> has_prefix r ''../'' \<or> is_abs r"

text \<open>The options with their defaults, checked, and the data of the templates.\<close>

definition harness_setup :: "files \<Rightarrow> string \<Rightarrow> harness_options \<Rightarrow> (harness_error, string \<times> harness_data) result" where
  "harness_setup fs wd opts =
     (let framework = (if hqFramework opts = [] then ''go-testcontainers'' else hqFramework opts);
          image = (if hqImage opts = [] then ''ghcr.io/pranaysparihar/infernosim:3.4.0'' else hqImage opts);
          package = (if hqPackage opts = [] then ''integration'' else hqPackage opts);
          incident = path_abs wd (hqIncident opts);
          repository = (if framework = ''github-actions'' then path_rel wd incident else []);
          relative = (if framework = ''github-actions'' then incident else path_rel (path_abs wd (hqOutput opts)) incident)
      in and_then (fail_if (open_incident (file_at fs) (hqIncident opts) = None) IncidentMissing) (\<lambda>_.
         and_then (fail_if (hqOutput opts = []) OutputRequired) (\<lambda>_.
         and_then (fail_if (\<not> one_line image \<or> trim_space image = []) BadImage) (\<lambda>_.
         and_then (fail_if (\<not> go_identifier package) BadPackage) (\<lambda>_.
         and_then (fail_if (framework = ''github-actions'' \<and> outside_repository repository) OutsideRepository) (\<lambda>_.
         and_then (fail_if (\<not> one_line relative \<or> \<not> one_line repository) NewlineInPath) (\<lambda>_.
         Inr (framework, \<lparr>hnIncident = relative, hnRepository = repository, hnImage = image, hnPackage = package\<rparr>))))))))"

text \<open>The files of a framework in the order of their names.\<close>

definition harness_files ::
  "go_env \<Rightarrow> (string \<Rightarrow> string option) \<Rightarrow> string \<Rightarrow> harness_data \<Rightarrow> (harness_error, (string \<times> string) list) result" where
  "harness_files E format framework d =
     (if framework = ''go-testcontainers'' then
        (case format (go_harness E d) of
           None \<Rightarrow> Inl FormatFailed
         | Some go \<Rightarrow> Inr [(''README.md'', readme_text d), (''infernosim_testcontainer_test.go'', go)])
      else if framework = ''docker-compose'' then Inr [(''compose.infernosim.yaml'', compose_text d)]
      else if framework = ''github-actions'' then Inr [(''infernosim-ci.yaml'', actions_text d)]
      else Inl (UnknownFramework framework))"

fun write_harness ::
  "(string \<Rightarrow> bool) \<Rightarrow> string \<Rightarrow> (string \<times> string) list \<Rightarrow> files \<Rightarrow> harness_error option \<times> string list \<times> files" where
  "write_harness writable dir [] fs = (None, [], fs)"
| "write_harness writable dir ((n, t) # ns) fs =
     (case write_atomic writable (path_join [dir, n]) t fs of
        None \<Rightarrow> (Some (HarnessWriteFailed (path_join [dir, n])), [], fs)
      | Some fs1 \<Rightarrow> (case write_harness writable dir ns fs1 of (e, written, fs2) \<Rightarrow> (e, path_join [dir, n] # written, fs2)))"

text \<open>\<open>Generate\<close>.\<close>

definition generate_harness ::
  "go_env \<Rightarrow> (string \<Rightarrow> string option) \<Rightarrow> (string \<Rightarrow> bool) \<Rightarrow> string \<Rightarrow> harness_options \<Rightarrow> files \<Rightarrow>
   harness_error option \<times> string list \<times> files" where
  "generate_harness E format writable wd opts fs =
     (case and_then (harness_setup fs wd opts) (\<lambda>(framework, d). harness_files E format framework d) of
        Inl e \<Rightarrow> (Some e, [], fs)
      | Inr ts \<Rightarrow>
          (case (if hqForce opts then None
                 else List.find (\<lambda>n. file_at fs (path_join [hqOutput opts, n]) \<noteq> None) (map fst ts)) of
             Some n \<Rightarrow> (Some (Exists (path_join [hqOutput opts, n])), [], fs)
           | None \<Rightarrow> write_harness writable (hqOutput opts) ts fs))"


section \<open>A harness finds its incident\<close>

lemma harness_setup_paths:
  assumes "harness_setup fs wd opts = Inr (framework, d)"
  shows "if framework = ''github-actions''
         then hnRepository d = path_rel wd (path_abs wd (hqIncident opts)) \<and> \<not> outside_repository (hnRepository d)
         else hnIncident d = path_rel (path_abs wd (hqOutput opts)) (path_abs wd (hqIncident opts))"
  using assms by (simp add: harness_setup_def Let_def) (elim conjE, hypsubst, simp)

text \<open>A generated harness finds its incident: the relative path written into it, taken from the directory of the output,
  leads to the incident; for the workflow file the path is taken from the root of the repository and stays inside it.\<close>

theorem harness_finds_incident:
  assumes "harness_setup fs wd opts = Inr (framework, d)" and "is_abs wd"
  shows "if framework = ''github-actions''
         then path_join [wd, hnRepository d] = path_abs wd (hqIncident opts) \<and> \<not> outside_repository (hnRepository d)
         else path_join [path_abs wd (hqOutput opts), hnIncident d] = path_abs wd (hqIncident opts)"
  using harness_setup_paths [OF assms(1)] rel_back [OF assms(2) path_abs_abs [OF assms(2)], of "hqIncident opts"]
    rel_back [OF path_abs_abs [OF assms(2)] path_abs_abs [OF assms(2)], of "hqOutput opts" "hqIncident opts"] assms(2)
  by (cases "framework = ''github-actions''") auto

definition sample_harness :: harness_options where
  "sample_harness = \<lparr>hqIncident = ''captures/may'', hqOutput = ''tests/sim'', hqFramework = [], hqImage = [], hqPackage = [], hqForce = False\<rparr>"

definition sample_disk :: files where
  "sample_disk p = (if p = ''captures/may/inbound.log'' then Some [] else None)"

theorem harness_finds_incident_witness:
  "case harness_setup sample_disk ''/home/repo'' sample_harness of
     Inl e \<Rightarrow> False
   | Inr (framework, d) \<Rightarrow> hnIncident d = ''../../captures/may'' \<and>
       path_join [path_abs ''/home/repo'' ''tests/sim'', hnIncident d] = path_abs ''/home/repo'' ''captures/may''"
proof -
  let ?d = "\<lparr>hnIncident = ''../../captures/may'', hnRepository = [], hnImage = ''ghcr.io/pranaysparihar/infernosim:3.4.0'', hnPackage = ''integration''\<rparr>"
  have made: "harness_setup sample_disk ''/home/repo'' sample_harness = Inr (''go-testcontainers'', ?d)" by code_simp
  have "is_abs ''/home/repo''" by code_simp
  from harness_finds_incident [OF made this] made show ?thesis by (simp add: sample_harness_def)
qed

section \<open>What is written\<close>

lemma write_harness_unchanged: "write_harness writable dir ts fs = (e, written, fs') \<Longrightarrow> unchanged_outside written fs fs'"
proof (induction ts arbitrary: fs e written fs')
  case (Cons nt ts)
  obtain n t where nt: "nt = (n, t)" by fastforce
  show ?case
  proof (cases "write_atomic writable (path_join [dir, n]) t fs")
    case None
    with Cons.prems nt show ?thesis by simp
  next
    case w: (Some fs1)
    obtain e2 rest fs2 where r: "write_harness writable dir ts fs1 = (e2, rest, fs2)" by (rule prod_cases3)
    have "unchanged_outside (path_join [dir, n] # rest) fs fs1" by (rule unchanged_write [OF w]) simp
    moreover have "unchanged_outside (path_join [dir, n] # rest) fs1 fs2" using Cons.IH [OF r] by (rule unchanged_mono) auto
    ultimately show ?thesis using Cons.prems nt w r by (auto intro: unchanged_trans)
  qed
qed simp

lemma write_harness_written:
  "write_harness writable dir ts fs = (e, written, fs') \<Longrightarrow>
     written = take (length written) (map (\<lambda>(n, t). path_join [dir, n]) ts) \<and> (e = None \<longleftrightarrow> length written = length ts)"
proof (induction ts arbitrary: fs e written fs')
  case (Cons nt ts)
  obtain n t where nt: "nt = (n, t)" by fastforce
  show ?case
  proof (cases "write_atomic writable (path_join [dir, n]) t fs")
    case (Some fs1)
    obtain e2 rest fs2 where r: "write_harness writable dir ts fs1 = (e2, rest, fs2)" by (rule prod_cases3)
    with Cons.IH [OF r] Cons.prems nt Some show ?thesis by auto
  qed (use Cons.prems nt in auto)
qed simp

text \<open>Generation overwrites nothing it was not told to: only the files it reports are touched, without \<open>Force\<close> each of them
  was absent before, nothing is touched when an option or an existing file is refused, and success means that all files
  of the framework are written.\<close>

theorem generation_never_overwrites:
  "case generate_harness E format writable wd opts fs of (err, written, fs') \<Rightarrow>
     unchanged_outside written fs fs' \<and> list_all (\<lambda>p. hqForce opts \<or> file_at fs p = None) written \<and>
     (case and_then (harness_setup fs wd opts) (\<lambda>(framework, d). harness_files E format framework d) of
        Inl e \<Rightarrow> err = Some e \<and> written = []
      | Inr ts \<Rightarrow> err = None \<longleftrightarrow> written = map (\<lambda>(n, t). path_join [hqOutput opts, n]) ts \<and> ts \<noteq> [])"
proof (cases "and_then (harness_setup fs wd opts) (\<lambda>(framework, d). harness_files E format framework d)")
  case (Inl e)
  then show ?thesis by (simp add: generate_harness_def)
next
  case ts: (Inr ts)
  then have ne: "ts \<noteq> []"
    by (auto simp: and_then_def harness_files_def split: sum.split_asm if_split_asm option.split_asm)
  define clash where "clash = (if hqForce opts then None else List.find (\<lambda>n. file_at fs (path_join [hqOutput opts, n]) \<noteq> None) (map fst ts))"
  show ?thesis
  proof (cases clash)
    case (Some n)
    with ne show ?thesis unfolding generate_harness_def ts by (simp add: clash_def [symmetric])
  next
    case None
    obtain err written fs' where w: "write_harness writable (hqOutput opts) ts fs = (err, written, fs')" by (rule prod_cases3)
    have "hqForce opts \<or> file_at fs (path_join [hqOutput opts, n]) = None" if "n \<in> fst ` set ts" for n
      using None that by (auto simp: clash_def find_None_iff split: if_split_asm)
    then have free: "list_all (\<lambda>p. hqForce opts \<or> file_at fs p = None) (map (\<lambda>(n, t). path_join [hqOutput opts, n]) ts)"
      by (force simp: list_all_iff)
    define names where "names = map (\<lambda>(n, t). path_join [hqOutput opts, n]) ts"
    have part: "written = take (length written) names" and all: "err = None \<longleftrightarrow> length written = length names"
      using write_harness_written [OF w] by (auto simp: names_def)
    have "set written \<subseteq> set names" using part set_take_subset by metis
    with free have "list_all (\<lambda>p. hqForce opts \<or> file_at fs p = None) written"
      unfolding list_all_iff names_def [symmetric] by (auto dest: subsetD)
    moreover have "err = None \<longleftrightarrow> written = names" using part all by (cases "length written = length names") auto
    ultimately show ?thesis using None w ne write_harness_unchanged [OF w]
      unfolding generate_harness_def ts by (simp add: clash_def [symmetric] names_def [symmetric])
  qed
qed

section \<open>Quoted scalars\<close>

text \<open>A single-quoted YAML scalar on one line, and what follows it.\<close>

fun yaml_scalar :: "string \<Rightarrow> (string \<times> string) option" where
  "yaml_scalar (c # d # s) =
     (if c \<noteq> chr 39 then map_option (\<lambda>(v, r). (c # v, r)) (yaml_scalar (d # s))
      else if d = chr 39 then map_option (\<lambda>(v, r). (chr 39 # v, r)) (yaml_scalar s)
      else Some ([], d # s))"
| "yaml_scalar [c] = (if c = chr 39 then Some ([], []) else None)"
| "yaml_scalar [] = None"

lemma yaml_quote_reads_back: "yaml_scalar (drop 1 (yaml_quote s)) = Some (s, [])"
proof -
  have "yaml_scalar (concat (map (\<lambda>c. if c = chr 39 then [chr 39, chr 39] else [c]) s) @ [chr 39]) = Some (s, [])"
  proof (induction s)
    case (Cons c s)
    obtain d r where "concat (map (\<lambda>c. if c = chr 39 then [chr 39, chr 39] else [c]) s) @ [chr 39] = d # r"
      by (cases "concat (map (\<lambda>c. if c = chr 39 then [chr 39, chr 39] else [c]) s) @ [chr 39]") auto
    with Cons show ?case by simp
  qed simp
  then show ?thesis by (simp add: yaml_quote_def)
qed

end
