(* ===== verification/Benchmark.thy ===== *)
theory Benchmark
  imports Testgen
begin

text \<open>
  \<open>cmd/benchmark\<close> (\<open>main.go\<close>): the benchmark heals a fixture and generates a harness for it a number of times, hashes what it
  gets and reports whether all runs agree. Files are those of \<open>Heal\<close>; \<open>listing\<close> is \<open>filepath.WalkDir\<close>: the files under a
  directory, None for an error or a symbolic link; the clock gives the microseconds of each run.
\<close>

section \<open>Measures\<close>

text \<open>\<open>strings.Count\<close> of a marker that is not empty; \<open>k\<close> bytes of the last match are still to be passed.\<close>

fun count_sub :: "string \<Rightarrow> nat \<Rightarrow> string \<Rightarrow> nat" where
  "count_sub m k [] = 0"
| "count_sub m k (c # s) =
     (if 0 < k then count_sub m (k - 1) s
      else if has_prefix (c # s) m then Suc (count_sub m (length m - 1) s) else count_sub m 0 s)"

definition read_all :: "files \<Rightarrow> string list \<Rightarrow> (unit, string list) result" where
  "read_all fs ps = map_err (\<lambda>p. case fs p of None \<Rightarrow> Inl () | Some data \<Rightarrow> Inr data) ps"

definition scan_leaks :: "(files \<Rightarrow> string \<Rightarrow> string list option) \<Rightarrow> files \<Rightarrow> string \<Rightarrow> string \<Rightarrow> nat option" where
  "scan_leaks listing fs dir marker =
     (case listing fs dir of
        None \<Rightarrow> None
      | Some ps \<Rightarrow> (case read_all fs ps of Inl _ \<Rightarrow> None | Inr ds \<Rightarrow> Some (sum_list (map (count_sub marker 0) ds))))"

text \<open>What \<open>hashTree\<close> writes to the hash: each file under its relative name, in the order of the paths.\<close>

definition tree_text :: "files \<Rightarrow> string \<Rightarrow> string list \<Rightarrow> (unit, string) result" where
  "tree_text fs dir ps =
     and_then (read_all fs (stable_sort (\<lambda>a b. a < b) ps)) (\<lambda>ds.
       Inr (concat (map2 (\<lambda>p d. path_rel dir p @ [chr 0] @ d @ [chr 0]) (stable_sort (\<lambda>a b. a < b) ps) ds)))"

definition hash_tree :: "go_env \<Rightarrow> (files \<Rightarrow> string \<Rightarrow> string list option) \<Rightarrow> files \<Rightarrow> string \<Rightarrow> string option" where
  "hash_tree E listing fs dir =
     (case listing fs dir of
        None \<Rightarrow> None
      | Some ps \<Rightarrow> (case tree_text fs dir ps of Inl _ \<Rightarrow> None | Inr s \<Rightarrow> Some (hash_bytes E s)))"

text \<open>The value at a rank of the sorted measurements; \<open>rnd\<close> rounds the product to a float.\<close>

definition percentile :: "(real \<Rightarrow> real) \<Rightarrow> real list \<Rightarrow> real \<Rightarrow> real" where
  "percentile rnd vs q = sort vs ! nat \<lfloor>rnd (real (length vs - 1) * q)\<rfloor>"

definition duration_millis :: "(real \<Rightarrow> real) \<Rightarrow> int \<Rightarrow> real" where
  "duration_millis rnd micros = rnd (real_of_int micros / 1000)"

section \<open>The runs\<close>

record bench_run =
  bnRun :: nat
  bnHealing :: real
  bnGeneration :: real
  bnConfigHash :: string
  bnHarnessHash :: string
  bnAccepted :: nat
  bnRejected :: nat
  bnAmbiguities :: nat
  bnLeaks :: nat

record bench_report =
  bmFixture :: string
  bmFixtureHash :: string
  bmRuns :: nat
  bmDeterministic :: bool
  bmPassed :: bool
  bmConfigHashes :: nat
  bmHarnessHashes :: nat
  bmLeaks :: nat
  bmHealingP50 :: real
  bmHealingP95 :: real
  bmGenerationP50 :: real
  bmGenerationP95 :: real
  bmResults :: "bench_run list"

text \<open>What the runs share: the functions that \<open>run_heal\<close> and \<open>generate_harness\<close> take, the working directory, the temporary
  directory, the fixture and the clock.\<close>

record bench_env =
  beEnv :: go_env
  beRnd :: "real \<Rightarrow> real"
  beWritable :: "string \<Rightarrow> bool"
  beReport :: "heal_result \<Rightarrow> string \<times> string"
  beEncode :: "replay_yaml \<Rightarrow> string option"
  beDecode :: "string \<Rightarrow> replay_yaml option"
  beDecodeLog :: "string \<Rightarrow> event list option"
  beFormat :: "string \<Rightarrow> string option"
  beListing :: "files \<Rightarrow> string \<Rightarrow> string list option"
  beDir :: string
  beTemp :: string
  beFixture :: string
  beClock :: "nat \<Rightarrow> int \<times> int"

definition run_dir :: "bench_env \<Rightarrow> nat \<Rightarrow> string" where
  "run_dir X n = path_join [beTemp X, ''run-'' @ replicate (5 - length (nat_digits n)) (CHR ''0'') @ nat_digits n]"

definition bench_heal :: "bench_env \<Rightarrow> nat \<Rightarrow> files \<Rightarrow> heal_error option \<times> heal_result \<times> files" where
  "bench_heal X n fs =
     run_heal (beEnv X) (beRnd X) (beWritable X) (beReport X) (beEncode X) (beDecode X) (beDecodeLog X)
       \<lparr>hoDirs = [beFixture X], hoConfig = [], hoOutput = path_join [run_dir X n, ''replay.proposed.yaml''],
        hoReports = path_join [run_dir X n, ''reports''], hoSamples = 0, hoScore = Fin 0, hoApply = False, hoForce = False\<rparr> fs"

definition bench_harness :: "bench_env \<Rightarrow> nat \<Rightarrow> files \<Rightarrow> harness_error option \<times> string list \<times> files" where
  "bench_harness X n fs =
     generate_harness (beEnv X) (beFormat X) (beWritable X) (beDir X)
       \<lparr>hqIncident = beFixture X, hqOutput = path_join [run_dir X n, ''generated''], hqFramework = ''go-testcontainers'',
        hqImage = ''infernosim:benchmark'', hqPackage = [], hqForce = False\<rparr> fs"

definition expected_healing :: "heal_result \<Rightarrow> bool" where
  "expected_healing r \<longleftrightarrow> hrAccepted r = 1 \<and> hrRejected r = 1 \<and> hrAmbiguities r = 0 \<and> hrPassed r"

text \<open>One run; None when the benchmark gives up.\<close>

definition bench_one :: "bench_env \<Rightarrow> nat \<Rightarrow> files \<Rightarrow> (bench_run \<times> bool \<times> files) option" where
  "bench_one X n fs =
     (case bench_heal X n fs of (err, healed, fs1) \<Rightarrow>
        if err \<noteq> None then None
        else (case bench_harness X n fs1 of (err, written, fs2) \<Rightarrow>
          if err \<noteq> None then None
          else (case (file_at fs2 (path_join [run_dir X n, ''replay.proposed.yaml'']),
                      hash_tree (beEnv X) (beListing X) fs2 (path_join [run_dir X n, ''generated'']),
                      scan_leaks (beListing X) fs2 (run_dir X n) ''BENCHMARK_SECRET_DO_NOT_LEAK'') of
              (Some data, Some harness, Some leaks) \<Rightarrow>
                Some (\<lparr>bnRun = n, bnHealing = duration_millis (beRnd X) (fst (beClock X n)),
                       bnGeneration = duration_millis (beRnd X) (snd (beClock X n)),
                       bnConfigHash = hash_bytes (beEnv X) data, bnHarnessHash = harness,
                       bnAccepted = hrAccepted healed, bnRejected = hrRejected healed, bnAmbiguities = hrAmbiguities healed,
                       bnLeaks = leaks\<rparr>, expected_healing healed, fs2)
            | _ \<Rightarrow> None)))"

fun bench_runs :: "bench_env \<Rightarrow> nat \<Rightarrow> nat \<Rightarrow> files \<Rightarrow> ((bench_run \<times> bool) list \<times> files) option" where
  "bench_runs X n 0 fs = Some ([], fs)"
| "bench_runs X n (Suc k) fs =
     (case bench_one X n fs of
        None \<Rightarrow> None
      | Some (r, ok, fs1) \<Rightarrow> map_option (\<lambda>(rs, fs2). ((r, ok) # rs, fs2)) (bench_runs X (Suc n) k fs1))"

definition bench_summary :: "(real \<Rightarrow> real) \<Rightarrow> string \<Rightarrow> string \<Rightarrow> (bench_run \<times> bool) list \<Rightarrow> bench_report" where
  "bench_summary rnd fixture fixture_hash rs =
     (let results = map fst rs; passed = list_all snd rs;
          configs = length (remdups (map bnConfigHash results)); harnesses = length (remdups (map bnHarnessHash results));
          leaks = sum_list (map bnLeaks results);
          healing = map bnHealing results; generation = map bnGeneration results
      in \<lparr>bmFixture = path_clean fixture, bmFixtureHash = fixture_hash, bmRuns = length rs,
          bmDeterministic = (configs = 1 \<and> harnesses = 1 \<and> leaks = 0 \<and> passed), bmPassed = passed,
          bmConfigHashes = configs, bmHarnessHashes = harnesses, bmLeaks = leaks,
          bmHealingP50 = percentile rnd healing (rnd 0.5), bmHealingP95 = percentile rnd healing (rnd 0.95),
          bmGenerationP50 = percentile rnd generation (rnd 0.5), bmGenerationP95 = percentile rnd generation (rnd 0.95),
          bmResults = results\<rparr>)"

text \<open>\<open>main\<close> up to the file with the report: the exit code, and the report when there is one.\<close>

definition benchmark :: "bench_env \<Rightarrow> string \<Rightarrow> int \<Rightarrow> (bench_report \<Rightarrow> bool) \<Rightarrow> files \<Rightarrow> nat \<times> bench_report option" where
  "benchmark X0 fixture runs written fs =
     (let X = X0\<lparr>beFixture := path_abs (beDir X0) fixture\<rparr>
      in if runs < 1 \<or> 10000 < runs then (1, None)
         else (case hash_tree (beEnv X) (beListing X) fs (beFixture X) of
             None \<Rightarrow> (1, None)
           | Some h \<Rightarrow> (case bench_runs X 1 (nat runs) fs of
               None \<Rightarrow> (1, None)
             | Some (rs, fs') \<Rightarrow>
                 (let r = bench_summary (beRnd X) fixture h rs
                  in if \<not> written r then (1, None) else (if bmDeterministic r then 0 else 1, Some r)))))"


section \<open>What the report says\<close>

lemma count_sub_none:
  "0 < length m \<Longrightarrow> count_sub m 0 s = 0 \<longleftrightarrow> list_all (\<lambda>i. \<not> has_prefix (drop i s) m) [0..<length s]"
proof (induction s)
  case (Cons c s)
  have "list_all (\<lambda>i. \<not> has_prefix (drop i (c # s)) m) [0..<Suc (length s)] \<longleftrightarrow>
      \<not> has_prefix (c # s) m \<and> list_all (\<lambda>i. \<not> has_prefix (drop i s) m) [0..<length s]"
    by (simp add: list_all_iff atLeast0LessThan lessThan_Suc_eq_insert_0 del: upt_Suc)
  with Cons show ?case by simp
qed simp

interpretation path_order: keyed_order "\<lambda>p. p" "\<lambda>a b :: string. a < b"
  by unfold_locales simp

text \<open>The order in which a tree is walked makes no difference to its hash.\<close>

theorem tree_hash_order:
  assumes "mset ps = mset qs"
  shows "tree_text fs dir ps = tree_text fs dir qs"
proof -
  have "sorted (stable_sort (\<lambda>a b. a < b) xs)" for xs :: "string list"
    using path_order.sort_keys_sorted [of xs] by simp
  then have "stable_sort (\<lambda>a b. a < b) ps = stable_sort (\<lambda>a b. a < b) qs"
    using assms by (metis mset_stable_sort properties_for_sort)
  then show ?thesis by (simp add: tree_text_def)
qed

text \<open>A percentile is one of the measurements, and a larger quantile is not below a smaller one.\<close>

lemma percentile_rank:
  assumes "mono rnd" and "\<And>i :: int. \<bar>i\<bar> \<le> 2 ^ 53 \<Longrightarrow> rnd (of_int i) = of_int i" and "vs \<noteq> []" and "length vs \<le> 2 ^ 53" and "0 \<le> q" and "q \<le> 1"
  shows "nat \<lfloor>rnd (real (length vs - 1) * q)\<rfloor> < length vs"
proof -
  let ?n = "length vs - 1"
  have "real ?n * q \<le> real ?n * 1" by (rule mult_left_mono) (use assms(6) in simp_all)
  then have "real ?n * q \<le> of_int (int ?n)" by simp
  then have "rnd (real ?n * q) \<le> rnd (of_int (int ?n))" by (rule monoD [OF assms(1)])
  moreover have "int (length vs) \<le> int (2 ^ 53)" using assms(4) by (rule zle_int [THEN iffD2])
  then have "rnd (of_int (int ?n)) = of_int (int ?n)" using assms(2) [of "int ?n"] by simp
  ultimately have "rnd (real ?n * q) \<le> of_int (int ?n)" by (simp only:)
  then have "\<lfloor>rnd (real ?n * q)\<rfloor> \<le> int ?n" by (simp add: floor_le_iff)
  then show ?thesis using assms(3) by (cases vs) auto
qed

theorem percentiles_ordered:
  assumes "mono rnd" and "\<And>i :: int. \<bar>i\<bar> \<le> 2 ^ 53 \<Longrightarrow> rnd (of_int i) = of_int i" and "vs \<noteq> []" and "length vs \<le> 2 ^ 53" and "0 \<le> q" and "q \<le> r" and "r \<le> 1"
  shows "percentile rnd vs q \<le> percentile rnd vs r \<and> percentile rnd vs q \<in> set vs \<and> percentile rnd vs r \<in> set vs"
proof -
  let ?i = "\<lambda>q. nat \<lfloor>rnd (real (length vs - 1) * q)\<rfloor>"
  have bound: "?i q < length vs" "?i r < length vs"
    using percentile_rank [OF assms(1,2,3,4)] assms(5,6,7) by simp_all
  have "real (length vs - 1) * q \<le> real (length vs - 1) * r" using assms(6) by (intro mult_left_mono) simp_all
  then have "rnd (real (length vs - 1) * q) \<le> rnd (real (length vs - 1) * r)" by (rule monoD [OF assms(1)])
  then have "?i q \<le> ?i r" by (intro nat_mono floor_mono)
  then have "sort vs ! ?i q \<le> sort vs ! ?i r" using bound by (intro sorted_nth_mono) simp_all
  moreover have "sort vs ! ?i q \<in> set vs" "sort vs ! ?i r \<in> set vs"
    using nth_mem [of "?i q" "sort vs"] nth_mem [of "?i r" "sort vs"] bound by simp_all
  ultimately show ?thesis by (simp add: percentile_def)
qed

lemma bench_runs_numbers: "bench_runs X n k fs = Some (rs, fs') \<Longrightarrow> map (bnRun \<circ> fst) rs = [n..<n + k]"
proof (induction k arbitrary: n fs rs)
  case (Suc k)
  then obtain r ok fs1 rest where one: "bench_one X n fs = Some (r, ok, fs1)" and rest: "bench_runs X (Suc n) k fs1 = Some (rest, fs')"
    and rs: "rs = (r, ok) # rest" by (auto split: option.split_asm)
  from one have "bnRun r = n"
    by (auto simp: bench_one_def split: prod.split_asm if_split_asm option.split_asm)
  with Suc.IH [OF rest] rs show ?case by (simp add: upt_conv_Cons)
qed simp

lemma one_value: "xs \<noteq> [] \<Longrightarrow> length (remdups xs) = Suc 0 \<longleftrightarrow> list_all (\<lambda>x. list_all (\<lambda>y. x = y) xs) xs"
proof -
  assume "xs \<noteq> []"
  moreover have "length (remdups xs) = card (set xs)" by (simp add: length_remdups_card_conv)
  ultimately show ?thesis by (auto simp: list_all_iff card_1_singleton_iff) (metis empty_iff empty_set insert_iff list.set_sel(1) singletonI subsetI subset_antisym)
qed

lemma pairs_agree:
  "list_all (\<lambda>x. list_all (\<lambda>y. P x y \<and> Q x y) xs) xs \<longleftrightarrow> list_all (\<lambda>x. list_all (P x) xs) xs \<and> list_all (\<lambda>x. list_all (Q x) xs) xs"
  by (auto simp: list_all_iff)

text \<open>The benchmark ends with 0 exactly when it has made all its runs, its report is written, every run healed as expected and
  leaked nothing, and any two runs gave the same configuration and the same harness.\<close>

theorem benchmark_verdict_exact:
  "fst (benchmark X fixture runs written fs) = 0 \<longleftrightarrow>
     1 \<le> runs \<and> runs \<le> 10000 \<and>
     (case benchmark X fixture runs written fs of
        (code, None) \<Rightarrow> False
      | (code, Some r) \<Rightarrow>
          map bnRun (bmResults r) = [1..<Suc (nat runs)] \<and> bmPassed r \<and> list_all (\<lambda>x. bnLeaks x = 0) (bmResults r) \<and>
          list_all (\<lambda>x. list_all (\<lambda>y. bnConfigHash x = bnConfigHash y \<and> bnHarnessHash x = bnHarnessHash y) (bmResults r)) (bmResults r))"
proof (cases "benchmark X fixture runs written fs")
  case (Pair code out)
  have det: "bmDeterministic (bench_summary rnd fx h rs) \<longleftrightarrow>
      (let r = bench_summary rnd fx h rs in bmPassed r \<and> list_all (\<lambda>x. bnLeaks x = 0) (bmResults r) \<and>
        list_all (\<lambda>x. list_all (\<lambda>y. bnConfigHash x = bnConfigHash y \<and> bnHarnessHash x = bnHarnessHash y) (bmResults r)) (bmResults r))"
    if "rs \<noteq> []" for rnd fx h rs
    using that by (simp add: bench_summary_def Let_def one_value pairs_agree list.pred_map comp_def conj_ac list_all_iff [symmetric])
  show ?thesis
  proof (cases out)
    case None
    with Pair show ?thesis by (auto simp: benchmark_def Let_def split: option.split_asm if_split_asm prod.split_asm)
  next
    case (Some r)
    then have out: "benchmark X fixture runs written fs = (code, Some r)" using Pair by simp
    then have range: "1 \<le> runs" "runs \<le> 10000" by (auto simp: benchmark_def Let_def split: if_split_asm)
    let ?X = "X\<lparr>beFixture := path_abs (beDir X) fixture\<rparr>"
    from out range obtain h where h: "hash_tree (beEnv ?X) (beListing ?X) fs (beFixture ?X) = Some h"
      by (auto simp: benchmark_def Let_def split: option.split_asm)
    obtain rs fs' where rs: "bench_runs ?X 1 (nat runs) fs = Some (rs, fs')"
      using out range h by (auto simp: benchmark_def Let_def split: option.split_asm)
    have r: "r = bench_summary (beRnd X) fixture h rs" and code: "code = (if bmDeterministic r then 0 else 1)"
      using out range h rs by (simp_all add: benchmark_def Let_def split: if_split_asm)
    have numbers: "map bnRun (bmResults r) = [1..<Suc (nat runs)]"
      using bench_runs_numbers [OF rs] by (simp add: r bench_summary_def Let_def comp_def)
    moreover have "Suc 0 \<le> nat runs" using range by simp
    ultimately have "rs \<noteq> []" using r by (auto simp: bench_summary_def Let_def)
    from det [OF this, of "beRnd X" fixture h, folded r] out range numbers code show ?thesis by (auto simp: Let_def)
  qed
qed



section \<open>Runs agree\<close>

definition under :: "string \<Rightarrow> string \<Rightarrow> bool" where
  "under t p \<longleftrightarrow> take (length (parts_of t)) (parts_of p) = parts_of t"

definition run_name :: "nat \<Rightarrow> string" where
  "run_name n = ''run-'' @ replicate (5 - length (nat_digits n)) (CHR ''0'') @ nat_digits n"

lemma run_name_plain: "plain_part (run_name n)"
proof -
  have "slash \<notin> set (nat_digits n)" using nat_digits_all_digits [of slash n] by (auto simp: slash_def is_digit_def byte_def)
  then show ?thesis by (auto simp: plain_part_def run_name_def slash_def)
qed

lemma run_path:
  assumes "is_abs (beTemp X)" and "plain_part a"
  shows "parts_of (path_join [run_dir X n, a]) = parts_of (beTemp X) @ [run_name n, a]" and "is_abs (path_join [run_dir X n, a])"
    and "path_clean (path_join [run_dir X n, a]) = path_join [run_dir X n, a]"
proof -
  have d: "run_dir X n = path_join [beTemp X, run_name n]" by (simp add: run_dir_def run_name_def)
  note t = parts_join [OF assms(1) run_name_plain, of n, folded d]
  from parts_join [OF t(2) assms(2)] t(1) show "parts_of (path_join [run_dir X n, a]) = parts_of (beTemp X) @ [run_name n, a]"
    and "is_abs (path_join [run_dir X n, a])" and "path_clean (path_join [run_dir X n, a]) = path_join [run_dir X n, a]" by simp_all
qed

lemma report_paths_of:
  assumes "is_abs (beTemp X)"
  shows "parts_of (json_report (path_join [run_dir X n, ''reports''])) = parts_of (beTemp X) @ [run_name n, ''reports'', ''infernosim-healing-report.json'']"
    and "parts_of (html_report (path_join [run_dir X n, ''reports''])) = parts_of (beTemp X) @ [run_name n, ''reports'', ''infernosim-healing-report.html'']"
    and "is_abs (json_report (path_join [run_dir X n, ''reports'']))" and "is_abs (html_report (path_join [run_dir X n, ''reports'']))"
proof -
  have plain: "plain_part ''reports''" "plain_part ''infernosim-healing-report.json''" "plain_part ''infernosim-healing-report.html''" by code_simp+
  note d = run_path [OF assms plain(1), of n]
  from parts_join [OF d(2) plain(2)] parts_join [OF d(2) plain(3)] d(1) show
    "parts_of (json_report (path_join [run_dir X n, ''reports''])) = parts_of (beTemp X) @ [run_name n, ''reports'', ''infernosim-healing-report.json'']"
    and "parts_of (html_report (path_join [run_dir X n, ''reports''])) = parts_of (beTemp X) @ [run_name n, ''reports'', ''infernosim-healing-report.html'']"
    and "is_abs (json_report (path_join [run_dir X n, ''reports'']))" and "is_abs (html_report (path_join [run_dir X n, ''reports'']))"
    by (simp_all add: json_report_def html_report_def)
qed

text \<open>What the healing reads of the fixture.\<close>

definition fixture_view :: "string \<Rightarrow> files \<Rightarrow> string option list" where
  "fixture_view dir fs = map (\<lambda>n. file_at fs (path_join [dir, n])) [''replay.yaml'', ''inbound.log'', ''outbound.log'']"

lemma propose_same:
  assumes "fixture_view dir fs = fixture_view dir fs'" and "hpConfig p = hpConfig q" and "hpSamples p = hpSamples q" and "hpScore p = hpScore q"
    and "hpConfig p = [] \<or> hpConfig p = path_join [dir, ''replay.yaml'']"
  shows "propose E rnd fs decode decode_log [dir] p = propose E rnd fs' decode decode_log [dir] q"
proof -
  have "load_groups E (file_at fs) decode_log [dir] = load_groups E (file_at fs') decode_log [dir]"
    using assms(1) by (auto simp: load_groups_def open_incident_def fixture_view_def Let_def split: option.split)
  moreover have "load_replay_config E (file_at fs) decode (hpConfig q) = load_replay_config E (file_at fs') decode (hpConfig q)" if "hpConfig q \<noteq> []"
    using assms(1,2,5) that by (simp add: load_replay_config_def fixture_view_def)
  ultimately show ?thesis using assms(2-4) by (simp add: propose_def)
qed

lemma run_heal_success:
  assumes "run_heal E rnd writable report_text encode decode decode_log opts fs = (None, r, fs1)" and "\<not> hoApply opts"
  obtains p config r0 yml fsa where "plan_heal rnd fs opts = Inr p" "propose E rnd fs decode decode_log (hoDirs opts) p = Inr (config, r0)"
    "encode config = Some yml"
    "write_atomic writable (hpOutput p) (''# Proposed by InfernoSIM heal. Review before replacing replay.yaml.'' @ [chr 10] @ yml) fs = Some fsa"
    "unchanged_outside [json_report (hpReports p), html_report (hpReports p)] fsa fs1"
    "hrAccepted r = hrAccepted r0" "hrRejected r = hrRejected r0" "hrAmbiguities r = hrAmbiguities r0" "hrPassed r = hrPassed r0"
proof -
  obtain p where p: "plan_heal rnd fs opts = Inr p" using assms(1) by (auto simp: run_heal_def split: sum.split_asm)
  obtain config r0 where c: "propose E rnd fs decode decode_log (hoDirs opts) p = Inr (config, r0)"
    using assms(1) p by (auto simp: run_heal_def split: sum.split_asm)
  have amb: "\<not> 0 < hrAmbiguities r0"
  proof
    assume "0 < hrAmbiguities r0"
    with assms(1) p c show False by (simp add: run_heal_def)
  qed
  obtain yml where t: "encode config = Some yml" using assms(1) p c amb by (auto simp: run_heal_def split: option.split_asm)
  let ?data = "''# Proposed by InfernoSIM heal. Review before replacing replay.yaml.'' @ [chr 10] @ yml"
  let ?r1 = "r0\<lparr>hrProposedHash := hash_bytes E ?data, hrOutput := hpOutput p\<rparr>"
  obtain fsa where a: "write_atomic writable (hpOutput p) ?data fs = Some fsa"
    using assms(1) p c amb t by (auto simp: run_heal_def Let_def split: option.split_asm)
  have w: "write_reports writable report_text (hpReports p) ?r1 fsa = (fs1, True)" and r: "r = ?r1"
    using assms p c amb t a by (auto simp: run_heal_def Let_def split: prod.split_asm if_split_asm)
  have "unchanged_outside [json_report (hpReports p), html_report (hpReports p)] fsa fs1"
    using write_reports_unchanged [of "hpReports p" fsa writable report_text ?r1] w by simp
  with p c t a r show ?thesis by (intro that) simp_all
qed


lemma same_clean_parts: "is_abs p \<Longrightarrow> is_abs q \<Longrightarrow> path_clean p = path_clean q \<Longrightarrow> parts_of p = parts_of q"
  using parts_clean by metis

lemma harness_written:
  assumes "bench_harness X n fs = (None, written, fs')"
  shows "unchanged_outside written fs fs' \<and>
    set written \<subseteq> (\<lambda>f. path_join [path_join [run_dir X n, ''generated''], f]) ` {''README.md'', ''infernosim_testcontainer_test.go''}"
proof -
  let ?opts = "\<lparr>hqIncident = beFixture X, hqOutput = path_join [run_dir X n, ''generated''], hqFramework = ''go-testcontainers'',
        hqImage = ''infernosim:benchmark'', hqPackage = [], hqForce = False\<rparr>"
  let ?ts = "and_then (harness_setup fs (beDir X) ?opts) (\<lambda>(framework, d). harness_files (beEnv X) (beFormat X) framework d)"
  have run: "generate_harness (beEnv X) (beFormat X) (beWritable X) (beDir X) ?opts fs = (None, written, fs')"
    using assms by (simp add: bench_harness_def)
  note g = generation_never_overwrites [where E = "beEnv X" and format = "beFormat X" and writable = "beWritable X" and wd = "beDir X" and opts = ?opts and fs = fs,
    unfolded run prod.case]
  obtain ts where ts: "?ts = Inr ts" using g by (cases ?ts) simp_all
  note g1 = g [unfolded ts sum.case harness_options.simps]
  from g1 have unchanged: "unchanged_outside written fs fs'" by blast
  from g1 have written: "written = map (\<lambda>(f, t). path_join [path_join [run_dir X n, ''generated''], f]) ts" by blast
  obtain framework d where made: "harness_setup fs (beDir X) ?opts = Inr (framework, d)"
    using ts by (cases "harness_setup fs (beDir X) ?opts") auto
  then have "framework = ''go-testcontainers''" by (simp add: harness_setup_def Let_def)
  with ts made have "set (map fst ts) \<subseteq> {''README.md'', ''infernosim_testcontainer_test.go''}"
    by (auto simp: harness_files_def split: option.split_asm)
  with unchanged written show ?thesis by force
qed

text \<open>A run keeps every file outside the temporary directory, and what it measures of the healing is decided by the fixture.\<close>

definition healed_as :: "bench_env \<Rightarrow> files \<Rightarrow> string \<times> nat \<times> nat \<times> nat \<times> bool \<Rightarrow> bool" where
  "healed_as X fs m \<longleftrightarrow>
     (\<exists>p config r0 yml. (hpConfig p = (if file_at fs (path_join [beFixture X, ''replay.yaml'']) \<noteq> None then path_join [beFixture X, ''replay.yaml''] else []) \<and>
        hpSamples p = 3 \<and> hpScore p = Fin (beRnd X 0.95)) \<and>
        propose (beEnv X) (beRnd X) fs (beDecode X) (beDecodeLog X) [beFixture X] p = Inr (config, r0) \<and> beEncode X config = Some yml \<and>
        m = (hash_bytes (beEnv X) (''# Proposed by InfernoSIM heal. Review before replacing replay.yaml.'' @ [chr 10] @ yml),
             hrAccepted r0, hrRejected r0, hrAmbiguities r0, expected_healing r0))"

lemma healed_same:
  assumes "fixture_view (beFixture X) fs = fixture_view (beFixture X) fs'" and "healed_as X fs m" and "healed_as X fs' m'"
  shows "m = m'"
proof -
  have own: "file_at fs (path_join [beFixture X, ''replay.yaml'']) = file_at fs' (path_join [beFixture X, ''replay.yaml''])"
    using assms(1) by (simp add: fixture_view_def)
  obtain p config r0 yml where a: "hpConfig p = (if file_at fs (path_join [beFixture X, ''replay.yaml'']) \<noteq> None then path_join [beFixture X, ''replay.yaml''] else [])"
      "hpSamples p = 3" "hpScore p = Fin (beRnd X 0.95)"
      "propose (beEnv X) (beRnd X) fs (beDecode X) (beDecodeLog X) [beFixture X] p = Inr (config, r0)" "beEncode X config = Some yml"
      "m = (hash_bytes (beEnv X) (''# Proposed by InfernoSIM heal. Review before replacing replay.yaml.'' @ [chr 10] @ yml),
             hrAccepted r0, hrRejected r0, hrAmbiguities r0, expected_healing r0)"
    using assms(2) unfolding healed_as_def by blast
  obtain q config' r1 yml' where b: "hpConfig q = (if file_at fs' (path_join [beFixture X, ''replay.yaml'']) \<noteq> None then path_join [beFixture X, ''replay.yaml''] else [])"
      "hpSamples q = 3" "hpScore q = Fin (beRnd X 0.95)"
      "propose (beEnv X) (beRnd X) fs' (beDecode X) (beDecodeLog X) [beFixture X] q = Inr (config', r1)" "beEncode X config' = Some yml'"
      "m' = (hash_bytes (beEnv X) (''# Proposed by InfernoSIM heal. Review before replacing replay.yaml.'' @ [chr 10] @ yml'),
             hrAccepted r1, hrRejected r1, hrAmbiguities r1, expected_healing r1)"
    using assms(3) unfolding healed_as_def by blast
  have cfg: "hpConfig p = hpConfig q" by (simp only: a(1) b(1) own)
  have "hpConfig p = [] \<or> hpConfig p = path_join [beFixture X, ''replay.yaml'']" by (simp add: a(1))
  then have "propose (beEnv X) (beRnd X) fs (beDecode X) (beDecodeLog X) [beFixture X] p =
      propose (beEnv X) (beRnd X) fs' (beDecode X) (beDecodeLog X) [beFixture X] q"
    using propose_same [OF assms(1) cfg] a(2,3) b(2,3) by simp
  with a(4) b(4) have "config = config' \<and> r0 = r1" by simp
  with a(5,6) b(5,6) show ?thesis by simp
qed


lemma bench_one_effect:
  assumes "is_abs (beTemp X)" and "bench_one X n fs = Some (r, ok, fs2)"
  shows "(\<forall>p. is_abs p \<longrightarrow> \<not> under (beTemp X) p \<longrightarrow> file_at fs2 p = file_at fs p) \<and>
    healed_as X fs (bnConfigHash r, bnAccepted r, bnRejected r, bnAmbiguities r, ok)"
proof -
  let ?out = "path_join [run_dir X n, ''replay.proposed.yaml'']" and ?gen = "path_join [run_dir X n, ''generated'']"
    and ?rep = "path_join [run_dir X n, ''reports'']"
  have plain: "plain_part ''replay.proposed.yaml''" "plain_part ''generated''" "plain_part ''README.md''"
    "plain_part ''infernosim_testcontainer_test.go''" by code_simp+
  obtain healed fs1 written data where heal: "bench_heal X n fs = (None, healed, fs1)" and gen: "bench_harness X n fs1 = (None, written, fs2)"
    and data: "file_at fs2 ?out = Some data" and r: "bnConfigHash r = hash_bytes (beEnv X) data" "bnAccepted r = hrAccepted healed"
      "bnRejected r = hrRejected healed" "bnAmbiguities r = hrAmbiguities healed" "ok = expected_healing healed"
    using assms(2) unfolding bench_one_def by (auto split: prod.split_asm if_split_asm option.split_asm)
  from heal [unfolded bench_heal_def] obtain p config r0 yml fsa where
    p: "plan_heal (beRnd X) fs \<lparr>hoDirs = [beFixture X], hoConfig = [], hoOutput = ?out, hoReports = ?rep, hoSamples = 0, hoScore = Fin 0,
        hoApply = False, hoForce = False\<rparr> = Inr p"
    and c: "propose (beEnv X) (beRnd X) fs (beDecode X) (beDecodeLog X) [beFixture X] p = Inr (config, r0)" and t: "beEncode X config = Some yml"
    and a: "write_atomic (beWritable X) (hpOutput p) (''# Proposed by InfernoSIM heal. Review before replacing replay.yaml.'' @ [chr 10] @ yml) fs = Some fsa"
    and u: "unchanged_outside [json_report (hpReports p), html_report (hpReports p)] fsa fs1"
    and counts: "hrAccepted healed = hrAccepted r0" "hrRejected healed = hrRejected r0" "hrAmbiguities healed = hrAmbiguities r0" "hrPassed healed = hrPassed r0"
    by (elim run_heal_success) simp_all
  note out = run_path [OF assms(1) plain(1), of n]
  have ne: "?out \<noteq> []" "?rep \<noteq> []" using out(2) clean_not_empty by (auto simp: is_abs_def has_prefix_def path_join_def Let_def split: if_splits)
  have hp: "hpOutput p = ?out" "hpReports p = ?rep" "hpSamples p = 3" "hpScore p = Fin (beRnd X 0.95)"
    "hpConfig p = (if file_at fs (path_join [beFixture X, ''replay.yaml'']) \<noteq> None then path_join [beFixture X, ''replay.yaml''] else [])"
    using p ne by (simp_all add: plan_heal_def Let_def) (elim conjE, hypsubst, simp)+
  note gw = harness_written [OF gen]
  have written: "is_abs q \<and> (\<exists>f. parts_of q = parts_of (beTemp X) @ [run_name n, ''generated'', f])" if "q \<in> set written" for q
    using gw that run_path [OF assms(1) plain(2), of n] parts_join [OF _ plain(3), of ?gen] parts_join [OF _ plain(4), of ?gen] by auto
  have keep: "file_at fs2 q = file_at fsa q"
    if q: "is_abs q" and no_report: "\<And>f. parts_of q \<noteq> parts_of (beTemp X) @ [run_name n, ''reports'', f]"
      and no_harness: "\<And>f. parts_of q \<noteq> parts_of (beTemp X) @ [run_name n, ''generated'', f]" for q
  proof -
    have "path_clean q \<notin> path_clean ` set written"
      using written no_harness same_clean_parts [OF q] by (metis imageE)
    moreover have "path_clean q \<notin> path_clean ` set [json_report ?rep, html_report ?rep]"
      using same_clean_parts [OF q] report_paths_of [OF assms(1), of n] no_report by (simp, metis)
    ultimately show ?thesis using unchanged_file [OF conjunct1 [OF gw]] unchanged_file [OF u [unfolded hp(2)]] by simp
  qed
  have "file_at fs2 q = file_at fs q" if "is_abs q" "\<not> under (beTemp X) q" for q
  proof -
    have "path_clean q \<noteq> path_clean ?out" using that same_clean_parts [OF that(1) out(2)] out(1) by (auto simp: under_def)
    then have "file_at fsa q = file_at fs q" using write_atomic_other [OF a] by (simp add: file_at_def hp(1))
    moreover have "file_at fs2 q = file_at fsa q" by (rule keep) (use that in \<open>auto simp: under_def\<close>)
    ultimately show ?thesis by simp
  qed
  moreover have "file_at fs2 ?out = file_at fsa ?out" by (rule keep) (use out in simp_all)
  then have "data = ''# Proposed by InfernoSIM heal. Review before replacing replay.yaml.'' @ [chr 10] @ yml"
    using data write_atomic_here [OF a] hp(1) by simp
  then have "healed_as X fs (bnConfigHash r, bnAccepted r, bnRejected r, bnAmbiguities r, ok)"
    unfolding healed_as_def using hp c t r counts
    by (intro exI [of _ p] exI [of _ config] exI [of _ r0] exI [of _ yml]) (simp add: expected_healing_def)
  ultimately show ?thesis by blast
qed

lemma bench_runs_alike:
  assumes "is_abs (beTemp X)" and "\<And>f. f \<in> {''replay.yaml'', ''inbound.log'', ''outbound.log''} \<Longrightarrow>
      is_abs (path_join [beFixture X, f]) \<and> \<not> under (beTemp X) (path_join [beFixture X, f])"
    and "fixture_view (beFixture X) fs = fixture_view (beFixture X) fs0" and "bench_runs X n k fs = Some (rs, fs')"
  shows "list_all (\<lambda>(r, ok). \<exists>fs1. fixture_view (beFixture X) fs1 = fixture_view (beFixture X) fs0 \<and>
    healed_as X fs1 (bnConfigHash r, bnAccepted r, bnRejected r, bnAmbiguities r, ok)) rs"
  using assms(3,4)
proof (induction k arbitrary: n fs rs)
  case (Suc k)
  obtain r ok fs1 rest where one: "bench_one X n fs = Some (r, ok, fs1)" and rest: "bench_runs X (Suc n) k fs1 = Some (rest, fs')"
    and rs: "rs = (r, ok) # rest" using Suc.prems(2) by (auto split: option.split_asm)
  note e = bench_one_effect [OF assms(1) one]
  then have "fixture_view (beFixture X) fs1 = fixture_view (beFixture X) fs" using assms(2) by (simp add: fixture_view_def)
  with Suc.IH [OF _ rest] Suc.prems(1) e rs show ?case by auto
qed simp

definition heal_measures :: "bench_run \<times> bool \<Rightarrow> string \<times> nat \<times> nat \<times> nat \<times> bool" where
  "heal_measures x = (case x of (r, ok) \<Rightarrow> (bnConfigHash r, bnAccepted r, bnRejected r, bnAmbiguities r, ok))"



definition small_bench :: bench_env where
  "small_bench =
     \<lparr>beEnv = example_env, beRnd = (\<lambda>x. x), beWritable = (\<lambda>_. True), beReport = (\<lambda>_. ([], [])), beEncode = (\<lambda>_. Some ''yaml''),
      beDecode = (\<lambda>_. None), beDecodeLog = (\<lambda>_. Some []), beFormat = (\<lambda>_. Some []), beListing = (\<lambda>_ _. Some []),
      beDir = ''/r'', beTemp = ''/t'', beFixture = ''/f'', beClock = (\<lambda>n. (int n, 2 * int n))\<rparr>"

definition small_fixture :: files where
  "small_fixture p = (if p = ''/f/inbound.log'' \<or> p = ''/f/outbound.log'' then Some [] else None)"


end
