(* ===== verification/Flags.thy ===== *)
theory Flags
  imports GoEnv GoNum
begin

text \<open>
  What \<open>cmd/agent\<close> uses of Go's \<open>flag\<close> package: the parser of \<open>FlagSet.Parse\<close> with every refusal, the values a flag can hold,
  and \<open>strconv.ParseInt\<close> with base 0, which is how an integer flag is read. \<open>ParseFloat\<close> is a parameter. A flag set is
  the list of its flags with their values. The laws of \<open>flag.Value\<close> that the parser relies on are the locale \<open>flag_kinds\<close>.
\<close>

section \<open>Parsing arguments\<close>

datatype flag_error =
  BadSyntax string | HelpRequested | NotDefined string | NeedsArgument string | InvalidValue string string

datatype flag_token = Operand | Terminator | BadFlag | Named string "string option"

definition flag_token :: "string \<Rightarrow> flag_token" where
  "flag_token s =
     (if length s < 2 \<or> hd s \<noteq> CHR ''-'' then Operand
      else if s = ''--'' then Terminator
      else (let name = drop (if s ! 1 = CHR ''-'' then 2 else 1) s
            in if hd name = CHR ''-'' \<or> hd name = CHR ''='' then BadFlag
               else (case cut (CHR ''='') name of None \<Rightarrow> Named name None | Some (n, x) \<Rightarrow> Named n (Some x))))"

text \<open>The value of a flag: its own, \<open>true\<close> for a boolean one, or else the next argument.\<close>

definition flag_argument :: "bool \<Rightarrow> string option \<Rightarrow> string list \<Rightarrow> (string \<times> string list) option" where
  "flag_argument boolean given args =
     (case given of
        Some x \<Rightarrow> Some (x, args)
      | None \<Rightarrow> if boolean then Some (''true'', args) else (case args of [] \<Rightarrow> None | x # rest \<Rightarrow> Some (x, rest)))"

lemma flag_argument_cases:
  "flag_argument boolean given args = Some (x, rest) \<longleftrightarrow>
     rest = args \<and> (given = Some x \<or> given = None \<and> boolean \<and> x = ''true'') \<or> given = None \<and> \<not> boolean \<and> args = x # rest"
  by (auto simp: flag_argument_def split: option.split list.split)

definition put_flag :: "string \<Rightarrow> 'v \<Rightarrow> (string \<times> 'v) list \<Rightarrow> (string \<times> 'v) list" where
  "put_flag n w fs = map (\<lambda>(m, v). if m = n then (m, w) else (m, v)) fs"

text \<open>\<open>FlagSet.Parse\<close>: the flags after it and the arguments that are left.\<close>

function parse_flags ::
  "('v \<Rightarrow> string \<Rightarrow> 'v option) \<Rightarrow> ('v \<Rightarrow> bool) \<Rightarrow> (string \<times> 'v) list \<Rightarrow> string list \<Rightarrow>
   (flag_error, (string \<times> 'v) list \<times> string list) result" where
  "parse_flags setv boolean fs [] = Inr (fs, [])"
| "parse_flags setv boolean fs (s # args) =
     (case flag_token s of
        Operand \<Rightarrow> Inr (fs, s # args)
      | Terminator \<Rightarrow> Inr (fs, args)
      | BadFlag \<Rightarrow> Inl (BadSyntax s)
      | Named n given \<Rightarrow> (case map_of fs n of
          None \<Rightarrow> Inl (if n = ''help'' \<or> n = ''h'' then HelpRequested else NotDefined n)
        | Some v \<Rightarrow> (case flag_argument (boolean v) given args of
            None \<Rightarrow> Inl (NeedsArgument n)
          | Some (x, rest) \<Rightarrow> (case setv v x of
              None \<Rightarrow> Inl (InvalidValue n x)
            | Some w \<Rightarrow> parse_flags setv boolean (put_flag n w fs) rest))))"
  by pat_completeness auto
termination
  by (relation "measure (\<lambda>(_, _, _, args). length args)") (auto simp: flag_argument_cases)

lemma map_of_put [simp]: "map_of (put_flag n w fs) m = (if m = n \<and> map_of fs n \<noteq> None then Some w else map_of fs m)"
  by (induction fs) (auto simp: put_flag_def)

text \<open>One parsed flag at a time.\<close>

lemma parse_step:
  assumes "parse_flags setv boolean fs (s # args) = Inr (fs', rest)" and "\<not> (flag_token s = Operand \<or> flag_token s = Terminator)"
  shows "\<exists>n given v x left w. flag_token s = Named n given \<and> map_of fs n = Some v \<and>
    flag_argument (boolean v) given args = Some (x, left) \<and> setv v x = Some w \<and>
    parse_flags setv boolean (put_flag n w fs) left = Inr (fs', rest)"
  using assms by (auto split: flag_token.split_asm option.split_asm prod.split_asm)

lemma parse_induct [case_names Nil Cons]:
  assumes "\<And>fs. P fs []" and "\<And>fs s args. (\<And>fs' left. length left \<le> length args \<Longrightarrow> P fs' left) \<Longrightarrow> P fs (s # args)"
  shows "P fs args"
proof (induction args arbitrary: fs rule: length_induct)
  case (1 args)
  with assms show ?case by (cases args) auto
qed

lemma flag_argument_length: "flag_argument boolean given args = Some (x, left) \<Longrightarrow> length left \<le> length args"
  by (auto simp: flag_argument_cases)

text \<open>The flag an argument names, if it is read as one.\<close>

definition flag_named :: "string \<Rightarrow> string option" where
  "flag_named s = (case flag_token s of Named n x \<Rightarrow> Some n | _ \<Rightarrow> None)"

definition names_flag :: "string list \<Rightarrow> string \<Rightarrow> bool" where
  "names_flag args n \<longleftrightarrow> list_ex (\<lambda>a. flag_named a = Some n) args"

lemma names_flag_simps [simp]:
  "\<not> names_flag [] n" "names_flag (a # as) n \<longleftrightarrow> flag_named a = Some n \<or> names_flag as n"
  by (simp_all add: names_flag_def)

lemma flag_argument_names: "flag_argument boolean given args = Some (x, left) \<Longrightarrow> names_flag left n \<Longrightarrow> names_flag args n"
  by (auto simp: flag_argument_cases)

text \<open>A flag that no argument names keeps its value.\<close>

lemma parse_unnamed:
  "parse_flags setv boolean fs args = Inr (fs', rest) \<Longrightarrow> \<not> names_flag args n \<Longrightarrow> map_of fs' n = map_of fs n"
proof (induction fs args rule: parse_induct)
  case (Cons fs s args)
  show ?case
  proof (cases "flag_token s = Operand \<or> flag_token s = Terminator")
    case False
    then obtain m given v x left w where step: "flag_token s = Named m given" "map_of fs m = Some v"
        "flag_argument (boolean v) given args = Some (x, left)" "parse_flags setv boolean (put_flag m w fs) left = Inr (fs', rest)"
      using parse_step [OF Cons.prems(1) False] by blast
    then have "m \<noteq> n" "\<not> names_flag left n"
      using Cons.prems(2) flag_argument_names [OF step(3)] by (auto simp: flag_named_def)
    with Cons.IH [OF flag_argument_length [OF step(3)] step(4)] show ?thesis by simp
  qed (use Cons.prems in auto)
qed simp

text \<open>What follows the first operand is left as it is, flags included.\<close>

lemma parse_stops:
  "parse_flags setv boolean fs args = Inr (fs', []) \<Longrightarrow> flag_token s = Operand \<Longrightarrow>
     parse_flags setv boolean fs (args @ s # left) = Inr (fs', s # left)"
proof (induction fs args rule: parse_induct)
  case (Cons fs a args)
  show ?case
  proof (cases "flag_token a = Operand \<or> flag_token a = Terminator")
    case False
    then obtain m given v x rest w where step: "flag_token a = Named m given" "map_of fs m = Some v"
        "flag_argument (boolean v) given args = Some (x, rest)" "setv v x = Some w"
        "parse_flags setv boolean (put_flag m w fs) rest = Inr (fs', [])"
      using parse_step [OF Cons.prems(1) False] by blast
    moreover from step(3) have "flag_argument (boolean v) given (args @ s # left) = Some (x, rest @ s # left)"
      by (auto simp: flag_argument_cases)
    ultimately show ?thesis using Cons.IH [OF flag_argument_length [OF step(3)] step(5) Cons.prems(2)] by simp
  qed (use Cons.prems in auto)
qed simp

text \<open>What is left is the end of the arguments.\<close>

lemma parse_rest: "parse_flags setv boolean fs args = Inr (fs', rest) \<Longrightarrow> \<exists>used. args = used @ rest"
proof (induction fs args rule: parse_induct)
  case (Cons fs a args)
  show ?case
  proof (cases "flag_token a = Operand \<or> flag_token a = Terminator")
    case False
    then obtain m given v x left w where step: "flag_argument (boolean v) given args = Some (x, left)"
        "parse_flags setv boolean (put_flag m w fs) left = Inr (fs', rest)"
      using parse_step [OF Cons.prems False] by blast
    with Cons.IH [OF flag_argument_length [OF step(1)] step(2)] obtain used where left: "left = used @ rest" by blast
    from step(1) have "args = left \<or> args = x # left" by (auto simp: flag_argument_cases)
    with left show ?thesis by (metis append_Cons)
  next
    case True
    then show ?thesis using Cons.prems by (auto intro: exI [of _ "[a]"])
  qed
qed simp

section \<open>The kinds of values\<close>

text \<open>The law of \<open>flag.Value\<close>: setting a value keeps its kind.\<close>

locale flag_kinds =
  fixes setv :: "'v \<Rightarrow> string \<Rightarrow> 'v option" and boolean :: "'v \<Rightarrow> bool" and kind :: "'v \<Rightarrow> 'k"
  assumes set_kind: "setv v x = Some w \<Longrightarrow> kind w = kind v"
begin

definition kinds :: "(string \<times> 'v) list \<Rightarrow> (string \<times> 'k) list" where
  "kinds fs = map (map_prod id kind) fs"

lemma kinds_put: "map_of fs n = Some v \<Longrightarrow> distinct (map fst fs) \<Longrightarrow> kind w = kind v \<Longrightarrow> kinds (put_flag n w fs) = kinds fs"
  by (auto simp: kinds_def put_flag_def dest: eq_key_imp_eq_value)

lemma names_put [simp]: "map fst (put_flag n w fs) = map fst fs"
  by (induction fs) (auto simp: put_flag_def)

text \<open>A flag set keeps its flags and the kind of each.\<close>

lemma parse_kinds:
  "parse_flags setv boolean fs args = Inr (fs', rest) \<Longrightarrow> distinct (map fst fs) \<Longrightarrow> kinds fs' = kinds fs"
proof (induction fs args rule: parse_induct)
  case (Cons fs s args)
  show ?case
  proof (cases "flag_token s = Operand \<or> flag_token s = Terminator")
    case False
    then obtain m given v x left w where step: "map_of fs m = Some v" "flag_argument (boolean v) given args = Some (x, left)"
        "setv v x = Some w" "parse_flags setv boolean (put_flag m w fs) left = Inr (fs', rest)"
      using parse_step [OF Cons.prems(1) False] by blast
    from Cons.IH [OF flag_argument_length [OF step(2)] step(4)] kinds_put [OF step(1) Cons.prems(2) set_kind [OF step(3)]] Cons.prems(2)
    show ?thesis by simp
  qed (use Cons.prems in auto)
qed simp

end

datatype flag_value =
    FBool bool | FString string | FInt int | FFloat f64 | FDuration int | FMulti "string list"

section \<open>Integer flags\<close>

definition alnum_val :: "char \<Rightarrow> nat option" where
  "alnum_val c =
     (if is_digit c then Some (byte c - 48)
      else if 97 \<le> byte (lower c) \<and> byte (lower c) \<le> 122 then Some (byte (lower c) - 87) else None)"

text \<open>The digits of \<open>ParseUint\<close> with base 0, where underscores are passed over and \<open>underscore_ok\<close> says whether they stand between
  digits.\<close>

fun base_digits :: "nat \<Rightarrow> nat \<Rightarrow> string \<Rightarrow> nat option" where
  "base_digits b n [] = Some n"
| "base_digits b n (c # s) =
     (if c = CHR ''_'' then base_digits b n s
      else (case alnum_val c of None \<Rightarrow> None | Some d \<Rightarrow> if b \<le> d then None else base_digits b (n * b + d) s))"

datatype seen = SeenStart | SeenDigit | SeenUnderscore | SeenOther

fun underscores_from :: "bool \<Rightarrow> seen \<Rightarrow> string \<Rightarrow> bool" where
  "underscores_from hex seen [] = (seen \<noteq> SeenUnderscore)"
| "underscores_from hex seen (c # s) =
     (if is_digit c \<or> hex \<and> 97 \<le> byte (lower c) \<and> byte (lower c) \<le> 102 then underscores_from hex SeenDigit s
      else if c = CHR ''_'' then seen = SeenDigit \<and> underscores_from hex SeenUnderscore s
      else seen \<noteq> SeenUnderscore \<and> underscores_from hex SeenOther s)"

definition base_mark :: "string \<Rightarrow> char \<Rightarrow> bool" where
  "base_mark s c \<longleftrightarrow> 2 \<le> length s \<and> hd s = CHR ''0'' \<and> lower (s ! 1) = c"

definition underscore_ok :: "string \<Rightarrow> bool" where
  "underscore_ok s =
     (if base_mark s CHR ''b'' \<or> base_mark s CHR ''o'' \<or> base_mark s CHR ''x''
      then underscores_from (base_mark s CHR ''x'') SeenDigit (drop 2 s) else underscores_from False SeenStart s)"

definition parse_uint :: "string \<Rightarrow> nat option" where
  "parse_uint s =
     (case (if 3 \<le> length s \<and> base_mark s CHR ''b'' then base_digits 2 0 (drop 2 s)
            else if 3 \<le> length s \<and> base_mark s CHR ''o'' then base_digits 8 0 (drop 2 s)
            else if 3 \<le> length s \<and> base_mark s CHR ''x'' then base_digits 16 0 (drop 2 s)
            else if has_prefix s ''0'' then base_digits 8 0 (drop 1 s) else base_digits 10 0 s) of
        None \<Rightarrow> None
      | Some n \<Rightarrow> if s \<noteq> [] \<and> n < 2 ^ 64 \<and> underscore_ok s then Some n else None)"

definition parse_int :: "string \<Rightarrow> int option" where
  "parse_int s =
     (let neg = has_prefix s ''-''
      in case parse_uint (if neg \<or> has_prefix s ''+'' then drop 1 s else s) of
           None \<Rightarrow> None
         | Some n \<Rightarrow> if neg then (if n \<le> 2 ^ 63 then Some (- int n) else None)
                     else if n < 2 ^ 63 then Some (int n) else None)"

definition parse_bool :: "string \<Rightarrow> bool option" where
  "parse_bool s =
     (if s \<in> {''1'', ''t'', ''T'', ''TRUE'', ''true'', ''True''} then Some True
      else if s \<in> {''0'', ''f'', ''F'', ''FALSE'', ''false'', ''False''} then Some False else None)"

text \<open>\<open>Set\<close> of each kind; a repeatable flag collects its values (\<open>multiFlag\<close>).\<close>

fun set_value :: "go_env \<Rightarrow> (string \<Rightarrow> f64 option) \<Rightarrow> flag_value \<Rightarrow> string \<Rightarrow> flag_value option" where
  "set_value E pf (FBool _) x = map_option FBool (parse_bool x)"
| "set_value E pf (FString _) x = Some (FString x)"
| "set_value E pf (FInt _) x = map_option FInt (parse_int x)"
| "set_value E pf (FFloat _) x = map_option FFloat (pf x)"
| "set_value E pf (FDuration _) x = map_option FDuration (gParseDuration E x)"
| "set_value E pf (FMulti xs) x = Some (FMulti (xs @ [x]))"

fun is_bool_flag :: "flag_value \<Rightarrow> bool" where
  "is_bool_flag (FBool _) = True"
| "is_bool_flag _ = False"

text \<open>The kind of a value as the value with its content removed.\<close>

fun value_kind :: "flag_value \<Rightarrow> flag_value" where
  "value_kind (FBool _) = FBool False"
| "value_kind (FString _) = FString []"
| "value_kind (FInt _) = FInt 0"
| "value_kind (FFloat _) = FFloat NotANumber"
| "value_kind (FDuration _) = FDuration 0"
| "value_kind (FMulti _) = FMulti []"

interpretation flag_values: flag_kinds "set_value E pf" is_bool_flag value_kind
proof
  show "value_kind w = value_kind v" if "set_value E pf v x = Some w" for v x w
    using that by (cases v) auto
qed

type_synonym flag_set = "(string \<times> flag_value) list"

definition parse_args ::
  "go_env \<Rightarrow> (string \<Rightarrow> f64 option) \<Rightarrow> flag_set \<Rightarrow> string list \<Rightarrow> (flag_error, flag_set \<times> string list) result" where
  "parse_args E pf fs args = parse_flags (set_value E pf) is_bool_flag fs args"

text \<open>The values of flags by name; a flag that is not in the set, or of another kind, does not occur in the commands.\<close>

definition string_of :: "flag_set \<Rightarrow> string \<Rightarrow> string" where
  "string_of fs n = (case map_of fs n of Some (FString s) \<Rightarrow> s | _ \<Rightarrow> [])"

definition bool_of :: "flag_set \<Rightarrow> string \<Rightarrow> bool" where
  "bool_of fs n = (map_of fs n = Some (FBool True))"

definition int_of :: "flag_set \<Rightarrow> string \<Rightarrow> int" where
  "int_of fs n = (case map_of fs n of Some (FInt i) \<Rightarrow> i | Some (FDuration d) \<Rightarrow> d | _ \<Rightarrow> 0)"

definition float_of :: "flag_set \<Rightarrow> string \<Rightarrow> f64" where
  "float_of fs n = (case map_of fs n of Some (FFloat x) \<Rightarrow> x | _ \<Rightarrow> Fin 0)"

definition multi_of :: "flag_set \<Rightarrow> string \<Rightarrow> string list" where
  "multi_of fs n = (case map_of fs n of Some (FMulti xs) \<Rightarrow> xs | _ \<Rightarrow> [])"


section \<open>Reading back what is written\<close>

lemma digit_alnum [simp]: "is_digit c \<Longrightarrow> alnum_val c = Some (digit_val c)"
  by (simp add: alnum_val_def digit_val_def)

lemma digit_not_underscore [simp]: "is_digit c \<Longrightarrow> c \<noteq> CHR ''_''"
  by (auto simp: is_digit_def byte_def)

lemma digit_val_less [simp]: "is_digit c \<Longrightarrow> digit_val c < 10"
  by (auto simp: is_digit_def digit_val_def)

lemma base_digits_decimal: "list_all is_digit s \<Longrightarrow> base_digits 10 n s = digits_val n s"
proof (induction s arbitrary: n)
  case (Cons c s)
  then have c: "is_digit c" by simp
  with digit_val_less [OF c] have "\<not> 10 \<le> digit_val c" by linarith
  with c Cons show ?case by (simp add: ac_simps)
qed simp

lemma underscores_decimal: "list_all is_digit s \<Longrightarrow> sn \<noteq> SeenUnderscore \<Longrightarrow> underscores_from False sn s"
  by (induction s arbitrary: sn) auto

lemma nat_digits_leading: "0 < n \<Longrightarrow> hd (nat_digits n) \<noteq> CHR ''0''"
proof (induction n rule: nat_digits.induct)
  case (1 n)
  show ?case
  proof (cases "n < 10")
    case True
    have "byte (chr (48 + n)) \<noteq> byte (CHR ''0'')" using True 1(2) by (simp add: byte_def [of "CHR ''0''"])
    then have "chr (48 + n) \<noteq> CHR ''0''" by metis
    then show ?thesis using True by (subst nat_digits.simps) simp
  next
    case False
    with 1 have "hd (nat_digits (n div 10)) \<noteq> CHR ''0''" by simp
    then show ?thesis using False by (subst nat_digits.simps) simp
  qed
qed

lemma parse_uint_digits: "n < 2 ^ 64 \<Longrightarrow> parse_uint (nat_digits n) = Some n"
proof (cases n)
  case 0
  have "nat_digits 0 = ''0''" "parse_uint ''0'' = Some 0" by code_simp+
  with 0 show ?thesis by simp
next
  case (Suc m)
  assume "n < 2 ^ 64"
  have digits: "list_all is_digit (nat_digits n)" using nat_digits_all_digits by (auto simp: list_all_iff)
  have "hd (nat_digits n) \<noteq> CHR ''0''" using nat_digits_leading [of n] Suc by simp
  then have "\<not> has_prefix (nat_digits n) ''0''" "\<not> base_mark (nat_digits n) c" for c
    by (auto simp: has_prefix_append base_mark_def)
  with \<open>n < 2 ^ 64\<close> digits show ?thesis
    by (simp add: parse_uint_def underscore_ok_def base_digits_decimal underscores_decimal)
qed

lemma parse_int_itoa: "- (2 ^ 63) \<le> i \<Longrightarrow> i < 2 ^ 63 \<Longrightarrow> parse_int (itoa i) = Some i"
proof -
  assume range: "- (2 ^ 63) \<le> i" "i < 2 ^ 63"
  have no_sign: "\<not> has_prefix (nat_digits m) ''-''" "\<not> has_prefix (nat_digits m) ''+''" for m
    using nat_digits_all_digits [of "CHR ''-''" m] nat_digits_all_digits [of "CHR ''+''" m]
    by (auto simp: has_prefix_append is_digit_def byte_def)
  show ?thesis
  proof (cases "i < 0")
    case True
    have "nat (- i) < 2 ^ 64" "nat (- i) \<le> 2 ^ 63" using True range by (simp_all add: nat_less_iff nat_le_iff)
    with True show ?thesis by (simp add: parse_int_def itoa_def has_prefix_def parse_uint_digits)
  next
    case False
    have "nat i < 2 ^ 64" "nat i < 2 ^ 63" using False range by (simp_all add: nat_less_iff)
    with False no_sign show ?thesis by (simp add: parse_int_def itoa_def parse_uint_digits)
  qed
qed

definition flag_text :: "string \<times> string \<Rightarrow> string" where
  "flag_text p = ''--'' @ fst p @ ''='' @ snd p"

definition flag_name_ok :: "string \<Rightarrow> bool" where
  "flag_name_ok n \<longleftrightarrow> n \<noteq> [] \<and> hd n \<noteq> CHR ''-'' \<and> CHR ''='' \<notin> set n"

lemma flag_token_text [simp]: "flag_name_ok n \<Longrightarrow> flag_token (flag_text (n, x)) = Named n (Some x)"
proof -
  assume n: "flag_name_ok n"
  then have "cut (CHR ''='') (n @ CHR ''='' # x) = Some (n, x)" by (simp add: cut_Some flag_name_ok_def)
  moreover from n have "hd n \<noteq> CHR ''=''" by (cases n) (auto simp: flag_name_ok_def)
  ultimately show ?thesis using n by (auto simp: flag_token_def flag_text_def flag_name_ok_def Let_def hd_append)
qed

text \<open>The text of a value that is read back without the library: those of floats and durations are not among them.\<close>

fun value_text :: "flag_value \<Rightarrow> string" where
  "value_text (FBool b) = (if b then ''true'' else ''false'')"
| "value_text (FString s) = s"
| "value_text (FInt i) = itoa i"
| "value_text _ = []"

fun writable_value :: "flag_value \<Rightarrow> bool" where
  "writable_value (FBool b) = True"
| "writable_value (FString s) = True"
| "writable_value (FInt i) = (- (2 ^ 63) \<le> i \<and> i < 2 ^ 63)"
| "writable_value _ = False"

lemma set_value_text: "writable_value w \<Longrightarrow> value_kind v = value_kind w \<Longrightarrow> set_value E pf v (value_text w) = Some w"
  by (cases v; cases w) (auto simp: parse_int_itoa parse_bool_def)

definition settable :: "flag_set \<Rightarrow> string \<times> flag_value \<Rightarrow> bool" where
  "settable fs u \<longleftrightarrow> flag_name_ok (fst u) \<and> writable_value (snd u) \<and>
     (case map_of fs (fst u) of None \<Rightarrow> False | Some v \<Rightarrow> value_kind v = value_kind (snd u))"

lemma settable_put:
  assumes "settable fs u" and "value_kind w = value_kind v" and "map_of fs n = Some v"
  shows "settable (put_flag n w fs) u"
  using assms by (auto simp: settable_def split: option.splits)

text \<open>A command line that sets flags is read back as it was written: every flag of it has the value that was written last,
  every other flag keeps its default, and the arguments after it are read as if nothing had come before them.\<close>

lemma parse_written:
  assumes "list_all (settable fs) us"
  shows "parse_args E pf fs (map (\<lambda>(n, w). flag_text (n, value_text w)) us @ args) =
     parse_args E pf (fold (\<lambda>(n, w). put_flag n w) us fs) args"
  using assms
proof (induction us arbitrary: fs)
  case (Cons u us)
  obtain n w where u: "u = (n, w)" by fastforce
  from Cons.prems u obtain v where v: "flag_name_ok n" "writable_value w" "map_of fs n = Some v" "value_kind v = value_kind w"
    by (auto simp: settable_def split: option.split_asm)
  have "list_all (settable (put_flag n w fs)) us"
    using Cons.prems settable_put [OF _ v(4) [symmetric] v(3)] by (auto simp: list_all_iff)
  from Cons.IH [OF this] v show ?case
    by (simp add: u parse_args_def flag_argument_def set_value_text)
qed simp

lemma map_of_written: "map_of (fold (\<lambda>(n, w). put_flag n w) us fs) m =
    (if map_of fs m = None then None else (case map_of (rev us) m of None \<Rightarrow> map_of fs m | Some w \<Rightarrow> Some w))"
proof (induction us arbitrary: fs)
  case (Cons u us)
  obtain n w where "u = (n, w)" by fastforce
  with Cons show ?case by (auto simp: map_add_def split: option.split)
qed simp

end
