(* ===== verification/ProtoSources.thy ===== *)
theory ProtoSources
  imports GrpcSim GoPath
begin

text \<open>
  \<open>pkg/grpcsim\<close> (\<open>registry.go\<close>): how \<open>compileProtoFiles\<close> names the schema files for the Protobuf compiler. The compiler is a
  parameter: it is given import paths and names of files relative to them. The lemmas say that each name leads to its
  file, when the names of two files differ, and when they do not.
\<close>

section \<open>The names given to the compiler\<close>

text \<open>\<open>filepath.Rel\<close> fails when one path is absolute and the other is not.\<close>

definition rel_path :: "string \<Rightarrow> string \<Rightarrow> string option" where
  "rel_path base target =
     (if path_clean base \<noteq> path_clean target \<and> is_abs base \<noteq> is_abs target then None else Some (path_rel base target))"

definition contains_path :: "string \<Rightarrow> string list \<Rightarrow> string \<Rightarrow> bool" where
  "contains_path wd paths candidate \<longleftrightarrow> list_ex (\<lambda>p. path_abs wd p = candidate) paths"

text \<open>The first import path that the file is below; its base name when there is none.\<close>

fun proto_root :: "string list \<Rightarrow> string \<Rightarrow> string" where
  "proto_root [] a = path_base a"
| "proto_root (p # ps) a =
     (case rel_path p a of
        None \<Rightarrow> proto_root ps a
      | Some r \<Rightarrow> if r \<noteq> ''.'' \<and> \<not> has_prefix r ''../'' then r else proto_root ps a)"

fun proto_roots :: "string \<Rightarrow> string list \<Rightarrow> string list \<Rightarrow> string list \<times> string list" where
  "proto_roots wd paths [] = (paths, [])"
| "proto_roots wd paths (f # fs) =
     (let a = path_abs wd f; dir = path_dir a;
          paths1 = (if contains_path wd paths dir then paths else paths @ [dir])
      in case proto_roots wd paths1 fs of (paths2, roots) \<Rightarrow> (paths2, proto_root paths1 a # roots))"

definition compile_proto_files ::
  "string \<Rightarrow> (string list \<Rightarrow> string list \<Rightarrow> pfile list option) \<Rightarrow> grpc_config \<Rightarrow> pfile list option" where
  "compile_proto_files wd compiler cfg =
     (case proto_roots wd (gcImportPaths cfg) (gcProtoFiles cfg) of (paths, roots) \<Rightarrow> compiler paths roots)"


section \<open>Each name leads to its file\<close>

definition abs_parts :: "string \<Rightarrow> string \<Rightarrow> string list" where
  "abs_parts wd q = (if is_abs q then parts_of q else clean_parts True (rev (parts_of wd)) (split_on slash q))"

lemma path_abs_parts: "is_abs wd \<Longrightarrow> path_abs wd q = ''/'' @ join ''/'' (abs_parts wd q)"
proof (cases "is_abs q")
  case False
  assume wd: "is_abs wd"
  then have "is_abs (wd @ ''/'' @ q)" by (rule abs_append)
  moreover have "split_on slash (wd @ ''/'' @ q) = split_on slash wd @ split_on slash q"
    using split_on_appended [of slash wd q] by (simp add: slash_def)
  ultimately show ?thesis using wd False
    by (simp add: path_abs_def abs_join abs_parts_def path_clean_def parts_of_def clean_parts_append)
qed (simp add: path_abs_def abs_parts_def path_clean_def)

lemma clean_parts_cleaned:
  assumes "list_all plain_part qs" and "list_all (\<lambda>p. slash \<notin> set p) ps"
  shows "clean_parts True st (clean_parts False (rev (replicate n ''..'' @ qs)) ps) =
    clean_parts True st ((replicate n ''..'' @ qs) @ ps)"
  using assms
proof (induction ps arbitrary: n qs)
  case (Cons p ps)
  consider "p = [] \<or> p = ''.''" | "p = ''..''" "qs = []" | q qs' where "p = ''..''" "qs = qs' @ [q]" | "p \<noteq> []" "p \<noteq> ''.''" "p \<noteq> ''..''"
    by (metis rev_exhaust)
  then show ?case
  proof cases
    case 1
    with Cons.IH [OF Cons.prems(1)] Cons.prems(2) show ?thesis by (auto simp: clean_parts_append)
  next
    case 2
    then have "clean_parts False (rev (replicate n ''..'' @ qs)) (p # ps) = clean_parts False (rev (replicate (Suc n) ''..'')) ps"
      by (cases n) (simp_all add: replicate_append_same)
    with 2 Cons.IH [of "[]" "Suc n"] Cons.prems(2) show ?thesis by (simp add: replicate_app_Cons_same)
  next
    case 3
    with Cons.prems have "plain_part q" and ok: "list_all plain_part qs'" by simp_all
    then have q: "q \<noteq> [] \<and> q \<noteq> ''.'' \<and> q \<noteq> ''..''" by (simp add: plain_part_def)
    from ok Cons.IH [of qs' n] Cons.prems(2) have "clean_parts True st (clean_parts False (rev (replicate n ''..'' @ qs')) ps) =
      clean_parts True st ((replicate n ''..'' @ qs') @ ps)" by simp
    with 3 q show ?thesis by (simp add: clean_parts_append)
  next
    case 4
    with Cons.prems have "plain_part p" by (simp add: plain_part_def)
    with 4 Cons.IH [of "qs @ [p]" n] Cons.prems show ?thesis by simp
  qed
qed simp

lemma split_clean:
  assumes "\<not> is_abs d"
  shows "\<not> is_abs (path_clean d)" and "split_on slash (path_clean d) = (if parts_of d = [] then [''.''] else parts_of d)"
proof -
  obtain m rs where parts: "parts_of d = replicate m ''..'' @ rs" "list_all plain_part rs" by (rule parts_of_shape)
  have "\<not> is_abs (path_clean d) \<and> split_on slash (path_clean d) = (if parts_of d = [] then [''.''] else parts_of d)"
  proof (cases "parts_of d = []")
    case True
    have "split_on slash ''.'' = [''.'']" "\<not> is_abs ''.''" by code_simp+
    with True assms show ?thesis by (simp add: path_clean_def)
  next
    case False
    have "\<not> is_abs (join ''/'' (parts_of d))"
    proof (cases m)
      case 0
      with parts False join_plain_first [of rs] show ?thesis by simp
    next
      case (Suc k)
      then show ?thesis using parts(1) by (cases "replicate k ''..'' @ rs") (simp_all add: is_abs_def has_prefix_def)
    qed
    moreover have "split_on slash (join ''/'' (parts_of d)) = parts_of d"
      using split_on_pieces_joined [OF False] dots_no_slash [OF parts(2)] parts(1) by simp
    moreover have "path_clean d = join ''/'' (parts_of d)" using False assms by (simp add: path_clean_def)
    ultimately show ?thesis using False by simp
  qed
  then show "\<not> is_abs (path_clean d)" and "split_on slash (path_clean d) = (if parts_of d = [] then [''.''] else parts_of d)"
    by simp_all
qed

lemma path_abs_cleaned: "is_abs wd \<Longrightarrow> path_abs wd (path_clean q) = path_abs wd q"
proof (cases "is_abs q")
  case True
  then show ?thesis using abs_clean by (simp add: path_abs_def clean_clean)
next
  case False
  assume wd: "is_abs wd"
  have same: "clean_parts True st (parts_of q) = clean_parts True st (split_on slash q)" for st
    using clean_parts_cleaned [of "[]" "split_on slash q" st 0] False split_on_pieces by (simp add: parts_of_def)
  have "abs_parts wd (path_clean q) = clean_parts True (rev (parts_of wd)) (parts_of q)"
    using split_clean [OF False] by (simp add: abs_parts_def)
  then have "abs_parts wd (path_clean q) = abs_parts wd q" using False same by (simp add: abs_parts_def)
  with wd show ?thesis by (simp add: path_abs_parts)
qed

lemma abs_parts_below:
  assumes "is_abs wd" and "p \<noteq> []"
  shows "abs_parts wd (p @ ''/'' @ b) = clean_parts True (rev (abs_parts wd p)) (split_on slash b)"
proof -
  have "is_abs (p @ ''/'' @ b) = is_abs p" using assms(2) by (cases p) (auto simp: is_abs_def has_prefix_def)
  moreover have "split_on slash (p @ ''/'' @ b) = split_on slash p @ split_on slash b"
    using split_on_appended [of slash p b] by (simp add: slash_def)
  ultimately show ?thesis by (simp add: abs_parts_def parts_of_def clean_parts_append)
qed

lemma path_abs_below:
  assumes "is_abs wd" and "p \<noteq> []" and "b \<noteq> []"
  shows "path_abs wd (path_join [p, b]) = ''/'' @ join ''/'' (clean_parts True (rev (abs_parts wd p)) (split_on slash b))"
proof -
  have "path_join [p, b] = path_clean (p @ ''/'' @ b)" using assms(2,3) by (simp add: path_join_def Let_def)
  then show ?thesis using path_abs_cleaned [OF assms(1)] path_abs_parts [OF assms(1)] abs_parts_below [OF assms(1,2)] by simp
qed

lemma abs_parts_plain:
  assumes "is_abs wd"
  shows "list_all plain_part (abs_parts wd q)"
proof -
  have "abs_parts wd q = parts_of (if is_abs q then q else wd @ ''/'' @ q)"
    using abs_append [OF assms] split_on_appended [of slash wd q] assms
    by (simp add: abs_parts_def parts_of_def clean_parts_append slash_def)
  then show ?thesis using abs_append [OF assms] by (simp add: parts_plain)
qed

lemma root_base:
  assumes "list_all plain_part rs" and "plain_part b"
  shows "path_base (''/'' @ join ''/'' (rs @ [b])) = b"
proof -
  have plain: "list_all plain_part (rs @ [b])" using assms by simp
  have "split_on slash (''/'' @ join ''/'' (rs @ [b])) = [] # rs @ [b]"
    using split_on_appended [of slash "[]" "join ''/'' (rs @ [b])"] split_on_joined [OF plain] by (simp add: slash_def)
  moreover have "filter (\<lambda>q. q \<noteq> []) (rs @ [b]) = rs @ [b]" using plain by (auto simp: filter_id_conv plain_part_def list_all_iff)
  ultimately show ?thesis by (simp add: path_base_def)
qed

lemma root_dir:
  assumes "list_all plain_part rs" and "plain_part b"
  shows "path_dir (''/'' @ join ''/'' (rs @ [b])) = ''/'' @ join ''/'' rs"
proof -
  let ?d = "''/'' @ join ''/'' rs"
  have b: "\<forall>x\<in>set b. x \<noteq> slash" using assms(2) by (auto simp: plain_part_def)
  have "split_on slash ?d = [] # (if rs = [] then [[]] else rs)"
    using split_on_appended [of slash "[]" "join ''/'' rs"] split_on_joined [OF assms(1)] by (simp add: slash_def)
  then have d: "path_clean ?d = ?d"
    using assms(1) by (simp add: path_clean_def parts_of_def is_abs_def has_prefix_def clean_parts_plain)
  show ?thesis
  proof (cases "rs = []")
    case True
    with b have "rev (dropWhile (\<lambda>c. c \<noteq> slash) (rev (''/'' @ join ''/'' (rs @ [b])))) = ''/''"
      by (simp add: dropWhile_append3 slash_def)
    with d True show ?thesis by (simp add: path_dir_def)
  next
    case False
    then have "''/'' @ join ''/'' (rs @ [b]) = ?d @ ''/'' @ b" by (simp add: join_append)
    moreover from b have "rev (dropWhile (\<lambda>c. c \<noteq> slash) (rev (?d @ ''/'' @ b))) = ?d @ ''/''"
      by (simp add: dropWhile_append3 slash_def)
    ultimately show ?thesis using clean_trailing [of ?d] d unfolding path_dir_def by simp
  qed
qed

text \<open>The base name of a file, taken from a path that stands for its directory, leads to the file.\<close>

lemma base_leads_back:
  assumes "is_abs wd" and "path_abs wd p = path_dir (path_abs wd f)"
  shows "path_abs wd (path_join [p, path_base (path_abs wd f)]) = path_abs wd f"
proof (cases "abs_parts wd f" rule: rev_cases)
  case Nil
  then have f: "path_abs wd f = ''/''" using path_abs_parts [OF assms(1)] by simp
  have s: "path_base ''/'' = ''/''" "path_dir ''/'' = ''/''" "split_on slash ''/'' = [[], []]" "path_join [[], ''/''] = ''/''"
    "path_abs wd ''/'' = ''/''" by (code_simp, code_simp, code_simp, code_simp) (simp add: path_abs_def, code_simp)
  show ?thesis
  proof (cases "p = []")
    case False
    have "path_abs wd p = ''/''" using assms(2) f s by simp
    with path_abs_below [OF assms(1) False, of "''/''"] path_abs_parts [OF assms(1), of p] s f show ?thesis by simp
  qed (use f s in simp)
next
  case (snoc rs b)
  have plain: "list_all plain_part rs" "plain_part b" using abs_parts_plain [OF assms(1), of f] snoc by simp_all
  have f: "path_abs wd f = ''/'' @ join ''/'' (rs @ [b])" using path_abs_parts [OF assms(1), of f] snoc by simp
  have bs: "split_on slash b = [b]" "\<not> is_abs b" "b \<noteq> []" "path_clean b = b"
    using split_on_joined [of "[b]"] join_plain_first [of "[b]"] clean_plain [of "[b]"] plain(2) by simp_all
  have base: "path_base (path_abs wd f) = b" using root_base [OF plain] f by simp
  have "abs_parts wd p = rs"
    using assms(2) path_abs_parts [OF assms(1), of p] root_dir [OF plain] f join_plain_inject [OF abs_parts_plain [OF assms(1), of p] plain(1)] by simp
  moreover from this have "abs_parts wd b = rs @ [b]" if "p = []"
    using that bs plain(2) by (simp add: abs_parts_def is_abs_def has_prefix_def plain_part_def)
  ultimately have "abs_parts wd (path_join [p, b]) = rs @ [b] \<or> path_abs wd (path_join [p, b]) = path_abs wd f"
    using path_abs_below [OF assms(1) _ bs(3), of p] bs plain(2) f
    by (cases "p = []") (simp_all add: path_join_def plain_part_def)
  then show ?thesis using path_abs_parts [OF assms(1)] f base by auto
qed

definition leads_to_file :: "string \<Rightarrow> string list \<Rightarrow> string \<Rightarrow> string \<Rightarrow> bool" where
  "leads_to_file wd paths f r \<longleftrightarrow> list_ex (\<lambda>p. path_abs wd (path_join [p, r]) = path_abs wd f) paths"

lemma path_abs_id: "is_abs p \<Longrightarrow> path_abs wd p = path_clean p"
  by (simp add: path_abs_def)

lemma rel_path_back:
  assumes "is_abs a" and "path_clean a = a" and "rel_path p a = Some r" and "r \<noteq> ''.''"
  shows "is_abs p \<and> path_join [p, r] = a"
proof -
  have "path_clean p \<noteq> path_clean a" using assms(3,4) by (auto simp: rel_path_def path_rel_def split: if_split_asm)
  then have "is_abs p" "r = path_rel p a" using assms(1,3) by (auto simp: rel_path_def split: if_split_asm)
  with rel_back [of p a] assms(1,2) show ?thesis by simp
qed

lemma proto_root_cases:
  "(\<exists>p\<in>set ps. rel_path p a = Some (proto_root ps a) \<and> proto_root ps a \<noteq> ''.'') \<or> proto_root ps a = path_base a"
  by (induction ps a rule: proto_root.induct) (auto split: option.split)

lemma path_dir_abs: "is_abs wd \<Longrightarrow> is_abs (path_dir (path_abs wd f))"
proof (cases "abs_parts wd f" rule: rev_cases)
  case Nil
  assume wd: "is_abs wd"
  have "is_abs (path_dir ''/'')" by code_simp
  with Nil path_abs_parts [OF wd, of f] show ?thesis by simp
next
  case (snoc rs b)
  assume wd: "is_abs wd"
  then have "list_all plain_part rs" "plain_part b" using abs_parts_plain [OF wd, of f] snoc by simp_all
  with path_abs_parts [OF wd, of f] snoc root_dir [of rs b] show ?thesis by (simp add: is_abs_def has_prefix_def)
qed

lemma proto_root_leads:
  assumes "is_abs wd" and "contains_path wd ps (path_dir (path_abs wd f))"
  shows "leads_to_file wd ps f (proto_root ps (path_abs wd f))"
proof -
  let ?a = "path_abs wd f"
  have a: "is_abs ?a" "path_clean ?a = ?a" using path_abs_abs [OF assms(1)] assms(1) by simp_all
  show ?thesis
  proof (cases "proto_root ps ?a = path_base ?a")
    case False
    with proto_root_cases [of ps ?a] obtain p where p: "p \<in> set ps" "rel_path p ?a = Some (proto_root ps ?a)" "proto_root ps ?a \<noteq> ''.''"
      by blast
    with rel_path_back [OF a] have "path_join [p, proto_root ps ?a] = ?a" by blast
    with a path_abs_id [OF a(1), of wd] have "path_abs wd (path_join [p, proto_root ps ?a]) = ?a" by simp
    with p show ?thesis by (auto simp: leads_to_file_def list_ex_iff)
  next
    case True
    from assms(2) obtain p where "p \<in> set ps" "path_abs wd p = path_dir ?a" by (auto simp: contains_path_def list_ex_iff)
    with True base_leads_back [OF assms(1)] show ?thesis by (auto simp: leads_to_file_def list_ex_iff)
  qed
qed

lemma proto_roots_paths: "proto_roots wd ps fs = (ps', roots) \<Longrightarrow> \<exists>qs. ps' = ps @ qs"
proof (induction fs arbitrary: ps ps' roots)
  case (Cons f fs)
  from Cons.prems obtain qs rs where "proto_roots wd (ps @ qs) fs = (ps', rs)"
    by (cases "contains_path wd ps (path_dir (path_abs wd f))") (auto simp: Let_def split: prod.split_asm intro: that [of "[]", simplified] that)
  with Cons.IH show ?case by fastforce
qed simp

lemma leads_more: "leads_to_file wd ps f r \<Longrightarrow> leads_to_file wd (ps @ qs) f r"
  by (auto simp: leads_to_file_def)

lemma proto_roots_lead:
  "is_abs wd \<Longrightarrow> proto_roots wd ps fs = (ps', roots) \<Longrightarrow> list_all2 (leads_to_file wd ps') fs roots"
proof (induction fs arbitrary: ps roots)
  case (Cons f fs)
  let ?a = "path_abs wd f" and ?ps1 = "if contains_path wd ps (path_dir (path_abs wd f)) then ps else ps @ [path_dir (path_abs wd f)]"
  obtain rs where rest: "proto_roots wd ?ps1 fs = (ps', rs)" and roots: "roots = proto_root ?ps1 ?a # rs"
    using Cons.prems(2) by (cases "proto_roots wd ?ps1 fs") (simp add: Let_def)
  have dir: "path_abs wd (path_dir ?a) = path_dir ?a"
  proof -
    have "path_dir ?a = path_clean (path_dir ?a)" by (simp add: path_dir_def clean_clean)
    moreover have "is_abs (path_dir ?a)" using path_dir_abs [OF Cons.prems(1)] .
    ultimately show ?thesis by (simp add: path_abs_id)
  qed
  have "contains_path wd ?ps1 (path_dir ?a)" using dir by (simp add: contains_path_def)
  then have "leads_to_file wd ?ps1 f (proto_root ?ps1 ?a)" by (rule proto_root_leads [OF Cons.prems(1)])
  then have "leads_to_file wd ps' f (proto_root ?ps1 ?a)" using proto_roots_paths [OF rest] leads_more by blast
  with Cons.IH [OF Cons.prems(1) rest] roots show ?case by simp
qed simp

text \<open>C34. Every schema file is given to the compiler under a name that leads to it: joined to one of the import paths that are
  given with it, the name is the file, for relative and absolute files and import paths.\<close>

theorem schema_names_lead_to_files:
  assumes "is_abs wd"
  shows "case proto_roots wd paths files of (paths', roots) \<Rightarrow>
     list_all2 (leads_to_file wd paths') files roots \<and> take (length paths) paths' = paths"
proof -
  obtain ps' roots where r: "proto_roots wd paths files = (ps', roots)" by fastforce
  with proto_roots_lead [OF assms r] proto_roots_paths [OF r] show ?thesis by auto
qed

definition shop_protos :: "string list" where
  "shop_protos = [''api/shop/v1/shop.proto'', ''/srv/common/money.proto'']"

theorem schema_names_lead_to_files_witness:
  "is_abs ''/home/repo'' \<and>
   proto_roots ''/home/repo'' [''api''] shop_protos =
     ([''api'', ''/home/repo/api/shop/v1'', ''/srv/common''], [''shop.proto'', ''money.proto'']) \<and>
   list_all2 (leads_to_file ''/home/repo'' [''api'', ''/home/repo/api/shop/v1'', ''/srv/common'']) shop_protos
     [''shop.proto'', ''money.proto'']"
proof -
  have wd: "is_abs ''/home/repo''" by code_simp
  have run: "proto_roots ''/home/repo'' [''api''] shop_protos =
     ([''api'', ''/home/repo/api/shop/v1'', ''/srv/common''], [''shop.proto'', ''money.proto''])" by code_simp
  from schema_names_lead_to_files [OF wd, where paths = "[''api'']" and files = shop_protos] wd run show ?thesis by simp
qed

section \<open>When two files get one name\<close>

definition below :: "string \<Rightarrow> string \<Rightarrow> bool" where
  "below p a \<longleftrightarrow> (case rel_path p a of None \<Rightarrow> False | Some r \<Rightarrow> r \<noteq> ''.'' \<and> \<not> has_prefix r ''../'')"

lemma roots_below_first:
  "list_all (\<lambda>f. below p (path_abs wd f)) fs \<Longrightarrow>
   map Some (snd (proto_roots wd (p # ps) fs)) = map (\<lambda>f. rel_path p (path_abs wd f)) fs"
proof (induction fs arbitrary: ps)
  case (Cons f fs)
  let ?dir = "path_dir (path_abs wd f)"
  let ?qs = "if contains_path wd (p # ps) ?dir then ps else ps @ [?dir]"
  have "map Some (snd (proto_roots wd (p # ?qs) fs)) = map (\<lambda>f. rel_path p (path_abs wd f)) fs" using Cons by simp
  moreover obtain r where "rel_path p (path_abs wd f) = Some r" "r \<noteq> ''.''" "\<not> has_prefix r ''../''"
    using Cons.prems by (auto simp: below_def split: option.split_asm)
  ultimately show ?case by (cases "contains_path wd (p # ps) ?dir") (auto simp: Let_def split: prod.split)
qed simp

text \<open>Under an import path that stands first and is above all files, different files have different names.\<close>

theorem names_differ_below_first:
  assumes "is_abs wd" and "list_all (\<lambda>f. below p (path_abs wd f)) fs" and "distinct (map (path_abs wd) fs)"
  shows "distinct (snd (proto_roots wd (p # ps) fs))"
proof -
  have join_back: "f' \<in> set fs \<Longrightarrow> rel_path p (path_abs wd f') = Some r \<Longrightarrow> path_join [p, r] = path_abs wd f'" for f' r
    using assms(1,2) rel_path_back [OF path_abs_abs [OF assms(1)] path_abs_clean [OF assms(1)]]
    by (fastforce simp: below_def list_all_iff)
  have "inj_on (\<lambda>f. rel_path p (path_abs wd f)) (set fs)"
  proof (rule inj_onI)
    fix f g
    assume fg: "f \<in> set fs" "g \<in> set fs" and eq: "rel_path p (path_abs wd f) = rel_path p (path_abs wd g)"
    obtain r where "rel_path p (path_abs wd f) = Some r" using assms(2) fg by (auto simp: below_def list_all_iff split: option.split_asm)
    with join_back fg eq have "path_abs wd f = path_abs wd g" by metis
    with assms(3) fg show "f = g" by (simp add: distinct_map inj_on_def)
  qed
  then have "distinct (map Some (snd (proto_roots wd (p # ps) fs)))"
    using roots_below_first [OF assms(2)] assms(3) by (simp add: distinct_map)
  then show ?thesis by (simp add: distinct_map)
qed

text \<open>Without one, files of the same base name in two directories get the same name, and the compiler is asked for one of them
  twice; the other one is not compiled.\<close>

theorem same_base_name_collides:
  "proto_roots ''/home/repo'' [] [''v1/shop.proto'', ''v2/shop.proto''] =
     ([''/home/repo/v1'', ''/home/repo/v2''], [''shop.proto'', ''shop.proto''])"
  by code_simp

text \<open>An import path that is the directory above both separates them.\<close>

lemma names_differ_below_first_witness:
  "proto_roots ''/home/repo'' [''/home/repo''] [''v1/shop.proto'', ''v2/shop.proto''] =
     ([''/home/repo'', ''/home/repo/v1'', ''/home/repo/v2''], [''v1/shop.proto'', ''v2/shop.proto'']) \<and>
   distinct [''v1/shop.proto'', ''v2/shop.proto'']"
proof -
  let ?fs = "[''v1/shop.proto'', ''v2/shop.proto'']"
  have run: "proto_roots ''/home/repo'' [''/home/repo''] ?fs =
     ([''/home/repo'', ''/home/repo/v1'', ''/home/repo/v2''], ?fs)" by code_simp
  have "is_abs ''/home/repo''" "list_all (\<lambda>f. below ''/home/repo'' (path_abs ''/home/repo'' f)) ?fs"
    "distinct (map (path_abs ''/home/repo'') ?fs)" by code_simp+
  from names_differ_below_first [OF this, of "[]"] run show ?thesis by simp
qed

text \<open>A registry loaded from schema sources compiles exactly the names of its configuration.\<close>

lemma load_compiles_names:
  assumes "gcDescriptorSets cfg = []" and "gcProtoFiles cfg \<noteq> []" and "proto_roots wd (gcImportPaths cfg) (gcProtoFiles cfg) = (paths, roots)"
    and "compiler paths roots = None"
  shows "load_registry clash read_set (compile_proto_files wd compiler) cfg = Inl ProtosInvalid"
  using assms by (simp add: load_registry_def compile_proto_files_def)

end
