(* ===== verification/Commands.thy ===== *)
theory Commands
  imports Agent SimLint KafkaReplay ProtoSources Heal Testgen SimServer
begin

text \<open>
  \<open>cmd/agent\<close> (\<open>main.go\<close>), the commands beside \<open>replay\<close>: how each puts the packages together and which exit code it ends with,
  the values of its options, the comparison with the last run, the search for a fanout, and the redirection rules. Flags are
  given as values; what is printed, signals and listeners are outside. Files are those of \<open>ReplayYaml\<close>.
\<close>

section \<open>Values of options\<close>

definition split_non_empty :: "string \<Rightarrow> string list" where
  "split_non_empty v = filter (\<lambda>s. s \<noteq> []) (map trim_space (split_on (CHR '','') v))"

definition validated_formats :: "string \<Rightarrow> (string, string list) result" where
  "validated_formats v =
     (case List.find (\<lambda>f. to_lower f \<notin> {''junit'', ''sarif'', ''html''}) (split_non_empty v) of
        Some f \<Rightarrow> Inl f
      | None \<Rightarrow> Inr (split_non_empty v))"

type_synonym environment = "string \<Rightarrow> string option"

datatype auth_error = NotSet string | IncompleteSasl

text \<open>\<open>kafkaAuthFlags.value\<close>: \<open>pass_env\<close> names the variable with the password.\<close>

definition kafka_auth_value ::
  "environment \<Rightarrow> bool \<Rightarrow> string \<Rightarrow> string \<Rightarrow> string \<Rightarrow> string \<Rightarrow> string \<Rightarrow> string \<Rightarrow> (auth_error, kafka_auth) result" where
  "kafka_auth_value env tls ca cert key mechanism user pass_env =
     (if pass_env \<noteq> [] \<and> env pass_env = None then Inl (NotSet pass_env)
      else if mechanism \<noteq> [] \<and> (user = [] \<or> pass_env = []) then Inl IncompleteSasl
      else Inr \<lparr>kaTLS = tls, kaCA = ca, kaCert = cert, kaKey = key, kaMechanism = mechanism, kaUser = user,
             kaPassword = (if pass_env = [] then [] else dflt [] (env pass_env))\<rparr>)"

datatype passphrase_error = NoVariable | EmptyVariable string

definition bundle_passphrase :: "environment \<Rightarrow> string \<Rightarrow> (passphrase_error, string) result" where
  "bundle_passphrase env name =
     (if trim_space name = [] then Inl NoVariable
      else (case env name of None \<Rightarrow> Inl (EmptyVariable name) | Some v \<Rightarrow> if v = [] then Inl (EmptyVariable name) else Inr v))"

text \<open>The outputs of \<open>bundle seal\<close> and \<open>bundle open\<close>; \<open>path_ext\<close> is \<open>filepath.Ext\<close>.\<close>

definition path_ext :: "string \<Rightarrow> string" where
  "path_ext p =
     (let (tail, rest) = (takeWhile (\<lambda>c. c \<noteq> CHR ''.'' \<and> c \<noteq> slash) (rev p), dropWhile (\<lambda>c. c \<noteq> CHR ''.'' \<and> c \<noteq> slash) (rev p))
      in case rest of c # r \<Rightarrow> if c = CHR ''.'' then c # rev tail else [] | [] \<Rightarrow> [])"

definition seal_output :: "string \<Rightarrow> string \<Rightarrow> string" where
  "seal_output flag source = (if flag = [] then trim_suffix source ''/'' @ ''.inferno'' else flag)"

definition open_output :: "string \<Rightarrow> string \<Rightarrow> string" where
  "open_output flag source = (if flag = [] then trim_suffix source (path_ext source) else flag)"

datatype log_error = LogRequired | LogMissing | LogUnavailable string

text \<open>\<open>resolveMessageLog\<close>: a path is a directory, a file, or neither.\<close>

definition resolve_message_log :: "(string \<Rightarrow> bool) \<Rightarrow> (string \<Rightarrow> bool) \<Rightarrow> string \<Rightarrow> (log_error, string) result" where
  "resolve_message_log is_dir is_file input =
     (if input = [] then Inl LogRequired
      else if \<not> is_dir input \<and> \<not> is_file input then Inl LogMissing
      else (let path = (if is_dir input then path_join [input, ''messages.log''] else input)
            in if is_file path then Inr path else Inl (LogUnavailable path)))"

definition absolute_paths :: "string \<Rightarrow> string list \<Rightarrow> string list" where
  "absolute_paths wd ps = map (path_abs wd) ps"

section \<open>Checking commands\<close>

text \<open>A check ends with 2 when it cannot be made, with 1 when it finds something, with 0 otherwise.\<close>

definition check_exit :: "('e, finding list) result \<Rightarrow> nat" where
  "check_exit r = (case r of Inl e \<Rightarrow> 2 | Inr fs \<Rightarrow> if fs = [] then 0 else 1)"

datatype command_error =
    MissingArgument | MissingIncident | UnreadableLog | ContractRefused load_problem | AsyncRefused async_load_error
  | BadFormat string | ReportFailed | ConfigFailed config_error | NoWorkflows | VerifyFailed verify_error
  | LogRefused log_error | MessagesRefused msg_error | MatcherFailed match_error | BadFixture | RelativeURL

definition report_of :: "string \<Rightarrow> string \<Rightarrow> string \<Rightarrow> finding list \<Rightarrow> report_result" where
  "report_of tool failure pass fs =
     \<lparr>rrTool = tool, rrOutcome = (if fs = [] then pass else failure), rrSummary = [], rrGenerated = 0, rrFindings = fs\<rparr>"

definition write_report :: "string \<Rightarrow> int \<Rightarrow> string list \<Rightarrow> report_result \<Rightarrow> (command_error, finding list) result" where
  "write_report version now formats r = (if snd (write_formats version now formats r) then Inr (rrFindings r) else Inl ReportFailed)"

text \<open>\<open>infernosim contract\<close>. Its formats are not validated beforehand.\<close>

definition contract_command ::
  "go_env \<Rightarrow> (string \<Rightarrow> string) \<Rightarrow> files \<Rightarrow> (string \<Rightarrow> event list option) \<Rightarrow> (string \<Rightarrow> api_document option) \<Rightarrow> string \<Rightarrow> int \<Rightarrow>
   string \<Rightarrow> string \<Rightarrow> string \<Rightarrow> (command_error, finding list) result" where
  "contract_command E T fs decode_log parse version now dir spec formats =
     (if dir = [] \<or> spec = [] then Inl MissingArgument
      else (case open_incident fs dir of
          None \<Rightarrow> Inl MissingIncident
        | Some b \<Rightarrow> (case Option.bind (fs (ibInbound b)) decode_log of
            None \<Rightarrow> Inl UnreadableLog
          | Some es \<Rightarrow> (case load_contract (fs spec) parse of
              Inl e \<Rightarrow> Inl (ContractRefused e)
            | Inr d \<Rightarrow> write_report version now (split_non_empty formats)
                (report_of ''InfernoSIM'' ''FAIL_CONTRACT'' ''PASS_CONTRACT'' (validate_events E T d (load_inbound es) ''baseline''))))))"


text \<open>\<open>infernosim workflow verify\<close>; \<open>logs\<close> are the three logs of the incident.\<close>

definition workflow_command ::
  "go_env \<Rightarrow> (int \<Rightarrow> string) \<Rightarrow> files \<Rightarrow> (string \<Rightarrow> replay_yaml option) \<Rightarrow> (string \<Rightarrow> incident_logs) \<Rightarrow> string \<Rightarrow> int \<Rightarrow>
   string \<Rightarrow> string \<Rightarrow> string \<Rightarrow> (command_error, finding list) result" where
  "workflow_command E shw fs decode logs version now dir config formats =
     (case validated_formats formats of
        Inl f \<Rightarrow> Inl (BadFormat f)
      | Inr fmts \<Rightarrow>
          if dir = [] then Inl MissingArgument
          else (case load_replay_config E fs decode (if config = [] then path_join [dir, ''replay.yaml''] else config) of
              Inl e \<Rightarrow> Inl (ConfigFailed e)
            | Inr y \<Rightarrow>
                if ryWorkflows y = [] then Inl NoWorkflows
                else (case verify_workflows E shw (logs dir) (ryWorkflows y) of
                    Inl e \<Rightarrow> Inl (VerifyFailed e)
                  | Inr found \<Rightarrow> write_report version now fmts
                      (report_of ''InfernoSIM Workflow'' ''FAIL_WORKFLOW_DRIFT'' ''PASS'' found))))"

text \<open>\<open>infernosim kafka validate\<close>.\<close>

definition kafka_validate_command ::
  "go_env \<Rightarrow> (detail \<Rightarrow> string) \<Rightarrow> (string \<Rightarrow> bool) \<Rightarrow> (string \<Rightarrow> bool) \<Rightarrow> files \<Rightarrow> (string \<Rightarrow> message option list) \<Rightarrow>
   (string \<Rightarrow> async_document option) \<Rightarrow> string \<Rightarrow> int \<Rightarrow> string \<Rightarrow> string \<Rightarrow> string \<Rightarrow> (command_error, finding list) result" where
  "kafka_validate_command E T is_dir is_file fs decoded parse version now input spec formats =
     (case validated_formats formats of
        Inl f \<Rightarrow> Inl (BadFormat f)
      | Inr fmts \<Rightarrow>
          if input = [] \<or> spec = [] then Inl MissingArgument
          else (case resolve_message_log is_dir is_file input of
              Inl e \<Rightarrow> Inl (LogRefused e)
            | Inr path \<Rightarrow> (case load_messages E (decoded path) of
                Inl e \<Rightarrow> Inl (MessagesRefused e)
              | Inr ms \<Rightarrow> (case load_async E (fs spec) parse of
                  Inl e \<Rightarrow> Inl (AsyncRefused e)
                | Inr d \<Rightarrow> write_report version now fmts
                    (report_of ''InfernoSIM AsyncAPI'' ''FAIL_CONTRACT_DRIFT'' ''PASS'' (validate_records E T d ms))))))"

text \<open>\<open>infernosim lint\<close>: \<open>simlint.File\<close> and the exit code. A configuration that does not load is a diagnostic.\<close>

definition lint_path ::
  "go_env \<Rightarrow> files \<Rightarrow> (string \<Rightarrow> replay_yaml option) \<Rightarrow> string \<Rightarrow> diagnostic list" where
  "lint_path E fs decode path =
     (case load_replay_config E fs decode path of
        Inl e \<Rightarrow> [lint_error ''CONFIG_INVALID'' path]
      | Inr y \<Rightarrow> lint_config (ryMatching y) (ryScenarios y))"

definition lint_exit :: "diagnostic list \<Rightarrow> nat" where
  "lint_exit ds = (if 0 < count_level Error ds then 1 else 0)"

text \<open>\<open>infernosim verify\<close>.\<close>

definition verify_command :: "go_env \<Rightarrow> files \<Rightarrow> (string \<Rightarrow> event list option) \<Rightarrow> string \<Rightarrow> nat \<times> verify_result option" where
  "verify_command E fs decode_log dir =
     (case open_incident fs dir of
        None \<Rightarrow> (1, None)
      | Some b \<Rightarrow> (case Option.bind (fs (ibInbound b)) decode_log of
          None \<Rightarrow> (1, None)
        | Some es \<Rightarrow> (let r = verify_incident E (load_inbound es) in (if vrScore r < 60 then 1 else 0, Some r))))"

section \<open>Explaining a match\<close>

record fixture =
  fxMethod :: string
  fxURL :: string
  fxHeaders :: header
  fxBody :: string
  fxBodyB64 :: string

text \<open>\<open>infernosim match explain\<close>: what the fixture and the files give, and the explanations. The header names of the fixture are
  used as they are.\<close>

definition fixture_request :: "go_env \<Rightarrow> fixture \<Rightarrow> (command_error, request \<times> string) result" where
  "fixture_request E x =
     (if fxMethod x = [] \<or> fxURL x = [] \<or> fxBody x \<noteq> [] \<and> fxBodyB64 x \<noteq> [] then Inl BadFixture
      else (case (if fxBodyB64 x = [] then Some (fxBody x) else b64_decode (fxBodyB64 x)) of
          None \<Rightarrow> Inl BadFixture
        | Some body \<Rightarrow> (case gUrlParse E (fxURL x) of
            None \<Rightarrow> Inl RelativeURL
          | Some u \<Rightarrow>
              if uScheme u = [] \<or> uHost u = [] then Inl RelativeURL
              else Inr (\<lparr>rqMethod = fxMethod x, rqURL = Some u, rqHost = uHost u, rqHeader = fxHeaders x\<rparr>, body))))"

definition explain_inputs ::
  "go_env \<Rightarrow> files \<Rightarrow> (string \<Rightarrow> replay_yaml option) \<Rightarrow> (string \<Rightarrow> event list option) \<Rightarrow> string \<Rightarrow> string \<Rightarrow> fixture \<Rightarrow>
   (command_error, matcher \<times> event list \<times> request \<times> string) result" where
  "explain_inputs E fs decode decode_log dir config x =
     (if dir = [] then Inl MissingArgument
      else and_then (fixture_request E x) (\<lambda>(rq, body).
        let path = (if config \<noteq> [] then config
                    else if fs (path_join [dir, ''replay.yaml'']) \<noteq> None then path_join [dir, ''replay.yaml''] else [])
        in and_then (if path = [] then Inr no_matching
                     else (case load_replay_config E fs decode path of Inl e \<Rightarrow> Inl (ConfigFailed e) | Inr y \<Rightarrow> Inr (ryMatching y))) (\<lambda>cfg.
           case new_matcher E cfg None of
             Inl e \<Rightarrow> Inl (MatcherFailed e)
           | Inr m \<Rightarrow> (case Option.bind (fs (path_join [dir, ''outbound.log''])) decode_log of
               None \<Rightarrow> Inl UnreadableLog
             | Some es \<Rightarrow> Inr (m, outbound_events es, rq, body)))))"

definition explain_command ::
  "go_env \<Rightarrow> files \<Rightarrow> (string \<Rightarrow> replay_yaml option) \<Rightarrow> (string \<Rightarrow> event list option) \<Rightarrow> string \<Rightarrow> string \<Rightarrow> fixture \<Rightarrow>
   nat \<times> explanation list" where
  "explain_command E fs decode decode_log dir config x =
     (case explain_inputs E fs decode decode_log dir config x of
        Inl e \<Rightarrow> (2, [])
      | Inr (m, es, rq, body) \<Rightarrow>
          (let xs = explain E m es rq body in (if list_ex exMatched xs then 0 else 1, xs)))"

section \<open>Comparing with a capture\<close>

definition diff_settings :: "int \<Rightarrow> bool \<Rightarrow> replay_config" where
  "diff_settings wall allow_writes =
     \<lparr>rcTimeScale = Fin 1, rcDensity = Fin 1, rcMinGap = 2000000, rcMaxWallClock = wall, rcMaxIdleTime = 0, rcMaxEvents = 0,
      rcSafeMode = \<not> allow_writes, rcSafeModeAllow = [], rcStateAdapters = [], rcChaosDelay = 0, rcChaosRequest = 0\<rparr>"

text \<open>The target of the configuration is used when the flag has its default; an invalid configuration is ignored.\<close>

definition diff_target :: "(config_error, replay_yaml) result option \<Rightarrow> string \<Rightarrow> string" where
  "diff_target config flag =
     (case config of
        Some (Inr y) \<Rightarrow> if ryTarget y \<noteq> [] \<and> flag = ''http://localhost:8080'' then ryTarget y else flag
      | _ \<Rightarrow> flag)"

text \<open>\<open>infernosim diff\<close>: the exit code, the differences and the world after; the world holds the service and the stub proxy.\<close>

definition diff_command ::
  "go_env \<Rightarrow> 'w world \<Rightarrow> (f64 \<Rightarrow> f64 \<Rightarrow> int \<Rightarrow> int) \<Rightarrow> (int \<Rightarrow> int \<Rightarrow> bool) \<Rightarrow> files \<Rightarrow> (string \<Rightarrow> replay_yaml option) \<Rightarrow>
   (string \<Rightarrow> event list option) \<Rightarrow> string \<Rightarrow> string \<Rightarrow> int \<Rightarrow> bool \<Rightarrow> 'w \<Rightarrow> nat \<times> event_diff list \<times> 'w" where
  "diff_command E W scale slow fs decode decode_log dir flag wall allow_writes w =
     (case open_incident fs dir of
        None \<Rightarrow> (1, [], w)
      | Some b \<Rightarrow>
          (let config = (if has_config fs b then Some (load_replay_config E fs decode (ibConfig b)) else None)
           in case Option.bind (fs (ibInbound b)) decode_log of
                None \<Rightarrow> (1, [], w)
              | Some es \<Rightarrow>
                  (case replay_events E W scale (diff_settings wall allow_writes) (diff_target config flag) (load_inbound es) w of
                     (Inl e, w') \<Rightarrow> (1, [], w')
                   | (Inr rep, w') \<Rightarrow>
                       (let ds = diffs_of slow (load_inbound es) (roReplayed rep) in (if ds = [] then 0 else 1, ds, w')))))"


section \<open>The last run\<close>

record snapshot =
  ssOutcome :: string
  ssFanout :: int
  ssRate :: f64
  ssObserved :: int
  ssTarget :: int
  ssLatency :: int

text \<open>\<open>saveReplaySnapshot\<close>: \<open>rate\<close> is the achieved rate; latencies are kept in milliseconds.\<close>

definition snapshot_path :: "string \<Rightarrow> string" where
  "snapshot_path dir = path_join [if dir = [] then ''.'' else dir, ''.infernosim_last_run.json'']"

definition take_snapshot :: "f64 \<Rightarrow> replay_summary \<Rightarrow> snapshot" where
  "take_snapshot rate s =
     \<lparr>ssOutcome = smOutcome s, ssFanout = smFanout s, ssRate = rate, ssObserved = int (smObserved s), ssTarget = smTargetOutbound s,
      ssLatency = smMaxLatency s div 1000000\<rparr>"

datatype envelope = UnknownEnvelope | Observed f64 int "int option" | FromPrevious f64 int "int option"

text \<open>\<open>deriveEnvelope\<close>: rate, fanout and the latency tolerated, of this run or of the last one that passed.\<close>

definition derive_envelope :: "f64 \<Rightarrow> replay_summary \<Rightarrow> snapshot option \<Rightarrow> envelope" where
  "derive_envelope rate s previous =
     (if smOutcome s = ''PASS_STRONG''
      then Observed rate (smFanout s) (if 0 < smMaxLatency s then Some (smMaxLatency s) else None)
      else (case previous of
              None \<Rightarrow> UnknownEnvelope
            | Some p \<Rightarrow>
                if has_prefix (ssOutcome p) ''PASS'' then FromPrevious (ssRate p) (ssFanout p) (if 0 < ssLatency p then Some (ssLatency p) else None)
                else UnknownEnvelope))"

fun f_change :: "(real \<Rightarrow> real) \<Rightarrow> f64 \<Rightarrow> f64 \<Rightarrow> f64" where
  "f_change rnd (Fin now) (Fin before) = Fin (rnd (rnd (rnd (now - before) / before) * 100))"
| "f_change rnd _ _ = NotANumber"

definition completion_ratio :: "(real \<Rightarrow> real) \<Rightarrow> int \<Rightarrow> int \<Rightarrow> f64" where
  "completion_ratio rnd observed target = (if target \<le> 0 then Fin 0 else Fin (rnd (real_of_int observed / real_of_int target)))"

text \<open>\<open>deriveDelta\<close>: the changes of fanout, rate and completion, where there is something to compare with.\<close>

definition derive_delta ::
  "(real \<Rightarrow> real) \<Rightarrow> f64 \<Rightarrow> replay_summary \<Rightarrow> snapshot option \<Rightarrow> int option \<times> f64 option \<times> f64 option" where
  "derive_delta rnd rate s previous =
     (case previous of
        None \<Rightarrow> (None, None, None)
      | Some p \<Rightarrow>
          (let now = completion_ratio rnd (int (smObserved s)) (smTargetOutbound s);
               before = completion_ratio rnd (ssObserved p) (ssTarget p)
           in (Some (smFanout s - ssFanout p),
               if f_less (Fin 0) (ssRate p) then Some (f_change rnd rate (ssRate p)) else None,
               if f_less (Fin 0) before then Some (f_change rnd now before) else None)))"

section \<open>The search for a fanout\<close>

datatype search_verdict = BreachedAt nat | StableUpTo nat

text \<open>\<open>runSearch\<close>: \<open>holds n\<close> tells whether all of \<open>n\<close> concurrent replays succeed.\<close>

function search_from :: "(nat \<Rightarrow> bool) \<Rightarrow> nat \<Rightarrow> search_verdict" where
  "search_from holds n =
     (if \<not> holds n then BreachedAt n else if 5 \<le> n then StableUpTo n else search_from holds (Suc n))"
  by pat_completeness auto

termination
  by (relation "measure (\<lambda>(holds, n). 5 - n)") auto

declare search_from.simps [simp del]

section \<open>Redirection\<close>

text \<open>\<open>installTransparentRedirect\<close>: the rules are added in turn; the clean-up deletes them in the opposite order. \<open>runs\<close> tells
  whether a command succeeds. Beside the clean-up stand the commands that were run.\<close>

definition redirect_rule :: "string \<Rightarrow> string list" where
  "redirect_rule port =
     [''-t'', ''nat'', ''-A'', ''OUTPUT'', ''-p'', ''tcp'', ''--dport'', port, ''-j'', ''REDIRECT'', ''--to-ports'', ''19000'']"

definition redirect_rules :: "string list list" where
  "redirect_rules = [redirect_rule ''80'', redirect_rule ''443'']"

fun install_rules :: "(string list \<Rightarrow> bool) \<Rightarrow> string list list \<Rightarrow> string list list \<times> bool" where
  "install_rules runs [] = ([], True)"
| "install_rules runs (r # rs) =
     (if \<not> runs r then ([r], False) else (case install_rules runs rs of (done, ok) \<Rightarrow> (r # done, ok)))"

definition undo_rule :: "string list \<Rightarrow> string list" where
  "undo_rule r = [''-t'', ''nat'', ''-D'', ''OUTPUT''] @ drop 4 r"

definition install_redirect :: "(string list \<Rightarrow> bool) \<Rightarrow> string list list \<times> string list list option" where
  "install_redirect runs =
     (case install_rules runs redirect_rules of
        (tried, ok) \<Rightarrow> (tried, if ok then Some (map undo_rule (rev redirect_rules)) else None))"

section \<open>Recording\<close>

record incident_metadata =
  imEnv :: string
  imHost :: string
  imListen :: string
  imForward :: string
  imInbound :: nat
  imOutbound :: nat

text \<open>\<open>countEvents\<close>: what a log that is decoded up to its first error holds.\<close>

definition count_events :: "event list option \<Rightarrow> string \<Rightarrow> nat" where
  "count_events decoded type =
     (case decoded of None \<Rightarrow> 0 | Some es \<Rightarrow> length (filter (\<lambda>e. type = [] \<or> evType e = type) es))"

datatype record_refusal = ForwardRequired | PolicyRefused | HasData string

text \<open>The checks of \<open>infernosim record\<close> before anything is opened, and the metadata it leaves.\<close>

definition record_checks :: "files \<Rightarrow> string \<Rightarrow> bool \<Rightarrow> string \<Rightarrow> bool \<Rightarrow> (record_refusal, string \<times> string) result" where
  "record_checks fs forward policy_loads out keep =
     (let inbound = path_join [out, ''inbound.log'']; outbound = path_join [out, ''outbound.log'']
      in if forward = [] then Inl ForwardRequired
         else if \<not> policy_loads then Inl PolicyRefused
         else (case (if keep then None else List.find (\<lambda>p. fs p \<notin> {None, Some []}) [inbound, outbound]) of
                 Some p \<Rightarrow> Inl (HasData p)
               | None \<Rightarrow> Inr (inbound, outbound)))"

definition record_metadata :: "string \<Rightarrow> string \<Rightarrow> string \<Rightarrow> event list option \<Rightarrow> event list option \<Rightarrow> incident_metadata" where
  "record_metadata env listen forward inbound outbound =
     \<lparr>imEnv = env, imHost = forward, imListen = listen, imForward = forward, imInbound = count_events inbound ''InboundRequest'',
      imOutbound = count_events outbound []\<rparr>"

section \<open>Which command runs\<close>

definition current_commands :: "string list" where
  "current_commands =
     [''capture'', ''record'', ''replay'', ''inspect'', ''verify'', ''diff'', ''bundle'', ''contract'', ''generate'', ''serve'',
      ''testgen'', ''heal'', ''kafka'', ''workflow'', ''lint'', ''match'']"

text \<open>\<open>main\<close>: the exit code of the process; \<open>run\<close> gives the code of a command. The legacy commands end the process themselves
  when they fail to start, which is None.\<close>

definition main_exit :: "(string \<Rightarrow> string list \<Rightarrow> nat) \<Rightarrow> (string \<Rightarrow> string list \<Rightarrow> nat option) \<Rightarrow> string list \<Rightarrow> nat" where
  "main_exit run legacy args =
     (case args of
        [] \<Rightarrow> 1
      | c # rest \<Rightarrow>
          if c \<in> {''--version'', ''-v'', ''--help'', ''-h'', ''version''} then 0
          else if c \<in> set current_commands then run c rest
          else if c \<in> {''search'', ''strict-replay''} then dflt 1 (map_option (\<lambda>_. 0) (legacy c rest))
          else if has_prefix c ''-'' then dflt 1 (map_option (\<lambda>_. 0) (legacy ''agent'' args))
          else 1)"

text \<open>Which source \<open>infernosim generate\<close> reads: exactly one of a document and Protobuf schemas.\<close>

datatype generate_mode = FromDocument string | FromSchemas grpc_config

definition generate_mode_of :: "string \<Rightarrow> string \<Rightarrow> string list \<Rightarrow> string list \<Rightarrow> string list \<Rightarrow> generate_mode option" where
  "generate_mode_of wd openapi protos sets imports_of =
     (let protobuf = (protos \<noteq> [] \<or> sets \<noteq> [])
      in if (openapi = []) = (\<not> protobuf) then None
         else if openapi \<noteq> [] then Some (FromDocument openapi)
         else Some (FromSchemas \<lparr>gcProtoFiles = absolute_paths wd protos, gcDescriptorSets = absolute_paths wd sets,
                gcImportPaths = absolute_paths wd imports_of\<rparr>))"


section \<open>Lemmas\<close>

lemma dropWhile_settled: "dropWhile p (dropWhile p xs) = dropWhile p xs"
  by (induction xs) auto

lemma trim_set_trimmed: "trim_set p (trim_set p s) = trim_set p s"
proof -
  let ?u = "dropWhile p s" and ?v = "rev (dropWhile p (rev (dropWhile p s)))"
  have "dropWhile p ?v = ?v"
  proof (cases ?v)
    case (Cons c v)
    have "?u = ?v @ rev (takeWhile p (rev ?u))"
      by (metis rev_append rev_rev_ident takeWhile_dropWhile_id)
    with Cons have "hd ?u = c" by (metis append_Cons list.sel(1))
    moreover have "?u \<noteq> []" using Cons by (metis dropWhile.simps(1) list.distinct(1) rev.simps(1))
    ultimately have "\<not> p c" using hd_dropWhile by metis
    with Cons show ?thesis by simp
  next
    case Nil
    then show ?thesis by (simp only: dropWhile.simps)
  qed
  then show ?thesis by (simp add: trim_set_def dropWhile_settled)
qed

lemma split_non_empty_pieces: "f \<in> set (split_non_empty v) \<Longrightarrow> f \<noteq> [] \<and> trim_space f = f"
  by (auto simp: split_non_empty_def trim_space_def trim_set_trimmed)

lemma known_formats_written:
  "list_all (\<lambda>f. to_lower (trim_space f) \<in> {''junit'', ''sarif'', ''html''}) fs \<Longrightarrow> snd (write_loop version r seen fs)"
proof (induction fs arbitrary: seen)
  case (Cons f fs)
  then have "to_lower (trim_space f) \<in> {''junit'', ''sarif'', ''html''}" by simp
  then obtain d where "format_file version r (to_lower (trim_space f)) = Some d" by (auto simp: format_file_def)
  with Cons show ?case by (simp add: Let_def case_prod_beta)
qed simp

lemma validated_formats_written:
  assumes "validated_formats v = Inr fs"
  shows "snd (write_formats version now fs r)"
proof -
  have fs: "fs = split_non_empty v" and "\<forall>f\<in>set fs. to_lower f \<in> {''junit'', ''sarif'', ''html''}"
    using assms by (auto simp: validated_formats_def find_None_iff split: option.split_asm)
  then have "list_all (\<lambda>f. to_lower (trim_space f) \<in> {''junit'', ''sarif'', ''html''}) fs"
    using split_non_empty_pieces [of _ v] by (simp add: list_all_iff)
  then show ?thesis by (simp add: write_formats_def known_formats_written)
qed


text \<open>The exit code of \<open>match explain\<close> is the answer to its question: once the fixture, the configuration and the log are
  accepted, it ends with 0 exactly when the matcher accepts the request for one of the captured calls, with 1 otherwise, and
  one explanation is given per captured call, in their order.\<close>

theorem explain_exit_exact:
  "case explain_command E fs decode decode_log dir config x of (code, xs) \<Rightarrow>
     (case explain_inputs E fs decode decode_log dir config x of
        Inl e \<Rightarrow> code = 2 \<and> xs = []
      | Inr (m, es, rq, body) \<Rightarrow>
          code = (if list_ex (\<lambda>c. fst (match_event E m c rq body)) es then 0 else 1) \<and>
          map exMatched xs = map (\<lambda>c. fst (match_event E m c rq body)) es \<and>
          map exIndex xs = [0..<length es])"
proof -
  have matched: "map exMatched (explain E m es rq body) = map (\<lambda>c. fst (match_event E m c rq body)) es" for m es rq body
    by (auto simp: explain_def Let_def nth_enumerate_eq intro!: nth_equalityI)
  have "list_ex exMatched (explain E m es rq body) = list_ex (\<lambda>b. b) (map exMatched (explain E m es rq body))" for m es rq body
    by (simp add: list_ex_iff)
  then have "list_ex exMatched (explain E m es rq body) = list_ex (\<lambda>c. fst (match_event E m c rq body)) es" for m es rq body
    by (simp add: matched list_ex_iff)
  moreover have "map exIndex (explain E m es rq body) = [0..<length es]" for m es rq body
    by (auto simp: explain_def Let_def nth_enumerate_eq intro!: nth_equalityI)
  ultimately show ?thesis by (simp add: explain_command_def Let_def matched split: sum.split)
qed

text \<open>The fixture's header names are not brought to their canonical form: a lower-case name is not found by a rule.\<close>

lemma lower_case_header_missed: "hget [(''x-request-id'', [v])] ''X-Request-Id'' = []"
proof -
  have "canonical_key ''X-Request-Id'' = ''X-Request-Id''" by code_simp
  then show ?thesis by (simp add: hget_def hvalues_def)
qed

text \<open>The check of workflows ends with 0 exactly when the configuration loads, names workflows and the incident's logs show
  no finding for any of them; accepted report formats are always written.\<close>

theorem workflow_exit_exact:
  "check_exit (workflow_command E shw fs decode logs version now dir config formats) = 0 \<longleftrightarrow>
     is_ok (validated_formats formats) \<and> dir \<noteq> [] \<and>
     (case load_replay_config E fs decode (if config = [] then path_join [dir, ''replay.yaml''] else config) of
        Inl e \<Rightarrow> False
      | Inr y \<Rightarrow> ryWorkflows y \<noteq> [] \<and> verify_workflows E shw (logs dir) (ryWorkflows y) = Inr [])"
proof (cases "validated_formats formats")
  case (Inl f)
  then show ?thesis by (simp add: workflow_command_def check_exit_def)
next
  case (Inr fmts)
  have "write_report version now fmts r = Inr (rrFindings r)" for r
    using validated_formats_written [OF Inr] by (simp add: write_report_def)
  with Inr show ?thesis by (simp add: workflow_command_def check_exit_def report_of_def split: sum.split)
qed

text \<open>The search for a fanout ends, with the first of the fanouts 1 to 5 at which a replay fails, or with 5 when none does.\<close>

theorem search_finds_first_failure:
  "search_from holds 1 =
     (case List.find (\<lambda>n. \<not> holds n) [1..<6] of Some n \<Rightarrow> BreachedAt n | None \<Rightarrow> StableUpTo 5)"
proof -
  have "[1..<6] = [1, 2, 3, 4, 5::nat]" by (simp add: upt_rec)
  then show ?thesis by (simp add: search_from.simps numeral_eq_Suc)
qed

text \<open>A redirection that could not be completed stays: no clean-up is given for the rules that were added.\<close>

lemma half_redirect_stays:
  "runs (redirect_rule ''80'') \<Longrightarrow> \<not> runs (redirect_rule ''443'') \<Longrightarrow> install_redirect runs = (redirect_rules, None)"
  by (simp add: install_redirect_def redirect_rules_def)

lemma redirect_undone:
  "install_redirect runs = (tried, Some undo) \<Longrightarrow> tried = redirect_rules \<and> list_all runs tried \<and> undo = map undo_rule (rev tried)"
  by (auto simp: install_redirect_def redirect_rules_def split: if_split_asm)

text \<open>A configuration that lints without an error loads.\<close>

lemma linted_configuration_loads:
  "lint_exit (lint_path E fs decode path) = 0 \<Longrightarrow> is_ok (load_replay_config E fs decode path)"
  by (auto simp: lint_path_def lint_exit_def count_level_def lint_error_def split: sum.split_asm if_split_asm)

text \<open>A bundle is opened where its incident came from.\<close>

lemma sealed_name_opens:
  assumes "\<not> has_suffix source ''/''"
  shows "open_output [] (seal_output [] source) = source"
proof -
  have "trim_suffix source ''/'' = source" using assms by (simp add: trim_suffix_def)
  moreover have "path_ext (source @ ''.inferno'') = ''.inferno''" by (simp add: path_ext_def slash_def)
  ultimately show ?thesis by (simp add: seal_output_def open_output_def)
qed

text \<open>A service that answers nothing at all passes the comparison: there is no replayed event, so there is no difference.\<close>

lemma unreachable_service_passes_diff:
  "let fs = (\<lambda>p. if p = ''may/inbound.log'' then Some [] else None);
       es = [captured_get 0 ''http://svc/items/3'' [] [] ''ok'']
   in case diff_command example_env (example_world (\<lambda>_. Unanswered ''*net.OpError'')) same_gap (\<lambda>_ _. False) fs (\<lambda>_. None) (\<lambda>_. Some es)
        ''may'' ''http://svc'' 60000000000 False (0, []) of (code, ds, w) \<Rightarrow> code = 0 \<and> length (snd w) = 1"
  by code_simp

end
