(* ===== verification/CommandEffects.thy ===== *)
theory CommandEffects
  imports Commands Generator BundleV2 Replay
begin

text \<open>
  \<open>cmd/agent\<close> (\<open>main.go\<close>), the commands that change something: files of bundles, generated configurations and harnesses, healed
  configurations, and messages of a broker. Each is a function to its exit code and the state after it. Flags are given as
  values; what is printed and signals are outside.
\<close>

section \<open>Commands that write files\<close>

text \<open>\<open>bundle seal\<close> and \<open>bundle open\<close>: \<open>tree\<close> is what stands at the source, the opened files are those of the destination.\<close>

definition seal_command ::
  "go_env \<Rightarrow> bundle_lib \<Rightarrow> ((string \<times> string) list \<Rightarrow> string) \<Rightarrow> environment \<Rightarrow> string option \<Rightarrow> string option \<Rightarrow> (string \<Rightarrow> source) \<Rightarrow>
   string \<Rightarrow> string \<Rightarrow> string \<Rightarrow> files \<Rightarrow> nat \<times> files" where
  "seal_command E L pack env salt nonce tree flag name path fs =
     (let out = seal_output flag path
      in case bundle_passphrase env name of
           Inl e \<Rightarrow> (1, fs)
         | Inr passphrase \<Rightarrow> (case seal_directory E L pack salt nonce (fs out \<noteq> None) (tree path) passphrase of
             Inl e \<Rightarrow> (1, fs)
           | Inr data \<Rightarrow> (0, fs(out \<mapsto> data))))"

definition open_command ::
  "go_env \<Rightarrow> bundle_lib \<Rightarrow> (string \<Rightarrow> tar_entry option list option) \<Rightarrow> environment \<Rightarrow> (string \<Rightarrow> destination) \<Rightarrow>
   string \<Rightarrow> string \<Rightarrow> string \<Rightarrow> files \<Rightarrow> nat \<times> (string \<times> string) list" where
  "open_command E L unpack env state flag name path fs =
     (let out = open_output flag path
      in case bundle_passphrase env name of
           Inl e \<Rightarrow> (1, [])
         | Inr passphrase \<Rightarrow> (case open_to_directory E L unpack (state out) out (fs path) passphrase of
             (err, written) \<Rightarrow> (if err = None then 0 else 1, written)))"

text \<open>\<open>generate\<close>: without \<open>force\<close> the output is opened exclusively. \<open>encode\<close> gives the YAML text, \<open>creatable\<close> tells whether the
  output can be opened and written.\<close>

definition generate_command ::
  "(pfile list \<Rightarrow> pfile \<Rightarrow> bool) \<Rightarrow> (string \<Rightarrow> pfile list option) \<Rightarrow> (string list \<Rightarrow> string list \<Rightarrow> pfile list option) \<Rightarrow>
   (string \<Rightarrow> api_document option) \<Rightarrow> (generated_config \<Rightarrow> string option) \<Rightarrow> (string \<Rightarrow> bool) \<Rightarrow> string \<Rightarrow> string \<Rightarrow> string list \<Rightarrow>
   string list \<Rightarrow> string list \<Rightarrow> string \<Rightarrow> bool \<Rightarrow> files \<Rightarrow> nat \<times> files" where
  "generate_command clash read_set compiler parse encode creatable wd openapi protos sets imports_of out force fs =
     (case generate_mode_of wd openapi protos sets imports_of of
        None \<Rightarrow> (2, fs)
      | Some mode \<Rightarrow>
          (case (case mode of FromDocument d \<Rightarrow> from_openapi (fs d) parse
                 | FromSchemas c \<Rightarrow> from_protobuf clash read_set (compile_proto_files wd compiler) c) of
             Inl e \<Rightarrow> (1, fs)
           | Inr cfg \<Rightarrow> (case encode cfg of
               None \<Rightarrow> (1, fs)
             | Some data \<Rightarrow> if \<not> force \<and> fs out \<noteq> None \<or> \<not> creatable out then (1, fs) else (0, fs(out \<mapsto> data)))))"

definition testgen_command ::
  "go_env \<Rightarrow> (string \<Rightarrow> string option) \<Rightarrow> (string \<Rightarrow> bool) \<Rightarrow> string \<Rightarrow> harness_options \<Rightarrow> files \<Rightarrow> nat \<times> string list \<times> files" where
  "testgen_command E format writable wd opts fs =
     (if hqIncident opts = [] then (2, [], fs)
      else (case generate_harness E format writable wd opts fs of (err, written, fs') \<Rightarrow>
        (if err = None then 0 else 1, if err = None then written else [], fs')))"

text \<open>\<open>heal\<close>: the incident comes before the samples; the other options are those of the flags.\<close>

definition heal_command ::
  "go_env \<Rightarrow> (real \<Rightarrow> real) \<Rightarrow> (string \<Rightarrow> bool) \<Rightarrow> (heal_result \<Rightarrow> string \<times> string) \<Rightarrow> (replay_yaml \<Rightarrow> string option) \<Rightarrow>
   (string \<Rightarrow> replay_yaml option) \<Rightarrow> (string \<Rightarrow> event list option) \<Rightarrow> string \<Rightarrow> string list \<Rightarrow> heal_options \<Rightarrow> files \<Rightarrow>
   nat \<times> heal_result \<times> files" where
  "heal_command E rnd writable report_text encode decode decode_log dir samples opts fs =
     (if dir = [] then (2, no_result, fs)
      else (case run_heal E rnd writable report_text encode decode decode_log (opts\<lparr>hoDirs := dir # samples\<rparr>) fs of
        (err, r, fs') \<Rightarrow> (if err = None then 0 else 1, r, fs')))"

section \<open>Commands on a broker\<close>

text \<open>\<open>kafka capture\<close>; \<open>auth\<close> is what \<open>kafka_auth_value\<close> gives, \<open>policy\<close> what the privacy policy file gives.\<close>

definition kafka_capture_command ::
  "go_env \<Rightarrow> (string \<Rightarrow> string option) \<Rightarrow> (string \<Rightarrow> bool) \<Rightarrow> (string \<Rightarrow> string \<Rightarrow> 'c option) \<Rightarrow> ('c client_option list \<Rightarrow> bool) \<Rightarrow>
   string \<Rightarrow> string \<Rightarrow> (auth_error, kafka_auth) result \<Rightarrow> policy option option \<Rightarrow> capture_options \<Rightarrow> message option list \<Rightarrow> poll list \<Rightarrow>
   nat \<times> capture_state option" where
  "kafka_capture_command E read has_certs load_pair connects brokers topics auth pol opts decoded polls =
     (if trim_space topics = [] then (2, None)
      else (case auth of
          Inl e \<Rightarrow> (2, None)
        | Inr a \<Rightarrow> (case pol of
            None \<Rightarrow> (2, None)
          | Some p \<Rightarrow>
              (case kafka_capture E read has_certs load_pair connects
                  (opts\<lparr>coBrokers := split_non_empty brokers, coTopics := split_non_empty topics, coPrivacy := p\<rparr>) a decoded polls of
                 Inl e \<Rightarrow> (1, None)
               | Inr (s, ended) \<Rightarrow> (if ended = Some Completed then 0 else 1, Some s)))))"

text \<open>\<open>kafka replay\<close>: the exit code, the outcome when the replay was tried, and the world after.\<close>

definition kafka_replay_command ::
  "go_env \<Rightarrow> (detail \<Rightarrow> string) \<Rightarrow> (string \<Rightarrow> string option) \<Rightarrow> (string \<Rightarrow> bool) \<Rightarrow> (string \<Rightarrow> string \<Rightarrow> 'c option) \<Rightarrow>
   (string \<Rightarrow> async_document option) \<Rightarrow> (f64 \<Rightarrow> int \<Rightarrow> int) \<Rightarrow> ('c, 'w) broker \<Rightarrow> (string \<Rightarrow> bool) \<Rightarrow> (string \<Rightarrow> bool) \<Rightarrow>
   (string \<Rightarrow> message option list) \<Rightarrow> string \<Rightarrow> int \<Rightarrow> bool \<Rightarrow> string \<Rightarrow> int \<Rightarrow> string \<Rightarrow> (auth_error, kafka_auth) result \<Rightarrow> string \<Rightarrow>
   replay_options \<Rightarrow> 'w \<Rightarrow> nat \<times> replay_outcome option \<times> 'w" where
  "kafka_replay_command E T read has_certs load_pair parse scaled B is_dir is_file decoded version now proof_written formats timeout
     input auth brokers opts w =
     (case validated_formats formats of
        Inl f \<Rightarrow> (2, None, w)
      | Inr fmts \<Rightarrow>
          if timeout \<le> 0 then (2, None, w)
          else (case resolve_message_log is_dir is_file input of
              Inl e \<Rightarrow> (2, None, w)
            | Inr path \<Rightarrow> (case auth of
                Inl e \<Rightarrow> (2, None, w)
              | Inr a \<Rightarrow>
                  (case kafka_replay E T read has_certs load_pair parse scaled B (decoded path)
                      (opts\<lparr>kpBrokers := split_non_empty brokers, kpInput := path, kpAuth := a\<rparr>) w of
                     ((out, err), w') \<Rightarrow>
                       (let report = \<lparr>rrTool = ''InfernoSIM Kafka'', rrOutcome = (if err = None then ''PASS'' else ''FAIL_KAFKA_REPLAY''),
                              rrSummary = [], rrGenerated = now, rrFindings = roFindings out\<rparr>
                        in (if snd (write_formats version now fmts report) \<and> proof_written \<and> err = None then 0 else 1, Some out, w'))))))"

section \<open>The older replayer\<close>

text \<open>\<open>strict-replay\<close> and \<open>search\<close>: None when the process is ended by an error. \<open>search\<close> has no flag for writes.\<close>

definition strict_replay_command ::
  "go_env \<Rightarrow> 'w client \<Rightarrow> (string \<Rightarrow> bool) \<Rightarrow> (string \<Rightarrow> event option) \<Rightarrow> files \<Rightarrow> string \<Rightarrow> string \<Rightarrow> bool \<Rightarrow> 'w \<Rightarrow> unit option \<times> 'w" where
  "strict_replay_command E C dial dec fs logname target writes w =
     (if target = [] then (None, w)
      else (case new_replayer dec True writes (fs logname) of
          Inl e \<Rightarrow> (None, w)
        | Inr r \<Rightarrow> (case preflight E dial target r of
            Inl e \<Rightarrow> (None, w)
          | Inr r \<Rightarrow> (case replay E C r w of (res, w') \<Rightarrow> (case res of Inl e \<Rightarrow> None | Inr _ \<Rightarrow> Some (), w')))))"

definition search_command ::
  "go_env \<Rightarrow> (string \<Rightarrow> bool) \<Rightarrow> (string \<Rightarrow> event option) \<Rightarrow> files \<Rightarrow> (replayer \<Rightarrow> nat \<Rightarrow> bool) \<Rightarrow> string \<Rightarrow> string \<Rightarrow> search_verdict option" where
  "search_command E dial dec fs holds logname target =
     (if target = [] then None
      else (case new_replayer dec False False (fs logname) of
          Inl e \<Rightarrow> None
        | Inr r \<Rightarrow> (case preflight E dial target r of Inl e \<Rightarrow> None | Inr r \<Rightarrow> Some (search_from (holds r) 1))))"


section \<open>What the commands change\<close>

text \<open>A generated configuration replaces no file unless it is told to, and a command that fails changes none.\<close>

theorem generate_replaces_nothing:
  "case generate_command clash read_set compiler parse encode creatable wd openapi protos sets imports_of out force fs of (code, fs') \<Rightarrow>
     if code = 0 then (force \<or> fs out = None) \<and> (\<exists>data. fs' = fs(out \<mapsto> data)) else fs' = fs"
  by (auto simp: generate_command_def split: option.split generate_mode.split sum.split)

lemma seal_replaces_nothing:
  "case seal_command E L pack env salt nonce tree flag name path fs of (code, fs') \<Rightarrow>
     if code = 0 then fs (seal_output flag path) = None \<and> (\<exists>data. fs' = fs(seal_output flag path \<mapsto> data)) else fs' = fs"
proof -
  have "fs (seal_output flag path) = None"
    if "seal_directory E L pack salt nonce (fs (seal_output flag path) \<noteq> None) (tree path) passphrase = Inr data" for passphrase data
    using that by (auto simp: seal_directory_def split: source.split_asm option.split_asm)
  then show ?thesis by (auto simp: seal_command_def Let_def split: sum.split)
qed

text \<open>A harness that is generated without an error is the only thing that changes, and healing that fails for another reason than
  a write leaves the active configuration: both commands pass on what \<open>generate_harness\<close> and \<open>run_heal\<close> give.\<close>

lemma testgen_exit:
  "fst (testgen_command E format writable wd opts fs) = 0 \<longleftrightarrow>
     hqIncident opts \<noteq> [] \<and> fst (generate_harness E format writable wd opts fs) = None"
  by (auto simp: testgen_command_def split: prod.split)

lemma heal_exit:
  "fst (heal_command E rnd writable report_text encode decode decode_log dir samples opts fs) = 0 \<longleftrightarrow>
     dir \<noteq> [] \<and> fst (run_heal E rnd writable report_text encode decode decode_log (opts\<lparr>hoDirs := dir # samples\<rparr>) fs) = None"
  by (auto simp: heal_command_def split: prod.split)

text \<open>The exit code of \<open>kafka replay\<close> can be relied on: with 0 the broker has been sent every planned record of the log in its
  order, and the log has met the contract; with 2 nothing has been sent.\<close>

theorem kafka_replay_exit_exact:
  assumes "kafka_replay_command E T read has_certs load_pair parse scaled (recording B) is_dir is_file decoded version now proof_written
      formats timeout input auth brokers opts (w, []) = (code, out, (w', sent))"
  shows "if code = 2 then sent = [] \<and> out = None
     else case resolve_message_log is_dir is_file input of
         Inl e \<Rightarrow> False
       | Inr path \<Rightarrow> code \<noteq> 0 \<or> contract_met E T read parse (decoded path) opts \<and>
           (case replay_messages E (decoded path) (kpPrefix opts) (kpFaults opts) of Inl e \<Rightarrow> False | Inr r \<Rightarrow> sent = rrProduced r)"
proof (cases "is_ok (validated_formats formats) \<and> 0 < timeout \<and> is_ok (resolve_message_log is_dir is_file input) \<and> is_ok auth")
  case False
  with assms show ?thesis
    by (auto simp: kafka_replay_command_def is_ok_def split: sum.split_asm if_split_asm)
next
  case True
  then obtain fmts path a where ok: "validated_formats formats = Inr fmts" "0 < timeout"
      "resolve_message_log is_dir is_file input = Inr path" "auth = Inr a"
    by (auto simp: is_ok_def split: sum.split_asm)
  let ?opts = "opts\<lparr>kpBrokers := split_non_empty brokers, kpInput := path, kpAuth := a\<rparr>"
  obtain o1 err w1 s1 where run: "kafka_replay E T read has_certs load_pair parse scaled (recording B) (decoded path) ?opts (w, []) = ((o1, err), (w1, s1))"
    by (metis surj_pair)
  have code: "code = (if proof_written \<and> err = None then 0 else 1)" and sent: "sent = s1"
    using assms ok run validated_formats_written [OF ok(1)] by (auto simp: kafka_replay_command_def Let_def)
  have met: "contract_met E T read parse (decoded path) ?opts = contract_met E T read parse (decoded path) opts"
    by (simp add: contract_met_def)
  show ?thesis
  proof (cases "code = 0")
    case True
    with code have "err = None" by (simp split: if_split_asm)
    with kafka_replay_sent [OF run] have "contract_met E T read parse (decoded path) ?opts \<and>
       (case replay_messages E (decoded path) (kpPrefix opts) (kpFaults opts) of
          Inl e \<Rightarrow> False | Inr r \<Rightarrow> s1 = take (length s1) (rrProduced r) \<and> length (rrProduced r) \<le> length s1)"
      by (auto split: sum.split_asm)
    then show ?thesis using ok(3) code sent True unfolding met by (auto split: sum.split_asm)
  next
    case False
    with code ok(3) show ?thesis by (simp split: if_split_asm)
  qed
qed

theorem kafka_replay_exit_exact_witness:
  "\<exists>out w' sent.
     kafka_replay_command example_env (\<lambda>_. []) (\<lambda>_. None) (\<lambda>_. False) (\<lambda>_ _. None) (\<lambda>_. None) (\<lambda>_ gap. gap) (recording failing_broker)
       (\<lambda>_. False) (\<lambda>p. p = ''may.log'') (\<lambda>_. two_records) ''v'' 1 True ''junit'' 60000000000 ''may.log'' (Inr (kpAuth plain_options)) ''b:9092''
       plain_options (5, []) = (0, out, (w', sent)) \<and>
     (case replay_messages example_env two_records ''x.'' no_faults of Inl e \<Rightarrow> False | Inr r \<Rightarrow> sent = rrProduced r) \<and> length sent = 2"
proof -
  let ?run = "kafka_replay_command example_env (\<lambda>_. []) (\<lambda>_. None) (\<lambda>_. False) (\<lambda>_ _. None) (\<lambda>_. None) (\<lambda>_ gap. gap)
       (recording failing_broker) (\<lambda>_. False) (\<lambda>p. p = ''may.log'') (\<lambda>_. two_records) ''v'' 1 True ''junit'' 60000000000 ''may.log''
       (Inr (kpAuth plain_options)) ''b:9092'' plain_options (5, [])"
  obtain code out w' sent where run: "?run = (code, out, (w', sent))" by (metis surj_pair)
  have "fst ?run = 0 \<and> length (snd (snd (snd ?run))) = 2" by code_simp
  then have zero: "code = 0" "length sent = 2" using run by simp_all
  have path: "resolve_message_log (\<lambda>_. False) (\<lambda>p. p = ''may.log'') ''may.log'' = Inr ''may.log''" by code_simp
  have opts: "kpPrefix plain_options = ''x.''" "kpFaults plain_options = no_faults" by (simp_all add: plain_options_def)
  from kafka_replay_exit_exact [OF run] have
    "case replay_messages example_env two_records ''x.'' no_faults of Inl e \<Rightarrow> False | Inr r \<Rightarrow> sent = rrProduced r"
    unfolding path opts by (simp add: zero)
  with run zero show ?thesis by blast
qed

text \<open>A variable for the password that is set but empty passes the check of the flags and is refused by the client.\<close>

lemma empty_password_refused_late:
  assumes "env ''PW'' = Some []" and "list_all (\<lambda>b. trim_space b \<noteq> []) brokers"
  shows "case kafka_auth_value env tls ca cert key ''plain'' ''user'' ''PW'' of
     Inl e \<Rightarrow> False | Inr a \<Rightarrow> client_options read has_certs load_pair brokers a = Inl CredentialsRequired"
proof -
  have "to_lower ''plain'' = ''plain''" by code_simp
  moreover have "\<not> list_ex (\<lambda>b. trim_space b = []) brokers" using assms(2) by (simp add: list_ex_iff list_all_iff)
  ultimately show ?thesis using assms(1) by (simp add: kafka_auth_value_def client_options_def dflt_def)
qed

text \<open>\<open>search\<close> cannot succeed on a log with a captured write: its replayer never allows one, so the first fanout is reported as
  breached whatever the target answers.\<close>

theorem search_fails_on_writes:
  assumes "target \<noteq> []" and "new_replayer dec False False (fs logname) = Inr r0" and "preflight E dial target r0 = Inr r"
    and "e \<in> set (rrEvents r)" and "is_sent e" and "is_write (evMethod e)"
  shows "search_command E dial dec fs (\<lambda>r n. is_ok (fst (replay E (steady reply) r ()))) logname target = Some (BreachedAt 1)"
proof -
  have "\<not> rrAllowWrites r0" using assms(2) by (auto simp: new_replayer_def split: option.split_asm)
  then have writes: "\<not> rrAllowWrites r" using assms(3) by (auto simp: preflight_def split: option.split_asm if_split_asm)
  have "sorted (map evTimestamp (rrEvents r))"
    using new_replayer_sorted [OF assms(2)] preflight_events [OF assms(3)] by simp
  then have run: "fst (replay E (steady reply) r ()) = first_failure (event_check E reply r) 0 (rrEvents r)"
    by (simp add: replay_def replay_from_steady)
  have "event_check E reply r e = Inl WriteBlocked"
    using writes assms(5,6) by (simp add: event_check_def outbound_request_def)
  moreover have "e \<in> snd ` set (enumerate 0 (rrEvents r))"
    using assms(4) by (simp only: set_map [symmetric] map_snd_enumerate)
  then obtain i where "(i, e) \<in> set (enumerate 0 (rrEvents r))" by force
  ultimately have "\<exists>x\<in>set (enumerate 0 (rrEvents r)). case x of (j, e) \<Rightarrow> \<not> is_ok (event_check E reply r e)"
    by (intro bexI [of _ "(i, e)"]) simp_all
  then have "List.find (\<lambda>(j, e). \<not> is_ok (event_check E reply r e)) (enumerate 0 (rrEvents r)) \<noteq> None"
    unfolding find_None_iff by blast
  then have "\<not> is_ok (fst (replay E (steady reply) r ()))" unfolding run by (auto simp: first_failure_def is_ok_def)
  then show ?thesis using assms(1-3) by (simp add: search_command_def search_from.simps)
qed

end
