(* ===== verification/ServerLife.thy ===== *)
theory ServerLife
  imports SimServer
begin

text \<open>
  The life of a simulator (\<open>pkg/simserver/server.go\<close>): its two listeners, the goroutine that serves each, the channel of their
  errors and \<open>Close\<close>, as a step relation that interleaves them; and \<open>infernosim serve\<close> around it. \<open>http.Server\<close> is modelled as
  far as it is used: \<open>Shutdown\<close> closes the listeners that are being served, and a \<open>Serve\<close> that begins after it closes its own.
\<close>

section \<open>Starting\<close>

datatype side = StubSide | AdminSide

datatype start_error = StubAddressTaken | AdminAddressTaken

text \<open>\<open>Start\<close>: \<open>listen\<close> opens an address beside the listeners that are open. The result is what is open after it (the
  first listener is closed again when the second cannot be opened), and the addresses that \<open>StubAddress\<close> and \<open>AdminAddress\<close> give.\<close>

definition start_server ::
  "('l list \<Rightarrow> string \<Rightarrow> 'l option) \<Rightarrow> server_options \<Rightarrow> (start_error, side \<Rightarrow> 'l) result \<times> 'l list" where
  "start_server listen opts =
     (case listen [] (soListen opts) of
        None \<Rightarrow> (Inl StubAddressTaken, [])
      | Some l \<Rightarrow> (case listen [l] (soAdminListen opts) of
          None \<Rightarrow> (Inl AdminAddressTaken, [])
        | Some a \<Rightarrow> (Inr (case_side l a), [l, a])))"

definition address_of :: "('l \<Rightarrow> string) \<Rightarrow> (side \<Rightarrow> 'l) option \<Rightarrow> side \<Rightarrow> string" where
  "address_of addr started x = (case started of None \<Rightarrow> [] | Some ls \<Rightarrow> addr (ls x))"

section \<open>Running and closing\<close>

datatype phase = Launched | Serving | Ended

record 'e life =
  lfPhase :: "side \<Rightarrow> phase"
  lfBound :: "side \<Rightarrow> bool"
  lfShut :: bool
  lfErrors :: "'e list"
  lfClosed :: "'e list option"

definition started_life :: "'e life" where
  "started_life = \<lparr>lfPhase = (\<lambda>_. Launched), lfBound = (\<lambda>_. True), lfShut = False, lfErrors = [], lfClosed = None\<rparr>"

text \<open>The goroutine of a side: it enters \<open>Serve\<close>, or finds the server shut down.\<close>

definition enter_serve :: "side \<Rightarrow> 'e life \<Rightarrow> 'e life" where
  "enter_serve x s =
     (if lfShut s then s\<lparr>lfPhase := (lfPhase s)(x := Ended), lfBound := (lfBound s)(x := False)\<rparr>
      else s\<lparr>lfPhase := (lfPhase s)(x := Serving)\<rparr>)"

text \<open>\<open>serve\<close> after \<open>Serve\<close> has failed, and after it has returned because of the shutdown.\<close>

definition serve_failed :: "side \<Rightarrow> 'e \<Rightarrow> 'e life \<Rightarrow> 'e life" where
  "serve_failed x e s =
     s\<lparr>lfPhase := (lfPhase s)(x := Ended), lfBound := (lfBound s)(x := False), lfErrors := lfErrors s @ [e]\<rparr>"

definition serve_returned :: "side \<Rightarrow> 'e life \<Rightarrow> 'e life" where
  "serve_returned x s = s\<lparr>lfPhase := (lfPhase s)(x := Ended)\<rparr>"

text \<open>\<open>Close\<close>: \<open>errs\<close> are the errors of the two shutdowns and of the stub proxy; the result of the first call is kept.\<close>

definition close_server :: "'e list \<Rightarrow> 'e life \<Rightarrow> 'e list \<times> 'e life" where
  "close_server errs s =
     (case lfClosed s of
        Some kept \<Rightarrow> (kept, s)
      | None \<Rightarrow> (errs, s\<lparr>lfShut := True, lfBound := (\<lambda>x. lfBound s x \<and> lfPhase s x \<noteq> Serving), lfClosed := Some errs\<rparr>))"

definition take_error :: "'e life \<Rightarrow> ('e \<times> 'e life) option" where
  "take_error s = (case lfErrors s of [] \<Rightarrow> None | e # es \<Rightarrow> Some (e, s\<lparr>lfErrors := es\<rparr>))"

definition error_capacity :: nat where "error_capacity = 2"

inductive life_step :: "'e life \<Rightarrow> 'e life \<Rightarrow> bool" where
  enters: "lfPhase s x = Launched \<Longrightarrow> life_step s (enter_serve x s)"
| fails: "lfPhase s x = Serving \<Longrightarrow> \<not> lfShut s \<Longrightarrow> length (lfErrors s) < error_capacity \<Longrightarrow> life_step s (serve_failed x e s)"
| returns: "lfPhase s x = Serving \<Longrightarrow> lfShut s \<Longrightarrow> life_step s (serve_returned x s)"
| closes: "life_step s (snd (close_server errs s))"
| taken: "take_error s = Some (e, t) \<Longrightarrow> life_step s t"

inductive_cases life_stepE: "life_step s t"

lemmas life_defs = enter_serve_def serve_failed_def serve_returned_def close_server_def take_error_def

section \<open>What holds in every state\<close>

definition unended :: "'e life \<Rightarrow> nat" where
  "unended s = (if lfPhase s StubSide = Ended then 0 else 1) + (if lfPhase s AdminSide = Ended then 0 else 1)"

text \<open>There is room in the channel for every side that can still fail; a listener is bound while it is served, or until its
  goroutine has begun; after \<open>Close\<close> none is bound that is served.\<close>

definition life_ok :: "'e life \<Rightarrow> bool" where
  "life_ok s \<longleftrightarrow> length (lfErrors s) + unended s \<le> error_capacity \<and>
     (lfShut s \<longleftrightarrow> lfClosed s \<noteq> None) \<and>
     (\<forall>x. lfPhase s x = Launched \<longrightarrow> lfBound s x) \<and>
     (\<forall>x. lfPhase s x = Ended \<longrightarrow> \<not> lfBound s x) \<and>
     (\<forall>x. lfPhase s x = Serving \<longrightarrow> (lfBound s x \<longleftrightarrow> \<not> lfShut s))"

lemma started_ok: "life_ok started_life"
  by (simp add: life_ok_def started_life_def unended_def error_capacity_def)

lemma unended_update: "lfPhase s x \<noteq> Ended \<Longrightarrow> p \<noteq> Ended \<Longrightarrow> unended (s\<lparr>lfPhase := (lfPhase s)(x := p)\<rparr>) = unended s"
  "lfPhase s x \<noteq> Ended \<Longrightarrow> Suc (unended (s\<lparr>lfPhase := (lfPhase s)(x := Ended)\<rparr>)) = unended s"
  by (cases x; simp add: unended_def)+

lemma unended_cong: "lfPhase s = lfPhase t \<Longrightarrow> unended s = unended t"
  by (simp add: unended_def)

lemma life_step_ok: "life_step s t \<Longrightarrow> life_ok s \<Longrightarrow> life_ok t"
proof (induction rule: life_step.induct)
  case (enters s x)
  show ?case
  proof (cases "lfShut s")
    case True
    have "Suc (unended (enter_serve x s)) = unended s"
      using unended_update(2) [of s x] enters True unended_cong [of "enter_serve x s"] by (simp add: enter_serve_def unended_def)
    with enters True show ?thesis by (auto simp: life_ok_def enter_serve_def)
  next
    case False
    have "unended (enter_serve x s) = unended s"
      using unended_update(1) [of s x Serving] enters False by (simp add: enter_serve_def)
    with enters False show ?thesis by (auto simp: life_ok_def enter_serve_def)
  qed
next
  case (fails s x e)
  have "Suc (unended (serve_failed x e s)) = unended s"
    using unended_update(2) [of s x] fails unended_cong [of "serve_failed x e s"] by (simp add: serve_failed_def unended_def)
  with fails show ?case by (auto simp: life_ok_def serve_failed_def)
next
  case (returns s x)
  have "Suc (unended (serve_returned x s)) = unended s"
    using unended_update(2) [of s x] returns by (simp add: serve_returned_def)
  with returns show ?case by (auto simp: life_ok_def serve_returned_def)
next
  case (closes s errs)
  then show ?case by (auto simp: life_ok_def close_server_def unended_def split: option.split)
next
  case (taken s e t)
  then show ?case by (auto simp: life_ok_def take_error_def unended_def split: list.split_asm)
qed

lemma life_reachable: "rtranclp life_step started_life s \<Longrightarrow> life_ok s"
  by (induction rule: rtranclp_induct) (simp_all add: started_ok life_step_ok)


section \<open>Closing and ending\<close>

text \<open>What the goroutine of a side still does once the server is shut down.\<close>

definition wind_down :: "side \<Rightarrow> 'e life \<Rightarrow> 'e life" where
  "wind_down x s =
     (case lfPhase s x of Launched \<Rightarrow> enter_serve x s | Serving \<Rightarrow> serve_returned x s | Ended \<Rightarrow> s)"

lemma wind_down_steps:
  assumes "lfShut s"
  shows "rtranclp life_step s (wind_down x s) \<and> lfShut (wind_down x s) \<and> lfPhase (wind_down x s) x = Ended \<and>
    (y \<noteq> x \<longrightarrow> lfPhase (wind_down x s) y = lfPhase s y) \<and> lfClosed (wind_down x s) = lfClosed s"
proof (cases "lfPhase s x")
  case Launched
  with assms life_step.enters [OF Launched] show ?thesis by (auto simp: wind_down_def enter_serve_def)
next
  case Serving
  with assms life_step.returns [OF Serving assms] show ?thesis by (auto simp: wind_down_def serve_returned_def)
next
  case Ended
  with assms show ?thesis by (simp add: wind_down_def)
qed



section \<open>The command\<close>

datatype 'e wait_end = Signalled | ListenerFailed 'e

text \<open>\<open>infernosim serve\<close> after its flags: the exit code; \<open>ended\<close> is what \<open>select\<close> takes, \<open>errs\<close> what \<open>Close\<close> gives.\<close>

definition serve_command ::
  "go_env \<Rightarrow> disk \<Rightarrow> (string \<Rightarrow> replay_yaml option) \<Rightarrow> (string \<Rightarrow> event list option) \<Rightarrow> bool \<Rightarrow> int \<Rightarrow> ('l list \<Rightarrow> string \<Rightarrow> 'l option) \<Rightarrow>
   'e wait_end \<Rightarrow> 'e list \<Rightarrow> server_options \<Rightarrow> nat" where
  "serve_command E d decode logged authority now listen ended errs opts =
     (if soIncident opts = [] then 2
      else (case new_server E d decode logged authority now opts of
          Inl e \<Rightarrow> 1
        | Inr sv \<Rightarrow> (case start_server listen (svOptions sv) of
            (Inl e, opened) \<Rightarrow> 1
          | (Inr ls, opened) \<Rightarrow> (case ended of ListenerFailed e \<Rightarrow> 1 | Signalled \<Rightarrow> if errs = [] then 0 else 1))))"

end
