(* ===== verification/CommandLine.thy ===== *)
theory CommandLine
  imports Flags CommandEffects ServerLife Capture
begin

text \<open>
  \<open>cmd/agent\<close> (\<open>main.go\<close>) from its arguments on: the flags of every command with their defaults, what each command makes of
  them, and its exit code. A command line either is refused or gives the values on which the models of \<open>Agent\<close>,
  \<open>Commands\<close>, \<open>CommandEffects\<close> and \<open>ServerLife\<close> run. \<open>pf\<close> is \<open>strconv.ParseFloat\<close>.
\<close>

section \<open>The incident of a command\<close>

text \<open>An incident may stand before the flags or after them.\<close>

definition split_incident :: "string list \<Rightarrow> string \<times> string list" where
  "split_incident args =
     (case args of [] \<Rightarrow> ([], []) | a # rest \<Rightarrow> if has_prefix a ''-'' then ([], args) else (a, rest))"

definition parse_incident ::
  "go_env \<Rightarrow> (string \<Rightarrow> f64 option) \<Rightarrow> flag_set \<Rightarrow> string list \<Rightarrow> (flag_error, flag_set \<times> string) result" where
  "parse_incident E pf flags args =
     (case split_incident args of (dir, rest) \<Rightarrow>
        and_then (parse_args E pf flags rest) (\<lambda>(f, left).
          Inr (f, if dir = [] then dflt [] (first_of left) else dir)))"

section \<open>\<open>replay\<close>\<close>

definition replay_flag_set :: flag_set where
  "replay_flag_set =
     [(''incident'', FString ''.''), (''time-scale'', FFloat (Fin 1)), (''density'', FFloat (Fin 1)), (''min-gap'', FDuration 2000000),
      (''runs'', FInt 10), (''max-wall-time'', FDuration 30000000000), (''max-idle-time'', FDuration 5000000000),
      (''max-events'', FInt 0), (''fanout'', FInt 1), (''window'', FDuration 0), (''target-base'', FString default_target),
      (''stub-listen'', FString '':19000''), (''stub-compat-listen'', FString '':9000''), (''https-stub'', FBool False),
      (''stub-ca-dir'', FString []), (''stub-mitm-allow-hosts'', FString []), (''diff'', FBool False), (''safe-mode'', FBool True),
      (''allow-writes'', FBool False), (''config'', FString []), (''openapi'', FString []), (''report-formats'', FString []),
      (''report-dir'', FString []), (''inject'', FMulti [])]"

record replay_line =
  rlDir :: string
  rlFlags :: replay_flags
  rlConfig :: string
  rlDensity :: f64
  rlMinGap :: int
  rlMaxWall :: int
  rlMaxIdle :: int
  rlMaxEvents :: int
  rlFanout :: int
  rlWindow :: int
  rlStubListen :: string
  rlStubCompat :: string
  rlDiff :: bool
  rlOpenAPI :: string
  rlInject :: "string list"
  rlFormats :: "string list"
  rlReportDir :: string

datatype replay_refusal = FlagsRefused flag_error | FormatRefused string

text \<open>\<open>runReplay\<close> up to the configuration.\<close>

definition replay_values :: "flag_set \<Rightarrow> string \<Rightarrow> replay_line" where
  "replay_values f dir =
     \<lparr>rlDir = dir,
      rlFlags = \<lparr>fgTarget = string_of f ''target-base'', fgRuns = int_of f ''runs'', fgTimeScale = float_of f ''time-scale'',
        fgSafeMode = bool_of f ''safe-mode'', fgAllowWrites = bool_of f ''allow-writes'', fgHttps = bool_of f ''https-stub'',
        fgCADir = string_of f ''stub-ca-dir'', fgAllowHosts = split_non_empty (string_of f ''stub-mitm-allow-hosts'')\<rparr>,
      rlConfig = string_of f ''config'', rlDensity = float_of f ''density'', rlMinGap = int_of f ''min-gap'',
      rlMaxWall = int_of f ''max-wall-time'', rlMaxIdle = int_of f ''max-idle-time'', rlMaxEvents = int_of f ''max-events'',
      rlFanout = int_of f ''fanout'', rlWindow = int_of f ''window'', rlStubListen = string_of f ''stub-listen'',
      rlStubCompat = string_of f ''stub-compat-listen'', rlDiff = bool_of f ''diff'', rlOpenAPI = string_of f ''openapi'',
      rlInject = multi_of f ''inject'', rlFormats = split_non_empty (string_of f ''report-formats''),
      rlReportDir = (if string_of f ''report-dir'' = [] \<and> split_non_empty (string_of f ''report-formats'') \<noteq> []
        then path_join [dir, ''reports''] else string_of f ''report-dir'')\<rparr>"

definition replay_line ::
  "go_env \<Rightarrow> (string \<Rightarrow> f64 option) \<Rightarrow> string list \<Rightarrow> (replay_refusal, replay_line) result" where
  "replay_line E pf args =
     (case split_incident args of (dir, rest) \<Rightarrow>
        (case parse_args E pf replay_flag_set rest of
           Inl e \<Rightarrow> Inl (FlagsRefused e)
         | Inr (f, left) \<Rightarrow>
             (let line = replay_values f (if dir \<noteq> [] then dir else dflt (string_of f ''incident'') (first_of left))
              in case validated_formats (string_of f ''report-formats'') of
                   Inl format \<Rightarrow> Inl (FormatRefused format)
                 | Inr fmts \<Rightarrow> Inr line)))"

definition replay_input :: "replay_line \<Rightarrow> settings \<Rightarrow> agent_input" where
  "replay_input L s =
     \<lparr>aiRuns = seRuns s, aiFanout = rlFanout L, aiWindow = rlWindow L, aiDiff = rlDiff L, aiMaxEvents = rlMaxEvents L,
      aiMaxWall = rlMaxWall L, aiInject = rlInject L, aiMatching = seMatching s, aiScenarios = seScenarios s,
      aiTemplates = seTemplates s, aiHttps = seHttps s, aiAllowHosts = seAllowHosts s\<rparr>"

text \<open>\<open>runReplay\<close>: the summary it ends with; \<open>V\<close> is what the rest of the world does for the values and settings.\<close>

definition refused_summary :: "string \<Rightarrow> replay_summary" where
  "refused_summary reason = finalize (new_summary\<lparr>smReason := reason, smOutcome := ''FAIL_INVALID_ENV''\<rparr>)"

definition replay_command ::
  "go_env \<Rightarrow> (string \<Rightarrow> f64 option) \<Rightarrow> files \<Rightarrow> (string \<Rightarrow> replay_yaml option) \<Rightarrow> (replay_refusal \<Rightarrow> string) \<Rightarrow> (config_error \<Rightarrow> string) \<Rightarrow>
   (replay_line \<Rightarrow> settings \<Rightarrow> agent_env) \<Rightarrow> string list \<Rightarrow> replay_summary" where
  "replay_command E pf fs decode refusal_text config_text V args =
     (case replay_line E pf args of
        Inl e \<Rightarrow> refused_summary (refusal_text e)
      | Inr L \<Rightarrow> (case replay_settings E fs decode (rlConfig L) (rlDir L) (rlFlags L) of
          Inl e \<Rightarrow> refused_summary (config_text e)
        | Inr s \<Rightarrow> run_replay (replay_input L s) (V L s)))"

section \<open>Commands that compare and check\<close>

definition diff_flag_set :: flag_set where
  "diff_flag_set =
     [(''target'', FString ''http://localhost:8080''), (''max-wall-time'', FDuration 60000000000), (''allow-writes'', FBool False)]"

text \<open>The incident, the target, the limit and whether writes are sent; None is the usage message.\<close>

definition diff_line :: "go_env \<Rightarrow> (string \<Rightarrow> f64 option) \<Rightarrow> string list \<Rightarrow> (string \<times> string \<times> int \<times> bool) option" where
  "diff_line E pf args =
     (case split_incident args of (dir, rest) \<Rightarrow>
        (case parse_args E pf diff_flag_set rest of
           Inl e \<Rightarrow> None
         | Inr (f, left) \<Rightarrow>
             if dir = [] \<and> left = [] then None
             else Some (if dir = [] then hd left else dir, string_of f ''target'', int_of f ''max-wall-time'', bool_of f ''allow-writes'')))"

text \<open>\<open>inspect\<close> and \<open>verify\<close> take no flags and one incident, \<open>lint\<close> exactly one file.\<close>

definition only_incident :: "go_env \<Rightarrow> (string \<Rightarrow> f64 option) \<Rightarrow> string list \<Rightarrow> string option" where
  "only_incident E pf args = (case parse_args E pf [] args of Inl e \<Rightarrow> None | Inr (f, left) \<Rightarrow> first_of left)"

definition lint_line :: "go_env \<Rightarrow> (string \<Rightarrow> f64 option) \<Rightarrow> string list \<Rightarrow> (string \<times> bool) option" where
  "lint_line E pf args =
     (case parse_args E pf [(''json'', FBool False)] args of
        Inl e \<Rightarrow> None
      | Inr (f, left) \<Rightarrow> (case left of [p] \<Rightarrow> Some (p, bool_of f ''json'') | _ \<Rightarrow> None))"

definition report_flags :: flag_set where
  "report_flags = [(''report-formats'', FString ''junit,sarif,html''), (''report-dir'', FString [])]"

definition contract_flag_set :: flag_set where "contract_flag_set = (''spec'', FString []) # report_flags"
definition workflow_flag_set :: flag_set where "workflow_flag_set = (''config'', FString []) # report_flags"
definition kafka_validate_flag_set :: flag_set where "kafka_validate_flag_set = (''asyncapi'', FString []) # report_flags"

text \<open>The incident, the document or configuration, the formats and the directory of the reports, in which the incident is the
  directory of last resort.\<close>

definition checking_line ::
  "go_env \<Rightarrow> (string \<Rightarrow> f64 option) \<Rightarrow> flag_set \<Rightarrow> string \<Rightarrow> string list \<Rightarrow> (flag_error, string \<times> string \<times> string \<times> string) result" where
  "checking_line E pf flags name args =
     and_then (parse_incident E pf flags args) (\<lambda>(f, dir).
       Inr (dir, string_of f name, string_of f ''report-formats'', string_of f ''report-dir''))"

text \<open>\<open>workflow verify\<close> and \<open>kafka validate\<close> take the incident before the flags only.\<close>

definition leading_line ::
  "go_env \<Rightarrow> (string \<Rightarrow> f64 option) \<Rightarrow> flag_set \<Rightarrow> string \<Rightarrow> string list \<Rightarrow> (flag_error, string \<times> string \<times> string \<times> string) result" where
  "leading_line E pf flags name args =
     (case split_incident args of (dir, rest) \<Rightarrow>
        and_then (parse_args E pf flags rest) (\<lambda>(f, left).
          Inr (dir, string_of f name, string_of f ''report-formats'', string_of f ''report-dir'')))"

definition explain_flag_set :: flag_set where
  "explain_flag_set = [(''request'', FString []), (''config'', FString []), (''json'', FBool False)]"

definition explain_line :: "go_env \<Rightarrow> (string \<Rightarrow> f64 option) \<Rightarrow> string list \<Rightarrow> (flag_error, string \<times> string \<times> string) result" where
  "explain_line E pf args =
     and_then (parse_incident E pf explain_flag_set args) (\<lambda>(f, dir). Inr (dir, string_of f ''request'', string_of f ''config''))"


section \<open>Commands that write\<close>

definition bundle_flag_set :: flag_set where
  "bundle_flag_set = [(''out'', FString []), (''passphrase-env'', FString ''INFERNOSIM_BUNDLE_PASSPHRASE'')]"

text \<open>The output, the variable with the passphrase and the one argument; None is the usage message.\<close>

definition bundle_line :: "go_env \<Rightarrow> (string \<Rightarrow> f64 option) \<Rightarrow> string list \<Rightarrow> (string \<times> string \<times> string) option" where
  "bundle_line E pf args =
     (case parse_args E pf bundle_flag_set args of
        Inl e \<Rightarrow> None
      | Inr (f, left) \<Rightarrow> (case left of [p] \<Rightarrow> Some (string_of f ''out'', string_of f ''passphrase-env'', p) | _ \<Rightarrow> None))"

definition generate_flag_set :: flag_set where
  "generate_flag_set =
     [(''openapi'', FString []), (''out'', FString ''replay.generated.yaml''), (''force'', FBool False), (''proto'', FMulti []),
      (''descriptor-set'', FMulti []), (''import-path'', FMulti [])]"

definition testgen_flag_set :: flag_set where
  "testgen_flag_set =
     [(''framework'', FString ''go-testcontainers''), (''out'', FString ''./infernosim-integration''), (''image'', FString []),
      (''package'', FString ''integration''), (''force'', FBool False)]"

definition testgen_line :: "go_env \<Rightarrow> (string \<Rightarrow> f64 option) \<Rightarrow> string list \<Rightarrow> (flag_error, harness_options) result" where
  "testgen_line E pf args =
     and_then (parse_incident E pf testgen_flag_set args) (\<lambda>(f, dir).
       Inr \<lparr>hqIncident = dir, hqOutput = string_of f ''out'', hqFramework = string_of f ''framework'',
            hqImage = string_of f ''image'', hqPackage = string_of f ''package'', hqForce = bool_of f ''force''\<rparr>)"

definition heal_flag_set :: flag_set where
  "heal_flag_set =
     [(''config'', FString []), (''out'', FString []), (''report-dir'', FString []), (''min-samples'', FInt 3),
      (''min-confidence'', FFloat (Fin (95 / 100))), (''apply'', FBool False), (''force'', FBool False), (''sample'', FMulti [])]"

text \<open>The incident, the samples and the options of \<open>run_heal\<close> without them.\<close>

definition heal_line ::
  "go_env \<Rightarrow> (string \<Rightarrow> f64 option) \<Rightarrow> string list \<Rightarrow> (flag_error, string \<times> string list \<times> heal_options) result" where
  "heal_line E pf args =
     and_then (parse_incident E pf heal_flag_set args) (\<lambda>(f, dir).
       Inr (dir, multi_of f ''sample'',
         \<lparr>hoDirs = [], hoConfig = string_of f ''config'', hoOutput = string_of f ''out'', hoReports = string_of f ''report-dir'',
          hoSamples = int_of f ''min-samples'', hoScore = float_of f ''min-confidence'', hoApply = bool_of f ''apply'',
          hoForce = bool_of f ''force''\<rparr>))"

definition serve_flag_set :: flag_set where
  "serve_flag_set =
     [(''listen'', FString ''127.0.0.1:19000''), (''admin-listen'', FString ''127.0.0.1:19001''), (''config'', FString []),
      (''observed-log'', FString []), (''https-stub'', FBool False), (''stub-ca-dir'', FString []),
      (''stub-mitm-allow-hosts'', FString [])]"

definition serve_line :: "go_env \<Rightarrow> (string \<Rightarrow> f64 option) \<Rightarrow> string list \<Rightarrow> (flag_error, server_options) result" where
  "serve_line E pf args =
     and_then (parse_incident E pf serve_flag_set args) (\<lambda>(f, dir).
       Inr \<lparr>soIncident = dir, soConfig = string_of f ''config'', soListen = string_of f ''listen'',
            soAdminListen = string_of f ''admin-listen'', soHttps = bool_of f ''https-stub'', soCADir = string_of f ''stub-ca-dir'',
            soAllowHosts = split_non_empty (string_of f ''stub-mitm-allow-hosts'')\<rparr>)"

section \<open>Kafka\<close>

definition kafka_auth_flags :: flag_set where
  "kafka_auth_flags =
     [(''tls'', FBool False), (''ca-file'', FString []), (''client-cert'', FString []), (''client-key'', FString []),
      (''sasl-mechanism'', FString []), (''sasl-username'', FString []), (''sasl-password-env'', FString [])]"

definition auth_of :: "environment \<Rightarrow> flag_set \<Rightarrow> (auth_error, kafka_auth) result" where
  "auth_of vars f =
     kafka_auth_value vars (bool_of f ''tls'') (string_of f ''ca-file'') (string_of f ''client-cert'') (string_of f ''client-key'')
       (string_of f ''sasl-mechanism'') (string_of f ''sasl-username'') (string_of f ''sasl-password-env'')"

definition kafka_capture_flag_set :: flag_set where
  "kafka_capture_flag_set =
     [(''brokers'', FString ''127.0.0.1:9092''), (''topics'', FString []), (''out'', FString ''./incident/messages.log''),
      (''max-messages'', FInt 0), (''duration'', FDuration 0), (''from-beginning'', FBool False), (''privacy-policy'', FString []),
      (''capture-sensitive-data'', FBool False), (''direction'', FString ''publish'')] @ kafka_auth_flags"

text \<open>The options without brokers, topics and policy, which \<open>kafka_capture_command\<close> lays over them.\<close>

definition kafka_capture_options :: "flag_set \<Rightarrow> capture_options" where
  "kafka_capture_options f =
     \<lparr>coBrokers = [], coTopics = [], coOutputPath = string_of f ''out'', coMaxMessages = int_of f ''max-messages'',
      coPrivacy = None, coAllowSensitive = bool_of f ''capture-sensitive-data'', coDirection = string_of f ''direction''\<rparr>"

definition kafka_replay_flag_set :: flag_set where
  "kafka_replay_flag_set =
     [(''brokers'', FString ''127.0.0.1:9092''), (''input'', FString []), (''asyncapi'', FString []), (''time-scale'', FFloat (Fin 0)),
      (''topic-prefix'', FString []), (''delay'', FDuration 0), (''drop-every'', FInt 0), (''duplicate-every'', FInt 0),
      (''poison-every'', FInt 0), (''reorder-window'', FInt 0), (''timeout'', FDuration 120000000000)] @ report_flags @ kafka_auth_flags"

definition kafka_replay_options :: "flag_set \<Rightarrow> replay_options" where
  "kafka_replay_options f =
     \<lparr>kpBrokers = [], kpInput = [], kpAsync = string_of f ''asyncapi'', kpScale = float_of f ''time-scale'',
      kpFaults = \<lparr>faDelay = int_of f ''delay'', faDropEvery = int_of f ''drop-every'', faDuplicateEvery = int_of f ''duplicate-every'',
        faPoisonEvery = int_of f ''poison-every'', faReorderWindow = int_of f ''reorder-window''\<rparr>,
      kpAuth = \<lparr>kaTLS = False, kaCA = [], kaCert = [], kaKey = [], kaMechanism = [], kaUser = [], kaPassword = []\<rparr>,
      kpPrefix = string_of f ''topic-prefix''\<rparr>"

text \<open>The flags and the input, which is the argument before the flags unless \<open>--input\<close> is given.\<close>

definition kafka_replay_line :: "go_env \<Rightarrow> (string \<Rightarrow> f64 option) \<Rightarrow> string list \<Rightarrow> (flag_error, flag_set \<times> string) result" where
  "kafka_replay_line E pf args =
     (case split_incident args of (dir, rest) \<Rightarrow>
        and_then (parse_args E pf kafka_replay_flag_set rest) (\<lambda>(f, left).
          Inr (f, if string_of f ''input'' = [] then dir else string_of f ''input'')))"

section \<open>The older commands\<close>

definition strict_flag_set :: flag_set where
  "strict_flag_set = [(''log'', FString ''events.log''), (''target'', FString []), (''allow-writes'', FBool False)]"

definition search_flag_set :: flag_set where
  "search_flag_set = [(''log'', FString ''events.log''), (''target'', FString [])]"

definition agent_flag_set :: flag_set where
  "agent_flag_set =
     [(''mode'', FString ''inbound''), (''listen'', FString ''127.0.0.1:8080''), (''forward'', FString []),
      (''log'', FString ''events.log''), (''https-mode'', FString ''tunnel''), (''inject'', FString []), (''inject-seed'', FInt 0),
      (''insecure-upstream'', FBool False), (''mitm-allow-hosts'', FString []), (''allow-private-destinations'', FBool False),
      (''capture-sensitive-data'', FBool False), (''privacy-policy'', FString [])]"

definition record_flag_set :: flag_set where
  "record_flag_set =
     [(''listen'', FString ''127.0.0.1:8080''), (''outbound-listen'', FString ''127.0.0.1:8084''), (''forward'', FString []),
      (''out'', FString ''./incident''), (''env'', FString []), (''https-mode'', FString ''tunnel''), (''insecure-upstream'', FBool False),
      (''mitm-allow-hosts'', FString []), (''allow-private-destinations'', FBool False), (''capture-sensitive-data'', FBool False),
      (''privacy-policy'', FString []), (''append'', FBool False)]"

text \<open>What the recording proxies are given: the context of \<open>Capture\<close> with the policy that was loaded, the hosts that may be
  intercepted (None without interception), and whether certificates of upstreams are checked.\<close>

record proxy_setup =
  psContext :: capture_context
  psIntercept :: "string list option"
  psInsecure :: bool

definition proxy_setup_of :: "flag_set \<Rightarrow> policy option \<Rightarrow> proxy_setup" where
  "proxy_setup_of f pol =
     \<lparr>psContext = \<lparr>ccAllowPrivate = bool_of f ''allow-private-destinations'', ccSensitive = bool_of f ''capture-sensitive-data'',
        ccPrivacy = pol\<rparr>,
      psIntercept = (if string_of f ''https-mode'' \<noteq> ''mitm'' then None
        else Some (if string_of f ''mitm-allow-hosts'' = [] then [] else split_on (CHR '','') (string_of f ''mitm-allow-hosts''))),
      psInsecure = bool_of f ''insecure-upstream''\<rparr>"

text \<open>The policy named by the flags: none, one that loads, or a refusal (None).\<close>

definition policy_of :: "(string \<Rightarrow> policy option) \<Rightarrow> flag_set \<Rightarrow> policy option option" where
  "policy_of load f =
     (if string_of f ''privacy-policy'' = [] then Some None else map_option Some (load (string_of f ''privacy-policy'')))"


section \<open>Recording\<close>

text \<open>\<open>infernosim record\<close>: the steps that can fail, in their order; the logs that are counted are those after the recording.\<close>

datatype record_stop =
    RecordFlags flag_error | RecordRefused record_refusal | LogNotOpened string | AuthorityMissing | NotListening string
  | MetadataFailed

record recording =
  rdInbound :: "string \<times> string \<times> proxy_setup"
  rdOutbound :: "(string \<times> string \<times> proxy_setup) option"
  rdMetadata :: incident_metadata

record record_env =
  rvPolicy :: "string \<Rightarrow> policy option"
  rvOpens :: "string \<Rightarrow> bool"
  rvAuthority :: bool
  rvListens :: "string \<Rightarrow> bool"
  rvRecorded :: "string \<Rightarrow> event list option"
  rvWritten :: "string \<Rightarrow> incident_metadata \<Rightarrow> bool"

definition record_command ::
  "go_env \<Rightarrow> (string \<Rightarrow> f64 option) \<Rightarrow> files \<Rightarrow> record_env \<Rightarrow> string list \<Rightarrow> (record_stop, recording) result" where
  "record_command E pf fs R args =
     (case parse_args E pf record_flag_set args of
        Inl e \<Rightarrow> Inl (RecordFlags e)
      | Inr (f, left) \<Rightarrow>
          (let out = string_of f ''out''; listen = string_of f ''listen''; outbound_listen = string_of f ''outbound-listen'';
               forward = string_of f ''forward''; intercepting = (string_of f ''https-mode'' = ''mitm'');
               captures_calls = (trim_space outbound_listen \<noteq> [])
           in case record_checks fs forward (policy_of (rvPolicy R) f \<noteq> None) out (bool_of f ''append'') of
                Inl e \<Rightarrow> Inl (RecordRefused e)
              | Inr (inbound, outbound) \<Rightarrow>
                  and_then (fail_if (\<not> rvOpens R inbound) (LogNotOpened inbound)) (\<lambda>_.
                  and_then (fail_if (\<not> rvOpens R outbound) (LogNotOpened outbound)) (\<lambda>_.
                  and_then (fail_if (intercepting \<and> \<not> rvAuthority R) AuthorityMissing) (\<lambda>_.
                  and_then (fail_if (\<not> rvListens R listen) (NotListening listen)) (\<lambda>_.
                  and_then (fail_if (captures_calls \<and> \<not> rvListens R outbound_listen) (NotListening outbound_listen)) (\<lambda>_.
                  let proxies = proxy_setup_of f (dflt None (policy_of (rvPolicy R) f));
                      meta = record_metadata (string_of f ''env'') listen forward (rvRecorded R inbound) (rvRecorded R outbound)
                  in and_then (fail_if (\<not> rvWritten R out meta) MetadataFailed) (\<lambda>_.
                       Inr \<lparr>rdInbound = (listen, inbound, proxies),
                            rdOutbound = (if captures_calls then Some (outbound_listen, outbound, proxies) else None),
                            rdMetadata = meta\<rparr>))))))))"

text \<open>The older agent (\<open>runAgent\<close>): one proxy of one mode, with the faults it injects.\<close>

datatype agent_stop = LogFailed | InjectInvalid | PolicyFailed | NoAuthority | ForwardMissing | NotStarted | UnknownMode string

record agent_run =
  arInbound :: bool
  arListen :: string
  arForward :: string
  arLog :: string
  arInject :: "inject_config option"
  arSeed :: int
  arSetup :: proxy_setup

definition agent_command ::
  "(real \<Rightarrow> real) \<Rightarrow> (string \<Rightarrow> f64 option) \<Rightarrow> record_env \<Rightarrow> flag_set \<Rightarrow> (agent_stop, agent_run) result" where
  "agent_command rnd pf R f =
     (let logname = string_of f ''log''; mode = string_of f ''mode''; forward = string_of f ''forward'';
          listen = string_of f ''listen''
      in and_then (fail_if (\<not> rvOpens R logname) LogFailed) (\<lambda>_.
         case parse_config pf rnd (string_of f ''inject'') of
           Inl e \<Rightarrow> Inl InjectInvalid
         | Inr cfg \<Rightarrow> (case policy_of (rvPolicy R) f of
             None \<Rightarrow> Inl PolicyFailed
           | Some pol \<Rightarrow>
               and_then (fail_if (string_of f ''https-mode'' = ''mitm'' \<and> \<not> rvAuthority R) NoAuthority) (\<lambda>_.
               if mode \<notin> {''inbound'', ''proxy''} then Inl (UnknownMode mode)
               else and_then (fail_if (mode = ''inbound'' \<and> forward = []) ForwardMissing) (\<lambda>_.
                    and_then (fail_if (\<not> rvListens R listen) NotStarted) (\<lambda>_.
                      Inr \<lparr>arInbound = (mode = ''inbound''), arListen = listen, arForward = forward, arLog = logname,
                           arInject = cfg, arSeed = int_of f ''inject-seed'', arSetup = proxy_setup_of f pol\<rparr>))))))"


section \<open>The program\<close>

text \<open>What the commands find when they run: the library functions that are parameters, the files, the broker, the services and
  the listeners. \<open>'c\<close> is a key pair, \<open>'w\<close> the world of the broker and of the services, \<open>'l\<close> a listener, \<open>'e\<close> an error of one.\<close>

record ('c, 'w, 'l, 'e) machine =
  mcGo :: go_env
  mcFloat :: "string \<Rightarrow> f64 option"
  mcRound :: "real \<Rightarrow> real"
  mcDir :: string
  mcVars :: environment
  mcDisk :: disk
  mcIsDir :: "string \<Rightarrow> bool"
  mcIsFile :: "string \<Rightarrow> bool"
  mcWritable :: "string \<Rightarrow> bool"
  mcConfig :: "string \<Rightarrow> replay_yaml option"
  mcLog :: "string \<Rightarrow> event list option"
  mcLine :: "string \<Rightarrow> event option"
  mcMessages :: "string \<Rightarrow> message option list"
  mcLogs :: "string \<Rightarrow> incident_logs"
  mcApi :: "string \<Rightarrow> api_document option"
  mcAsync :: "string \<Rightarrow> async_document option"
  mcFixture :: "string \<Rightarrow> fixture option"
  mcErrText :: "string \<Rightarrow> string"
  mcDetail :: "detail \<Rightarrow> string"
  mcDuration :: "int \<Rightarrow> string"
  mcRefusal :: "replay_refusal \<Rightarrow> string"
  mcConfigText :: "ReplayYaml.config_error \<Rightarrow> string"
  mcVersion :: string
  mcNow :: int
  mcFormat :: "string \<Rightarrow> string option"
  mcReport :: "heal_result \<Rightarrow> string \<times> string"
  mcEncode :: "replay_yaml \<Rightarrow> string option"
  mcClash :: "pfile list \<Rightarrow> pfile \<Rightarrow> bool"
  mcReadSet :: "string \<Rightarrow> pfile list option"
  mcCompiler :: "string list \<Rightarrow> string list \<Rightarrow> pfile list option"
  mcGenerated :: "generated_config \<Rightarrow> string option"
  mcBundle :: bundle_lib
  mcPack :: "(string \<times> string) list \<Rightarrow> string"
  mcUnpack :: "string \<Rightarrow> tar_entry option list option"
  mcSalt :: "string option"
  mcNonce :: "string option"
  mcTree :: "string \<Rightarrow> source"
  mcTarget :: "string \<Rightarrow> destination"
  mcRecord :: record_env
  mcCerts :: "string \<Rightarrow> bool"
  mcKeyPair :: "string \<Rightarrow> string \<Rightarrow> 'c option"
  mcConnects :: "'c client_option list \<Rightarrow> bool"
  mcPolls :: "poll list"
  mcBroker :: "('c, 'w) broker"
  mcScaled :: "f64 \<Rightarrow> int \<Rightarrow> int"
  mcProof :: bool
  mcDial :: "string \<Rightarrow> bool"
  mcClient :: "'w client"
  mcHolds :: "replayer \<Rightarrow> nat \<Rightarrow> bool"
  mcService :: "'w world"
  mcScale :: "f64 \<Rightarrow> f64 \<Rightarrow> int \<Rightarrow> int"
  mcSlow :: "int \<Rightarrow> int \<Rightarrow> bool"
  mcReplay :: "replay_line \<Rightarrow> settings \<Rightarrow> agent_env"
  mcListen :: "'l list \<Rightarrow> string \<Rightarrow> 'l option"
  mcEnded :: "'e wait_end"
  mcCloseErrors :: "'e list"
  mcWorld :: 'w

abbreviation mcFiles :: "('c, 'w, 'l, 'e) machine \<Rightarrow> files" where "mcFiles M \<equiv> files_of (mcDisk M)"

abbreviation mcParse :: "('c, 'w, 'l, 'e) machine \<Rightarrow> flag_set \<Rightarrow> string list \<Rightarrow> (flag_error, flag_set \<times> string list) result" where
  "mcParse M \<equiv> parse_args (mcGo M) (mcFloat M)"

definition run_bundle :: "('c, 'w, 'l, 'e) machine \<Rightarrow> string list \<Rightarrow> nat" where
  "run_bundle M args =
     (case args of
        [] \<Rightarrow> 1
      | c # rest \<Rightarrow>
          if c \<noteq> ''seal'' \<and> c \<noteq> ''open'' then 1
          else (case bundle_line (mcGo M) (mcFloat M) rest of
              None \<Rightarrow> 1
            | Some (out, name, p) \<Rightarrow>
                if c = ''seal''
                then fst (seal_command (mcGo M) (mcBundle M) (mcPack M) (mcVars M) (mcSalt M) (mcNonce M) (mcTree M) out name p (mcFiles M))
                else fst (open_command (mcGo M) (mcBundle M) (mcUnpack M) (mcVars M) (mcTarget M) out name p (mcFiles M))))"

definition run_generate :: "('c, 'w, 'l, 'e) machine \<Rightarrow> string list \<Rightarrow> nat \<times> files" where
  "run_generate M args =
     (case mcParse M generate_flag_set args of
        Inl e \<Rightarrow> (2, mcFiles M)
      | Inr (f, left) \<Rightarrow>
          generate_command (mcClash M) (mcReadSet M) (mcCompiler M) (mcApi M) (mcGenerated M) (mcWritable M) (mcDir M)
            (string_of f ''openapi'') (multi_of f ''proto'') (multi_of f ''descriptor-set'') (multi_of f ''import-path'')
            (string_of f ''out'') (bool_of f ''force'') (mcFiles M))"

definition run_testgen :: "('c, 'w, 'l, 'e) machine \<Rightarrow> string list \<Rightarrow> nat \<times> string list \<times> files" where
  "run_testgen M args =
     (case testgen_line (mcGo M) (mcFloat M) args of
        Inl e \<Rightarrow> (2, [], mcFiles M)
      | Inr opts \<Rightarrow> testgen_command (mcGo M) (mcFormat M) (mcWritable M) (mcDir M) opts (mcFiles M))"

definition run_heal_command :: "('c, 'w, 'l, 'e) machine \<Rightarrow> string list \<Rightarrow> nat \<times> heal_result \<times> files" where
  "run_heal_command M args =
     (case heal_line (mcGo M) (mcFloat M) args of
        Inl e \<Rightarrow> (2, no_result, mcFiles M)
      | Inr (dir, samples, opts) \<Rightarrow>
          heal_command (mcGo M) (mcRound M) (mcWritable M) (mcReport M) (mcEncode M) (mcConfig M) (mcLog M) dir samples opts (mcFiles M))"

definition run_serve :: "('c, 'w, 'l, 'e) machine \<Rightarrow> string list \<Rightarrow> nat" where
  "run_serve M args =
     (case serve_line (mcGo M) (mcFloat M) args of
        Inl e \<Rightarrow> 2
      | Inr opts \<Rightarrow> serve_command (mcGo M) (mcDisk M) (mcConfig M) (mcLog M) (rvAuthority (mcRecord M)) (mcNow M) (mcListen M)
            (mcEnded M) (mcCloseErrors M) opts)"

definition run_kafka :: "('c, 'w, 'l, 'e) machine \<Rightarrow> string list \<Rightarrow> nat" where
  "run_kafka M args =
     (case args of
        [] \<Rightarrow> 2
      | c # rest \<Rightarrow>
          if c = ''capture''
          then (case mcParse M kafka_capture_flag_set rest of
              Inl e \<Rightarrow> 2
            | Inr (f, left) \<Rightarrow>
                fst (kafka_capture_command (mcGo M) (mcFiles M) (mcCerts M) (mcKeyPair M) (mcConnects M) (string_of f ''brokers'')
                  (string_of f ''topics'') (auth_of (mcVars M) f) (policy_of (rvPolicy (mcRecord M)) f) (kafka_capture_options f)
                  (mcMessages M (string_of f ''out'')) (mcPolls M)))
          else if c = ''replay''
          then (case kafka_replay_line (mcGo M) (mcFloat M) rest of
              Inl e \<Rightarrow> 2
            | Inr (f, input) \<Rightarrow>
                fst (kafka_replay_command (mcGo M) (mcDetail M) (mcFiles M) (mcCerts M) (mcKeyPair M) (mcAsync M) (mcScaled M)
                  (mcBroker M) (mcIsDir M) (mcIsFile M) (mcMessages M) (mcVersion M) (mcNow M) (mcProof M)
                  (string_of f ''report-formats'') (int_of f ''timeout'') input (auth_of (mcVars M) f) (string_of f ''brokers'')
                  (kafka_replay_options f) (mcWorld M)))
          else if c = ''validate''
          then (case leading_line (mcGo M) (mcFloat M) kafka_validate_flag_set ''asyncapi'' rest of
              Inl e \<Rightarrow> 2
            | Inr (dir, spec, formats, report_dir) \<Rightarrow>
                check_exit (kafka_validate_command (mcGo M) (mcDetail M) (mcIsDir M) (mcIsFile M) (mcFiles M) (mcMessages M) (mcAsync M)
                  (mcVersion M) (mcNow M) dir spec formats))
          else 2)"

definition run_contract :: "('c, 'w, 'l, 'e) machine \<Rightarrow> string list \<Rightarrow> nat" where
  "run_contract M args =
     (case checking_line (mcGo M) (mcFloat M) contract_flag_set ''spec'' args of
        Inl e \<Rightarrow> 2
      | Inr (dir, spec, formats, report_dir) \<Rightarrow>
          check_exit (contract_command (mcGo M) (mcErrText M) (mcFiles M) (mcLog M) (mcApi M) (mcVersion M) (mcNow M) dir spec formats))"

definition run_workflow :: "('c, 'w, 'l, 'e) machine \<Rightarrow> string list \<Rightarrow> nat" where
  "run_workflow M args =
     (case args of
        c # rest \<Rightarrow>
          if c \<noteq> ''verify'' then 2
          else (case leading_line (mcGo M) (mcFloat M) workflow_flag_set ''config'' rest of
              Inl e \<Rightarrow> 2
            | Inr (dir, config, formats, report_dir) \<Rightarrow>
                check_exit (workflow_command (mcGo M) (mcDuration M) (mcFiles M) (mcConfig M) (mcLogs M) (mcVersion M) (mcNow M)
                  dir config formats))
      | [] \<Rightarrow> 2)"

definition run_match :: "('c, 'w, 'l, 'e) machine \<Rightarrow> string list \<Rightarrow> nat" where
  "run_match M args =
     (case args of
        c # rest \<Rightarrow>
          if c \<noteq> ''explain'' then 2
          else (case explain_line (mcGo M) (mcFloat M) rest of
              Inl e \<Rightarrow> 2
            | Inr (dir, fixture_path, config) \<Rightarrow>
                if dir = [] \<or> fixture_path = [] then 2
                else (case Option.bind (mcFiles M fixture_path) (mcFixture M) of
                    None \<Rightarrow> 2
                  | Some x \<Rightarrow> fst (explain_command (mcGo M) (mcFiles M) (mcConfig M) (mcLog M) dir config x)))
      | [] \<Rightarrow> 2)"

definition run_lint :: "('c, 'w, 'l, 'e) machine \<Rightarrow> string list \<Rightarrow> nat" where
  "run_lint M args =
     (case lint_line (mcGo M) (mcFloat M) args of
        None \<Rightarrow> 2
      | Some (p, json) \<Rightarrow> lint_exit (lint_path (mcGo M) (mcFiles M) (mcConfig M) p))"

definition run_verify :: "('c, 'w, 'l, 'e) machine \<Rightarrow> string list \<Rightarrow> nat" where
  "run_verify M args =
     (case only_incident (mcGo M) (mcFloat M) args of
        None \<Rightarrow> 1
      | Some dir \<Rightarrow> fst (verify_command (mcGo M) (mcFiles M) (mcLog M) dir))"

definition run_inspect :: "('c, 'w, 'l, 'e) machine \<Rightarrow> string list \<Rightarrow> nat \<times> inspect_result option" where
  "run_inspect M args =
     (case only_incident (mcGo M) (mcFloat M) args of
        None \<Rightarrow> (1, None)
      | Some dir \<Rightarrow> (case open_incident (mcFiles M) dir of
          None \<Rightarrow> (1, None)
        | Some b \<Rightarrow> (case Option.bind (mcFiles M (ibInbound b)) (mcLog M) of
            None \<Rightarrow> (1, None)
          | Some es \<Rightarrow> (0, Some (inspect_incident (mcGo M) (load_inbound es))))))"

definition run_diff :: "('c, 'w, 'l, 'e) machine \<Rightarrow> string list \<Rightarrow> nat \<times> event_diff list \<times> 'w" where
  "run_diff M args =
     (case diff_line (mcGo M) (mcFloat M) args of
        None \<Rightarrow> (1, [], mcWorld M)
      | Some (dir, target, wall, writes) \<Rightarrow>
          diff_command (mcGo M) (mcService M) (mcScale M) (mcSlow M) (mcFiles M) (mcConfig M) (mcLog M) dir target wall writes (mcWorld M))"

definition run_command :: "('c, 'w, 'l, 'e) machine \<Rightarrow> string \<Rightarrow> string list \<Rightarrow> nat" where
  "run_command M c args =
     (if c = ''capture'' \<or> c = ''record'' then (if is_ok (record_command (mcGo M) (mcFloat M) (mcFiles M) (mcRecord M) args) then 0 else 1)
      else if c = ''replay'' then nat (smExit (replay_command (mcGo M) (mcFloat M) (mcFiles M) (mcConfig M) (mcRefusal M) (mcConfigText M) (mcReplay M) args))
      else if c = ''inspect'' then fst (run_inspect M args)
      else if c = ''verify'' then run_verify M args
      else if c = ''diff'' then fst (run_diff M args)
      else if c = ''bundle'' then run_bundle M args
      else if c = ''contract'' then run_contract M args
      else if c = ''generate'' then fst (run_generate M args)
      else if c = ''serve'' then run_serve M args
      else if c = ''testgen'' then fst (run_testgen M args)
      else if c = ''heal'' then fst (run_heal_command M args)
      else if c = ''kafka'' then run_kafka M args
      else if c = ''workflow'' then run_workflow M args
      else if c = ''lint'' then run_lint M args
      else run_match M args)"

text \<open>The commands whose flags end the process: with 0 when they ask for help, with 2 when they are wrong. A command that stops
  with a fatal error ends with 1.\<close>

definition exit_on_error :: "flag_error \<Rightarrow> nat" where
  "exit_on_error e = (if e = HelpRequested then 0 else 2)"

definition run_strict :: "('c, 'w, 'l, 'e) machine \<Rightarrow> string list \<Rightarrow> nat \<times> 'w" where
  "run_strict M args =
     (case mcParse M strict_flag_set args of
        Inl e \<Rightarrow> (exit_on_error e, mcWorld M)
      | Inr (f, left) \<Rightarrow>
          (case strict_replay_command (mcGo M) (mcClient M) (mcDial M) (mcLine M) (mcFiles M) (string_of f ''log'')
                  (string_of f ''target'') (bool_of f ''allow-writes'') (mcWorld M) of
             (res, w) \<Rightarrow> (if res = None then 1 else 0, w)))"

definition run_legacy :: "('c, 'w, 'l, 'e) machine \<Rightarrow> string \<Rightarrow> string list \<Rightarrow> nat" where
  "run_legacy M c args =
     (if c = ''search''
      then (case mcParse M search_flag_set args of
          Inl e \<Rightarrow> exit_on_error e
        | Inr (f, left) \<Rightarrow>
            if search_command (mcGo M) (mcDial M) (mcLine M) (mcFiles M) (mcHolds M) (string_of f ''log'') (string_of f ''target'') = None
            then 1 else 0)
      else if c = ''strict-replay'' then fst (run_strict M args)
      else (case mcParse M agent_flag_set args of
          Inl e \<Rightarrow> exit_on_error e
        | Inr (f, left) \<Rightarrow> if is_ok (agent_command (mcRound M) (mcFloat M) (mcRecord M) f) then 0 else 1))"

text \<open>\<open>main\<close>.\<close>

definition infernosim :: "('c, 'w, 'l, 'e) machine \<Rightarrow> string list \<Rightarrow> nat" where
  "infernosim M args =
     (case args of
        [] \<Rightarrow> 1
      | c # rest \<Rightarrow>
          if c \<in> {''--version'', ''-v'', ''--help'', ''-h'', ''version''} then 0
          else if c \<in> set current_commands then run_command M c rest
          else if c \<in> {''search'', ''strict-replay''} then run_legacy M c rest
          else if has_prefix c ''-'' then run_legacy M ''agent'' args
          else 1)"


section \<open>Mistyped flags\<close>

text \<open>The flags of a command and the arguments that are read as such.\<close>

definition flags_of :: "string \<Rightarrow> string list \<Rightarrow> flag_set" where
  "flags_of c args =
     (if c = ''capture'' \<or> c = ''record'' then record_flag_set
      else if c = ''replay'' then replay_flag_set
      else if c = ''diff'' then diff_flag_set
      else if c = ''bundle'' then bundle_flag_set
      else if c = ''contract'' then contract_flag_set
      else if c = ''generate'' then generate_flag_set
      else if c = ''serve'' then serve_flag_set
      else if c = ''testgen'' then testgen_flag_set
      else if c = ''heal'' then heal_flag_set
      else if c = ''kafka''
      then (case args of
          [] \<Rightarrow> []
        | s # rest \<Rightarrow> if s = ''capture'' then kafka_capture_flag_set
            else if s = ''replay'' then kafka_replay_flag_set else kafka_validate_flag_set)
      else if c = ''workflow'' then workflow_flag_set
      else if c = ''lint'' then [(''json'', FBool False)]
      else if c = ''match'' then explain_flag_set
      else [])"

definition flag_arguments :: "string \<Rightarrow> string list \<Rightarrow> string list" where
  "flag_arguments c args =
     (if c \<in> {''replay'', ''diff'', ''contract'', ''serve'', ''testgen'', ''heal''} then snd (split_incident args)
      else if c \<in> {''workflow'', ''match''} then snd (split_incident (tl args))
      else if c = ''kafka'' then (if args \<noteq> [] \<and> hd args = ''capture'' then tl args else snd (split_incident (tl args)))
      else if c = ''bundle'' then tl args
      else args)"

lemma refused_exit: "smExit (refused_summary reason) = 2"
proof -
  have "smExit (finalize s) = exit_code (compute_outcome s)" for s
    by (simp add: finalize_def Let_def)
  moreover have "compute_outcome (new_summary\<lparr>smReason := reason, smOutcome := ''FAIL_INVALID_ENV''\<rparr>) = ''FAIL_INVALID_ENV''"
    by (simp add: compute_outcome_def failed_def has_prefix_def)
  moreover have "exit_code ''FAIL_INVALID_ENV'' = 2" by code_simp
  ultimately show ?thesis by (simp add: refused_summary_def)
qed

lemma split_incident_case: "(case split_incident args of (dir, rest) \<Rightarrow> F dir rest) = F (fst (split_incident args)) (snd (split_incident args))"
  by (simp add: case_prod_beta)

lemmas line_defs = replay_line_def diff_line_def only_incident_def lint_line_def checking_line_def leading_line_def explain_line_def
  bundle_line_def testgen_line_def heal_line_def serve_line_def kafka_replay_line_def parse_incident_def split_incident_case


definition idle_machine :: "(string, int \<times> sent_request list, unit, string) machine" where
  "idle_machine =
     \<lparr>mcGo = example_env, mcFloat = (\<lambda>_. None), mcRound = (\<lambda>x. x), mcDir = ''/repo'', mcVars = (\<lambda>_. None), mcDisk = (\<lambda>_. Missing),
      mcIsDir = (\<lambda>_. False), mcIsFile = (\<lambda>_. False), mcWritable = (\<lambda>_. True), mcConfig = (\<lambda>_. None), mcLog = (\<lambda>_. None),
      mcLine = (\<lambda>_. None), mcMessages = (\<lambda>_. []), mcLogs = (\<lambda>_. \<lparr>ilInbound = None, ilOutbound = None, ilMessages = None\<rparr>),
      mcApi = (\<lambda>_. None), mcAsync = (\<lambda>_. None), mcFixture = (\<lambda>_. None), mcErrText = (\<lambda>s. s), mcDetail = (\<lambda>_. []),
      mcDuration = (\<lambda>_. []), mcRefusal = (\<lambda>_. []), mcConfigText = (\<lambda>_. []), mcVersion = ''dev'', mcNow = 0, mcFormat = Some,
      mcReport = (\<lambda>_. ([], [])), mcEncode = (\<lambda>_. None), mcClash = (\<lambda>_ _. False), mcReadSet = (\<lambda>_. None), mcCompiler = (\<lambda>_ _. None),
      mcGenerated = (\<lambda>_. None), mcBundle = plain_lib, mcPack = example_pack, mcUnpack = example_unpack, mcSalt = None, mcNonce = None,
      mcTree = (\<lambda>_. NoSource), mcTarget = (\<lambda>_. NewDestination),
      mcRecord = \<lparr>rvPolicy = (\<lambda>_. None), rvOpens = (\<lambda>_. True), rvAuthority = False, rvListens = (\<lambda>_. True),
        rvRecorded = (\<lambda>_. None), rvWritten = (\<lambda>_ _. True)\<rparr>,
      mcCerts = (\<lambda>_. False), mcKeyPair = (\<lambda>_ _. None), mcConnects = (\<lambda>_. False), mcPolls = [],
      mcBroker = \<lparr>bkConnect = (\<lambda>_ w. (False, w)), bkWait = (\<lambda>_ w. (False, w)), bkSend = (\<lambda>_ w. (False, w))\<rparr>, mcScaled = (\<lambda>_ gap. gap),
      mcProof = True, mcDial = (\<lambda>_. True), mcClient = (\<lambda>h rq w. (Some 200, (fst w, snd w @ [rq]))), mcHolds = (\<lambda>_ _. True),
      mcService = example_world faithful_answer, mcScale = same_gap, mcSlow = (\<lambda>_ _. False), mcReplay = (\<lambda>_ _. example_agent 1),
      mcListen = (\<lambda>_ _. Some ()), mcEnded = Signalled, mcCloseErrors = [], mcWorld = (0, [])\<rparr>"

text \<open>The example of the program's own help gives \<open>replay\<close> a flag it does not have, on whatever machine; \<open>replay --help\<close> fails
  too, while \<open>search --help\<close> does not.\<close>

definition help_example :: "string list" where
  "help_example = [''replay'', ''./incident-001'', ''--target'', ''http://staging-api:8080'', ''--diff'']"

lemma target_token: "flag_token ''--target'' = Named ''target'' None" "flag_token ''--help'' = Named ''help'' None"
  by code_simp+

lemma refused_replay:
  assumes "parse_args (mcGo M) (mcFloat M) replay_flag_set (snd (split_incident args)) = Inl e"
  shows "infernosim M (''replay'' # args) = 2"
  using assms by (simp add: infernosim_def current_commands_def run_command_def replay_command_def line_defs refused_exit)

theorem help_example_refused:
  "infernosim M help_example = 2 \<and> infernosim M [''replay'', ''--help''] = 2 \<and> infernosim M [''search'', ''--help''] = 0"
proof -
  have "parse_args E pf replay_flag_set (snd (split_incident (tl help_example))) = Inl (NotDefined ''target'')"
    and asked: "parse_args E pf replay_flag_set (snd (split_incident [''--help''])) = Inl HelpRequested"
      "parse_args E pf search_flag_set [''--help''] = Inl HelpRequested" for E pf
    by (simp_all add: help_example_def parse_args_def split_incident_def has_prefix_def target_token replay_flag_set_def search_flag_set_def)
  then show ?thesis
    by (simp add: refused_replay [OF asked(1)] refused_replay help_example_def)
      (simp add: infernosim_def current_commands_def run_legacy_def asked exit_on_error_def)
qed

section \<open>Sending writes\<close>

lemma names_rest: "\<not> names_flag args n \<Longrightarrow> \<not> names_flag (snd (split_incident args)) n"
  by (auto simp: split_incident_def split: list.splits)

lemma parse_args_unnamed: "parse_args E pf flags args = Inr (f, left) \<Longrightarrow> \<not> names_flag args n \<Longrightarrow> map_of f n = map_of flags n"
  unfolding parse_args_def by (rule parse_unnamed)

lemma safe_settings: "replay_settings E fs decode flag dir f = Inr s \<Longrightarrow> fgSafeMode f \<Longrightarrow> \<not> fgAllowWrites f \<Longrightarrow> seSafeMode s"
proof -
  assume s: "replay_settings E fs decode flag dir f = Inr s" and f: "fgSafeMode f" "\<not> fgAllowWrites f"
  have "seSafeMode (https_flags f t) = seSafeMode t" "seSafeMode (lay_over E p y t) = (seSafeMode t \<or> rySafeMode y)" for p y t
    by (simp_all add: https_flags_def lay_over_def)
  moreover have "seSafeMode (base_settings f)" using f by (simp add: base_settings_def)
  ultimately show ?thesis using s by (auto simp: replay_settings_def Let_def split: if_split_asm)
qed

text \<open>C33. No command that replays requests sends a write unless its arguments ask for it: when none of them is a flag
  \<open>allow-writes\<close> or \<open>safe-mode\<close>, whatever requests without effect keep of the world is kept by \<open>diff\<close> and \<open>strict-replay\<close>, and
  \<open>replay\<close> runs in safe mode whatever its configuration says.\<close>

theorem writes_need_a_flag:
  fixes M :: "('c, 'w, 'l, 'e) machine"
  assumes "\<not> names_flag args ''allow-writes''" and "\<not> names_flag args ''safe-mode''"
    and "\<And>w. P w \<Longrightarrow> P (snd (woNow (mcService M) w))" and "\<And>d w. P w \<Longrightarrow> P (woSleep (mcService M) d w)"
    and "\<And>rq t w. P w \<Longrightarrow> \<not> is_write (sqMethod rq) \<Longrightarrow> P (snd (woDo (mcService M) rq t w))"
    and "\<And>h rq w. P w \<Longrightarrow> \<not> is_write (sqMethod rq) \<Longrightarrow> P (snd (mcClient M h rq w))" and "P (mcWorld M)"
  shows "P (snd (snd (run_diff M args))) \<and> P (snd (run_strict M args)) \<and>
    (case replay_line E pf args of
       Inl e \<Rightarrow> True
     | Inr L \<Rightarrow> (case replay_settings E fs decode (rlConfig L) (rlDir L) (rlFlags L) of Inl e \<Rightarrow> True | Inr s \<Rightarrow> seSafeMode s))"
proof (intro conjI)
  note unnamed = parse_args_unnamed [OF _ names_rest [OF assms(1)]] parse_args_unnamed [OF _ names_rest [OF assms(2)]]
  show "P (snd (snd (run_diff M args)))"
  proof (cases "diff_line (mcGo M) (mcFloat M) args")
    case (Some line)
    then obtain f left dir target wall where parsed: "parse_args (mcGo M) (mcFloat M) diff_flag_set (snd (split_incident args)) = Inr (f, left)"
        and line: "line = (dir, target, wall, bool_of f ''allow-writes'')"
      by (auto simp: diff_line_def split_incident_case split: sum.split_asm if_split_asm)
    have off: "\<not> bool_of f ''allow-writes''"
      using unnamed(1) [OF parsed] by (simp add: bool_of_def diff_flag_set_def)
    have "P (snd (replay_events (mcGo M) (mcService M) (mcScale M) (diff_settings wall False) base es (mcWorld M)))" for base es
      by (rule safe_replay_world [where P = P])
        (use assms(3-5,7) in \<open>auto simp: diff_settings_def safe_mode_allowed_def is_side_effect_def is_write_def\<close>)
    with Some line off assms(7) show ?thesis
      by (simp add: run_diff_def diff_command_def Let_def case_prod_beta split: option.split sum.split)
  qed (simp add: run_diff_def assms(7))
  show "P (snd (run_strict M args))"
  proof (cases "parse_args (mcGo M) (mcFloat M) strict_flag_set args")
    case (Inr r)
    obtain f left where r: "r = (f, left)" by fastforce
    have off: "\<not> bool_of f ''allow-writes''"
      using parse_args_unnamed [OF Inr [unfolded r] assms(1)] by (simp add: bool_of_def strict_flag_set_def)
    have "P (snd (replay (mcGo M) (mcClient M) q (mcWorld M)))" if "\<not> rrAllowWrites q" for q
      by (rule writes_never_sent [where P = P]) (use assms(6,7) that in auto)
    moreover have "\<not> rrAllowWrites q" if "new_replayer dec True False d = Inr q0" "preflight E' dial t q0 = Inr q" for dec d q0 E' dial t q
      using that by (auto simp: new_replayer_def preflight_def split: option.split_asm if_split_asm)
    ultimately show ?thesis using Inr r off assms(7)
      by (auto simp: run_strict_def strict_replay_command_def case_prod_beta split: sum.split)
  qed (simp add: run_strict_def assms(7))
  show "case replay_line E pf args of
       Inl e \<Rightarrow> True
     | Inr L \<Rightarrow> (case replay_settings E fs decode (rlConfig L) (rlDir L) (rlFlags L) of Inl e \<Rightarrow> True | Inr s \<Rightarrow> seSafeMode s)"
  proof (cases "replay_line E pf args")
    case (Inr L)
    then obtain f left dir where parsed: "parse_args E pf replay_flag_set (snd (split_incident args)) = Inr (f, left)"
        and L: "L = replay_values f dir"
      by (auto simp: replay_line_def split_incident_case Let_def split: sum.split_asm)
    have "fgSafeMode (rlFlags L) \<and> \<not> fgAllowWrites (rlFlags L)"
      using unnamed(1) [OF parsed] unnamed(2) [OF parsed] by (simp add: L replay_values_def bool_of_def replay_flag_set_def)
    then have "seSafeMode s" if "replay_settings E fs decode (rlConfig L) (rlDir L) (rlFlags L) = Inr s" for s
      using safe_settings [OF that] by blast
    then show ?thesis using Inr by (simp split: sum.split)
  qed simp
qed


text \<open>An incident with one captured write on disk, and a flag that comes close to \<open>--allow-writes\<close>.\<close>

definition write_machine :: "(string, int \<times> sent_request list, unit, string) machine" where
  "write_machine = idle_machine\<lparr>mcDisk := (\<lambda>p. if p = ''incident/inbound.log'' then Bytes [] else Missing),
     mcLog := (\<lambda>_. Some [(hd one_get)\<lparr>evMethod := ''DELETE''\<rparr>, (hd one_get)])\<rparr>"


theorem writes_need_a_flag_witness:
  "filter (\<lambda>rq. is_write (sqMethod rq)) (snd (snd (snd (run_diff write_machine [''incident'', ''--target=http://svc''])))) = []"
proof -
  have named: "flag_named ''incident'' = None" "flag_named ''--target=http://svc'' = Some ''target''" by code_simp+
  have "filter (\<lambda>rq. is_write (sqMethod rq)) (snd (snd (snd (run_diff write_machine [''incident'', ''--target=http://svc''])))) = [] \<and>
      filter (\<lambda>rq. is_write (sqMethod rq)) (snd (snd (run_strict write_machine [''incident'', ''--target=http://svc'']))) = [] \<and>
      (case replay_line example_env (\<lambda>_. None) [''incident'', ''--target=http://svc''] of
         Inl e \<Rightarrow> True
       | Inr L \<Rightarrow> (case replay_settings example_env (\<lambda>_. None) (\<lambda>_. None) (rlConfig L) (rlDir L) (rlFlags L) of
           Inl e \<Rightarrow> True | Inr s \<Rightarrow> seSafeMode s))"
    by (rule writes_need_a_flag [where P = "\<lambda>w. filter (\<lambda>rq. is_write (sqMethod rq)) (snd w) = []"])
      (simp_all add: named write_machine_def idle_machine_def example_world_def)
  then show ?thesis by blast
qed

section \<open>Reading flags back\<close>



section \<open>Flags behind the incident\<close>

text \<open>An incident may stand behind the flags, but then the flags behind it are not read: they are neither used nor refused.\<close>

lemma later_flags_ignored:
  assumes "parse_args E pf flags args = Inr (f, [])" and "has_prefix (hd args) ''-''" and "args \<noteq> []" and "flag_token dir = Operand"
  shows "parse_incident E pf flags (args @ dir # left) = Inr (f, dir)"
  using assms parse_stops [OF assms(1) [unfolded parse_args_def] assms(4), of left]
  by (cases args) (auto simp: parse_incident_def split_incident_def parse_args_def split: list.split)

text \<open>So \<open>heal\<close> leaves out a sample that stands there.\<close>

lemma heal_sample_ignored:
  "heal_line example_env (\<lambda>_. None) [''--min-samples=2'', ''./a'', ''--sample'', ''./b''] =
     heal_line example_env (\<lambda>_. None) [''--min-samples=2'', ''./a'']"
  by code_simp

text \<open>Every flag keeps its kind, so that reading it by its kind gives its value.\<close>

lemma parse_args_kinds:
  "parse_args E pf flags args = Inr (f, left) \<Longrightarrow> distinct (map fst flags) \<Longrightarrow>
     map (map_prod id value_kind) f = map (map_prod id value_kind) flags"
  using flag_values.parse_kinds [of E pf flags args f left] by (simp add: parse_args_def flag_values.kinds_def)

lemma flag_sets_distinct:
  "list_all (\<lambda>flags. distinct (map fst flags))
     [replay_flag_set, diff_flag_set, contract_flag_set, workflow_flag_set, kafka_validate_flag_set, explain_flag_set, bundle_flag_set,
      generate_flag_set, testgen_flag_set, heal_flag_set, serve_flag_set, kafka_capture_flag_set, kafka_replay_flag_set,
      strict_flag_set, search_flag_set, agent_flag_set, record_flag_set]"
  by code_simp

end
