(* ===== verification/ReportFiles.thy ===== *)
theory ReportFiles
  imports Reporting GoPath
begin

text \<open>
  \<open>pkg/reporting\<close> (\<open>reporting.go\<close>), what becomes of a report on disk: the HTML page with the escaping of \<open>html/template\<close>,
  and \<open>WritePrivateFile\<close> step by step with every operation of the file system that can fail.
\<close>

section \<open>The page\<close>

text \<open>What \<open>html/template\<close> does to a value that stands in the text of an element.\<close>

definition html_char :: "char \<Rightarrow> string" where
  "html_char c =
     (if c = CHR 0x00 then [CHR 0xEF, CHR 0xBF, CHR 0xBD]
      else if c = CHR 0x22 then ''&#34;''
      else if c = CHR ''&'' then ''&amp;''
      else if c = CHR 0x27 then ''&#39;''
      else if c = CHR ''+'' then ''&#43;''
      else if c = CHR ''<'' then ''&lt;''
      else if c = CHR ''>'' then ''&gt;'' else [c])"

definition html_escape :: "string \<Rightarrow> string" where
  "html_escape s = concat (map html_char s)"

definition page_head :: string where
  "page_head = join [CHR 0x0A]
     [''<!doctype html>'',
      ''<html lang=\"en\">'',
      ''<head>'',
      ''  <meta charset=\"utf-8\">'',
      ''  <meta name=\"viewport\" content=\"width=device-width,initial-scale=1\">'',
      ''  <title>InfernoSIM replay report</title>'',
      ''  <style>'',
      ''    :root { color-scheme: light dark; font-family: ui-sans-serif, system-ui, sans-serif; }'',
      ''    body { max-width: 1000px; margin: 3rem auto; padding: 0 1.25rem; line-height: 1.5; }'',
      ''    header { border-bottom: 1px solid #8886; margin-bottom: 2rem; }'',
      ''    .outcome { font-size: 1.4rem; font-weight: 700; }'',
      ''    table { border-collapse: collapse; width: 100%; }'',
      ''    th, td { border-bottom: 1px solid #8885; padding: .7rem; text-align: left; vertical-align: top; }'',
      ''    code { font-size: .9em; }'',
      ''  </style>'',
      ''</head>'',
      ''<body>'',
      ''<header><h1>InfernoSIM replay report</h1><p>Generated '']"

definition finding_row :: "finding \<Rightarrow> string" where
  "finding_row f =
     ''<tr><td><code>'' @ html_escape (fdRuleID f) @ ''</code></td><td>'' @ html_escape (fdLevel f) @ ''</td><td><strong>'' @
     html_escape (fdTitle f) @ ''</strong><br>'' @ html_escape (fdMessage f) @ ''</td><td>'' @ html_escape (fdLocation f) @ ''</td></tr>''"

text \<open>\<open>marshalHTML\<close>; \<open>stamp\<close> is \<open>Format\<close> of the time.\<close>

definition html_report :: "(int \<Rightarrow> string) \<Rightarrow> report_result \<Rightarrow> string" where
  "html_report stamp r =
     page_head @ html_escape (stamp (rrGenerated r)) @ ''</p></header>'' @ [CHR 0x0A] @ ''<p class=\"outcome\">'' @
     html_escape (rrOutcome r) @ ''</p><p>'' @ html_escape (rrSummary r) @ ''</p>'' @ [CHR 0x0A] @
     ''<h2>Contract and drift findings ('' @ html_escape (nat_digits (length (rrFindings r))) @ '')</h2>'' @ [CHR 0x0A] @
     (if rrFindings r \<noteq> []
      then ''<table><thead><tr><th>Rule</th><th>Level</th><th>Finding</th><th>Location</th></tr></thead>'' @ [CHR 0x0A] @ ''<tbody>'' @
        concat (map finding_row (rrFindings r)) @ ''</tbody></table>'' @ [CHR 0x0A]
      else ''<p>No findings.</p>'') @
     [CHR 0x0A] @ ''</body></html>''"

section \<open>What a browser sees\<close>

text \<open>The tags of a page: what stands between \<open>&lt;\<close> and \<open>&gt;\<close>; the state is the tag that is being read.\<close>

fun tags :: "string option \<Rightarrow> string \<Rightarrow> string list" where
  "tags m [] = []"
| "tags None (c # s) = (if c = CHR ''<'' then tags (Some []) s else tags None s)"
| "tags (Some t) (c # s) = (if c = CHR ''>'' then t # tags None s else tags (Some (t @ [c])) s)"

fun tag_state :: "string option \<Rightarrow> string \<Rightarrow> string option" where
  "tag_state m [] = m"
| "tag_state None (c # s) = tag_state (if c = CHR ''<'' then Some [] else None) s"
| "tag_state (Some t) (c # s) = tag_state (if c = CHR ''>'' then None else Some (t @ [c])) s"

lemma tags_append: "tags m (a @ b) = tags m a @ tags (tag_state m a) b"
  by (induction m a rule: tags.induct) auto

lemma state_append [simp]: "tag_state m (a @ b) = tag_state (tag_state m a) b"
  by (induction m a rule: tag_state.induct) auto

lemma html_char_plain: "CHR ''<'' \<notin> set (html_char c)"
  by (auto simp: html_char_def)

lemma no_tags: "CHR ''<'' \<notin> set s \<Longrightarrow> tags None s = [] \<and> tag_state None s = None"
  by (induction s) auto

lemma escaped_tags [simp]: "tags None (html_escape s) = []" "tag_state None (html_escape s) = None"
  using no_tags [of "html_escape s"] html_char_plain by (auto simp: html_escape_def)

definition row_tags :: "string list" where
  "row_tags = [''tr'', ''td'', ''code'', ''/code'', ''/td'', ''td'', ''/td'', ''td'', ''strong'', ''/strong'', ''br'', ''/td'', ''td'', ''/td'',
     ''/tr'']"

definition page_tags :: "nat \<Rightarrow> string list" where
  "page_tags n =
     tags None page_head @ [''/p'', ''/header'', ''p class=\"outcome\"'', ''/p'', ''p'', ''/p'', ''h2'', ''/h2''] @
     (if n = 0 then [''p'', ''/p'']
      else [''table'', ''thead'', ''tr'', ''th'', ''/th'', ''th'', ''/th'', ''th'', ''/th'', ''th'', ''/th'', ''/tr'', ''/thead'', ''tbody''] @
        concat (replicate n row_tags) @ [''/tbody'', ''/table'']) @
     [''/body'', ''/html'']"

lemma row_markup: "tags None (finding_row f) = row_tags" "tag_state None (finding_row f) = None"
  by (simp_all add: finding_row_def tags_append row_tags_def)

lemma rows_markup: "tags None (concat (map finding_row fs)) = concat (replicate (length fs) row_tags)"
  "tag_state None (concat (map finding_row fs)) = None"
  by (induction fs) (simp_all add: tags_append row_markup)

lemma head_state: "tag_state None page_head = None"
  by code_simp

text \<open>C39. Nothing that is reported can change the page: whatever bytes the outcome, the summary and the findings hold, a page has the
  tags of its template, one row for each finding.\<close>

theorem report_markup_fixed: "tags None (html_report stamp r) = page_tags (length (rrFindings r))"
  by (simp add: html_report_def page_tags_def tags_append head_state rows_markup)

text \<open>Escaping loses nothing but a null byte.\<close>

function html_unescape :: "string \<Rightarrow> string" where
  "html_unescape s =
     (if s = [] then []
      else if has_prefix s ''&#34;'' then CHR 0x22 # html_unescape (drop 5 s)
      else if has_prefix s ''&amp;'' then CHR ''&'' # html_unescape (drop 5 s)
      else if has_prefix s ''&#39;'' then CHR 0x27 # html_unescape (drop 5 s)
      else if has_prefix s ''&#43;'' then CHR ''+'' # html_unescape (drop 5 s)
      else if has_prefix s ''&lt;'' then CHR ''<'' # html_unescape (drop 4 s)
      else if has_prefix s ''&gt;'' then CHR ''>'' # html_unescape (drop 4 s)
      else hd s # html_unescape (tl s))"
  by pat_completeness auto
termination
  by (relation "measure length") auto

declare html_unescape.simps [simp del]

lemma unescape_char: "c \<noteq> CHR 0x00 \<Longrightarrow> html_unescape (html_char c @ s) = c # html_unescape s"
  by (subst html_unescape.simps) (auto simp: html_char_def has_prefix_def)

lemma html_unescape_escape: "CHR 0x00 \<notin> set s \<Longrightarrow> html_unescape (html_escape s) = s"
proof (induction s)
  case Nil
  show ?case by (simp add: html_escape_def html_unescape.simps)
next
  case (Cons c s)
  then have "c \<noteq> CHR 0x00" "html_unescape (html_escape s) = s" by auto
  with unescape_char [of c "html_escape s"] show ?case by (simp add: html_escape_def)
qed

section \<open>Replacing a file\<close>

datatype node = FileNode string | DirNode

type_synonym volume = "string \<Rightarrow> node option"

text \<open>Which operations succeed; \<open>wfTemp\<close> is the name \<open>CreateTemp\<close> finds, \<open>wfWrite\<close> the bytes written when not all are.\<close>

record write_faults =
  wfDirs :: bool
  wfTemp :: "string option"
  wfChmod :: bool
  wfWrite :: "nat option"
  wfClose :: bool
  wfRename :: bool
  wfRemove :: bool
  wfRenameAgain :: bool

definition rename_file :: "bool \<Rightarrow> string \<Rightarrow> string \<Rightarrow> volume \<Rightarrow> volume option" where
  "rename_file permitted old new v =
     (if permitted \<and> v new \<noteq> Some DirNode then Some (v(new := v old, old := None)) else None)"

text \<open>\<open>WritePrivateFile\<close>: whether it succeeds, and the states of the volume one after the other; the deferred removal of the
  temporary file comes last and is taken to succeed. On Windows a rename that fails is tried again after the old file is removed.\<close>

definition write_private :: "bool \<Rightarrow> write_faults \<Rightarrow> string \<Rightarrow> string \<Rightarrow> volume \<Rightarrow> bool \<times> volume list" where
  "write_private windows F path data v =
     (case (if wfDirs F then wfTemp F else None) of
        None \<Rightarrow> (False, [v])
      | Some t \<Rightarrow>
          (let v1 = v(t \<mapsto> FileNode []); removed = (\<lambda>u. u(t := None))
           in if \<not> wfChmod F then (False, [v, v1, removed v1])
              else (case wfWrite F of
                  Some k \<Rightarrow> (let v2 = v1(t \<mapsto> FileNode (take k data)) in (False, [v, v1, v2, removed v2]))
                | None \<Rightarrow>
                    (let v2 = v1(t \<mapsto> FileNode data)
                     in if \<not> wfClose F then (False, [v, v1, v2, removed v2])
                        else (case rename_file (wfRename F) t path v2 of
                            Some v3 \<Rightarrow> (True, [v, v1, v2, v3, removed v3])
                          | None \<Rightarrow>
                              if \<not> windows \<or> v2 path = Some DirNode \<or> v2 path \<noteq> None \<and> \<not> wfRemove F
                              then (False, [v, v1, v2, removed v2])
                              else (let v3 = v2(path := None)
                                    in (case rename_file (wfRenameAgain F) t path v3 of
                                        None \<Rightarrow> (False, [v, v1, v2, v3, removed v3])
                                      | Some v4 \<Rightarrow> (True, [v, v1, v2, v3, v4, removed v4]))))))))"

definition fresh_temp :: "write_faults \<Rightarrow> string \<Rightarrow> volume \<Rightarrow> bool" where
  "fresh_temp F path v = (case wfTemp F of None \<Rightarrow> True | Some t \<Rightarrow> v t = None \<and> t \<noteq> path)"

lemma write_private_result:
  assumes "fresh_temp F path v"
  shows "case write_private windows F path data v of (ok, vs) \<Rightarrow>
     List.last vs = (if ok then v(path \<mapsto> FileNode data) else if windows \<and> List.last vs path = None then v(path := None) else v) \<and>
     list_all (\<lambda>u. u path = v path \<or> u path = Some (FileNode data) \<or> windows \<and> u path = None) vs"
proof (cases "if wfDirs F then wfTemp F else None")
  case (Some t)
  then have t: "v t = None" "t \<noteq> path" using assms by (auto simp: fresh_temp_def split: if_split_asm)
  show ?thesis using Some t
    by (auto simp: write_private_def rename_file_def Let_def fun_eq_iff split: option.split)
qed (auto simp: write_private_def fun_eq_iff)


definition full_disk :: write_faults where
  "full_disk = \<lparr>wfDirs = True, wfTemp = Some ''reports/.infernosim-report-1'', wfChmod = True, wfWrite = Some 3, wfClose = True,
     wfRename = True, wfRemove = True, wfRenameAgain = True\<rparr>"


text \<open>On Windows the old report is lost when the second rename fails.\<close>

lemma windows_loses_report:
  "case write_private True (full_disk\<lparr>wfWrite := None, wfRename := False, wfRenameAgain := False\<rparr>) ''reports/a.html'' ''<html>''
       (map_of [(''reports/a.html'', FileNode ''old'')]) of (ok, vs) \<Rightarrow> \<not> ok \<and> List.last vs ''reports/a.html'' = None"
  by (simp add: write_private_def full_disk_def rename_file_def)

end
