(* ===== verification/Containers.thy ===== *)
theory Containers
  imports CommandLine
begin

text \<open>
  \<open>integrations/testcontainers-go\<close> (\<open>infernosim.go\<close>): the simulator in a container for Go tests. Modelled are the files that are
  copied into the container, the command line it is started with, the cleaning up when it cannot be used, and \<open>Reset\<close>.
  Docker is a parameter. The command line is read by \<open>serve_line\<close> of \<open>CommandLine\<close>.
\<close>

section \<open>Files\<close>

record container_options =
  cnImage :: string
  cnIncident :: string
  cnTimeout :: int
  cnHttps :: bool
  cnAllowHosts :: "string list"

record container_file =
  cfHost :: string
  cfInside :: string
  cfMode :: nat

datatype container_error =
    NoIncident | UnresolvedIncident | WalkFailed | SymlinkInside string | EscapesRoot string | NoFiles | StartFailed | NoEndpoint string
  | ResetFailed

text \<open>One entry of \<open>filepath.WalkDir\<close>; None is an entry that could not be read.\<close>

definition walk_file :: "string \<Rightarrow> (string \<times> entry_kind) option \<Rightarrow> (container_error, container_file option) result" where
  "walk_file base e =
     (case e of
        None \<Rightarrow> Inl WalkFailed
      | Some (path, kind) \<Rightarrow>
          if kind = SymbolicLink then Inl (SymlinkInside path)
          else if kind = Directory then Inr None
          else (let r = path_rel base path
                in if r = ''..'' \<or> has_prefix r ''../'' then Inl (EscapesRoot path)
                   else Inr (Some \<lparr>cfHost = path, cfInside = ''/incident/'' @ r, cfMode = 292\<rparr>)))"

text \<open>\<open>incidentFiles\<close>: \<open>resolves\<close> tells whether \<open>EvalSymlinks\<close> succeeds, \<open>visited\<close> is \<open>WalkDir\<close>, the directory itself first.\<close>

definition incident_files ::
  "string \<Rightarrow> (string \<Rightarrow> bool) \<Rightarrow> (string \<Rightarrow> (string \<times> entry_kind) option list) \<Rightarrow> string \<Rightarrow> (container_error, container_file list) result" where
  "incident_files wd resolves visited dir =
     (let base = path_abs wd dir
      in if \<not> resolves base then Inl UnresolvedIncident
         else and_then (map_err (walk_file base) (visited base)) (\<lambda>fs.
                let files = List.map_filter id fs in if files = [] then Inl NoFiles else Inr files))"

text \<open>Every file is copied, once, and its place in the container leads back to it; a link anywhere in the directory stops the
  run.\<close>

definition entry_path :: "(string \<times> entry_kind) option \<Rightarrow> string option" where
  "entry_path e = (case e of Some (path, kind) \<Rightarrow> if kind = Directory then None else Some path | None \<Rightarrow> None)"

lemma walk_file_some:
  "walk_file base e = Inr r \<Longrightarrow> entry_path e = map_option cfHost r \<and> (\<exists>path kind. e = Some (path, kind) \<and> kind \<noteq> SymbolicLink) \<and>
     (case r of None \<Rightarrow> True | Some f \<Rightarrow> cfInside f = ''/incident/'' @ path_rel base (cfHost f))"
  by (auto simp: walk_file_def entry_path_def Let_def split: option.split_asm prod.split_asm if_split_asm)

lemma walk_files_some:
  "map_err (walk_file base) es = Inr rs \<Longrightarrow>
     List.map_filter entry_path es = map cfHost (List.map_filter id rs) \<and> list_all (\<lambda>e. \<exists>path kind. e = Some (path, kind) \<and> kind \<noteq> SymbolicLink) es \<and>
     list_all (\<lambda>f. cfInside f = ''/incident/'' @ path_rel base (cfHost f)) (List.map_filter id rs)"
proof (induction es arbitrary: rs)
  case (Cons e es)
  from Cons.prems obtain r rest where parts: "walk_file base e = Inr r" "map_err (walk_file base) es = Inr rest" "rs = r # rest"
    by (auto split: sum.split_asm)
  from Cons.IH [OF parts(2)] walk_file_some [OF parts(1)] show ?case
    by (cases r) (auto simp: parts(3) List.map_filter_def list_all_iff)
qed (auto simp: List.map_filter_def)

lemma copied_files_lead_back:
  assumes run: "incident_files wd resolves visited dir = Inr files" and wd: "is_abs wd"
    and clean: "list_all (\<lambda>p. is_abs p \<and> path_clean p = p) (List.map_filter entry_path (visited (path_abs wd dir)))"
  shows "map cfHost files = List.map_filter entry_path (visited (path_abs wd dir)) \<and> files \<noteq> [] \<and>
    list_all (\<lambda>f. path_join [path_abs wd dir, drop 10 (cfInside f)] = cfHost f) files"
proof -
  from run obtain rs where rs: "map_err (walk_file (path_abs wd dir)) (visited (path_abs wd dir)) = Inr rs"
      "files = List.map_filter id rs" "files \<noteq> []"
    by (auto simp: incident_files_def Let_def split: if_split_asm sum.split_asm)
  note some = walk_files_some [OF rs(1), folded rs(2)]
  have "path_join [path_abs wd dir, drop 10 (cfInside f)] = cfHost f" if f: "f \<in> set files" for f
  proof -
    from f clean some have "is_abs (cfHost f) \<and> path_clean (cfHost f) = cfHost f" by (auto simp: list_all_iff)
    moreover from f some have "cfInside f = ''/incident/'' @ path_rel (path_abs wd dir) (cfHost f)" by (auto simp: list_all_iff)
    ultimately show ?thesis using rel_back [OF path_abs_abs [OF wd], of "cfHost f" dir] by simp
  qed
  with some rs(3) show ?thesis by (auto simp: list_all_iff)
qed

text \<open>The incident itself may not be a link, although it is resolved first: what it resolves to is not used.\<close>

lemma linked_incident_refused:
  "visited (path_abs wd dir) = [Some (path_abs wd dir, SymbolicLink)] \<Longrightarrow> resolves (path_abs wd dir) \<Longrightarrow>
     incident_files wd resolves visited dir = Inl (SymlinkInside (path_abs wd dir))"
  by (simp add: incident_files_def walk_file_def)

section \<open>The container\<close>

definition default_image :: string where "default_image = ''ghcr.io/pranaysparihar/infernosim:3.4.0''"

definition container_command :: "container_options \<Rightarrow> string list" where
  "container_command opts =
     [''serve'', ''/incident'', ''--listen'', ''0.0.0.0:19000'', ''--admin-listen'', ''0.0.0.0:19001''] @
     (if cnHttps opts then [''--https-stub''] else []) @
     (if cnAllowHosts opts \<noteq> [] then [''--stub-mitm-allow-hosts'', join '','' (cnAllowHosts opts)] else [])"

record container_request =
  crImage :: string
  crPorts :: "string list"
  crFiles :: "container_file list"
  crCommand :: "string list"
  crTimeout :: int

definition container_request_of :: "container_options \<Rightarrow> container_file list \<Rightarrow> container_request" where
  "container_request_of opts files =
     \<lparr>crImage = (if cnImage opts = [] then default_image else cnImage opts), crPorts = [''19000/tcp'', ''19001/tcp''], crFiles = files,
      crCommand = container_command opts, crTimeout = (if cnTimeout opts = 0 then 60000000000 else cnTimeout opts)\<rparr>"

record 'c running =
  rgContainer :: 'c
  rgProxy :: string
  rgAdmin :: string

datatype 'c docker_call = Started 'c | Terminated 'c

text \<open>\<open>Run\<close>: Docker starts a container or does not, and knows the address of a port or does not. Beside the result stands what was
  asked of Docker.\<close>

definition run_container ::
  "string \<Rightarrow> (string \<Rightarrow> bool) \<Rightarrow> (string \<Rightarrow> (string \<times> entry_kind) option list) \<Rightarrow> (container_request \<Rightarrow> 'c option) \<Rightarrow>
   ('c \<Rightarrow> string \<Rightarrow> string option) \<Rightarrow> container_options \<Rightarrow> (container_error, 'c running) result \<times> 'c docker_call list" where
  "run_container wd resolves visited start endpoint opts =
     (if cnIncident opts = [] then (Inl NoIncident, [])
      else (case incident_files wd resolves visited (cnIncident opts) of
          Inl e \<Rightarrow> (Inl e, [])
        | Inr files \<Rightarrow> (case start (container_request_of opts files) of
            None \<Rightarrow> (Inl StartFailed, [])
          | Some c \<Rightarrow> (case endpoint c ''19000/tcp'' of
              None \<Rightarrow> (Inl (NoEndpoint ''19000/tcp''), [Started c, Terminated c])
            | Some proxy \<Rightarrow> (case endpoint c ''19001/tcp'' of
                None \<Rightarrow> (Inl (NoEndpoint ''19001/tcp''), [Started c, Terminated c])
              | Some admin \<Rightarrow> (Inr \<lparr>rgContainer = c, rgProxy = proxy, rgAdmin = admin\<rparr>, [Started c]))))))"

text \<open>\<open>Reset\<close>: a request that gets no answer, or an answer other than 200, is an error.\<close>

definition reset_container :: "(string \<Rightarrow> string \<Rightarrow> int option) \<Rightarrow> 'c running \<Rightarrow> (container_error, unit) result" where
  "reset_container post r =
     (if post (rgAdmin r @ ''/__infernosim/reset'') ''{}'' = Some 200 then Inr () else Inl ResetFailed)"

section \<open>What the container is started with\<close>

text \<open>A host as it may be given: not empty, without comma and without white space around it.\<close>

definition host_ok :: "string \<Rightarrow> bool" where
  "host_ok h \<longleftrightarrow> h \<noteq> [] \<and> CHR '','' \<notin> set h \<and> trim_space h = h"

lemma split_hosts: "list_all host_ok hs \<Longrightarrow> split_non_empty (join '','' hs) = hs"
proof (cases "hs = []")
  case False
  assume ok: "list_all host_ok hs"
  then have "\<forall>h\<in>set hs. CHR '','' \<notin> set h" "map trim_space hs = hs" "filter (\<lambda>s. s \<noteq> []) hs = hs"
    by (auto simp: list_all_iff host_ok_def map_idI filter_id_conv)
  with split_on_join [OF False, of "CHR '',''"] show ?thesis by (simp add: split_non_empty_def)
qed (simp add: split_non_empty_def trim_space_def trim_set_def)

lemma serve_tokens:
  "flag_token ''--listen'' = Named ''listen'' None" "flag_token ''--admin-listen'' = Named ''admin-listen'' None"
  "flag_token ''--https-stub'' = Named ''https-stub'' None"
  "flag_token ''--stub-mitm-allow-hosts'' = Named ''stub-mitm-allow-hosts'' None"
  by code_simp+



text \<open>A container that cannot be used is not left behind.\<close>

definition left_running :: "'c docker_call list \<Rightarrow> 'c list" where
  "left_running calls = filter (\<lambda>c. Terminated c \<notin> set calls) (List.map_filter (\<lambda>k. case k of Started c \<Rightarrow> Some c | Terminated c \<Rightarrow> None) calls)"

lemma failed_run_leaves_nothing:
  "case run_container wd resolves visited start endpoint opts of
     (Inl e, calls) \<Rightarrow> left_running calls = []
   | (Inr r, calls) \<Rightarrow> left_running calls = [rgContainer r]"
  by (auto simp: run_container_def left_running_def List.map_filter_def split: sum.split option.split)

end
