(* ===== verification/Printing.thy ===== *)
theory Printing
  imports Commands
begin

text \<open>
  What \<open>cmd/agent\<close> and \<open>pkg/replaydriver\<close> print: the summary of a replay and where it is written (\<open>buildSummaryLines\<close>,
  \<open>Print\<close>), the differences (\<open>PrintDiffs\<close>), the inspection (\<open>PrintInspectResult\<close> with its own \<open>itoa\<close>) and the verification
  (\<open>PrintVerifyResult\<close>). The formats \<open>%.2f\<close> and \<open>%+.1f\<close> and the text of a time are parameters; \<open>Duration.String\<close> is written
  out.
\<close>

section \<open>Durations\<close>

text \<open>\<open>fmtFrac\<close> and \<open>Duration.String\<close> of the standard library; digits are put in front of \<open>buf\<close>, trailing zeros are left out.\<close>

fun fmt_frac :: "nat \<Rightarrow> nat \<Rightarrow> bool \<Rightarrow> string \<Rightarrow> string \<times> nat" where
  "fmt_frac 0 v shown buf = (if shown then CHR ''.'' # buf else buf, v)"
| "fmt_frac (Suc k) v shown buf =
     (let s = shown \<or> v mod 10 \<noteq> 0 in fmt_frac k (v div 10) s (if s then chr (48 + v mod 10) # buf else buf))"

definition unit_text :: "nat \<Rightarrow> string \<Rightarrow> nat \<Rightarrow> string" where
  "unit_text precision unit v = (case fmt_frac precision v False unit of (t, whole) \<Rightarrow> nat_digits whole @ t)"

definition clock_text :: "nat \<Rightarrow> string" where
  "clock_text v =
     (case fmt_frac 9 v False ''s'' of (t, secs) \<Rightarrow>
        (if secs < 60 then []
         else (if secs < 3600 then [] else nat_digits (secs div 3600) @ ''h'') @ nat_digits (secs div 60 mod 60) @ ''m'') @
        nat_digits (secs mod 60) @ t)"

definition duration_text :: "int \<Rightarrow> string" where
  "duration_text d =
     (let u = nat \<bar>d\<bar>
      in (if d < 0 then ''-'' else []) @
         (if u = 0 then ''0s''
          else if u < 1000 then unit_text 0 ''ns'' u
          else if u < 1000000 then unit_text 3 [CHR 0xC2, CHR 0xB5, CHR ''s''] u
          else if u < 1000000000 then unit_text 6 ''ms'' u
          else clock_text u))"

text \<open>\<open>Duration.Round\<close>: half away from zero; a result that overflows is the largest or smallest duration.\<close>

definition round_to :: "int \<Rightarrow> int \<Rightarrow> int" where
  "round_to m d =
     (let r = \<bar>d\<bar> mod m
      in if d < 0 then (if 2 * r < m then d + r else let d1 = d - m + r in if - (2 ^ 63) \<le> d1 then d1 else - (2 ^ 63))
         else (if 2 * r < m then d - r else let d1 = d + m - r in if d1 \<le> max_int64 then d1 else max_int64))"

section \<open>The summary of a replay\<close>

definition failure_or_none :: "string \<Rightarrow> string" where
  "failure_or_none reason = (if reason = [] then ''none'' else reason)"

text \<open>The rates: \<open>Duration.Seconds\<close> is a sum of two rounded numbers. They stay zero when the replay was refused.\<close>

definition seconds :: "(real \<Rightarrow> real) \<Rightarrow> int \<Rightarrow> real" where
  "seconds rnd d = rnd (rnd (real_of_int (d div 1000000000)) + rnd (real_of_int (d mod 1000000000) / 1000000000))"

definition achieved_rate :: "(real \<Rightarrow> real) \<Rightarrow> replay_summary \<Rightarrow> f64" where
  "achieved_rate rnd s = Fin (if 0 < smElapsed s then rnd (rnd (real (smInbound s)) / seconds rnd (smElapsed s)) else 0)"

definition target_rate :: "(real \<Rightarrow> real) \<Rightarrow> bool \<Rightarrow> replay_summary \<Rightarrow> f64" where
  "target_rate rnd started s =
     Fin (if started \<and> 0 < smWindow s then rnd (rnd (real_of_int (smTargetInbound s)) / seconds rnd (smWindow s)) else 0)"

text \<open>The three texts of \<open>deriveEnvelope\<close> and of \<open>deriveDelta\<close>.\<close>

definition envelope_texts :: "(f64 \<Rightarrow> string) \<Rightarrow> envelope \<Rightarrow> string \<times> string \<times> string" where
  "envelope_texts fmt2 e =
     (case e of
        UnknownEnvelope \<Rightarrow> (''unknown'', ''unknown'', ''unknown'')
      | Observed rate fanout latency \<Rightarrow>
          (''~'' @ fmt2 rate @ '' req/s'', ''~'' @ itoa fanout,
           case latency of None \<Rightarrow> ''baseline only (no latency injection in this run)'' | Some d \<Rightarrow> ''~'' @ duration_text d)
      | FromPrevious rate fanout latency \<Rightarrow>
          (''~'' @ fmt2 rate @ '' req/s (from previous pass)'', ''~'' @ itoa fanout @ '' (from previous pass)'',
           case latency of None \<Rightarrow> ''unknown'' | Some ms \<Rightarrow> ''~'' @ itoa ms @ ''ms (from previous pass)''))"

definition no_previous :: string where "no_previous = ''n/a (no previous run)''"

definition signed_text :: "int \<Rightarrow> string" where
  "signed_text i = (if i < 0 then itoa i else CHR ''+'' # itoa i)"

definition delta_texts :: "(f64 \<Rightarrow> string) \<Rightarrow> int option \<times> f64 option \<times> f64 option \<Rightarrow> string \<times> string \<times> string" where
  "delta_texts fmt1 d =
     (case d of (fanout, rate, completion) \<Rightarrow>
        (dflt no_previous (map_option signed_text fanout), dflt no_previous (map_option (\<lambda>x. fmt1 x @ ''%'') rate),
         dflt no_previous (map_option (\<lambda>x. fmt1 x @ ''%'') completion)))"

text \<open>What the summary shows beside the summary itself: the two formats, the two rates, the envelope and the changes.\<close>

record shown =
  shFmt2 :: "f64 \<Rightarrow> string"
  shFmt1 :: "f64 \<Rightarrow> string"
  shAchieved :: f64
  shTarget :: f64
  shEnvelope :: envelope
  shDelta :: "int option \<times> f64 option \<times> f64 option"

definition shown_of ::
  "(real \<Rightarrow> real) \<Rightarrow> (f64 \<Rightarrow> string) \<Rightarrow> (f64 \<Rightarrow> string) \<Rightarrow> bool \<Rightarrow> snapshot option \<Rightarrow> replay_summary \<Rightarrow> shown" where
  "shown_of rnd fmt2 fmt1 started previous s =
     (let rate = achieved_rate rnd s
      in \<lparr>shFmt2 = fmt2, shFmt1 = fmt1, shAchieved = rate, shTarget = target_rate rnd started s,
          shEnvelope = derive_envelope rate s previous, shDelta = derive_delta rnd rate s previous\<rparr>)"

definition bool_text :: "bool \<Rightarrow> string" where
  "bool_text b = (if b then ''true'' else ''false'')"

definition summary_lines :: "shown \<Rightarrow> replay_summary \<Rightarrow> string list" where
  "summary_lines h s =
     (case envelope_texts (shFmt2 h) (shEnvelope h) of (eRate, eFanout, eLatency) \<Rightarrow>
      case delta_texts (shFmt1 h) (shDelta h) of (dFanout, dRate, dOutbound) \<Rightarrow>
      [''--------------------------------'',
       ''InfernoSIM Replay Summary'',
       ''--------------------------------'',
       ''Outcome: '' @ smOutcome s,
       ''Runs requested: '' @ itoa (smRunsRequested s),
       ''Runs executed: '' @ nat_digits (smRunsExecuted s),
       ''Runs completed: '' @ nat_digits (smRunsCompleted s),
       ''Fanout: '' @ itoa (smFanout s),
       ''Window: '' @ duration_text (smWindow s),
       ''Deterministic runs: '' @ nat_digits (smDeterministic s) @ '' / '' @ nat_digits (smRunsExecuted s),
       ''Inbound events replayed: '' @ nat_digits (smInbound s),
       ''Inbound target: '' @ itoa (smTargetInbound s),
       ''Outbound events observed: '' @ nat_digits (smObserved s),
       ''Outbound events expected: '' @ itoa (smExpected s),
       ''Outbound target: '' @ itoa (smTargetOutbound s),
       ''Outbound verification: '' @ smVerification s,
       ''Elapsed: '' @ duration_text (round_to 1000000 (smElapsed s)),
       ''Achieved rate (req/s): '' @ shFmt2 h (shAchieved h),
       ''Target rate (req/s): '' @ shFmt2 h (shTarget h),
       ''Stub proxy status: '' @ smProxyStatus s,
       ''Injections applied: '' @ smInjections s,
       ''Dependencies exercised: '' @ bool_text (smExercised s),
       ''Primary failure reason: '' @ failure_or_none (smReason s),
       ''Actionable recommendation: '' @ smRecommendation s,
       ''Limiting factor: '' @ smLimiting s,
       [],
       ''SUSTAINABLE ENVELOPE (observed)'',
       ''- Max stable inbound rate: '' @ eRate,
       ''- Max stable fanout: '' @ eFanout,
       ''- Dependency p95 latency tolerance: '' @ eLatency,
       [],
       ''Change from last run:'',
       ''- Fanout: '' @ dFanout,
       ''- Achieved rate: '' @ dRate,
       ''- Outbound completion: '' @ dOutbound,
       [],
       ''WHAT THIS RUN DID NOT TEST''] @
      (if smNotTested s = [] then [''- None''] else map (\<lambda>item. ''- '' @ item) (smNotTested s)) @
      [''--------------------------------''])"

definition newline :: char where "newline = CHR 0x0A"

definition lines_text :: "string list \<Rightarrow> string" where
  "lines_text ls = join [newline] ls @ [newline]"

text \<open>\<open>Print\<close>: the files that are written one after the other, none of which can fail the command.\<close>

datatype artifact = SummaryText string string | Reports string "string list" report_result | LastRun string snapshot

definition print_summary :: "shown \<Rightarrow> string \<Rightarrow> string list \<Rightarrow> string \<Rightarrow> int \<Rightarrow> replay_summary \<Rightarrow> artifact list" where
  "print_summary h dir formats reports_dir now s =
     [SummaryText (path_join [if dir = [] then ''.'' else dir, ''replay_result.txt'']) (lines_text (summary_lines h s))] @
     (if formats = [] then []
      else [Reports reports_dir formats
              \<lparr>rrTool = ''InfernoSIM'', rrOutcome = smOutcome s, rrSummary = failure_or_none (smReason s), rrGenerated = now,
               rrFindings = smFindings s\<rparr>]) @
     [LastRun (snapshot_path dir) (take_snapshot (shAchieved h) s)]"

section \<open>Differences\<close>

text \<open>\<open>PrintDiffs\<close>; the captured event of a difference is the one at its index. A header value list is printed in brackets.\<close>

definition list_text :: "string list \<Rightarrow> string" where
  "list_text vs = ''['' @ join '' '' vs @ '']''"

definition diff_lines :: "event list \<Rightarrow> event_diff \<Rightarrow> string list" where
  "diff_lines es d =
     (let c = es ! nat (edIndex d - 1)
      in [[], ''Event #'' @ itoa (edIndex d) @ '': '' @ evMethod c @ '' '' @ evURL c] @
         (case edStatus d of None \<Rightarrow> []
          | Some (e, g) \<Rightarrow> [''  [STATUS]  Expected '' @ itoa e @ '', Got '' @ itoa g]) @
         (case edLatency d of None \<Rightarrow> []
          | Some (e, g, delta) \<Rightarrow>
              [''  [LATENCY] Expected '' @ duration_text e @ '', Got '' @ duration_text g @ '' (delta '' @ duration_text delta @ '')'']) @
         map (\<lambda>(h, e, g). ''  [HEADER]  Header '' @ h @ '': Expected '' @ list_text e @ '', Got '' @ list_text g) (edHeaders d) @
         (case edBody d of None \<Rightarrow> []
          | Some (e, g) \<Rightarrow> [''  [BODY]    Expected SHA-256 '' @ e @ '', Got '' @ g]))"

definition print_diffs :: "event list \<Rightarrow> event_diff list \<Rightarrow> string list" where
  "print_diffs es ds =
     (if ds = [] then [''No significant differences found in replay.'']
      else [[], ''=== REPLAY DIFF ANALYSIS ==='' ] @ concat (map (diff_lines es) ds) @ [''============================''])"

section \<open>The inspection\<close>

definition pad :: "nat \<Rightarrow> string \<Rightarrow> string" where
  "pad w s = s @ replicate (w - length s) CHR '' ''"

text \<open>The \<open>itoa\<close> of \<open>inspect.go\<close>: digits are written into a buffer of 20 bytes from its end; negating wraps.\<close>

function itoa_digits :: "int \<Rightarrow> string \<Rightarrow> string" where
  "itoa_digits n buf = (if n \<le> 0 then buf else itoa_digits (n div 10) (chr (48 + nat (n mod 10)) # buf))"
  by pat_completeness auto
termination
  by (relation "measure (\<lambda>(n, buf). nat n)") auto

declare itoa_digits.simps [simp del]

definition inspect_itoa :: "int \<Rightarrow> string" where
  "inspect_itoa n =
     (if n = 0 then ''0'' else if n < 0 then CHR ''-'' # itoa_digits (wrap64 (- n)) [] else itoa_digits n [])"

definition timeline_line :: "timeline_entry \<Rightarrow> string" where
  "timeline_line e =
     ''  #'' @ pad 4 (inspect_itoa (int (tlIndex e))) @ pad 7 (tlMethod e) @ pad 40 (tlURL e) @ pad 6 (inspect_itoa (tlStatus e)) @
     pad 10 (duration_text (round_to 1000000 (tlDuration e))) @
     concat (map (\<lambda>p. [CHR '' '', CHR 0xE2, CHR 0x86, CHR 0x92] @ '' produces: '' @ pvName p) (tlProduces e)) @
     concat (map (\<lambda>c. [CHR '' '', CHR 0xE2, CHR 0x86, CHR 0x90] @ '' consumes: '' @ cvName c) (tlConsumes e))"

definition print_inspect :: "inspect_result \<Rightarrow> string list" where
  "print_inspect r =
     [''Incident Summary'',
      ''----------------'',
      ''Requests:          '' @ inspect_itoa (int (inRequests r)),
      ''Dependency chains: '' @ inspect_itoa (int (inChains r)),
      ''Tokens:            '' @ inspect_itoa (int (inTokens r)),
      ''Sessions:          '' @ inspect_itoa (int (inSessions r)),
      ''Resource IDs:      '' @ inspect_itoa (int (inResourceIDs r)),
      [],
      ''Request Timeline:''] @ map timeline_line (inTimeline r)"

section \<open>The verification\<close>

text \<open>The severity and the detail of an issue; \<open>stamp\<close> is \<open>Format(time.RFC3339)\<close>.\<close>

definition issue_severity :: "issue_kind \<Rightarrow> string" where
  "issue_severity k = (if k = SideEffect then ''warning'' else ''error'')"

definition issue_detail :: "(int \<Rightarrow> string) \<Rightarrow> event list \<Rightarrow> verify_issue \<Rightarrow> string" where
  "issue_detail stamp es v =
     viMethod v @ '' '' @ viPath v @ '': '' @
     (case viKind v of
        SideEffect \<Rightarrow> ''non-idempotent write''
      | issue_kind.MissingDep name \<Rightarrow> name @ '' value not found in prior captured responses''
      | ExpiredToken x \<Rightarrow>
          ''Bearer token expired at '' @ stamp (x * 1000000000) @ '' (captured at '' @ stamp (evTimestamp (es ! (viIndex v - 1))) @ '')'')"

definition issue_line :: "(int \<Rightarrow> string) \<Rightarrow> event list \<Rightarrow> verify_issue \<Rightarrow> string" where
  "issue_line stamp es v =
     ''  ['' @ to_upper (issue_severity (viKind v)) @ ''] Request #'' @ nat_digits (viIndex v) @ ''  '' @ issue_detail stamp es v"

definition print_verify :: "(int \<Rightarrow> string) \<Rightarrow> event list \<Rightarrow> verify_result \<Rightarrow> string list" where
  "print_verify stamp es r =
     [''Incident Verification'',
      ''---------------------'',
      ''Replay readiness:     '' @ itoa (vrScore r) @ ''%'',
      ''Unsafe requests:      '' @ nat_digits (vrUnsafe r),
      ''Missing dependencies: '' @ nat_digits (vrMissing r),
      ''Expired tokens:       '' @ nat_digits (vrExpired r)] @
     (if vrIssues r = [] then [] else [[], ''Issues:''] @ map (issue_line stamp es) (vrIssues r))"

section \<open>Help\<close>

definition usage_lines :: "string list" where
  "usage_lines =
     [''Usage: infernosim <command> [flags]'',
      [],
      ''Commands:'',
      ''  capture  Capture incident traffic (starts an inbound proxy) [alias: record]'',
      ''  inspect  Analyse an incident bundle (dependency graph, timeline)'',
      ''  verify   Check replay safety of an incident bundle'',
      ''  replay   Replay a captured incident against a target'',
      ''  diff     Replay and show divergences from the captured baseline'',
      ''  bundle   Seal or open an encrypted incident bundle v2'',
      ''  contract Validate an incident against an OpenAPI 3.x contract'',
      ''  generate Generate a simulation from OpenAPI or Protobuf schemas'',
      ''  serve    Run an incident dependency simulator for local tests and containers'',
      ''  testgen  Generate a readable local/CI test harness from an incident'',
      ''  heal     Propose explainable, collision-checked semantic matcher rules'',
      ''  kafka    Capture, replay, and contract-test Kafka-compatible messages'',
      ''  workflow Verify ordered HTTP, gRPC, and Kafka causal workflows'',
      ''  lint     Validate a replay configuration and report design problems'',
      ''  match    Explain semantic matcher decisions for a captured incident'',
      ''  version  Print version information'',
      [],
      ''General Flags:'',
      ''  -v, --version  Print version and exit'',
      ''  -h, --help     Show this help message'',
      [],
      ''Examples:'',
      ''  # Capture production traffic to an incident directory'',
      ''  infernosim capture --forward localhost:8080 --out ./incident-001'',
      [],
      ''  # Deep dive into captured dependencies'',
      ''  infernosim inspect ./incident-001'',
      [],
      ''  # Replay with state-aware substitution and diff analysis'',
      ''  infernosim replay ./incident-001 --target http://staging-api:8080 --diff'',
      [],
      ''  # Find the architectural breaking point (Auto-Envelope Search)'',
      ''  infernosim search --log ./incident-001/inbound.log --target http://staging-api:8080'']"

text \<open>The commands the help lists.\<close>

definition listed_commands :: "string list" where
  "listed_commands =
     map (takeWhile (\<lambda>c. c \<noteq> CHR '' '') \<circ> drop 2)
       (takeWhile (\<lambda>l. l \<noteq> []) (tl (dropWhile (\<lambda>l. l \<noteq> ''Commands:'') usage_lines)))"

text \<open>The help lists every command but \<open>record\<close>, which stands behind \<open>capture\<close>, and the two older ones.\<close>

lemma help_lists_commands:
  "set listed_commands = insert ''version'' (set current_commands - {''record''})" "distinct listed_commands"
  by code_simp+

section \<open>The printed verdict\<close>

text \<open>The outcomes a replay can have while it runs.\<close>

definition outcomes :: "string list" where
  "outcomes =
     [[], ''FAIL_INVALID_ENV'', ''FAIL_NO_COVERAGE'', ''FAIL_STALLED'', ''FAIL_PROXY_FORWARDING'', ''FAIL_NON_DETERMINISTIC'',
      ''FAIL_CONTRACT_DRIFT'', ''FAIL_SLO_MISSED'', ''FAIL_TRANSPARENT_PROXY'', ''PASS_STRONG'', ''PASS_WEAK'']"

definition named :: "replay_summary \<Rightarrow> bool" where
  "named s \<longleftrightarrow> smOutcome s \<in> set outcomes"

lemma baseline_named: "load_baseline I V s0 = Inl s \<Longrightarrow> named s"
  unfolding load_baseline_def Let_def
  by (auto simp: named_def outcomes_def split: if_split_asm option.split_asm sum.split_asm)

lemma stub_named: "start_stub I V rules s0 = Inl s \<Longrightarrow> named s"
  unfolding start_stub_def
  by (auto simp: named_def outcomes_def split: if_split_asm option.split_asm sum.split_asm)

lemma refused_named: "prepare I V s0 = Inl s \<Longrightarrow> named s"
  by (cases "parse_rules (gParseDuration (aeGo V)) (aiInject I)")
    (auto simp: prepare_def Let_def and_then_Inl named_def outcomes_def dest!: baseline_named stub_named)

lemma named_update [simp]:
  "named (s\<lparr>smRunsExecuted := n\<rparr>) = named s" "named (s\<lparr>smReason := r\<rparr>) = named s" "named (s\<lparr>smElapsed := d\<rparr>) = named s"
  "named (s\<lparr>smNonDeterministic := n, smReason := r\<rparr>) = named s" "named (s\<lparr>smDeterministic := n\<rparr>) = named s"
  by (simp_all add: named_def)

lemma fail_run_named: "out \<in> set outcomes \<Longrightarrow> named (lsSummary (fail_run out reason l))"
  by (simp add: fail_run_def named_def)

lemma noting_named [simp]:
  "named (lsSummary (note_fingerprint f l)) = named (lsSummary l)" "named (lsSummary (note_diffs I V es rs l)) = named (lsSummary l)"
  "named (lsSummary (note_contract V P rs l)) = named (lsSummary l)"
  by (auto simp: named_def note_fingerprint_def note_diffs_def note_contract_def split: option.split)

lemma take_result_named: "named (lsSummary (fst st)) \<Longrightarrow> named (lsSummary (fst (take_result I V P r st)))"
  by (cases st) (auto simp: take_result_def Let_def fail_run_named outcomes_def split: sum.split)

lemma wave_named: "named (lsSummary (fst st)) \<Longrightarrow> named (lsSummary (fst (fold (take_result I V P) rs st)))"
  by (induction rs arbitrary: st) (auto simp: take_result_named)

lemma conclude_named: "named (lsSummary (fst st)) \<Longrightarrow> named (lsSummary (fst (conclude_run I P i st)))"
  by (cases st) (auto simp: conclude_run_def Let_def forward_errors_def named_def fail_run_def outcomes_def split: list.split)

lemma one_run_named:
  assumes "named (lsSummary l)"
  shows "named (lsSummary (fst (one_run I V P i l)))"
proof -
  obtain results p' where wave: "aeWave V i (aiMaxWall I - aeStarted V i) (run_proxy I P (lsProxy l)) = (results, p')" by fastforce
  show ?thesis
    unfolding one_run_def Let_def wave using assms
    by (auto intro!: conclude_named wave_named)
qed

lemma runs_named: "named (lsSummary l) \<Longrightarrow> named (lsSummary (run_from I V P n i l))"
proof (induction n arbitrary: i l)
  case (Suc n)
  obtain l' goes where one: "one_run I V P i l = (l', goes)" by fastforce
  with one_run_named [OF Suc.prems, of I V P i] have "named (lsSummary l')" by simp
  with Suc.IH show ?case by (simp add: one split: bool.split)
qed simp

lemma judging_named:
  "named s \<Longrightarrow> named (judge_diffs I s)" "named s \<Longrightarrow> named (judge_findings s)" "named s \<Longrightarrow> named (judge_window V s)"
  "named s \<Longrightarrow> named (judge_fingerprints b s)"
  by (simp_all add: judge_diffs_def judge_findings_def judge_window_def judge_fingerprints_def)
    (simp_all add: named_def outcomes_def)

lemma judge_named: "named (lsSummary l) \<Longrightarrow> named (judge I V l)"
  by (simp add: judge_def judging_named)

lemma executed_named: "named (execute_replay I V new_summary)"
proof (cases "prepare I V new_summary")
  case (Inr r)
  obtain s P where r: "r = (s, P)" by fastforce
  have "named s" using prepared_fresh [OF Inr [unfolded r]] by (simp add: fresh_def named_def outcomes_def)
  then show ?thesis by (simp add: execute_replay_def Inr r judge_named runs_named)
qed (simp add: execute_replay_def refused_named)

lemma finalized_named: "named s \<Longrightarrow> named (finalize s)"
  by (auto simp: finalize_def Let_def compute_outcome_def named_def outcomes_def)

lemma run_named: "named (run_replay I V)"
  by (simp add: run_replay_def finalized_named executed_named)

lemma named_one_line: "named s \<Longrightarrow> newline \<notin> set (smOutcome s)"
proof -
  have "list_all (\<lambda>out. newline \<notin> set out) outcomes" by code_simp
  then show "named s \<Longrightarrow> ?thesis" by (auto simp: named_def list_all_iff)
qed

lemma split_line: "newline \<notin> set l \<Longrightarrow> split_on newline (l @ newline # s) = l # split_on newline s"
  by (induction l) auto

lemma fourth_line:
  assumes "newline \<notin> set a" and "newline \<notin> set b" and "newline \<notin> set c" and "newline \<notin> set d"
  shows "split_on newline (lines_text (a # b # c # d # e # ls)) ! 3 = d"
proof -
  have "lines_text (a # b # c # d # e # ls) = a @ newline # b @ newline # c @ newline # d @ newline # lines_text (e # ls)"
    by (simp add: lines_text_def)
  then show ?thesis using assms by (simp add: split_line)
qed


section \<open>Numbers of the inspection\<close>

lemma itoa_digits_nat: "itoa_digits (int n) buf = (if n = 0 then buf else nat_digits n @ buf)"
proof (induction n arbitrary: buf rule: less_induct)
  case (less n)
  show ?case
  proof (cases "n = 0")
    case False
    have d: "int n div 10 = int (n div 10)" "nat (int n mod 10) = n mod 10" by (simp_all add: zdiv_int nat_mod_distrib)
    have step: "itoa_digits (int n) buf = itoa_digits (int (n div 10)) (chr (48 + n mod 10) # buf)"
      using False by (subst itoa_digits.simps) (simp add: d)
    show ?thesis
      unfolding step using less.IH [of "n div 10"] False
      by (simp add: nat_digits.simps [of n] div_eq_0_iff)
  qed (simp add: itoa_digits.simps)
qed

text \<open>The inspection prints every number but the smallest one, whose sign is all that is left of it.\<close>

lemma inspect_itoa_exact:
  assumes "- (2 ^ 63) < n" and "n < 2 ^ 63"
  shows "inspect_itoa n = itoa n"
proof -
  have "wrap64 (- n) = - n" if "n < 0" using that assms by (simp add: wrap64_def)
  moreover have "itoa_digits m [] = nat_digits (nat m)" if "0 < m" for m
    using itoa_digits_nat [of "nat m" "[]"] that by simp
  moreover have "nat_digits 0 = ''0''" by code_simp
  ultimately show ?thesis by (cases "n = 0") (auto simp: inspect_itoa_def itoa_def)
qed

lemma inspect_itoa_smallest: "inspect_itoa (- (2 ^ 63)) = ''-''"
  by code_simp

text \<open>The buffer is large enough.\<close>

lemma nat_digits_length: "n < 10 ^ Suc k \<Longrightarrow> length (nat_digits n) \<le> Suc k"
proof (induction k arbitrary: n)
  case 0
  then show ?case by (subst nat_digits.simps) simp
next
  case (Suc k)
  then have "n div 10 < 10 ^ Suc k" by (simp add: less_mult_imp_div_less)
  with Suc.IH show ?case by (subst nat_digits.simps) auto
qed

lemma inspect_itoa_fits:
  assumes "- (2 ^ 63) \<le> n" and "n < 2 ^ 63"
  shows "length (inspect_itoa n) \<le> 20"
proof (cases "n = - (2 ^ 63)")
  case True
  then show ?thesis unfolding True inspect_itoa_smallest by simp
next
  case False
  have "length (nat_digits (nat \<bar>n\<bar>)) \<le> Suc 18" using assms by (intro nat_digits_length) simp
  with False assms show ?thesis by (cases "n < 0") (auto simp: inspect_itoa_exact itoa_def)
qed

end
