(* ===== verification/Connections.thy ===== *)
theory Connections
  imports Capture StubProxy "HOL-Library.Word"
begin

text \<open>
  The connections below the handlers of \<open>pkg/capture\<close> and \<open>pkg/stubproxy\<close>: where a redirected connection was going
  (\<open>originaldst_linux.go\<close>), the listener of one connection, what happens to a connection on its way to TLS, the transports of
  the proxies, the copying of a tunnel with its two goroutines as a step relation, and the two functions of \<open>pkg/stubproxy\<close>
  that nothing calls. The operations of sockets are parameters or steps; bytes are those of the model's strings.
\<close>

unbundle bit_operations_syntax

section \<open>Original destination\<close>

text \<open>\<open>getsockopt\<close> fills a \<open>sockaddr_in\<close>: two bytes for the family, the port in network order, the four bytes of the address.
  The port is read as a number of the machine's byte order.\<close>

definition native_port :: "bool \<Rightarrow> 8 word \<Rightarrow> 8 word \<Rightarrow> 16 word" where
  "native_port big a b = (if big then push_bit 8 (ucast a) OR ucast b else push_bit 8 (ucast b) OR ucast a)"

definition address_port :: "16 word \<Rightarrow> int" where
  "address_port p = uint (drop_bit 8 p) OR push_bit 8 (uint (p AND 0xff))"

text \<open>\<open>originalDst\<close>: None is an error, of \<open>Control\<close> or of the system call; outside Linux it always fails.\<close>

definition original_dst :: "bool \<Rightarrow> bool \<Rightarrow> 8 word list option \<Rightarrow> (string \<times> int) option" where
  "original_dst linux big address =
     (if linux
      then map_option (\<lambda>a. (join ''.'' (map (\<lambda>k. nat_digits (unat (a ! k))) [4, 5, 6, 7]), address_port (native_port big (a ! 2) (a ! 3))))
        address
      else None)"

text \<open>One connection of the transparent mode, from the socket on.\<close>

definition transparent_connection ::
  "bool \<Rightarrow> bool \<Rightarrow> proxy \<Rightarrow> 8 word list option \<Rightarrow> request option \<Rightarrow> ((reply \<times> int) option \<times> event list) \<times> proxy" where
  "transparent_connection linux big p address req = handle_transparent p (original_dst linux big address) req"

text \<open>The reply on the wire; \<open>status_text\<close> is \<open>http.StatusText\<close>.\<close>

definition crlf :: string where "crlf = [CHR 0x0D, CHR 0x0A]"

definition simple_response :: "(int \<Rightarrow> string) \<Rightarrow> int \<Rightarrow> string" where
  "simple_response status_text status =
     ''HTTP/1.1 '' @ itoa status @ '' '' @ (if status_text status = [] then ''Status'' else status_text status) @ crlf @
     ''Content-Length: 0'' @ crlf @ crlf"

text \<open>On a little-endian machine this is the port of the address; on a big-endian one its bytes are swapped.\<close>

lemma byte_bits: "\<not> bit (b :: 8 word) n" if "8 \<le> n"
  using that bit_imp_le_length [of b n] by auto

lemma join_bytes: "push_bit 8 (uint (a :: 8 word)) OR uint (b :: 8 word) = 256 * uint a + uint b"
proof -
  have "push_bit 8 (uint a) OR uint b = push_bit 8 (uint a) + uint b"
    by (rule disjunctive_add [symmetric]) (auto simp: bit_simps byte_bits)
  then show ?thesis by (simp add: push_bit_eq_mult)
qed

lemma native_bits:
  "bit (push_bit 8 (ucast (a :: 8 word) :: 16 word) OR ucast (b :: 8 word)) n \<longleftrightarrow> (if n < 8 then bit b n else n < 16 \<and> bit a (n - 8))"
  using byte_bits [of n b] byte_bits [of "n - 8" a] by (auto simp: bit_simps)

lemma port_bits: "bit (address_port p) n \<longleftrightarrow> (if n < 8 then bit p (n + 8) else n < 16 \<and> bit p (n - 8))"
proof -
  have low: "p AND 0xff = take_bit 8 p" unfolding take_bit_eq_mask by (rule arg_cong) (simp add: mask_eq_exp_minus_1)
  show ?thesis unfolding address_port_def low using bit_imp_le_length [of p "n + 8"] by (auto simp: bit_simps add.commute)
qed

lemma port_of_address: "address_port (native_port big a b) = (if big then 256 * uint b + uint a else 256 * uint a + uint b)"
proof -
  have "address_port (push_bit 8 (ucast x) OR ucast y) = push_bit 8 (uint y) OR uint x" for x y :: "8 word"
  proof (rule bit_eqI)
    fix n
    show "bit (address_port (push_bit 8 (ucast x) OR ucast y)) n = bit (push_bit 8 (uint y) OR uint x) n"
      unfolding port_bits native_bits using byte_bits [of n x] byte_bits [of "n - 8" y] by (auto simp: bit_simps)
  qed
  then show ?thesis by (simp add: native_port_def join_bytes)
qed

text \<open>The address a client connects to, as the kernel gives it back.\<close>

definition socket_address :: "nat list \<Rightarrow> nat \<Rightarrow> 8 word list" where
  "socket_address ip port = [2, 0, of_nat (port div 256), of_nat (port mod 256)] @ map of_nat ip"

lemma byte_word: "unat (of_nat n :: 8 word) = n" "uint (of_nat n :: 8 word) = int n" if "n < 256"
  using that by (simp_all add: unsigned_of_nat take_bit_nat_eq_self uint_nat)

lemma port_words:
  assumes "port < 65536"
  shows "256 * uint (of_nat (port div 256) :: 8 word) + uint (of_nat (port mod 256) :: 8 word) = int port"
proof -
  have "port div 256 < 256" "port mod 256 < 256" using assms by simp_all
  note words = byte_word(2) [OF this(1)] byte_word(2) [OF this(2)]
  have "256 * (port div 256) + port mod 256 = port" by simp
  then have "256 * int (port div 256) + int (port mod 256) = int port" by (metis of_nat_add of_nat_mult of_nat_numeral)
  then show ?thesis unfolding words .
qed

lemma original_destination_exact:
  assumes "length ip = 4" and "list_all (\<lambda>b. b < 256) ip" and "port < 65536"
  shows "original_dst True False (Some (socket_address ip port)) = Some (join ''.'' (map nat_digits ip), int port)"
proof -
  from assms(1) obtain a b c d where ip: "ip = [a, b, c, d]" by (auto simp: length_Suc_conv eval_nat_numeral)
  with assms(2) have bytes: "a < 256" "b < 256" "c < 256" "d < 256" by simp_all
  note words = byte_word(1) [OF bytes(1)] byte_word(1) [OF bytes(2)] byte_word(1) [OF bytes(3)] byte_word(1) [OF bytes(4)]
  have "original_dst True False (Some (socket_address ip port)) =
      Some (join ''.'' (map (\<lambda>b. nat_digits (unat (of_nat b :: 8 word))) ip),
        256 * uint (of_nat (port div 256) :: 8 word) + uint (of_nat (port mod 256) :: 8 word))"
    unfolding original_dst_def socket_address_def ip by (simp only: if_True option.map port_of_address if_False) simp
  then show ?thesis unfolding port_words [OF assms(3)] ip list.map words .
qed

lemma swapped_port: "snd (the (original_dst True True (Some (socket_address [10, 0, 0, 1] 80)))) = 20480"
  by code_simp

section \<open>The listener of one connection\<close>

datatype accept_error = EndOfFile

definition accept_single :: "'c \<Rightarrow> bool \<Rightarrow> (accept_error, 'c) result \<times> bool" where
  "accept_single c used = (if used then (Inl EndOfFile, True) else (Inr c, True))"

text \<open>\<open>http.Server.Serve\<close> accepts until there is an error: the connections it serves, and the error it returns.\<close>

function serve_accepted :: "'c \<Rightarrow> bool \<Rightarrow> 'c list \<times> accept_error" where
  "serve_accepted c used =
     (case accept_single c used of
        (Inl e, u) \<Rightarrow> ([], e)
      | (Inr d, u) \<Rightarrow> (case serve_accepted c u of (cs, e) \<Rightarrow> (d # cs, e)))"
  by pat_completeness auto
termination
  by (relation "measure (\<lambda>(c, used). if used then 0 else 1)") (auto simp: accept_single_def split: if_split_asm)

declare serve_accepted.simps [simp del]

lemma one_connection_served: "serve_accepted c False = ([c], EndOfFile)"
  by (simp add: serve_accepted.simps [of c False] serve_accepted.simps [of c True] accept_single_def)

section \<open>Taking a connection over\<close>

datatype protocol = Http1 | Http2

text \<open>What can go wrong: the connection cannot be taken over (None) or taking it over fails, the reply cannot be written, there
  is no certificate, the handshake fails.\<close>

record client_side =
  csHijack :: "bool option"
  csWritten :: bool
  csLeaf :: "string \<Rightarrow> bool"
  csHandshake :: "protocol option"

datatype client_step = Hijacked | WroteEstablished | LeafFor string | Handshaken | ClosedClient

definition tls_steps :: "client_side \<Rightarrow> string \<Rightarrow> client_step list \<times> protocol option" where
  "tls_steps S host =
     (if \<not> csWritten S then ([Hijacked, ClosedClient], None)
      else if \<not> csLeaf S host then ([Hijacked, WroteEstablished, ClosedClient], None)
      else (case csHandshake S of
          None \<Rightarrow> ([Hijacked, WroteEstablished, LeafFor host, ClosedClient], None)
        | Some proto \<Rightarrow> ([Hijacked, WroteEstablished, LeafFor host, Handshaken], Some proto)))"

text \<open>\<open>serveTLSConnect\<close>: the HTTP reply, if there is one, the steps, and the protocol when the connection is served.\<close>

definition stub_tls_connect :: "string list \<Rightarrow> client_side \<Rightarrow> request \<Rightarrow> reply option \<times> client_step list \<times> protocol option" where
  "stub_tls_connect hosts S rq =
     (case serve_connect hosts rq of
        Tunnel host \<Rightarrow>
          (case csHijack S of
             None \<Rightarrow> (Some (HttpError 500 ''HTTPS stub requires connection hijacking''), [], None)
           | Some False \<Rightarrow> (None, [], None)
           | Some True \<Rightarrow> (None, tls_steps S host))
      | r \<Rightarrow> (Some r, [], None))"

text \<open>What \<open>Serve\<close> reports when the listener of one connection ends: the stub proxy expects it, the recording proxy does not.\<close>

definition stub_complains :: "protocol \<Rightarrow> bool" where
  "stub_complains proto = (proto = Http1 \<and> snd (serve_accepted () False) \<noteq> EndOfFile)"

definition mitm_complains :: "protocol \<Rightarrow> bool" where
  "mitm_complains proto = (case proto of Http1 \<Rightarrow> (case serve_accepted () False of (cs, EndOfFile) \<Rightarrow> True) | Http2 \<Rightarrow> False)"

text \<open>\<open>mitmConnect\<close> with its steps: the event is logged only for a connection that is served.\<close>

definition mitm_tls_connect ::
  "string list \<Rightarrow> client_side \<Rightarrow> string \<Rightarrow> int \<Rightarrow> int \<Rightarrow> string \<Rightarrow> handled \<times> client_step list \<times> protocol option" where
  "mitm_tls_connect hosts S ident now took dest =
     (let host = (case split_host_port dest of Some (h, p) \<Rightarrow> h | None \<Rightarrow> dest);
          taken = (if is_allowed hosts host \<and> csHijack S = Some True then tls_steps S host else ([], None))
      in (mitm_connect hosts (csHijack S \<noteq> None) (snd taken \<noteq> None) ident now took dest, taken))"

text \<open>A connection that is taken over is served or closed, and never both.\<close>

lemma tls_steps_end: "ClosedClient \<in> set (fst (tls_steps S host)) \<longleftrightarrow> snd (tls_steps S host) = None"
  by (auto simp: tls_steps_def split: option.split)

lemma taken_served_or_closed:
  "case stub_tls_connect hosts S rq of (r, steps, proto) \<Rightarrow>
     (if Hijacked \<in> set steps then (ClosedClient \<in> set steps) = (proto = None) else steps = [] \<and> proto = None)"
  "case mitm_tls_connect hosts S ident now took dest of (h, steps, proto) \<Rightarrow>
     (if Hijacked \<in> set steps then (ClosedClient \<in> set steps) = (proto = None) else steps = [] \<and> proto = None) \<and>
     (hdLogged h \<noteq> []) = (proto \<noteq> None)"
  by (auto simp: stub_tls_connect_def mitm_tls_connect_def mitm_connect_def tls_steps_def Let_def
      split: reply.split option.split bool.split)

text \<open>Every intercepted HTTP/1.1 connection is reported as an error by the recording proxy, though nothing is wrong.\<close>

lemma mitm_complains_always: "mitm_complains Http1" "\<not> stub_complains proto"
  by (simp_all add: mitm_complains_def stub_complains_def one_connection_served)

section \<open>Transports\<close>

record transport =
  trAllowPrivate :: bool
  trInsecure :: bool

definition new_upstream_transport :: "bool \<Rightarrow> bool \<Rightarrow> transport" where
  "new_upstream_transport allow insecure = \<lparr>trAllowPrivate = allow, trInsecure = insecure\<rparr>"

definition transport_dial ::
  "(string \<Rightarrow> (string, ip list) result) \<Rightarrow> (ip \<Rightarrow> string \<Rightarrow> string option) \<Rightarrow> transport \<Rightarrow> string \<Rightarrow> ip list \<times> (dial_error, ip) result" where
  "transport_dial resolve dial t address = dial_destination resolve dial address ''80'' (trAllowPrivate t)"

definition upstream_transport :: "capture_context \<Rightarrow> bool \<Rightarrow> transport" where
  "upstream_transport C insecure =
     (if ccAllowPrivate C \<and> insecure then new_upstream_transport True True
      else if ccAllowPrivate C then new_upstream_transport True False
      else if insecure then new_upstream_transport False True
      else new_upstream_transport False False)"

lemma upstream_transport_exact: "upstream_transport C insecure = new_upstream_transport (ccAllowPrivate C) insecure"
  by (simp add: upstream_transport_def)

text \<open>A transport that may not reach private addresses never dials one, whatever a name resolves to.\<close>

lemma dial_each_public: "list_all (\<lambda>a. \<not> is_blocked_ip a) (fst (dial_each dial False port as skipped err))"
  by (induction as arbitrary: skipped err) (simp_all add: case_prod_beta split: option.split)

lemma public_transport_dials:
  "\<not> ccAllowPrivate C \<Longrightarrow> list_all (\<lambda>a. \<not> is_blocked_ip a) (fst (transport_dial resolve dial (upstream_transport C insecure) address))"
  by (simp add: transport_dial_def dial_destination_def upstream_transport_exact new_upstream_transport_def dial_each_public
      case_prod_beta split: sum.split)

section \<open>Functions without a caller\<close>

datatype forward_error = AbsoluteFormRequired | NoHost | BadTarget | UpstreamFailed string | CopyFailed

text \<open>\<open>forwardProxyRequest\<close>: the relayed status and headers, and what is observed. \<open>build\<close> is \<open>http.NewRequest\<close>, \<open>upstream\<close> the
  exchange, whose last part tells whether the body was copied; by then the status has been sent.\<close>

definition forward_proxy_request ::
  "(string \<Rightarrow> gourl \<Rightarrow> bool) \<Rightarrow> (string \<Rightarrow> gourl \<Rightarrow> header \<Rightarrow> (string, int \<times> header \<times> bool) result) \<Rightarrow> request \<Rightarrow>
   (forward_error, int \<times> header) result \<times> event list" where
  "forward_proxy_request build upstream rq =
     (case rqURL rq of
        None \<Rightarrow> (Inl AbsoluteFormRequired, [])
      | Some u \<Rightarrow>
          if uScheme u = [] then (Inl AbsoluteFormRequired, [])
          else (let host = (if uHost u = [] then rqHost rq else uHost u); target = u\<lparr>uHost := host, uRawPath := []\<rparr>
                in if host = [] then (Inl NoHost, [])
                   else if \<not> build (rqMethod rq) target then (Inl BadTarget, [])
                   else (case upstream (rqMethod rq) target (copy_headers [] (rqHeader rq)) of
                       Inl e \<Rightarrow> (Inl (UpstreamFailed e), [])
                     | Inr (status, h, copied) \<Rightarrow>
                         if \<not> copied then (Inl CopyFailed, [])
                         else (Inr (status, copy_headers [] h), [observed_event (rqMethod rq) host [] 0 status]))))"

text \<open>\<open>divergence\<close> notes a message but not, as \<open>diverge\<close> does, that the call was unexpected.\<close>

definition note_divergence :: "go_env \<Rightarrow> event \<Rightarrow> request \<Rightarrow> nat \<Rightarrow> string \<Rightarrow> proxy \<Rightarrow> proxy" where
  "note_divergence E expected rq idx why p =
     p\<lparr>pxDivergences := pxDivergences p @
        [''DIVERGENCE at outbound event index='' @ nat_digits idx @ '' why='' @ why @ '' expected={method='' @ evMethod expected @
         '' url='' @ evURL expected @ ''} got={method='' @ rqMethod rq @ '' url='' @ gUrlString E (the_url rq) @ '' host='' @ rqHost rq @ ''}'']\<rparr>"

section \<open>A tunnel\<close>

text \<open>Two goroutines copy bytes, each from one side to the other; the one that reads from a side is named after it. When one
  stops, because a stream ends, a deadline passes or an operation fails, it closes the client's connection and then the
  service's, and the other one can only stop too.\<close>

datatype side = Client | Service

definition opposite :: "side \<Rightarrow> side" where
  "opposite s = (case s of Client \<Rightarrow> Service | Service \<Rightarrow> Client)"

datatype copier = Copying | Closing | HalfClosed | Ended

record tunnel =
  tnLeft :: "side \<Rightarrow> string"
  tnGot :: "side \<Rightarrow> string"
  tnOpen :: "side \<Rightarrow> bool"
  tnCopier :: "side \<Rightarrow> copier"

definition new_tunnel :: "string \<Rightarrow> string \<Rightarrow> tunnel" where
  "new_tunnel a b = \<lparr>tnLeft = (\<lambda>s. if s = Client then a else b), tnGot = (\<lambda>s. []), tnOpen = (\<lambda>s. True), tnCopier = (\<lambda>s. Copying)\<rparr>"

text \<open>Reading some bytes and writing a part of them.\<close>

definition moved :: "side \<Rightarrow> string \<Rightarrow> string \<Rightarrow> tunnel \<Rightarrow> tunnel" where
  "moved s a rest t = t\<lparr>tnLeft := (tnLeft t)(s := rest), tnGot := (tnGot t)(opposite s := tnGot t (opposite s) @ a)\<rparr>"

definition phase_set :: "side \<Rightarrow> copier \<Rightarrow> tunnel \<Rightarrow> tunnel" where
  "phase_set s c t = t\<lparr>tnCopier := (tnCopier t)(s := c)\<rparr>"

inductive tunnel_step :: "tunnel \<Rightarrow> tunnel \<Rightarrow> bool" where
  relayed: "tnCopier t s = Copying \<Longrightarrow> tnOpen t s \<Longrightarrow> tnOpen t (opposite s) \<Longrightarrow> tnLeft t s = a @ rest \<Longrightarrow> a \<noteq> [] \<Longrightarrow>
    tunnel_step t (moved s a rest t)"
| lost: "tnCopier t s = Copying \<Longrightarrow> tnOpen t s \<Longrightarrow> a = [] \<or> tnOpen t (opposite s) \<Longrightarrow> tnLeft t s = a @ b @ rest \<Longrightarrow>
    tunnel_step t (phase_set s Closing (moved s a rest t))"
| stopped: "tnCopier t s = Copying \<Longrightarrow> tunnel_step t (phase_set s Closing t)"
| closed_client: "tnCopier t s = Closing \<Longrightarrow> tunnel_step t (phase_set s HalfClosed t\<lparr>tnOpen := (tnOpen t)(Client := False)\<rparr>)"
| closed_service: "tnCopier t s = HalfClosed \<Longrightarrow> tunnel_step t (phase_set s Ended t\<lparr>tnOpen := (tnOpen t)(Service := False)\<rparr>)"

text \<open>Runs of a given number of steps.\<close>

inductive tunnel_run :: "nat \<Rightarrow> tunnel \<Rightarrow> tunnel \<Rightarrow> bool" where
  here: "tunnel_run 0 t t"
| then_step: "tunnel_run n t u \<Longrightarrow> tunnel_step u v \<Longrightarrow> tunnel_run (Suc n) t v"

lemma opposite_simps [simp]:
  "opposite Client = Service" "opposite Service = Client" "opposite (opposite s) = s" "opposite s \<noteq> s" "s \<noteq> opposite s"
  by (cases s; simp add: opposite_def)+

lemma moved_fields [simp]:
  "tnOpen (moved s a rest t) = tnOpen t" "tnCopier (moved s a rest t) = tnCopier t" "tnLeft (moved s a rest t) = (tnLeft t)(s := rest)"
  "tnGot (moved s a rest t) = (tnGot t)(opposite s := tnGot t (opposite s) @ a)"
  by (simp_all add: moved_def)

lemma phase_fields [simp]:
  "tnOpen (phase_set s c t) = tnOpen t" "tnCopier (phase_set s c t) = (tnCopier t)(s := c)" "tnLeft (phase_set s c t) = tnLeft t"
  "tnGot (phase_set s c t) = tnGot t"
  by (simp_all add: phase_set_def)

text \<open>What every state of a tunnel satisfies: what a side has got is a beginning of what the other one sends, with nothing missing while
  the copier runs, and a copier that has ended leaves both connections closed.\<close>

definition relay_ok :: "(side \<Rightarrow> string) \<Rightarrow> tunnel \<Rightarrow> bool" where
  "relay_ok sent t \<longleftrightarrow> (\<forall>s. \<exists>missing. sent s = tnGot t (opposite s) @ missing @ tnLeft t s \<and> (tnCopier t s = Copying \<longrightarrow> missing = []))"

definition close_ok :: "tunnel \<Rightarrow> bool" where
  "close_ok t \<longleftrightarrow> (\<forall>s. (tnCopier t s \<in> {HalfClosed, Ended} \<longrightarrow> \<not> tnOpen t Client) \<and> (tnCopier t s = Ended \<longrightarrow> \<not> tnOpen t Service))"

lemma step_relay:
  assumes "tunnel_step t u" and "relay_ok sent t"
  shows "relay_ok sent u"
  using assms(1)
proof cases
  case (relayed s a rest)
  show ?thesis unfolding relay_ok_def
  proof
    fix r
    from assms(2) obtain m where "sent r = tnGot t (opposite r) @ m @ tnLeft t r" "tnCopier t r = Copying \<longrightarrow> m = []"
      by (auto simp: relay_ok_def)
    with relayed show "\<exists>m. sent r = tnGot u (opposite r) @ m @ tnLeft u r \<and> (tnCopier u r = Copying \<longrightarrow> m = [])"
      by (cases r; cases s) auto
  qed
next
  case (lost s a b rest)
  show ?thesis unfolding relay_ok_def
  proof
    fix r
    from assms(2) obtain m where "sent r = tnGot t (opposite r) @ m @ tnLeft t r" "tnCopier t r = Copying \<longrightarrow> m = []"
      by (auto simp: relay_ok_def)
    with lost show "\<exists>m. sent r = tnGot u (opposite r) @ m @ tnLeft u r \<and> (tnCopier u r = Copying \<longrightarrow> m = [])"
      by (cases r; cases s) auto
  qed
qed (use assms(2) in \<open>auto simp: relay_ok_def\<close>)

lemma step_close: "tunnel_step t u \<Longrightarrow> close_ok t \<Longrightarrow> close_ok u"
  by (erule tunnel_step.cases) (auto simp: close_ok_def split: if_splits)

text \<open>Every step uses up a part of what is left.\<close>

fun copier_rank :: "copier \<Rightarrow> nat" where
  "copier_rank Copying = 3" | "copier_rank Closing = 2" | "copier_rank HalfClosed = 1" | "copier_rank Ended = 0"

definition tunnel_rank :: "tunnel \<Rightarrow> nat" where
  "tunnel_rank t = length (tnLeft t Client) + length (tnLeft t Service) + copier_rank (tnCopier t Client) + copier_rank (tnCopier t Service)"

lemma step_rank:
  assumes "tunnel_step t u"
  shows "tunnel_rank u < tunnel_rank t"
  using assms
proof cases
  case (relayed s a rest)
  then show ?thesis by (cases s) (auto simp: tunnel_rank_def)
next
  case (lost s a b rest)
  then show ?thesis by (cases s) (auto simp: tunnel_rank_def)
next
  case (stopped s)
  then show ?thesis by (cases s) (auto simp: tunnel_rank_def)
next
  case (closed_client s)
  then show ?thesis by (cases s) (auto simp: tunnel_rank_def)
next
  case (closed_service s)
  then show ?thesis by (cases s) (auto simp: tunnel_rank_def)
qed

lemma step_or_ended: "(\<exists>u. tunnel_step t u) \<or> (\<forall>s. tnCopier t s = Ended)"
  by (metis copier.exhaust tunnel_step.stopped tunnel_step.closed_client tunnel_step.closed_service)

lemma ended_stays: "(\<forall>s. tnCopier t s = Ended) \<Longrightarrow> \<not> tunnel_step t u"
  by (auto elim: tunnel_step.cases)

lemma run_invariant:
  "tunnel_run n t u \<Longrightarrow> relay_ok sent t \<Longrightarrow> close_ok t \<Longrightarrow> relay_ok sent u \<and> close_ok u \<and> n + tunnel_rank u \<le> tunnel_rank t"
proof (induction rule: tunnel_run.induct)
  case (then_step n t u v)
  then show ?case using step_relay step_close step_rank [OF then_step.hyps(2)] by fastforce
qed simp

lemma run_extends: "tunnel_run n t u \<Longrightarrow> \<exists>m v. tunnel_run (n + m) t v \<and> (\<forall>s. tnCopier v s = Ended)"
proof (induction "tunnel_rank u" arbitrary: n u rule: less_induct)
  case less
  show ?case
  proof (cases "\<forall>s. tnCopier u s = Ended")
    case True
    with less.prems show ?thesis by (intro exI [of _ 0] exI [of _ u]) simp
  next
    case False
    then obtain v where v: "tunnel_step u v" using step_or_ended by blast
    from less.hyps [OF step_rank [OF v] tunnel_run.then_step [OF less.prems v]] obtain m w where
      "tunnel_run (Suc n + m) t w" "\<forall>s. tnCopier w s = Ended" by blast
    then show ?thesis by (intro exI [of _ "Suc m"] exI [of _ w]) simp
  qed
qed

lemma new_tunnel_ok: "relay_ok (\<lambda>s. if s = Client then a else b) (new_tunnel a b)" "close_ok (new_tunnel a b)"
  "tunnel_rank (new_tunnel a b) = length a + length b + 6"
  by (auto simp: new_tunnel_def relay_ok_def close_ok_def tunnel_rank_def)

text \<open>What the end of a tunnel means.\<close>

definition orderly :: "string \<Rightarrow> string \<Rightarrow> tunnel \<Rightarrow> bool" where
  "orderly a b t \<longleftrightarrow> has_prefix a (tnGot t Service) \<and> has_prefix b (tnGot t Client) \<and>
     (if tnCopier t Client = Ended \<or> tnCopier t Service = Ended then \<not> tnOpen t Client \<and> \<not> tnOpen t Service else True)"


lemma first_relay: "a \<noteq> [] \<Longrightarrow> tunnel_run 1 (new_tunnel a b) (moved Client a [] (new_tunnel a b))"
  using tunnel_run.then_step [OF tunnel_run.here tunnel_step.relayed [of "new_tunnel a b" Client a "[]"]] by (simp add: new_tunnel_def)


text \<open>Half-closed connections are not supported: when the client has sent everything and shuts down its side, the connection is
  closed in both directions, and an answer that has not been copied yet is lost.\<close>

definition shut :: "tunnel \<Rightarrow> bool" where
  "shut t \<longleftrightarrow> \<not> tnOpen t Client \<and> \<not> tnOpen t Service"

lemma shut_step: "tunnel_step t u \<Longrightarrow> shut t \<Longrightarrow> shut u \<and> tnGot u = tnGot t"
  by (erule tunnel_step.cases) (auto simp: shut_def; metis (full_types) side.exhaust)+

lemma shut_run: "tunnel_run n t u \<Longrightarrow> shut t \<Longrightarrow> shut u \<and> tnGot u = tnGot t"
  by (induction rule: tunnel_run.induct) (use shut_step in fastforce)+

lemma half_close_truncates:
  assumes "a \<noteq> []"
  shows "\<exists>t. tunnel_run 4 (new_tunnel a b) t \<and> tnGot t Service = a \<and> (\<forall>n u. tunnel_run n t u \<longrightarrow> tnGot u Client = [])"
proof -
  let ?t1 = "moved Client a [] (new_tunnel a b)"
  let ?t2 = "phase_set Client Closing ?t1"
  let ?t3 = "phase_set Client HalfClosed ?t2\<lparr>tnOpen := (tnOpen ?t2)(Client := False)\<rparr>"
  let ?t4 = "phase_set Client Ended ?t3\<lparr>tnOpen := (tnOpen ?t3)(Service := False)\<rparr>"
  have "tunnel_step ?t1 ?t2" by (rule tunnel_step.stopped) (simp add: new_tunnel_def)
  moreover have "tunnel_step ?t2 ?t3" by (rule tunnel_step.closed_client) simp
  moreover have "tunnel_step ?t3 ?t4" by (rule tunnel_step.closed_service) simp
  ultimately have "tunnel_run (Suc (Suc (Suc 1))) (new_tunnel a b) ?t4"
    using first_relay [OF assms] tunnel_run.then_step by blast
  then have run: "tunnel_run 4 (new_tunnel a b) ?t4" by (simp add: eval_nat_numeral)
  have "shut ?t4" by (simp add: shut_def)
  moreover have "tnGot ?t4 Client = []" "tnGot ?t4 Service = a" by (simp_all add: new_tunnel_def)
  moreover have "tnGot u Client = []" if "tunnel_run n ?t4 u" for n u
    using shut_run [OF that calculation(1)] calculation(2) by (simp only:)
  ultimately show ?thesis using run by blast
qed

end
