(* ===== verification/Spec2Isabelle.thy ===== *)
theory Spec2Isabelle
  imports SimLint KafkaReplay Replay AsyncApi Generator BundleV2 Agent SimServer Capture Heal Testgen Benchmark CommandLine ReportFiles Containers Printing Connections
begin

text \<open>
  InfernoSIM records the traffic of a service, replays it against another version of the service, and stands in
  for its dependencies while it does. This development models the Go packages under \<open>src/pkg\<close> that carry that
  logic. Every definition is executable and written from the source; every theory opens with what it holds.

  How the parts fit together. A capture writes \<open>event\<close> records to a JSONL log and broker messages to another. The
  replay driver loads the inbound log, rewrites the values that a response produced and a later request consumes,
  and sends the requests to the target under a clock, a wall-clock and an idle limit, and a safe mode. While it
  runs, the stub proxy answers the calls of the target: a scenario step first, then a captured call chosen by the
  semantic matcher, with retries and faults from the injection rules. Messages are replayed by the Kafka part
  through a fault plan. The privacy policy is applied before anything is stored. Workflows, inspection and
  verification read the logs afterwards, and reports carry their findings.

  Shared: \<open>Prelude\<close> (results, loops that stop with an error, stable sorting behind the locales \<open>less_order\<close> and
  \<open>keyed_order\<close>, and \<open>resettable\<close> components), \<open>GoText\<close>, \<open>GoNet\<close> and \<open>GoNum\<close> (what the code uses of \<open>strings\<close>,
  \<open>encoding\<close>, \<open>net/http\<close>, \<open>net/url\<close> and of 64-bit numbers), \<open>GoEnv\<close> (the record of what is taken as given: the
  regular expression compiler, \<open>url.Parse\<close>, \<open>json.Unmarshal\<close>, \<open>text/template\<close>, SHA-256, HMAC and the Protobuf library).

  \<open>Event\<close>: \<open>pkg/event\<close>, the event record and the numbering logger (locale \<open>numbering_logger\<close>).
  \<open>Json\<close>, \<open>Matcher\<close>: \<open>pkg/matcher\<close>, JSON paths, rules and the decision whether a request matches a captured call;
  the lemmas give every branch of \<open>Match\<close> with its reason and the round trip of paths.
  \<open>Inject\<close>: \<open>pkg/inject\<close>, the two configuration grammars and the draw of a fault.
  \<open>Scenario\<close>: \<open>pkg/scenario\<close>, the state machine of scripted answers; its states stay among the configured ones.
  \<open>SimLint\<close>: \<open>pkg/simlint\<close>, with the termination and exactness of its reachability pass and its link to \<open>Scenario\<close>.
  \<open>SimTemplate\<close>: \<open>pkg/simtemplate\<close>, the request fingerprint behind the deterministic functions.
  \<open>StubProxy\<close>: \<open>pkg/stubproxy\<close>, one transition per request, its counters and divergences; the transparent handler as a
  step relation that interleaves two atomic operations per connection.
  \<open>Message\<close>, \<open>Privacy\<close>, \<open>KafkaSim\<close>: \<open>pkg/message\<close>, \<open>pkg/privacy\<close>, \<open>pkg/kafkasim\<close>.
  \<open>ReplayDriver\<close>: \<open>pkg/replaydriver\<close>, with the clock and the HTTP client as a record of world-passing functions.
  \<open>GrpcSim\<close>: \<open>pkg/grpcsim\<close>, frames with 32-bit lengths, the registry and example messages. \<open>Contract\<close>, \<open>AsyncApi\<close>:
  \<open>pkg/contract\<close> and \<open>pkg/asyncapi\<close>, schema definitions, references and validation of events and messages.
  \<open>Generator\<close>: \<open>pkg/generator\<close>, with its agreement with \<open>Contract\<close> and \<open>Scenario\<close>. \<open>GoPath\<close>, \<open>BundleV2\<close>: \<open>path/filepath\<close>
  and \<open>pkg/bundlev2\<close>, sealing and extraction of encrypted bundles.
  \<open>Capture\<close>, \<open>CertStore\<close>: \<open>pkg/capture\<close>, what the recording proxies forward, dial and log, and the certificates of the
  intercepting proxies; \<open>exchange_loads\<close> links a recorded exchange with \<open>load_inbound\<close> of \<open>ReplayDriver\<close>.
  \<open>Heal\<close>: \<open>pkg/heal\<close>, match rules generated from several captures, the check for ambiguous matches (with \<open>Matcher\<close>) and the
  promotion of a proposal with its backup. \<open>Testgen\<close>: \<open>pkg/testgen\<close>, generated test harnesses.
  \<open>ReplayYaml\<close>, \<open>Agent\<close>: the YAML configuration, the flags laid over it, and the replay command of \<open>cmd/agent\<close> up to its exit
  code; \<open>exit_zero_exact\<close> says which replays exit with 0. \<open>SimServer\<close>: \<open>pkg/simserver\<close>, the control API and the proof.
  \<open>Commands\<close>: the other commands of \<open>cmd/agent\<close>, how they put the packages together and the exit codes of the checks:
  \<open>match explain\<close>, \<open>diff\<close>, \<open>record\<close>, \<open>search\<close>, the redirection rules and the dispatch. \<open>CommandEffects\<close>: the commands that
  write files or talk to a broker, over the models of their packages. \<open>ProtoSources\<close>: the names under which schema files
  are compiled. \<open>KafkaReplay\<close>: the Kafka client, capture over polls and replay against any broker. \<open>Benchmark\<close>:
  \<open>cmd/benchmark\<close>, whose runs heal a fixture and must agree.
  \<open>Flags\<close>: Go's \<open>flag\<close> package as \<open>cmd/agent\<close> uses it (locale \<open>flag_kinds\<close>). \<open>CommandLine\<close>: the flags of every command and
  the program from its arguments to its exit code, over one record of the machine it runs on. \<open>Printing\<close>: the summary, the
  differences, the inspection, the verification and the help as text. \<open>ServerLife\<close>: start, serving and close of the simulator
  as a step relation. \<open>ReportFiles\<close>: the HTML report and the replacement of a report file with every failure.
  \<open>Connections\<close>: sockets below the proxies, the two goroutines of a tunnel as a step relation. \<open>Containers\<close>: the
  Testcontainers integration, whose command line \<open>CommandLine\<close> reads.
  \<open>Replay\<close>: \<open>pkg/replay\<close>, the older replayer. \<open>Reporting\<close>: \<open>pkg/reporting\<close>. \<open>Workflow\<close>: \<open>pkg/workflow\<close>.

  Maps are association lists whose order is the order in which one run of \<open>range\<close> visits them, so a theorem about all
  lists holds for every visiting order. Errors are values on the left of a sum; a panic is an error of its own.
  Durations and times are integers of nanoseconds, the arithmetic on them wraps where \<open>wrap64\<close> is written.
  Fuel: only the scan of an existing log uses it, one unit per event, and \<open>scan_log_total\<close> shows that one more than
  the length of the file is enough. Recursive schemas and messages end by the set of names being resolved, which is the
  termination measure; the depth limit 256 of \<open>pkg/asyncapi\<close> is part of the model.

  Not modelled: TLS, the HTTP server loops and the acceptance of connections; YAML, XML and JSON text; \<open>regexp\<close>,
  \<open>text/template\<close>, Protobuf and the crypto packages, which are parameters; the signals of \<open>cmd/agent\<close> and the messages it prints
  other than those of \<open>Printing\<close>, because nothing reads them back; the examples, which hold no logic of the simulator.
\<close>

end
